(* ===== verification/Prelude.thy ===== *)
theory Prelude
  imports Main "HOL-Library.State_Monad"
begin

text \<open>
  The prelude of the development: programs that talk to an environment.

  Everything outside this repository (the TrueNAS JSON-RPC server, the Omni state service,
  the provisioning SDK, the network) is an \<^emph>\<open>environment\<close>: a function from the
  history of all requests and answers so far, and the next request, to the next answer.
  The environment is an argument of every definition that uses it and nothing is assumed
  about it, so a theorem about a program holds for every behaviour of the other side,
  failures, delays and interference by other writers included.

  A program is a state monad over a world with two parts: the history, and the state of
  the process itself.
\<close>

named_theorems emits_intros \<open>composition rules of emits\<close>
named_theorems triple_intros \<open>composition rules of triple\<close>
named_theorems keeps_intros \<open>composition rules of keeps\<close>
named_theorems go_defs \<open>definitions of Go library routines, for evaluation\<close>

section \<open>Worlds, environments and programs\<close>

record ('q, 'r, 'p) world =
  w_hist :: "('q \<times> 'r) list"
  w_proc :: 'p

type_synonym ('q, 'r) env = "('q \<times> 'r) list \<Rightarrow> 'q \<Rightarrow> 'r"
type_synonym ('q, 'r, 'p, 'a) prog = "(('q, 'r, 'p) world, 'a) state"

definition ask :: "('q, 'r) env \<Rightarrow> 'q \<Rightarrow> ('q, 'r, 'p, 'r) prog" where
  "ask env q = State (\<lambda>w. let r = env (w_hist w) q in (r, w\<lparr>w_hist := w_hist w @ [(q, r)]\<rparr>))"

definition get_proc :: "('q, 'r, 'p, 'p) prog" where
  "get_proc = State (\<lambda>w. (w_proc w, w))"

definition modify_proc :: "('p \<Rightarrow> 'p) \<Rightarrow> ('q, 'r, 'p, unit) prog" where
  "modify_proc f = State (\<lambda>w. ((), w\<lparr>w_proc := f (w_proc w)\<rparr>))"

abbreviation ret :: "'a \<Rightarrow> ('q, 'r, 'p, 'a) prog" where
  "ret \<equiv> State_Monad.return"

lemma run_ask [simp]:
  "run_state (ask env q) w = (env (w_hist w) q, w\<lparr>w_hist := w_hist w @ [(q, env (w_hist w) q)]\<rparr>)"
  by (simp add: ask_def Let_def)

lemma run_get_proc [simp]: "run_state get_proc w = (w_proc w, w)"
  by (simp add: get_proc_def)

lemma run_modify_proc [simp]: "run_state (modify_proc f) w = ((), w\<lparr>w_proc := f (w_proc w)\<rparr>)"
  by (simp add: modify_proc_def)

text \<open>Running a program over every element of a list, stopping at the first error.\<close>

fun for_each :: "('a \<Rightarrow> ('q, 'r, 'p, 'e + 'b) prog) \<Rightarrow> 'a list \<Rightarrow> ('q, 'r, 'p, 'e + 'b list) prog" where
  "for_each f [] = ret (Inr [])"
| "for_each f (x # xs) =
     do { r \<leftarrow> f x;
          case r of
            Inl e \<Rightarrow> ret (Inl e)
          | Inr y \<Rightarrow> do { rs \<leftarrow> for_each f xs;
                         ret (map_sum id (\<lambda>ys. y # ys) rs) } }"

text \<open>Running a program over every element of a list, whatever the outcomes.\<close>

fun for_all :: "('a \<Rightarrow> ('q, 'r, 'p, unit) prog) \<Rightarrow> 'a list \<Rightarrow> ('q, 'r, 'p, unit) prog" where
  "for_all f [] = ret ()"
| "for_all f (x # xs) = do { f x; for_all f xs }"

text \<open>
  \<open>bindE\<close> is \<open>x, err := m; if err != nil { return err }\<close> followed by the rest.
\<close>

definition bindE ::
  "('q, 'r, 'p, 'e + 'a) prog \<Rightarrow> ('a \<Rightarrow> ('q, 'r, 'p, 'e + 'b) prog) \<Rightarrow> ('q, 'r, 'p, 'e + 'b) prog" where
  "bindE m f = do { r \<leftarrow> m; case r of Inl e \<Rightarrow> ret (Inl e) | Inr a \<Rightarrow> f a }"

text \<open>Changing the error of a program, as \<open>fmt.Errorf\<close> does around a call.\<close>

definition mapE :: "('e \<Rightarrow> 'f) \<Rightarrow> ('q, 'r, 'p, 'e + 'a) prog \<Rightarrow> ('q, 'r, 'p, 'f + 'a) prog" where
  "mapE f m = do { r \<leftarrow> m; ret (map_sum f (\<lambda>x. x) r) }"

lemma run_bindE:
  "run_state (bindE m f) w =
   (case run_state m w of (Inl e, w') \<Rightarrow> (Inl e, w') | (Inr a, w') \<Rightarrow> run_state (f a) w')"
  by (simp add: bindE_def split: prod.splits sum.splits)

lemma run_mapE:
  "run_state (mapE f m) w = (case run_state m w of (r, w') \<Rightarrow> (map_sum f (\<lambda>x. x) r, w'))"
  by (simp add: mapE_def split: prod.splits)

lemma map_sum_Inr: "map_sum f g x = Inr y \<longleftrightarrow> (\<exists>b. x = Inr b \<and> y = g b)"
  by (cases x) auto

section \<open>What a program may ask\<close>

text \<open>
  \<open>emits P m\<close>: every request that \<open>m\<close> adds to the history, together with its
  answer, satisfies \<open>P\<close>, and the earlier history is kept.
\<close>

definition emits :: "('q \<Rightarrow> 'r \<Rightarrow> bool) \<Rightarrow> ('q, 'r, 'p, 'a) prog \<Rightarrow> bool" where
  "emits P m \<longleftrightarrow> (\<forall>w. \<exists>es. w_hist (snd (run_state m w)) = w_hist w @ es \<and> (\<forall>(q, r) \<in> set es. P q r))"

lemma emitsI:
  "(\<And>w. \<exists>es. w_hist (snd (run_state m w)) = w_hist w @ es \<and> (\<forall>(q, r) \<in> set es. P q r)) \<Longrightarrow> emits P m"
  by (simp add: emits_def)

lemma emitsD:
  assumes "emits P m" and "run_state m w = (a, w')"
  obtains es where "w_hist w' = w_hist w @ es" and "\<And>q r. (q, r) \<in> set es \<Longrightarrow> P q r"
proof -
  from assms(1) obtain es where
    "w_hist (snd (run_state m w)) = w_hist w @ es \<and> (\<forall>(q, r) \<in> set es. P q r)"
    unfolding emits_def by blast
  then show ?thesis using that [of es] assms(2) by auto
qed

lemma emits_ret [emits_intros]: "emits P (ret a)"
  by (rule emitsI) simp

lemma emits_ask [emits_intros]: "(\<And>r. P q r) \<Longrightarrow> emits P (ask env q)"
  by (rule emitsI) simp

lemma emits_get_proc [emits_intros]: "emits P get_proc"
  by (rule emitsI) simp

lemma emits_modify_proc [emits_intros]: "emits P (modify_proc f)"
  by (rule emitsI) simp

lemma emits_bind [emits_intros]:
  assumes m: "emits P m" and f: "\<And>a. emits P (f a)"
  shows "emits P (m \<bind> f)"
proof (rule emitsI)
  fix w
  obtain a w1 where r: "run_state m w = (a, w1)" by (cases "run_state m w")
  obtain b w2 where r2: "run_state (f a) w1 = (b, w2)" by (cases "run_state (f a) w1")
  from emitsD [OF m r] obtain es where es: "w_hist w1 = w_hist w @ es"
    and P1: "\<And>q r. (q, r) \<in> set es \<Longrightarrow> P q r" by blast
  from emitsD [OF f r2] obtain fs where fs: "w_hist w2 = w_hist w1 @ fs"
    and P2: "\<And>q r. (q, r) \<in> set fs \<Longrightarrow> P q r" by blast
  show "\<exists>es. w_hist (snd (run_state (m \<bind> f) w)) = w_hist w @ es \<and> (\<forall>(q, r) \<in> set es. P q r)"
    using r r2 es fs P1 P2 by (intro exI [of _ "es @ fs"]) auto
qed

lemma emits_if [emits_intros]:
  "(b \<Longrightarrow> emits P m) \<Longrightarrow> (\<not> b \<Longrightarrow> emits P n) \<Longrightarrow> emits P (if b then m else n)"
  by simp

lemma emits_case_sum [emits_intros]:
  "(\<And>e. x = Inl e \<Longrightarrow> emits P (f e)) \<Longrightarrow> (\<And>a. x = Inr a \<Longrightarrow> emits P (g a)) \<Longrightarrow>
   emits P (case x of Inl e \<Rightarrow> f e | Inr a \<Rightarrow> g a)"
  by (cases x) auto

lemma emits_case_option [emits_intros]:
  "(x = None \<Longrightarrow> emits P m) \<Longrightarrow> (\<And>a. x = Some a \<Longrightarrow> emits P (g a)) \<Longrightarrow>
   emits P (case x of None \<Rightarrow> m | Some a \<Rightarrow> g a)"
  by (cases x) auto

lemma emits_case_prod [emits_intros]:
  "(\<And>a b. x = (a, b) \<Longrightarrow> emits P (g a b)) \<Longrightarrow> emits P (case x of (a, b) \<Rightarrow> g a b)"
  by (cases x) auto

lemma emits_bindE [emits_intros]:
  "emits P m \<Longrightarrow> (\<And>a. emits P (f a)) \<Longrightarrow> emits P (bindE m f)"
  unfolding bindE_def by (intro emits_bind emits_case_sum emits_ret)

lemma emits_mapE [emits_intros]: "emits P m \<Longrightarrow> emits P (mapE f m)"
  unfolding mapE_def by (intro emits_bind emits_ret)

lemma emits_let [emits_intros]: "(\<And>y. y = x \<Longrightarrow> emits P (f y)) \<Longrightarrow> emits P (let y = x in f y)"
  by simp

lemma emits_for_each [emits_intros]:
  "(\<And>x. x \<in> set xs \<Longrightarrow> emits P (f x)) \<Longrightarrow> emits P (for_each f xs)"
  by (induction xs) (auto intro!: emits_intros)

lemma emits_for_all [emits_intros]:
  "(\<And>x. x \<in> set xs \<Longrightarrow> emits P (f x)) \<Longrightarrow> emits P (for_all f xs)"
  by (induction xs) (auto intro!: emits_intros)

lemma emits_mono: "emits P m \<Longrightarrow> (\<And>q r. P q r \<Longrightarrow> Q q r) \<Longrightarrow> emits Q m"
  unfolding emits_def by fastforce

section \<open>What a program leaves of the process state\<close>

text \<open>\<open>keeps f m\<close>: the part \<open>f\<close> of the process state is the same after \<open>m\<close>.\<close>

definition keeps :: "('p \<Rightarrow> 'c) \<Rightarrow> ('q, 'r, 'p, 'a) prog \<Rightarrow> bool" where
  "keeps f m \<longleftrightarrow> (\<forall>w. f (w_proc (snd (run_state m w))) = f (w_proc w))"

lemma keepsI: "(\<And>w. f (w_proc (snd (run_state m w))) = f (w_proc w)) \<Longrightarrow> keeps f m"
  by (simp add: keeps_def)

lemma keepsD: "keeps f m \<Longrightarrow> run_state m w = (a, w') \<Longrightarrow> f (w_proc w') = f (w_proc w)"
  unfolding keeps_def by (metis snd_conv)

lemma keeps_ret [keeps_intros]: "keeps f (ret a)"
  by (simp add: keeps_def)

lemma keeps_ask [keeps_intros]: "keeps f (ask env q)"
  by (simp add: keeps_def)

lemma keeps_get_proc [keeps_intros]: "keeps f get_proc"
  by (simp add: keeps_def)

lemma keeps_modify_proc [keeps_intros]: "(\<And>p. f (g p) = f p) \<Longrightarrow> keeps f (modify_proc g)"
  by (simp add: keeps_def)

lemma keeps_bind [keeps_intros]:
  assumes "keeps f m" and "\<And>a. keeps f (g a)"
  shows "keeps f (m \<bind> g)"
proof (rule keepsI)
  fix w
  obtain a w1 where r: "run_state m w = (a, w1)" by (cases "run_state m w")
  obtain b w2 where r2: "run_state (g a) w1 = (b, w2)" by (cases "run_state (g a) w1")
  show "f (w_proc (snd (run_state (m \<bind> g) w))) = f (w_proc w)"
    using keepsD [OF assms(1) r] keepsD [OF assms(2) r2] r r2 by simp
qed

lemma keeps_if [keeps_intros]: "keeps f m \<Longrightarrow> keeps f n \<Longrightarrow> keeps f (if b then m else n)"
  by simp

lemma keeps_case_sum [keeps_intros]:
  "(\<And>e. keeps f (g e)) \<Longrightarrow> (\<And>a. keeps f (h a)) \<Longrightarrow> keeps f (case x of Inl e \<Rightarrow> g e | Inr a \<Rightarrow> h a)"
  by (cases x) auto

lemma keeps_case_option [keeps_intros]:
  "keeps f m \<Longrightarrow> (\<And>a. keeps f (g a)) \<Longrightarrow> keeps f (case x of None \<Rightarrow> m | Some a \<Rightarrow> g a)"
  by (cases x) auto

lemma keeps_case_prod [keeps_intros]: "(\<And>a b. keeps f (g a b)) \<Longrightarrow> keeps f (case x of (a, b) \<Rightarrow> g a b)"
  by (cases x) auto

lemma keeps_let [keeps_intros]: "(\<And>y. keeps f (g y)) \<Longrightarrow> keeps f (let y = x in g y)"
  by simp

lemma keeps_bindE [keeps_intros]: "keeps f m \<Longrightarrow> (\<And>a. keeps f (g a)) \<Longrightarrow> keeps f (bindE m g)"
  unfolding bindE_def by (intro keeps_intros)

lemma keeps_mapE [keeps_intros]: "keeps f m \<Longrightarrow> keeps f (mapE g m)"
  unfolding mapE_def by (intro keeps_intros)

lemma keeps_for_each [keeps_intros]: "(\<And>x. keeps f (g x)) \<Longrightarrow> keeps f (for_each g xs)"
  by (induction xs) (auto intro!: keeps_intros)

section \<open>Pre- and postconditions of programs\<close>

definition triple ::
  "(('q, 'r, 'p) world \<Rightarrow> bool) \<Rightarrow> ('q, 'r, 'p, 'a) prog \<Rightarrow> ('a \<Rightarrow> ('q, 'r, 'p) world \<Rightarrow> bool) \<Rightarrow> bool"
  where
  "triple P m Q \<longleftrightarrow> (\<forall>w. P w \<longrightarrow> (case run_state m w of (a, w') \<Rightarrow> Q a w'))"

lemma tripleI: "(\<And>w a w'. P w \<Longrightarrow> run_state m w = (a, w') \<Longrightarrow> Q a w') \<Longrightarrow> triple P m Q"
  unfolding triple_def by (auto split: prod.splits)

lemma tripleD: "triple P m Q \<Longrightarrow> P w \<Longrightarrow> run_state m w = (a, w') \<Longrightarrow> Q a w'"
  unfolding triple_def by fastforce

lemma triple_ret: "(\<And>w. P w \<Longrightarrow> Q a w) \<Longrightarrow> triple P (ret a) Q"
  by (rule tripleI) auto

lemma triple_bind: "triple P m R \<Longrightarrow> (\<And>a. triple (R a) (f a) Q) \<Longrightarrow> triple P (m \<bind> f) Q"
  by (rule tripleI) (auto split: prod.splits dest: tripleD)

lemma triple_conseq:
  "triple P' m Q' \<Longrightarrow> (\<And>w. P w \<Longrightarrow> P' w) \<Longrightarrow> (\<And>a w. Q' a w \<Longrightarrow> Q a w) \<Longrightarrow> triple P m Q"
  unfolding triple_def by fastforce

lemma triple_case_sum:
  "(\<And>e. x = Inl e \<Longrightarrow> triple P (f e) Q) \<Longrightarrow> (\<And>a. x = Inr a \<Longrightarrow> triple P (g a) Q) \<Longrightarrow>
   triple P (case x of Inl e \<Rightarrow> f e | Inr a \<Rightarrow> g a) Q"
  by (cases x) auto

lemma triple_bindE:
  assumes "triple P m (\<lambda>r w. case r of Inl e \<Rightarrow> Q (Inl e) w | Inr a \<Rightarrow> R a w)"
    and "\<And>a. triple (R a) (f a) Q"
  shows "triple P (bindE m f) Q"
proof (rule tripleI)
  fix w r w'
  assume P: "P w" and run: "run_state (bindE m f) w = (r, w')"
  obtain x w1 where m: "run_state m w = (x, w1)" by (cases "run_state m w")
  show "Q r w'"
  proof (cases x)
    case (Inl e)
    with run m tripleD [OF assms(1) P m] show ?thesis by (simp add: run_bindE)
  next
    case (Inr a)
    with tripleD [OF assms(1) P m] have "R a w1" by simp
    with run m Inr show ?thesis using tripleD [OF assms(2)] by (simp add: run_bindE)
  qed
qed

lemma triple_mapE:
  "triple P m (\<lambda>r w. Q (map_sum f (\<lambda>x. x) r) w) \<Longrightarrow> triple P (mapE f m) Q"
  by (rule tripleI) (auto simp: run_mapE split: prod.splits dest: tripleD)

lemma triple_ask:
  "(\<And>w. P w \<Longrightarrow> Q (env (w_hist w) q) (w\<lparr>w_hist := w_hist w @ [(q, env (w_hist w) q)]\<rparr>)) \<Longrightarrow>
   triple P (ask env q) Q"
  by (rule tripleI) auto

lemma triple_modify_proc:
  "(\<And>w. P w \<Longrightarrow> Q () (w\<lparr>w_proc := f (w_proc w)\<rparr>)) \<Longrightarrow> triple P (modify_proc f) Q"
  by (rule tripleI) auto

lemma triple_get_proc: "(\<And>w. P w \<Longrightarrow> Q (w_proc w) w) \<Longrightarrow> triple P get_proc Q"
  by (rule tripleI) auto

text \<open>What a program only ever extends: a property of histories that longer ones keep.\<close>

lemma triple_hist_mono:
  assumes "emits (\<lambda>_ _. True) m" and "\<And>h es. F h \<Longrightarrow> F (h @ es)"
  shows "triple (\<lambda>w. F (w_hist w)) m (\<lambda>_ w. F (w_hist w))"
proof (rule tripleI)
  fix w a w'
  assume "F (w_hist w)" and "run_state m w = (a, w')"
  then show "F (w_hist w')" using emitsD [OF assms(1)] assms(2) by metis
qed

lemma bindE_extends:
  assumes "\<And>a. emits P (f a)"
  shows "\<exists>es. w_hist (snd (run_state (bindE m f) w)) = w_hist (snd (run_state m w)) @ es"
proof -
  obtain r w1 where r: "run_state m w = (r, w1)" by (cases "run_state m w")
  show ?thesis
  proof (cases r)
    case (Inl e)
    with r show ?thesis by (simp add: run_bindE)
  next
    case (Inr a)
    obtain b w2 where r2: "run_state (f a) w1 = (b, w2)" by (cases "run_state (f a) w1")
    obtain es where "w_hist w2 = w_hist w1 @ es" using emitsD [OF assms r2] by metis
    with r Inr r2 show ?thesis by (simp add: run_bindE)
  qed
qed

section \<open>Guarded histories\<close>

text \<open>
  \<open>guarded G h\<close>: every request of the history was allowed by \<open>G\<close>, which sees the
  history before the request and the request.
\<close>

definition guarded :: "(('q \<times> 'r) list \<Rightarrow> 'q \<Rightarrow> bool) \<Rightarrow> ('q \<times> 'r) list \<Rightarrow> bool" where
  "guarded G h \<longleftrightarrow> (\<forall>pre q r post. h = pre @ (q, r) # post \<longrightarrow> G pre q)"

lemma guarded_mono: "guarded G h \<Longrightarrow> (\<And>pre q. G pre q \<Longrightarrow> H pre q) \<Longrightarrow> guarded H h"
  unfolding guarded_def by blast

lemma guardedD: "guarded G (pre @ (q, r) # post) \<Longrightarrow> G pre q"
  unfolding guarded_def by blast

lemma guarded_Nil [simp]: "guarded G []"
  by (simp add: guarded_def)

lemma guarded_snoc [simp]: "guarded G (h @ [(q, r)]) \<longleftrightarrow> guarded G h \<and> G h q"
proof
  assume g: "guarded G (h @ [(q, r)])"
  have "G pre q'" if "h = pre @ (q', r') # post" for pre q' r' post
    using g that unfolding guarded_def by (metis append.assoc append_Cons)
  moreover have "G h q" using g unfolding guarded_def by blast
  ultimately show "guarded G h \<and> G h q" unfolding guarded_def by blast
next
  assume g: "guarded G h \<and> G h q"
  show "guarded G (h @ [(q, r)])"
    unfolding guarded_def
  proof (intro allI impI)
    fix pre q' r' post
    assume eq: "h @ [(q, r)] = pre @ (q', r') # post"
    show "G pre q'"
    proof (cases post rule: rev_cases)
      case Nil
      with eq g show ?thesis by simp
    next
      case (snoc ys y)
      with eq have "h = pre @ (q', r') # ys" by simp
      with g show ?thesis unfolding guarded_def by blast
    qed
  qed
qed

lemma guarded_append:
  "guarded G h \<Longrightarrow> (\<And>q r pre. (q, r) \<in> set es \<Longrightarrow> G pre q) \<Longrightarrow> guarded G (h @ es)"
proof (induction es rule: rev_induct)
  case Nil
  then show ?case by simp
next
  case (snoc e es)
  obtain q r where "e = (q, r)" by (cases e)
  moreover have "guarded G (h @ es)" by (rule snoc.IH) (use snoc.prems in auto)
  moreover have "G (h @ es) q" using snoc.prems(2) [of q r] \<open>e = (q, r)\<close> by simp
  ultimately show ?case using guarded_snoc [of G "h @ es" q r] by simp
qed

text \<open>A program whose every request is allowed after any history keeps a history guarded.\<close>

lemma triple_guarded:
  assumes "emits (\<lambda>q r. \<forall>h. G h q) m"
  shows "triple (\<lambda>w. guarded G (w_hist w)) m (\<lambda>_ w. guarded G (w_hist w))"
proof (rule tripleI)
  fix w a w'
  assume g: "guarded G (w_hist w)" and r: "run_state m w = (a, w')"
  from emitsD [OF assms r] obtain es where "w_hist w' = w_hist w @ es"
    and "\<And>q r. (q, r) \<in> set es \<Longrightarrow> \<forall>h. G h q" by blast
  with g show "guarded G (w_hist w')" using guarded_append [of G "w_hist w" es] by simp
qed

section \<open>Guarded programs\<close>

text \<open>
  \<open>safe G E m Q\<close>: from a guarded history that satisfies \<open>E\<close>, the program \<open>m\<close>
  makes only requests that \<open>G\<close> allows, and ends with a result and a history that satisfy
  \<open>Q\<close>.
\<close>

definition safe ::
  "(('q \<times> 'r) list \<Rightarrow> 'q \<Rightarrow> bool) \<Rightarrow> (('q \<times> 'r) list \<Rightarrow> bool) \<Rightarrow> ('q, 'r, 'p, 'a) prog \<Rightarrow>
   ('a \<Rightarrow> ('q \<times> 'r) list \<Rightarrow> bool) \<Rightarrow> bool" where
  "safe G E m Q \<longleftrightarrow>
     triple (\<lambda>w. guarded G (w_hist w) \<and> E (w_hist w)) m (\<lambda>a w. guarded G (w_hist w) \<and> Q a (w_hist w))"

lemma safeI:
  "(\<And>w a w'. guarded G (w_hist w) \<Longrightarrow> E (w_hist w) \<Longrightarrow> run_state m w = (a, w') \<Longrightarrow>
      guarded G (w_hist w') \<and> Q a (w_hist w')) \<Longrightarrow> safe G E m Q"
  unfolding safe_def by (rule tripleI) auto

lemma safeD:
  "safe G E m Q \<Longrightarrow> guarded G (w_hist w) \<Longrightarrow> E (w_hist w) \<Longrightarrow> run_state m w = (a, w') \<Longrightarrow>
   guarded G (w_hist w') \<and> Q a (w_hist w')"
  unfolding safe_def by (drule tripleD) auto

lemma safe_run:
  assumes "safe G (\<lambda>h. True) m Q"
  shows "guarded G (w_hist (snd (run_state m \<lparr>w_hist = [], w_proc = p\<rparr>)))"
  using safeD [OF assms, of "\<lparr>w_hist = [], w_proc = p\<rparr>"] by (cases "run_state m \<lparr>w_hist = [], w_proc = p\<rparr>") simp

lemma safe_conseq:
  "safe G E' m Q' \<Longrightarrow> (\<And>h. E h \<Longrightarrow> E' h) \<Longrightarrow> (\<And>a h. Q' a h \<Longrightarrow> Q a h) \<Longrightarrow> safe G E m Q"
  unfolding safe_def by (erule triple_conseq) auto

lemma safe_ret: "(\<And>h. E h \<Longrightarrow> Q a h) \<Longrightarrow> safe G E (ret a) Q"
  by (rule safeI) auto

lemma safe_ask:
  "(\<And>h. E h \<Longrightarrow> G h q) \<Longrightarrow> (\<And>h. E h \<Longrightarrow> Q (env h q) (h @ [(q, env h q)])) \<Longrightarrow> safe G E (ask env q) Q"
  by (rule safeI) auto

lemma safe_get_proc: "(\<And>p h. E h \<Longrightarrow> Q p h) \<Longrightarrow> safe G E get_proc Q"
  by (rule safeI) auto

lemma safe_modify_proc: "(\<And>h. E h \<Longrightarrow> Q () h) \<Longrightarrow> safe G E (modify_proc f) Q"
  by (rule safeI) auto

lemma safe_bind: "safe G E m R \<Longrightarrow> (\<And>a. safe G (R a) (f a) Q) \<Longrightarrow> safe G E (m \<bind> f) Q"
  unfolding safe_def by (rule triple_bind)

lemma safe_bindE:
  "safe G E m (\<lambda>r h. case r of Inl e \<Rightarrow> Q (Inl e) h | Inr a \<Rightarrow> R a h) \<Longrightarrow> (\<And>a. safe G (R a) (f a) Q) \<Longrightarrow>
   safe G E (bindE m f) Q"
  unfolding bindE_def
  by (rule safe_bind, assumption) (auto split: sum.splits intro!: safe_ret)

lemma safe_mapE: "safe G E m (\<lambda>r h. Q (map_sum f (\<lambda>x. x) r) h) \<Longrightarrow> safe G E (mapE f m) Q"
  unfolding mapE_def by (rule safe_bind, assumption) (rule safe_ret)

lemma safe_case_sum:
  "(\<And>e. x = Inl e \<Longrightarrow> safe G E (f e) Q) \<Longrightarrow> (\<And>a. x = Inr a \<Longrightarrow> safe G E (g a) Q) \<Longrightarrow>
   safe G E (case x of Inl e \<Rightarrow> f e | Inr a \<Rightarrow> g a) Q"
  by (cases x) auto

lemma safe_case_option:
  "(x = None \<Longrightarrow> safe G E m Q) \<Longrightarrow> (\<And>a. x = Some a \<Longrightarrow> safe G E (g a) Q) \<Longrightarrow>
   safe G E (case x of None \<Rightarrow> m | Some a \<Rightarrow> g a) Q"
  by (cases x) auto

lemma safe_case_prod:
  "(\<And>a b. x = (a, b) \<Longrightarrow> safe G E (g a b) Q) \<Longrightarrow> safe G E (case x of (a, b) \<Rightarrow> g a b) Q"
  by (cases x) auto

lemma safe_if:
  "(b \<Longrightarrow> safe G E m Q) \<Longrightarrow> (\<not> b \<Longrightarrow> safe G E n Q) \<Longrightarrow> safe G E (if b then m else n) Q"
  by simp

lemma safe_let: "(\<And>y. y = x \<Longrightarrow> safe G E (f y) Q) \<Longrightarrow> safe G E (let y = x in f y) Q"
  by simp

text \<open>A property of histories that every longer history keeps: what was once read stays read.\<close>

definition lasting :: "(('q \<times> 'r) list \<Rightarrow> bool) \<Rightarrow> bool" where
  "lasting E \<longleftrightarrow> (\<forall>h es. E h \<longrightarrow> E (h @ es))"

lemma lastingI: "(\<And>h es. E h \<Longrightarrow> E (h @ es)) \<Longrightarrow> lasting E"
  by (simp add: lasting_def)

lemma lastingD: "lasting E \<Longrightarrow> E h \<Longrightarrow> E (h @ es)"
  by (simp add: lasting_def)

lemma lasting_True [simp, intro]: "lasting (\<lambda>h. c)"
  by (simp add: lasting_def)

lemma lasting_conj [simp, intro]: "lasting E \<Longrightarrow> lasting F \<Longrightarrow> lasting (\<lambda>h. E h \<and> F h)"
  by (simp add: lasting_def)

lemma lasting_disj [simp, intro]: "lasting E \<Longrightarrow> lasting F \<Longrightarrow> lasting (\<lambda>h. E h \<or> F h)"
  by (auto simp: lasting_def)

lemma lasting_ex [simp, intro]: "(\<And>x. lasting (E x)) \<Longrightarrow> lasting (\<lambda>h. \<exists>x. E x h)"
  by (auto simp: lasting_def)

lemma lasting_member [simp, intro]: "lasting (\<lambda>h. x \<in> set h)"
  by (simp add: lasting_def)

lemma lasting_all [simp, intro]: "(\<And>x. x \<in> A \<Longrightarrow> lasting (E x)) \<Longrightarrow> lasting (\<lambda>h. \<forall>x \<in> A. E x h)"
  by (auto simp: lasting_def)

text \<open>A lasting fact can be carried along.\<close>

lemma safe_keep:
  assumes "safe G E m Q" and "lasting E" and "emits (\<lambda>q r. True) m"
  shows "safe G E m (\<lambda>a h. E h \<and> Q a h)"
proof (rule safeI)
  fix w a w'
  assume g: "guarded G (w_hist w)" and E: "E (w_hist w)" and run: "run_state m w = (a, w')"
  from emitsD [OF assms(3) run] obtain es where "w_hist w' = w_hist w @ es" by blast
  with safeD [OF assms(1) g E run] lastingD [OF assms(2) E]
  show "guarded G (w_hist w') \<and> E (w_hist w') \<and> Q a (w_hist w')" by simp
qed

text \<open>One request and a function of its answer: the shape of a client method.\<close>

lemma safe_call:
  assumes "lasting E" and "\<And>h. E h \<Longrightarrow> G h q"
  shows "safe G E (do { r \<leftarrow> ask env q; ret (f r) }) (\<lambda>x h. E h \<and> (\<exists>r. (q, r) \<in> set h \<and> x = f r))"
  by (rule safeI) (use assms in \<open>auto simp: lasting_def\<close>)

text \<open>
  A program all of whose requests are allowed as long as something lasting holds keeps it.
\<close>

lemma guarded_extend:
  assumes "guarded G h" and "E h" and "lasting E" and "\<And>q r. (q, r) \<in> set es \<Longrightarrow> \<forall>h. E h \<longrightarrow> G h q"
  shows "guarded G (h @ es)"
  using assms(4)
proof (induction es rule: rev_induct)
  case (snoc e es)
  obtain q r where e: "e = (q, r)" by (cases e)
  have "guarded G (h @ es)" by (rule snoc.IH) (use snoc.prems in auto)
  moreover have "E (h @ es)" by (rule lastingD [OF assms(3,2)])
  moreover have "\<forall>h. E h \<longrightarrow> G h q" using snoc.prems [of q r] by (simp add: e)
  ultimately show ?case using guarded_snoc [of G "h @ es" q r] by (simp add: e)
qed (simp add: assms(1))

lemma safe_emits:
  assumes "emits (\<lambda>q r. \<forall>h. E h \<longrightarrow> G h q) m" and "lasting E"
  shows "safe G E m (\<lambda>_. E)"
proof (rule safeI)
  fix w a w'
  assume g: "guarded G (w_hist w)" and E: "E (w_hist w)" and r: "run_state m w = (a, w')"
  from emitsD [OF assms(1) r] obtain es where "w_hist w' = w_hist w @ es"
    and "\<And>q r. (q, r) \<in> set es \<Longrightarrow> \<forall>h. E h \<longrightarrow> G h q" by blast
  with guarded_extend [OF g, of E es] E assms(2) show "guarded G (w_hist w') \<and> E (w_hist w')"
    by (simp add: lastingD)
qed

lemma safe_for_each:
  assumes "\<And>x. x \<in> set xs \<Longrightarrow> safe G E (f x) (\<lambda>_. E)"
  shows "safe G E (for_each f xs) (\<lambda>_. E)"
  using assms
proof (induction xs)
  case (Cons x xs)
  have "safe G E (f x) (\<lambda>_. E)" and "safe G E (for_each f xs) (\<lambda>_. E)" using Cons by auto
  then show ?case
    by (auto intro!: safe_bind safe_ret split: sum.splits)
qed (simp add: safe_ret)

text \<open>The guard that allows every request, for what a program establishes.\<close>

abbreviation anything :: "('q \<times> 'r) list \<Rightarrow> 'q \<Rightarrow> bool" where
  "anything \<equiv> \<lambda>h q. True"

lemma safe_any: "lasting E \<Longrightarrow> emits (\<lambda>q r. True) m \<Longrightarrow> safe anything E m (\<lambda>_. E)"
  by (rule safe_emits) (simp_all add: emits_mono)

text \<open>What a program establishes and what it may ask can be shown apart.\<close>

lemma safe_strengthen:
  assumes "safe anything E m Q" and "emits (\<lambda>q r. \<forall>h. E h \<longrightarrow> G h q) m" and "lasting E"
  shows "safe G E m Q"
proof (rule safeI)
  fix w a w'
  assume "guarded G (w_hist w)" "E (w_hist w)" and run: "run_state m w = (a, w')"
  then have "guarded G (w_hist w')" using safeD [OF safe_emits [OF assms(2,3)]] by blast
  moreover have "Q a (w_hist w')"
    using safeD [OF assms(1) _ _ run] \<open>E (w_hist w)\<close> by (simp add: guarded_def)
  ultimately show "guarded G (w_hist w') \<and> Q a (w_hist w')" by blast
qed

text \<open>Sequences in which only a success goes on.\<close>

lemma safe_seq:
  assumes "safe G E m (\<lambda>r h. \<forall>a. r = Inr a \<longrightarrow> R a h)" and "\<And>a. safe G (R a) (f a) (\<lambda>r h. \<forall>b. r = Inr b \<longrightarrow> X b h)"
  shows "safe G E (bindE m f) (\<lambda>r h. \<forall>b. r = Inr b \<longrightarrow> X b h)"
  by (rule safe_bindE [OF safe_conseq [OF assms(1)] assms(2)]) (auto split: sum.splits)

lemma safe_seq_keep:
  assumes "safe G E m (\<lambda>_. E)" and "\<And>a. safe G E (f a) (\<lambda>r h. \<forall>b. r = Inr b \<longrightarrow> X b h)"
  shows "safe G E (bindE m f) (\<lambda>r h. \<forall>b. r = Inr b \<longrightarrow> X b h)"
  by (rule safe_seq [OF safe_conseq [OF assms(1)] assms(2)]) auto

lemma safe_for_each_end:
  assumes "\<And>x. safe G E (f x) (\<lambda>_. E)"
  shows "safe G E (bindE (for_each f xs) (\<lambda>us. ret (Inr (g us)))) (\<lambda>_. E)"
  by (rule safe_bindE [OF safe_conseq [OF safe_for_each [where E = E]]], rule assms)
    (auto intro: safe_ret split: sum.splits)

lemma safe_for_all:
  assumes "\<And>x. x \<in> set xs \<Longrightarrow> safe G E (f x) (\<lambda>_. E)"
  shows "safe G E (for_all f xs) (\<lambda>_. E)"
  using assms
proof (induction xs)
  case (Cons x xs)
  have "safe G E (f x) (\<lambda>_. E)" and "safe G E (for_all f xs) (\<lambda>_. E)" using Cons by auto
  then show ?case by (auto intro: safe_bind)
qed (simp add: safe_ret)

lemmas safe_rules = safe_ret safe_ask safe_get_proc safe_modify_proc safe_bind safe_bindE safe_mapE
  safe_case_sum safe_case_option safe_case_prod safe_if safe_let

section \<open>Programs whose requests are known beforehand\<close>

text \<open>\<open>asks m qs\<close>: the requests of \<open>m\<close> are \<open>qs\<close>, whatever the answers.\<close>

definition asks :: "('q, 'r, 'p, 'a) prog \<Rightarrow> 'q list \<Rightarrow> bool" where
  "asks m qs \<longleftrightarrow> (\<forall>w. map fst (w_hist (snd (run_state m w))) = map fst (w_hist w) @ qs)"

lemma asksD: "asks m qs \<Longrightarrow> map fst (w_hist (snd (run_state m w))) = map fst (w_hist w) @ qs"
  by (simp add: asks_def)

lemma asks_ret: "asks (ret a) []"
  by (simp add: asks_def)

lemma asks_ask: "asks (ask env q) [q]"
  by (simp add: asks_def)

lemma asks_bind: "asks m qs \<Longrightarrow> (\<And>a. asks (f a) rs) \<Longrightarrow> asks (m \<bind> f) (qs @ rs)"
  by (simp add: asks_def case_prod_beta)

lemma asks_step: "(\<And>r. asks (f r) qs) \<Longrightarrow> asks (ask env q \<bind> f) (q # qs)"
  using asks_bind [OF asks_ask] by fastforce

lemma asks_case_sum:
  "(\<And>e. asks (f e) qs) \<Longrightarrow> (\<And>a. asks (g a) qs) \<Longrightarrow> asks (case x of Inl e \<Rightarrow> f e | Inr a \<Rightarrow> g a) qs"
  by (cases x) auto

lemma asks_if: "(b \<Longrightarrow> asks m qs) \<Longrightarrow> (\<not> b \<Longrightarrow> asks n rs) \<Longrightarrow> asks (if b then m else n) (if b then qs else rs)"
  by simp

lemma asks_for_all: "(\<And>x. asks (f x) (g x)) \<Longrightarrow> asks (for_all f xs) (concat (map g xs))"
  by (induction xs) (auto intro: asks_ret asks_bind)

section \<open>Reachable states and invariants\<close>

text \<open>
  The states a system reaches by steps that start where \<open>ok\<close> holds. Without a side
  condition this is plain reachability.
\<close>

inductive reaches :: "'s \<Rightarrow> ('s \<Rightarrow> 's \<Rightarrow> bool) \<Rightarrow> ('s \<Rightarrow> bool) \<Rightarrow> 's \<Rightarrow> bool" for start step ok where
  reaches_start: "reaches start step ok start"
| reaches_step: "reaches start step ok s \<Longrightarrow> ok s \<Longrightarrow> step s s' \<Longrightarrow> reaches start step ok s'"

text \<open>The contract of an inductive invariant.\<close>

locale inductive_invariant =
  fixes start :: 's and step :: "'s \<Rightarrow> 's \<Rightarrow> bool" and ok :: "'s \<Rightarrow> bool" and inv :: "'s \<Rightarrow> bool"
  assumes initially: "inv start"
    and preserved: "inv s \<Longrightarrow> ok s \<Longrightarrow> step s s' \<Longrightarrow> inv s'"
begin

lemma always: "reaches start step ok s \<Longrightarrow> inv s"
  by (induction rule: reaches.induct) (auto intro: initially preserved)

lemma always_from: "inv s \<Longrightarrow> reaches s step ok s' \<Longrightarrow> inv s'"
  by (rotate_tac 1, induction rule: reaches.induct) (auto intro: preserved)

end

end
