(* ===== verification/GoLib.thy ===== *)
theory GoLib
  imports Prelude
begin

text \<open>
  The parts of the Go language and its standard library that the repository's logic rests
  on: fixed-width integer conversions, \<open>strings\<close>, \<open>strconv\<close> and \<open>time\<close>.
  Strings are byte lists; the case mapping and the white space of \<open>strings\<close> are those
  of the ASCII range.
\<close>

section \<open>Integer widths\<close>

text \<open>Conversions \<open>int64(x)\<close>, \<open>int32(x)\<close> and \<open>uint32(x)\<close> keep the low bits.\<close>

definition i64 :: "int \<Rightarrow> int" where
  "i64 x = (x + 2 ^ 63) mod 2 ^ 64 - 2 ^ 63"

definition i32 :: "int \<Rightarrow> int" where
  "i32 x = (x + 2 ^ 31) mod 2 ^ 32 - 2 ^ 31"

definition u32 :: "int \<Rightarrow> int" where
  "u32 x = x mod 2 ^ 32"

lemma i64_id: "- (2 ^ 63) \<le> x \<Longrightarrow> x < 2 ^ 63 \<Longrightarrow> i64 x = x"
  by (simp add: i64_def)

lemma i32_id: "- (2 ^ 31) \<le> x \<Longrightarrow> x < 2 ^ 31 \<Longrightarrow> i32 x = x"
  by (simp add: i32_def)

lemma u32_id: "0 \<le> x \<Longrightarrow> x < 2 ^ 32 \<Longrightarrow> u32 x = x"
  by (simp add: u32_def)

lemma u32_nonneg [simp]: "0 \<le> u32 x"
  by (simp add: u32_def)

text \<open>Integer division of Go truncates towards zero.\<close>

definition go_div :: "int \<Rightarrow> int \<Rightarrow> int" where
  "go_div a b = sgn a * sgn b * (\<bar>a\<bar> div \<bar>b\<bar>)"

lemma go_div_nonneg: "0 \<le> a \<Longrightarrow> 0 < b \<Longrightarrow> go_div a b = a div b"
  by (cases "a = 0") (simp_all add: go_div_def)

section \<open>strings\<close>

definition has_prefix :: "string \<Rightarrow> string \<Rightarrow> bool" where
  "has_prefix s p \<longleftrightarrow> take (length p) s = p"

definition has_suffix :: "string \<Rightarrow> string \<Rightarrow> bool" where
  "has_suffix s p \<longleftrightarrow> has_prefix (rev s) (rev p)"

lemma has_prefix_append [simp]: "has_prefix (p @ s) p"
  by (simp add: has_prefix_def)

lemma has_suffix_append [simp]: "has_suffix (s @ p) p"
  by (simp add: has_suffix_def)

fun contains :: "string \<Rightarrow> string \<Rightarrow> bool" where
  "contains [] sub \<longleftrightarrow> sub = []"
| "contains (x # xs) sub \<longleftrightarrow> has_prefix (x # xs) sub \<or> contains xs sub"

text \<open>The text after the first occurrence of a marker (\<open>strings.Index\<close> and a slice).\<close>

fun after_marker :: "string \<Rightarrow> string \<Rightarrow> string option" where
  "after_marker [] m = (if m = [] then Some [] else None)"
| "after_marker (x # xs) m =
     (if has_prefix (x # xs) m then Some (drop (length m) (x # xs)) else after_marker xs m)"

fun cut_char :: "char \<Rightarrow> string \<Rightarrow> (string \<times> string) option" where
  "cut_char c [] = None"
| "cut_char c (x # xs) =
     (if x = c then Some ([], xs) else map_option (\<lambda>(a, b). (x # a, b)) (cut_char c xs))"

lemma cut_char_None: "cut_char c s = None \<longleftrightarrow> c \<notin> set s"
  by (induction s) auto

lemma cut_char_Some: "cut_char c s = Some (a, b) \<longleftrightarrow> s = a @ c # b \<and> c \<notin> set a"
proof (induction s arbitrary: a b)
  case Nil
  then show ?case by simp
next
  case (Cons x xs)
  show ?case
  proof (cases "x = c")
    case True
    then show ?thesis by (cases a) auto
  next
    case False
    with Cons.IH show ?thesis by (cases a) auto
  qed
qed

lemma cut_char_append [simp]: "c \<notin> set a \<Longrightarrow> cut_char c (a @ c # b) = Some (a, b)"
  by (simp add: cut_char_Some)

text \<open>\<open>strings.SplitN(s, sep, n)\<close> with a one-byte separator, and \<open>strings.Split\<close>.\<close>

fun splitn :: "nat \<Rightarrow> char \<Rightarrow> string \<Rightarrow> string list" where
  "splitn 0 c s = []"
| "splitn (Suc 0) c s = [s]"
| "splitn (Suc (Suc n)) c s =
     (case cut_char c s of None \<Rightarrow> [s] | Some (a, b) \<Rightarrow> a # splitn (Suc n) c b)"

fun split_all :: "char \<Rightarrow> string \<Rightarrow> string list" where
  "split_all c [] = [[]]"
| "split_all c (x # xs) =
     (if x = c then [] # split_all c xs
      else case split_all c xs of [] \<Rightarrow> [[x]] | s # ss \<Rightarrow> (x # s) # ss)"

fun join :: "string \<Rightarrow> string list \<Rightarrow> string" where
  "join sep [] = []"
| "join sep [s] = s"
| "join sep (s # ss) = s @ sep @ join sep ss"

lemma split_all_nonempty [simp]: "split_all c s \<noteq> []"
  by (induction s) (auto split: list.splits)

lemma join_split_all: "join [c] (split_all c s) = s"
proof (induction s)
  case Nil
  then show ?case by simp
next
  case (Cons x xs)
  obtain t ts where ts: "split_all c xs = t # ts"
    by (cases "split_all c xs") simp_all
  with Cons show ?case by (cases ts) auto
qed

lemma split_all_no_sep: "t \<in> set (split_all c s) \<Longrightarrow> c \<notin> set t"
  by (induction s arbitrary: t) (fastforce split: list.splits if_splits)+

definition is_space :: "char \<Rightarrow> bool" where
  "is_space c \<longleftrightarrow> (of_char c :: nat) \<in> {9, 10, 11, 12, 13, 32}"

definition trim_space :: "string \<Rightarrow> string" where
  "trim_space s = rev (dropWhile is_space (rev (dropWhile is_space s)))"

lemma trim_space_id: "\<forall>c \<in> set s. \<not> is_space c \<Longrightarrow> trim_space s = s"
  by (simp add: trim_space_def dropWhile_eq_self_iff hd_rev) (metis dropWhile_eq_self_iff
      hd_in_set last_in_set rev_rev_ident set_rev hd_rev)

definition lower_char :: "char \<Rightarrow> char" where
  "lower_char c = (let k = (of_char c :: nat) in if 65 \<le> k \<and> k \<le> 90 then char_of (k + 32) else c)"

definition to_lower :: "string \<Rightarrow> string" where
  "to_lower s = map lower_char s"

text \<open>\<open>strings.EqualFold(s, t)\<close>.\<close>

definition equal_fold :: "string \<Rightarrow> string \<Rightarrow> bool" where
  "equal_fold s t \<longleftrightarrow> to_lower s = to_lower t"

definition replace_char :: "char \<Rightarrow> char \<Rightarrow> string \<Rightarrow> string" where
  "replace_char a b s = map (\<lambda>c. if c = a then b else c) s"

section \<open>strconv\<close>

definition digit_char :: "nat \<Rightarrow> char" where
  "digit_char d = char_of (48 + d)"

definition digit_val :: "char \<Rightarrow> nat option" where
  "digit_val c = (let k = of_char c in if 48 \<le> k \<and> k \<le> 57 then Some (k - 48) else None)"

lemma digit_val_char [simp]: "d < 10 \<Longrightarrow> digit_val (digit_char d) = Some d"
  by (simp add: digit_val_def digit_char_def)

fun show_nat :: "nat \<Rightarrow> string" where
  "show_nat n = (if n < 10 then [digit_char n] else show_nat (n div 10) @ [digit_char (n mod 10)])"

declare show_nat.simps [simp del]

text \<open>\<open>strconv.FormatInt(n, 10)\<close> and \<open>strconv.Itoa\<close>.\<close>

definition format_int :: "int \<Rightarrow> string" where
  "format_int n = (if n < 0 then CHR ''-'' # show_nat (nat (- n)) else show_nat (nat n))"

fun digits_val :: "nat \<Rightarrow> string \<Rightarrow> nat option" where
  "digits_val acc [] = Some acc"
| "digits_val acc (c # cs) =
     (case digit_val c of None \<Rightarrow> None | Some d \<Rightarrow> digits_val (10 * acc + d) cs)"

text \<open>
  \<open>strconv.ParseUint(s, 10, 64)\<close>, and \<open>strconv.ParseInt(s, 10, 64)\<close>, which is
  also \<open>strconv.Atoi\<close> on a 64-bit platform. \<open>None\<close> is a returned error (its
  syntax and range forms are not told apart by any caller).
\<close>

definition parse_uint64 :: "string \<Rightarrow> nat option" where
  "parse_uint64 s =
     (if s = [] then None
      else case digits_val 0 s of
             None \<Rightarrow> None
           | Some n \<Rightarrow> if n < 2 ^ 64 then Some n else None)"

definition parse_int64 :: "string \<Rightarrow> int option" where
  "parse_int64 s =
     (case s of
        [] \<Rightarrow> None
      | c # cs \<Rightarrow>
          if c = CHR ''-'' then
            (case parse_uint64 cs of
               None \<Rightarrow> None
             | Some n \<Rightarrow> if n \<le> 2 ^ 63 then Some (- int n) else None)
          else
            (case parse_uint64 (if c = CHR ''+'' then cs else s) of
               None \<Rightarrow> None
             | Some n \<Rightarrow> if n < 2 ^ 63 then Some (int n) else None))"

lemma digits_val_append: "digits_val acc (xs @ ys) = Option.bind (digits_val acc xs) (\<lambda>a. digits_val a ys)"
  by (induction xs arbitrary: acc) (auto split: option.splits)

lemma digits_val_show_nat: "digits_val 0 (show_nat n) = Some n"
proof (induction n rule: show_nat.induct)
  case (1 n)
  show ?case
  proof (cases "n < 10")
    case True
    then show ?thesis by (simp add: show_nat.simps [of n])
  next
    case False
    with 1 show ?thesis by (simp add: show_nat.simps [of n] digits_val_append)
  qed
qed

lemma show_nat_nonempty [simp]: "show_nat n \<noteq> []"
  by (simp add: show_nat.simps [of n])

lemma show_nat_digits: "c \<in> set (show_nat n) \<Longrightarrow> \<exists>d < 10. c = digit_char d"
proof (induction n rule: show_nat.induct)
  case (1 n)
  have ex: "\<exists>d < 10. digit_char (n mod 10) = digit_char d"
    by (rule exI [of _ "n mod 10"]) simp
  show ?case
  proof (cases "n < 10")
    case True
    with 1 show ?thesis by (auto simp: show_nat.simps [of n])
  next
    case False
    with 1 ex show ?thesis by (auto simp: show_nat.simps [of n])
  qed
qed

lemma digit_char_inj: "d < 10 \<Longrightarrow> e < 10 \<Longrightarrow> digit_char d = digit_char e \<Longrightarrow> d = e"
  by (metis digit_val_char option.inject)

lemma digit_val_minus [simp]: "digit_val (CHR ''-'') = None" "digit_val (CHR ''+'') = None"
    "digit_val (CHR '':'') = None"
  by (simp_all add: digit_val_def)

lemma show_nat_not_char: "digit_val c = None \<Longrightarrow> c \<notin> set (show_nat n)"
  using show_nat_digits by fastforce

lemma parse_uint64_show_nat: "n < 2 ^ 64 \<Longrightarrow> parse_uint64 (show_nat n) = Some n"
  by (simp add: parse_uint64_def digits_val_show_nat)

lemma show_nat_hd: "hd (show_nat n) \<noteq> CHR ''-''" "hd (show_nat n) \<noteq> CHR ''+''"
  using show_nat_not_char [of "CHR ''-''" n] show_nat_not_char [of "CHR ''+''" n] hd_in_set [of "show_nat n"]
  by (metis digit_val_minus show_nat_nonempty)+

text \<open>Printing and parsing an integer of the \<open>int64\<close> range is the identity.\<close>

lemma parse_format_int64:
  assumes "- (2 ^ 63) \<le> n" and "n < 2 ^ 63"
  shows "parse_int64 (format_int n) = Some n"
proof (cases "n < 0")
  case True
  with assms have "nat (- n) \<le> 2 ^ 63" and "nat (- n) < 2 ^ 64" by simp_all
  with True show ?thesis
    by (simp add: parse_int64_def format_int_def parse_uint64_show_nat)
next
  case False
  with assms have b: "nat n < 2 ^ 63" and b2: "nat n < 2 ^ 64" by simp_all
  obtain c cs where cs: "show_nat (nat n) = c # cs" by (cases "show_nat (nat n)") simp_all
  with show_nat_hd [of "nat n"] have "c \<noteq> CHR ''-''" and "c \<noteq> CHR ''+''" by auto
  with False cs b b2 parse_uint64_show_nat [OF b2] show ?thesis
    by (simp add: parse_int64_def format_int_def)
qed

lemma format_int_no_colon: "CHR '':'' \<notin> set (format_int n)"
  using show_nat_not_char [of "CHR '':''"] by (auto simp: format_int_def)

lemma parse_int64_range: "parse_int64 s = Some n \<Longrightarrow> - (2 ^ 63) \<le> n \<and> n < 2 ^ 63"
  by (auto simp: parse_int64_def split: list.splits option.splits if_splits)

section \<open>encoding/json and net\<close>

text \<open>The values the code marshals, before they are printed as JSON or YAML.\<close>

datatype json =
    JNull
  | JStr string
  | JInt int
  | JBool bool
  | JArr "json list"
  | JObj "(string \<times> json) list"

text \<open>
  \<open>net.ParseIP\<close> of a dotted quad: four decimal octets of one to three digits, without
  leading zeros. Of an IPv6 address: eight groups of one to four hexadecimal digits, one run
  of groups abbreviated by a double colon, the last two groups possibly a dotted quad.
\<close>

definition parse_octet :: "string \<Rightarrow> nat option" where
  "parse_octet s =
     (if s = [] \<or> 3 < length s \<or> (1 < length s \<and> hd s = CHR ''0'') then None
      else case digits_val 0 s of None \<Rightarrow> None | Some n \<Rightarrow> if n < 256 then Some n else None)"

definition parse_ipv4 :: "string \<Rightarrow> nat option" where
  "parse_ipv4 s =
     (case map parse_octet (split_all (CHR ''.'') s) of
        [Some a, Some b, Some c, Some d] \<Rightarrow> Some (((a * 256 + b) * 256 + c) * 256 + d)
      | _ \<Rightarrow> None)"

definition is_hex_digit :: "char \<Rightarrow> bool" where
  "is_hex_digit c \<longleftrightarrow> (let k = (of_char c :: nat)
                      in (48 \<le> k \<and> k \<le> 57) \<or> (65 \<le> k \<and> k \<le> 70) \<or> (97 \<le> k \<and> k \<le> 102))"

definition is_group :: "string \<Rightarrow> bool" where
  "is_group s \<longleftrightarrow> s \<noteq> [] \<and> length s \<le> 4 \<and> (\<forall>c \<in> set s. is_hex_digit c)"

fun count_groups :: "bool \<Rightarrow> string list \<Rightarrow> nat option" where
  "count_groups v4 [] = Some 0"
| "count_groups v4 (g # gs) =
     (if is_group g then map_option Suc (count_groups v4 gs)
      else if v4 \<and> gs = [] \<and> parse_ipv4 g \<noteq> None then Some 2
      else None)"

fun cut_double_colon :: "string \<Rightarrow> (string \<times> string) option" where
  "cut_double_colon (a # b # s) =
     (if a = CHR '':'' \<and> b = CHR '':'' then Some ([], s)
      else map_option (\<lambda>(x, y). (a # x, y)) (cut_double_colon (b # s)))"
| "cut_double_colon _ = None"

definition colon_fields :: "string \<Rightarrow> string list" where
  "colon_fields s = (if s = [] then [] else split_all (CHR '':'') s)"

definition valid_ipv6 :: "string \<Rightarrow> bool" where
  "valid_ipv6 s =
     (case cut_double_colon s of
        None \<Rightarrow> count_groups True (split_all (CHR '':'') s) = Some 8
      | Some (a, b) \<Rightarrow>
          (case (count_groups False (colon_fields a), count_groups True (colon_fields b)) of
             (Some m, Some n) \<Rightarrow> m + n \<le> 7
           | _ \<Rightarrow> False))"

text \<open>Whether \<open>net.ParseCIDR\<close> accepts the text.\<close>

definition valid_cidr :: "string \<Rightarrow> bool" where
  "valid_cidr s =
     (case cut_char (CHR ''/'') s of
        None \<Rightarrow> False
      | Some (addr, m) \<Rightarrow>
          m \<noteq> [] \<and>
          (case digits_val 0 m of
             None \<Rightarrow> False
           | Some n \<Rightarrow> (parse_ipv4 addr \<noteq> None \<and> n \<le> 32) \<or> (valid_ipv6 addr \<and> n \<le> 128)))"

section \<open>time\<close>

text \<open>
  \<open>time.Time\<close> is a count of seconds since year 1, an \<open>int64\<close>, and a number of
  nanoseconds below one second. \<open>time.Unix\<close> and \<open>Time.Unix\<close> convert, wrapping
  around as the code does. \<open>Time.Sub\<close> saturates. A \<open>time.Duration\<close> is a number
  of nanoseconds.
\<close>

record go_time =
  t_sec :: int
  t_ns :: int

definition unix_to_internal :: int where
  "unix_to_internal = 62135596800"

definition time_unix :: "int \<Rightarrow> go_time" where
  "time_unix s = \<lparr>t_sec = i64 (s + unix_to_internal), t_ns = 0\<rparr>"

definition time_to_unix :: "go_time \<Rightarrow> int" where
  "time_to_unix t = i64 (t_sec t - unix_to_internal)"

definition time_zero :: go_time where
  "time_zero = \<lparr>t_sec = 0, t_ns = 0\<rparr>"

definition second :: int where
  "second = 1000000000"

definition time_sub :: "go_time \<Rightarrow> go_time \<Rightarrow> int" where
  "time_sub t u =
     (let d = (t_sec t - t_sec u) * second + (t_ns t - t_ns u)
      in max (- (2 ^ 63)) (min (2 ^ 63 - 1) d))"

definition time_before :: "go_time \<Rightarrow> go_time \<Rightarrow> bool" where
  "time_before t u \<longleftrightarrow> t_sec t < t_sec u \<or> (t_sec t = t_sec u \<and> t_ns t < t_ns u)"

definition time_equal :: "go_time \<Rightarrow> go_time \<Rightarrow> bool" where
  "time_equal t u \<longleftrightarrow> t_sec t = t_sec u \<and> t_ns t = t_ns u"

text \<open>The instants a clock shows: whole \<open>int64\<close> seconds, nanoseconds below a second.\<close>

definition clock_time :: "go_time \<Rightarrow> bool" where
  "clock_time t \<longleftrightarrow> - (2 ^ 63) \<le> t_sec t \<and> t_sec t < 2 ^ 63 \<and> 0 \<le> t_ns t \<and> t_ns t < second"

lemma i64_range: "- (2 ^ 63) \<le> i64 x \<and> i64 x < 2 ^ 63"
  by (simp add: i64_def)

lemma i64_i64_add: "i64 (i64 x + y) = i64 (x + y)"
proof -
  have "i64 x + y + 2 ^ 63 = (x + 2 ^ 63) mod 2 ^ 64 + y"
    by (simp add: i64_def)
  then have "(i64 x + y + 2 ^ 63) mod 2 ^ 64 = (x + 2 ^ 63 + y) mod 2 ^ 64"
    by (simp only: mod_add_left_eq)
  also have "x + 2 ^ 63 + y = x + y + 2 ^ 63"
    by (simp only: ac_simps)
  finally show ?thesis
    by (simp only: i64_def)
qed

text \<open>Seconds survive the trip through \<open>time.Unix\<close> and back, whatever wraps in between.\<close>

lemma time_unix_to_unix: "time_unix (time_to_unix t) = \<lparr>t_sec = i64 (t_sec t), t_ns = 0\<rparr>"
  by (simp add: time_unix_def time_to_unix_def i64_i64_add)

lemma time_to_unix_unix: "- (2 ^ 63) \<le> s \<Longrightarrow> s < 2 ^ 63 \<Longrightarrow> time_to_unix (time_unix s) = s"
  using i64_i64_add [of "s + unix_to_internal" "- unix_to_internal"]
  by (simp add: time_unix_def time_to_unix_def i64_id)

section \<open>Codecs\<close>

text \<open>
  The contract between the writer and the reader of a text: what is written on a valid value is
  read back.
\<close>

locale codec =
  fixes encode :: "'a \<Rightarrow> string" and decode :: "string \<Rightarrow> 'a option" and valid :: "'a \<Rightarrow> bool"
  assumes decode_encode: "valid x \<Longrightarrow> decode (encode x) = Some x"
begin

lemma encode_inj: "valid x \<Longrightarrow> valid y \<Longrightarrow> encode x = encode y \<longleftrightarrow> x = y"
  by (metis decode_encode option.inject)

lemma decode_encode_iff: "valid x \<Longrightarrow> decode (encode x) = Some y \<longleftrightarrow> y = x"
  by (auto simp: decode_encode)

end

definition int64_value :: "int \<Rightarrow> bool" where
  "int64_value n \<longleftrightarrow> - (2 ^ 63) \<le> n \<and> n < 2 ^ 63"

interpretation int64_codec: codec format_int parse_int64 int64_value
  by unfold_locales (simp add: int64_value_def parse_format_int64)

end
