(* ===== verification/MachineData.thy ===== *)
theory MachineData
  imports GoLib
begin

text \<open>
  The MachineClass configuration of internal/provisioner/data.go and extensions.go: the
  \<open>Data\<close> struct, its defaults, its validation with every error branch, and a declarative
  specification the validation is proved equivalent to.
\<close>

section \<open>Data\<close>

record additional_nic =
  an_network_interface :: string
  an_type :: string
  an_mtu :: int
  an_dhcp :: "bool option"

record additional_disk =
  dk_size :: int
  dk_pool :: string
  dk_dataset_prefix :: string
  dk_encrypted :: bool
  dk_name :: string
  dk_filesystem :: string

record machine_data =
  md_pool :: string
  md_network_interface :: string
  md_boot_method :: string
  md_architecture :: string
  md_extensions :: "string list"
  md_encrypted :: bool
  md_cpus :: int
  md_memory :: int
  md_min_memory :: int
  md_disk_size :: int
  md_dataset_prefix :: string
  md_additional_disks :: "additional_disk list"
  md_additional_nics :: "additional_nic list"
  md_advertised_subnets :: string
  md_storage_disk_size :: int

definition data_zero :: machine_data where
  "data_zero = \<lparr>md_pool = [], md_network_interface = [], md_boot_method = [], md_architecture = [],
     md_extensions = [], md_encrypted = False, md_cpus = 0, md_memory = 0, md_min_memory = 0,
     md_disk_size = 0, md_dataset_prefix = [], md_additional_disks = [], md_additional_nics = [],
     md_advertised_subnets = [], md_storage_disk_size = 0\<rparr>"

record provider_config =
  pc_default_pool :: string
  pc_default_network_interface :: string
  pc_default_boot_method :: string
  pc_graceful_shutdown_timeout :: int
  pc_poll_interval :: int
  pc_max_error_recoveries :: int
  pc_max_start_oom_attempts :: int

definition LonghornVolumeName :: string where
  "LonghornVolumeName = ''longhorn''"

section \<open>Defaults\<close>

definition or_default :: "string \<Rightarrow> string \<Rightarrow> string" where
  "or_default s d = (if s = [] then d else s)"

definition or_default_int :: "int \<Rightarrow> int \<Rightarrow> int" where
  "or_default_int n d = (if n = 0 then d else n)"

definition name_disk :: "nat \<Rightarrow> additional_disk \<Rightarrow> additional_disk" where
  "name_disk i d = d\<lparr>dk_name := or_default (dk_name d) (''data-'' @ show_nat (i + 1)),
                     dk_filesystem := or_default (dk_filesystem d) ''xfs''\<rparr>"

fun name_disks :: "nat \<Rightarrow> additional_disk list \<Rightarrow> additional_disk list" where
  "name_disks i [] = []"
| "name_disks i (d # ds) = name_disk i d # name_disks (Suc i) ds"

definition storage_disk :: "int \<Rightarrow> additional_disk" where
  "storage_disk n = \<lparr>dk_size = n, dk_pool = [], dk_dataset_prefix = [], dk_encrypted = False,
                     dk_name = LonghornVolumeName, dk_filesystem = []\<rparr>"

definition ApplyDefaults :: "provider_config \<Rightarrow> machine_data \<Rightarrow> machine_data" where
  "ApplyDefaults cfg d =
     (let d = d\<lparr>md_cpus := or_default_int (md_cpus d) 2,
                md_memory := or_default_int (md_memory d) 4096,
                md_disk_size := or_default_int (md_disk_size d) 40,
                md_pool := or_default (md_pool d) (pc_default_pool cfg),
                md_network_interface := or_default (md_network_interface d) (pc_default_network_interface cfg),
                md_boot_method := or_default (or_default (md_boot_method d) (pc_default_boot_method cfg)) ''UEFI'',
                md_architecture := or_default (md_architecture d) ''amd64''\<rparr>;
          d = (if 0 < md_storage_disk_size d
               then d\<lparr>md_additional_disks := storage_disk (md_storage_disk_size d) # md_additional_disks d,
                      md_storage_disk_size := 0\<rparr>
               else d)
      in d\<lparr>md_additional_disks := name_disks 0 (md_additional_disks d)\<rparr>)"

definition BasePath :: "machine_data \<Rightarrow> string" where
  "BasePath d = (if md_dataset_prefix d \<noteq> [] then md_pool d @ ''/'' @ md_dataset_prefix d else md_pool d)"

definition cachedKnownFields :: "string list" where
  "cachedKnownFields =
     [''pool'', ''network_interface'', ''boot_method'', ''architecture'', ''extensions'', ''encrypted'',
      ''cpus'', ''memory'', ''min_memory'', ''disk_size'', ''dataset_prefix'', ''additional_disks'',
      ''additional_nics'', ''advertised_subnets'', ''storage_disk_size'']"

definition UnknownFields :: "string list \<Rightarrow> string list" where
  "UnknownFields keys = filter (\<lambda>k. k \<notin> set cachedKnownFields) keys"

section \<open>Validation\<close>

definition MinDiskSizeGiB :: int where "MinDiskSizeGiB = 5"
definition MinRootDiskSizeGiB :: int where "MinRootDiskSizeGiB = 20"
definition MaxDiskSizeGiB :: int where "MaxDiskSizeGiB = 1048576"
definition MaxCPUs :: int where "MaxCPUs = 512"
definition MaxMemoryMiB :: int where "MaxMemoryMiB = 16777216"
definition MinMemoryMiB :: int where "MinMemoryMiB = 1024"
definition MaxAdditionalNICs :: nat where "MaxAdditionalNICs = 16"

text \<open>One constructor per message of the validation, with its formatted arguments.\<close>

datatype config_error =
    CpusNegative int
  | CpusTooMany int
  | MemoryNegative int
  | MemoryTooSmall int
  | MemoryTooLarge int
  | MinMemoryNegative int
  | MinMemoryTooSmall int
  | MinMemoryAboveMemory int int
  | DiskNegative int
  | DiskTooSmall int
  | DiskTooLarge int
  | StorageNegative int
  | StorageTooSmall int
  | StorageTooLarge int
  | ExtensionEmpty nat
  | ExtensionWhitespace nat string
  | ExtensionPath nat string
  | ExtensionNotAllowed nat string
  | UnsafeName string string
  | EmptySegment string nat
  | TooManyDisks nat
  | ExtraDiskTooSmall nat int
  | ExtraDiskTooLarge nat int
  | VolumeNameCollision nat string nat
  | BadFilesystem nat string
  | TooManyNICs nat
  | NICInterfaceMissing nat
  | NICDuplicate nat string
  | NICBadType nat string
  | NICBadMTU nat int

definition is_alnum :: "char \<Rightarrow> bool" where
  "is_alnum c \<longleftrightarrow> (let k = (of_char c :: nat)
                  in (48 \<le> k \<and> k \<le> 57) \<or> (65 \<le> k \<and> k \<le> 90) \<or> (97 \<le> k \<and> k \<le> 122))"

text \<open>The regular expression \<open>^[a-zA-Z0-9][a-zA-Z0-9._-]*$\<close>.\<close>

definition safeNameRe :: "string \<Rightarrow> bool" where
  "safeNameRe s =
     (case s of
        [] \<Rightarrow> False
      | c # cs \<Rightarrow> is_alnum c \<and> (\<forall>x \<in> set cs. is_alnum x \<or> x = CHR ''.'' \<or> x = CHR ''_'' \<or> x = CHR ''-''))"

definition validateSafeName :: "string \<Rightarrow> string \<Rightarrow> config_error option" where
  "validateSafeName field value =
     (if value = [] then None else if \<not> safeNameRe value then Some (UnsafeName field value) else None)"

text \<open>\<open>if err := a; err != nil { return err }; return b\<close>.\<close>

definition orElse :: "'e option \<Rightarrow> 'e option \<Rightarrow> 'e option" where
  "orElse a b = (case a of None \<Rightarrow> b | Some e \<Rightarrow> Some e)"

lemma orElse_None [simp]: "orElse a b = None \<longleftrightarrow> a = None \<and> b = None"
  by (auto simp: orElse_def split: option.splits)

definition guard :: "bool \<Rightarrow> 'e \<Rightarrow> 'e option" where
  "guard bad e = (if bad then Some e else None)"

lemma guard_None [simp]: "guard bad e = None \<longleftrightarrow> \<not> bad"
  by (simp add: guard_def)

definition validateCPU :: "machine_data \<Rightarrow> config_error option" where
  "validateCPU d =
     orElse (guard (md_cpus d < 0) (CpusNegative (md_cpus d)))
            (guard (MaxCPUs < md_cpus d) (CpusTooMany (md_cpus d)))"

definition validateMemory :: "machine_data \<Rightarrow> config_error option" where
  "validateMemory d =
     orElse (guard (md_memory d < 0) (MemoryNegative (md_memory d)))
    (orElse (guard (md_memory d \<noteq> 0 \<and> md_memory d < MinMemoryMiB) (MemoryTooSmall (md_memory d)))
    (orElse (guard (MaxMemoryMiB < md_memory d) (MemoryTooLarge (md_memory d)))
    (orElse (guard (md_min_memory d < 0) (MinMemoryNegative (md_min_memory d)))
    (orElse (guard (md_min_memory d \<noteq> 0 \<and> md_min_memory d < MinMemoryMiB) (MinMemoryTooSmall (md_min_memory d)))
            (guard (md_memory d < md_min_memory d) (MinMemoryAboveMemory (md_min_memory d) (md_memory d)))))))"

definition validateRootAndStorageDisk :: "machine_data \<Rightarrow> config_error option" where
  "validateRootAndStorageDisk d =
     orElse (guard (md_disk_size d < 0) (DiskNegative (md_disk_size d)))
    (orElse (guard (md_disk_size d \<noteq> 0 \<and> md_disk_size d < MinRootDiskSizeGiB) (DiskTooSmall (md_disk_size d)))
    (orElse (guard (MaxDiskSizeGiB < md_disk_size d) (DiskTooLarge (md_disk_size d)))
    (orElse (guard (md_storage_disk_size d < 0) (StorageNegative (md_storage_disk_size d)))
    (orElse (guard (0 < md_storage_disk_size d \<and> md_storage_disk_size d < MinDiskSizeGiB)
                   (StorageTooSmall (md_storage_disk_size d)))
            (guard (MaxDiskSizeGiB < md_storage_disk_size d) (StorageTooLarge (md_storage_disk_size d)))))))"

subsection \<open>Extensions (extensions.go)\<close>

definition allowedExtensions :: "string list" where
  "allowedExtensions = map (\<lambda>n. ''siderolabs/'' @ n)
     [''gvisor'', ''kata-containers'', ''spin'', ''wasmedge'',
      ''amd-ucode'', ''amdgpu-firmware'', ''bnx2-bnx2x'', ''chelsio-firmware'', ''dell-firmware'',
      ''i915-ucode'', ''intel-ucode'', ''mei-firmware'', ''mellanox-firmware'', ''rtl8169-firmware'', ''xe-firmware'',
      ''gasket-driver'', ''nonfree-kmod-nvidia'', ''nvidia-container-toolkit'', ''nvidia-fabric-manager'',
      ''nvidia-open-gpu-kernel-modules'',
      ''binfmt-misc'', ''drbd'', ''iscsi-tools'', ''mdadm'', ''nfs-utils'', ''nut-client'', ''zfs'',
      ''bind-tools'', ''btrfs-progs'', ''cifs-utils'', ''glibc'', ''kernel-samepage-merging'', ''lldpd'',
      ''qemu-guest-agent'', ''tailscale'', ''thunderbolt'', ''util-linux-tools'', ''v4l-uvc-drivers'',
      ''vmtoolsd-guest-agent'', ''xen-guest-agent'', ''zerotier'']"

text \<open>The argument is the value of the environment variable \<open>ALLOW_UNSIGNED_EXTENSIONS\<close>.\<close>

definition allowUnsignedExtensions :: "string \<Rightarrow> bool" where
  "allowUnsignedExtensions env = (let v = to_lower env in v = ''true'' \<or> v = ''1'' \<or> v = ''yes'')"

definition validateExtension :: "bool \<Rightarrow> nat \<Rightarrow> string \<Rightarrow> config_error option" where
  "validateExtension bypass i ext =
     (if ext = [] then Some (ExtensionEmpty i)
      else if \<exists>c \<in> set ext. (of_char c :: nat) \<in> {32, 9, 13, 10} then Some (ExtensionWhitespace i ext)
      else if contains ext ''..'' \<or> has_prefix ext ''/'' \<or> contains ext ''//'' then Some (ExtensionPath i ext)
      else if bypass then None
      else if ext \<notin> set allowedExtensions then Some (ExtensionNotAllowed i ext)
      else None)"

fun validateExtensionsFrom :: "bool \<Rightarrow> nat \<Rightarrow> string list \<Rightarrow> config_error option" where
  "validateExtensionsFrom bypass i [] = None"
| "validateExtensionsFrom bypass i (e # es) =
     orElse (validateExtension bypass i e) (validateExtensionsFrom bypass (Suc i) es)"

definition validateExtensions :: "string \<Rightarrow> string list \<Rightarrow> config_error option" where
  "validateExtensions env exts = validateExtensionsFrom (allowUnsignedExtensions env) 0 exts"

subsection \<open>Names and paths\<close>

fun validateSegments :: "string \<Rightarrow> bool \<Rightarrow> nat \<Rightarrow> string list \<Rightarrow> config_error option" where
  "validateSegments label rejectEmpty i [] = None"
| "validateSegments label rejectEmpty i (seg # segs) =
     (if seg = [] then
        (if rejectEmpty then Some (EmptySegment label i) else validateSegments label rejectEmpty (Suc i) segs)
      else orElse (validateSafeName (label @ '' segment '' @ show_nat i) seg)
                  (validateSegments label rejectEmpty (Suc i) segs))"

definition validateDatasetPrefixSegments :: "string \<Rightarrow> string \<Rightarrow> bool \<Rightarrow> config_error option" where
  "validateDatasetPrefixSegments label prefix rejectEmpty =
     (if prefix = [] then None else validateSegments label rejectEmpty 0 (split_all (CHR ''/'') prefix))"

definition validatePathNames :: "machine_data \<Rightarrow> config_error option" where
  "validatePathNames d =
     orElse (validateSafeName ''pool'' (md_pool d))
    (orElse (validateSafeName ''network_interface'' (md_network_interface d))
            (validateDatasetPrefixSegments ''dataset_prefix'' (md_dataset_prefix d) True))"

subsection \<open>Additional disks and NICs\<close>

definition index_label :: "string \<Rightarrow> nat \<Rightarrow> string \<Rightarrow> string" where
  "index_label field i rest = field @ ''['' @ show_nat i @ '']'' @ rest"

text \<open>The map \<open>seenVolumeNames\<close> is passed along, from a volume name to the index that took it.\<close>

definition claim_volume_name ::
  "nat \<Rightarrow> additional_disk \<Rightarrow> (string \<times> nat) list \<Rightarrow> config_error + (string \<times> nat) list" where
  "claim_volume_name i disk seen =
     (if dk_name disk = [] then Inr seen
      else case validateSafeName (index_label ''additional_disks'' i ''.name'') (dk_name disk) of
             Some e \<Rightarrow> Inl e
           | None \<Rightarrow>
               (case map_of seen (dk_name disk) of
                  Some prev \<Rightarrow> Inl (VolumeNameCollision i (dk_name disk) prev)
                | None \<Rightarrow> Inr ((dk_name disk, i) # seen)))"

definition validateOneAdditionalDisk ::
  "nat \<Rightarrow> additional_disk \<Rightarrow> (string \<times> nat) list \<Rightarrow> config_error + (string \<times> nat) list" where
  "validateOneAdditionalDisk i disk seen =
     (case orElse (guard (dk_size disk < MinDiskSizeGiB) (ExtraDiskTooSmall i (dk_size disk)))
          (orElse (guard (MaxDiskSizeGiB < dk_size disk) (ExtraDiskTooLarge i (dk_size disk)))
          (orElse (validateSafeName (index_label ''additional_disks'' i ''.pool'') (dk_pool disk))
                  (validateDatasetPrefixSegments (index_label ''additional_disks'' i ''.dataset_prefix'')
                     (dk_dataset_prefix disk) False))) of
        Some e \<Rightarrow> Inl e
      | None \<Rightarrow>
          (case claim_volume_name i disk seen of
             Inl e \<Rightarrow> Inl e
           | Inr seen' \<Rightarrow>
               if dk_filesystem disk \<noteq> [] \<and> dk_filesystem disk \<noteq> ''xfs'' \<and> dk_filesystem disk \<noteq> ''ext4''
               then Inl (BadFilesystem i (dk_filesystem disk))
               else Inr seen'))"

fun validateDisksFrom :: "nat \<Rightarrow> additional_disk list \<Rightarrow> (string \<times> nat) list \<Rightarrow> config_error option" where
  "validateDisksFrom i [] seen = None"
| "validateDisksFrom i (d # ds) seen =
     (case validateOneAdditionalDisk i d seen of
        Inl e \<Rightarrow> Some e
      | Inr seen' \<Rightarrow> validateDisksFrom (Suc i) ds seen')"

definition validateAdditionalDisks :: "machine_data \<Rightarrow> config_error option" where
  "validateAdditionalDisks d =
     (if 16 < length (md_additional_disks d) then Some (TooManyDisks (length (md_additional_disks d)))
      else validateDisksFrom 0 (md_additional_disks d) [])"

definition validateOneAdditionalNIC ::
  "nat \<Rightarrow> additional_nic \<Rightarrow> string list \<Rightarrow> config_error + string list" where
  "validateOneAdditionalNIC i nic seen =
     (if an_network_interface nic = [] then Inl (NICInterfaceMissing i)
      else case validateSafeName (index_label ''additional_nics'' i ''.network_interface'') (an_network_interface nic) of
        Some e \<Rightarrow> Inl e
      | None \<Rightarrow>
          if an_network_interface nic \<in> set seen then Inl (NICDuplicate i (an_network_interface nic))
          else if an_type nic \<noteq> [] \<and> an_type nic \<noteq> ''VIRTIO'' \<and> an_type nic \<noteq> ''E1000''
          then Inl (NICBadType i (an_type nic))
          else if an_mtu nic \<noteq> 0 \<and> (an_mtu nic < 576 \<or> 9216 < an_mtu nic) then Inl (NICBadMTU i (an_mtu nic))
          else Inr (an_network_interface nic # seen))"

fun validateNICsFrom :: "nat \<Rightarrow> additional_nic list \<Rightarrow> string list \<Rightarrow> config_error option" where
  "validateNICsFrom i [] seen = None"
| "validateNICsFrom i (n # ns) seen =
     (case validateOneAdditionalNIC i n seen of
        Inl e \<Rightarrow> Some e
      | Inr seen' \<Rightarrow> validateNICsFrom (Suc i) ns seen')"

definition validateAdditionalNICs :: "machine_data \<Rightarrow> config_error option" where
  "validateAdditionalNICs d =
     (if MaxAdditionalNICs < length (md_additional_nics d) then Some (TooManyNICs (length (md_additional_nics d)))
      else validateNICsFrom 0 (md_additional_nics d)
             (if md_network_interface d \<noteq> [] then [md_network_interface d] else []))"

definition Validate :: "string \<Rightarrow> machine_data \<Rightarrow> config_error option" where
  "Validate env d =
     orElse (validateCPU d)
    (orElse (validateMemory d)
    (orElse (validateRootAndStorageDisk d)
    (orElse (validateExtensions env (md_extensions d))
    (orElse (validatePathNames d)
    (orElse (validateAdditionalDisks d)
            (validateAdditionalNICs d))))))"

section \<open>What a valid configuration is\<close>

text \<open>A declarative account of the limits, with no order of checks and no loop state.\<close>

definition optional_safe :: "string \<Rightarrow> bool" where
  "optional_safe s \<longleftrightarrow> s = [] \<or> safeNameRe s"

definition valid_prefix :: "bool \<Rightarrow> string \<Rightarrow> bool" where
  "valid_prefix strict p \<longleftrightarrow>
     p = [] \<or> (\<forall>seg \<in> set (split_all (CHR ''/'') p). (seg = [] \<and> \<not> strict) \<or> safeNameRe seg)"

definition valid_extension :: "bool \<Rightarrow> string \<Rightarrow> bool" where
  "valid_extension bypass e \<longleftrightarrow>
     e \<noteq> [] \<and> (\<forall>c \<in> set e. (of_char c :: nat) \<notin> {32, 9, 13, 10}) \<and>
     \<not> contains e ''..'' \<and> \<not> has_prefix e ''/'' \<and> \<not> contains e ''//'' \<and>
     (bypass \<or> e \<in> set allowedExtensions)"

definition valid_disk :: "additional_disk \<Rightarrow> bool" where
  "valid_disk d \<longleftrightarrow>
     5 \<le> dk_size d \<and> dk_size d \<le> 1048576 \<and> optional_safe (dk_pool d) \<and>
     valid_prefix False (dk_dataset_prefix d) \<and> optional_safe (dk_name d) \<and>
     dk_filesystem d \<in> {[], ''xfs'', ''ext4''}"

definition valid_nic :: "additional_nic \<Rightarrow> bool" where
  "valid_nic n \<longleftrightarrow>
     safeNameRe (an_network_interface n) \<and> an_type n \<in> {[], ''VIRTIO'', ''E1000''} \<and>
     (an_mtu n = 0 \<or> (576 \<le> an_mtu n \<and> an_mtu n \<le> 9216))"

definition volume_names :: "additional_disk list \<Rightarrow> string list" where
  "volume_names ds = filter (\<lambda>n. n \<noteq> []) (map dk_name ds)"

definition valid_data :: "string \<Rightarrow> machine_data \<Rightarrow> bool" where
  "valid_data env d \<longleftrightarrow>
     0 \<le> md_cpus d \<and> md_cpus d \<le> 512 \<and>
     (md_memory d = 0 \<or> 1024 \<le> md_memory d) \<and> md_memory d \<le> 16777216 \<and>
     (md_min_memory d = 0 \<or> 1024 \<le> md_min_memory d) \<and> md_min_memory d \<le> md_memory d \<and>
     (md_disk_size d = 0 \<or> 20 \<le> md_disk_size d) \<and> md_disk_size d \<le> 1048576 \<and>
     (md_storage_disk_size d = 0 \<or> 5 \<le> md_storage_disk_size d) \<and> md_storage_disk_size d \<le> 1048576 \<and>
     (\<forall>e \<in> set (md_extensions d). valid_extension (allowUnsignedExtensions env) e) \<and>
     optional_safe (md_pool d) \<and> optional_safe (md_network_interface d) \<and>
     valid_prefix True (md_dataset_prefix d) \<and>
     length (md_additional_disks d) \<le> 16 \<and> (\<forall>k \<in> set (md_additional_disks d). valid_disk k) \<and>
     distinct (volume_names (md_additional_disks d)) \<and>
     length (md_additional_nics d) \<le> 16 \<and> (\<forall>n \<in> set (md_additional_nics d). valid_nic n) \<and>
     distinct (map an_network_interface (md_additional_nics d)) \<and>
     md_network_interface d \<notin> set (map an_network_interface (md_additional_nics d))"

subsection \<open>Each check decides its part\<close>

lemma safeNameRe_Nil [simp]: "\<not> safeNameRe []"
  by (simp add: safeNameRe_def)

lemma validateSafeName_None: "validateSafeName f v = None \<longleftrightarrow> optional_safe v"
  by (simp add: validateSafeName_def optional_safe_def)

lemma validateExtension_None: "validateExtension b i e = None \<longleftrightarrow> valid_extension b e"
  by (auto simp: validateExtension_def valid_extension_def)

lemma validateExtensions_None:
  "validateExtensions env es = None \<longleftrightarrow> (\<forall>e \<in> set es. valid_extension (allowUnsignedExtensions env) e)"
proof -
  have "validateExtensionsFrom b i es = None \<longleftrightarrow> (\<forall>e \<in> set es. valid_extension b e)" for b i
    by (induction es arbitrary: i) (simp_all add: validateExtension_None)
  then show ?thesis by (simp add: validateExtensions_def)
qed

lemma validateSegments_None:
  "validateSegments l strict i segs = None \<longleftrightarrow>
   (\<forall>seg \<in> set segs. (seg = [] \<and> \<not> strict) \<or> safeNameRe seg)"
  by (induction segs arbitrary: i) (auto simp: validateSafeName_None optional_safe_def)

lemma validateDatasetPrefixSegments_None:
  "validateDatasetPrefixSegments l p strict = None \<longleftrightarrow> valid_prefix strict p"
  by (auto simp: validateDatasetPrefixSegments_def valid_prefix_def validateSegments_None)

lemma claim_volume_name_Inr:
  "claim_volume_name i d seen = Inr seen' \<longleftrightarrow>
   optional_safe (dk_name d) \<and> (dk_name d = [] \<longrightarrow> seen' = seen) \<and>
   (dk_name d \<noteq> [] \<longrightarrow> map_of seen (dk_name d) = None \<and> seen' = (dk_name d, i) # seen)"
  by (auto simp: claim_volume_name_def validateSafeName_def optional_safe_def split: option.splits if_splits)

lemma case_option_Inr:
  "(case x of Some e \<Rightarrow> Inl e | None \<Rightarrow> r) = Inr y \<longleftrightarrow> x = None \<and> r = Inr y"
  by (cases x) auto

lemma case_sum_Inr:
  "(case r of Inl e \<Rightarrow> Inl e | Inr x \<Rightarrow> f x) = Inr y \<longleftrightarrow> (\<exists>x. r = Inr x \<and> f x = Inr y)"
  by (cases r) auto

lemma validateOneAdditionalDisk_Inr:
  "validateOneAdditionalDisk i d seen = Inr seen' \<longleftrightarrow>
   valid_disk d \<and> (dk_name d = [] \<longrightarrow> seen' = seen) \<and>
   (dk_name d \<noteq> [] \<longrightarrow> map_of seen (dk_name d) = None \<and> seen' = (dk_name d, i) # seen)"
  unfolding validateOneAdditionalDisk_def case_option_Inr case_sum_Inr claim_volume_name_Inr valid_disk_def
    MinDiskSizeGiB_def MaxDiskSizeGiB_def
  by (auto simp: validateSafeName_None validateDatasetPrefixSegments_None)

lemma validateDisksFrom_None:
  "validateDisksFrom i ds seen = None \<longleftrightarrow>
   (\<forall>d \<in> set ds. valid_disk d) \<and> distinct (volume_names ds) \<and>
   set (volume_names ds) \<inter> fst ` set seen = {}"
proof (induction ds arbitrary: i seen)
  case Nil
  then show ?case by (simp add: volume_names_def)
next
  case (Cons d ds)
  show ?case
  proof (cases "validateOneAdditionalDisk i d seen")
    case (Inl e)
    then have "\<not> (\<exists>s. validateOneAdditionalDisk i d seen = Inr s)" by simp
    then have "\<not> (valid_disk d \<and> (dk_name d \<noteq> [] \<longrightarrow> map_of seen (dk_name d) = None))"
      unfolding validateOneAdditionalDisk_Inr by blast
    with Inl show ?thesis
      by (auto simp: volume_names_def map_of_eq_None_iff)
  next
    case (Inr s)
    then have v: "valid_disk d" "dk_name d = [] \<longrightarrow> s = seen"
      "dk_name d \<noteq> [] \<longrightarrow> map_of seen (dk_name d) = None \<and> s = (dk_name d, i) # seen"
      unfolding validateOneAdditionalDisk_Inr by auto
    show ?thesis
    proof (cases "dk_name d = []")
      case True
      with v Inr Cons.IH show ?thesis by (simp add: volume_names_def)
    next
      case False
      with v Inr Cons.IH show ?thesis by (auto simp: volume_names_def map_of_eq_None_iff)
    qed
  qed
qed

lemma validateOneAdditionalNIC_Inr:
  "validateOneAdditionalNIC i n seen = Inr seen' \<longleftrightarrow>
   valid_nic n \<and> an_network_interface n \<notin> set seen \<and> seen' = an_network_interface n # seen"
  unfolding validateOneAdditionalNIC_def valid_nic_def
  by (auto simp: validateSafeName_def split: option.splits if_splits)

lemma validateNICsFrom_None:
  "validateNICsFrom i ns seen = None \<longleftrightarrow>
   (\<forall>n \<in> set ns. valid_nic n) \<and> distinct (map an_network_interface ns) \<and>
   set (map an_network_interface ns) \<inter> set seen = {}"
proof (induction ns arbitrary: i seen)
  case Nil
  then show ?case by simp
next
  case (Cons n ns)
  show ?case
  proof (cases "validateOneAdditionalNIC i n seen")
    case (Inl e)
    then have "\<not> (\<exists>s. validateOneAdditionalNIC i n seen = Inr s)" by simp
    then have "\<not> (valid_nic n \<and> an_network_interface n \<notin> set seen)"
      unfolding validateOneAdditionalNIC_Inr by blast
    with Inl show ?thesis by auto
  next
    case (Inr s)
    then have "valid_nic n" "an_network_interface n \<notin> set seen" "s = an_network_interface n # seen"
      unfolding validateOneAdditionalNIC_Inr by auto
    with Inr Cons.IH show ?thesis by auto
  qed
qed

lemma validateAdditionalNICs_None:
  "validateAdditionalNICs d = None \<longleftrightarrow>
   length (md_additional_nics d) \<le> 16 \<and> (\<forall>n \<in> set (md_additional_nics d). valid_nic n) \<and>
   distinct (map an_network_interface (md_additional_nics d)) \<and>
   md_network_interface d \<notin> set (map an_network_interface (md_additional_nics d))"
proof (cases "md_network_interface d = []")
  case True
  have "[] \<notin> set (map an_network_interface ns)" if "\<forall>n \<in> set ns. valid_nic n" for ns
    using that by (fastforce simp: valid_nic_def)
  with True show ?thesis
    by (auto simp: validateAdditionalNICs_def MaxAdditionalNICs_def validateNICsFrom_None)
next
  case False
  then show ?thesis
    by (auto simp: validateAdditionalNICs_def MaxAdditionalNICs_def validateNICsFrom_None)
qed

lemma Validate_valid: "Validate env d = None \<longleftrightarrow> valid_data env d"
  unfolding Validate_def valid_data_def
  by (auto simp: validateCPU_def validateMemory_def validateRootAndStorageDisk_def
      validateExtensions_None validatePathNames_def validateSafeName_None
      validateDatasetPrefixSegments_None validateAdditionalNICs_None validateAdditionalDisks_def
      validateDisksFrom_None MaxCPUs_def MinMemoryMiB_def MaxMemoryMiB_def MinRootDiskSizeGiB_def
      MaxDiskSizeGiB_def MinDiskSizeGiB_def)


text \<open>
  C7: validation accepts exactly the valid configurations: every limit on CPUs, memory, the
  balloon floor, disks, names, path segments, extensions and NICs, the uniqueness of volume
  names and of network interfaces, with nothing let through and nothing refused besides.
\<close>

theorem Validate_iff_valid: "Validate env d = None \<longleftrightarrow> valid_data env d"
  by (rule Validate_valid)

end
