(* ===== verification/TrueNAS.thy ===== *)
theory TrueNAS
  imports GoLib
begin

text \<open>
  The vocabulary of the provider's outside world: errors, the resources TrueNAS returns,
  and the requests the code makes, one constructor per method and filter shape it uses.
  The answer to a request is an error or a decoded result. A result of another shape than
  the caller decodes is a decoding error, and an absent result leaves the Go zero value
  (\<open>handleResponse\<close> in internal/client/ws.go).
\<close>

section \<open>Errors\<close>

text \<open>
  A Go error value: an \<open>APIError\<close> of the server, any other error of the transport or of
  the context, the sentinel errors of the provisioner, the SDK's requeue request, and
  \<open>fmt.Errorf\<close> with and without wrapped errors. The text kept is the constant text of
  the message. \<open>OutOfFuel\<close> is no Go error: it marks a loop that has not ended within the
  fuel of the model.
\<close>

datatype go_error =
    APIError int string
  | TransportError string
  | DecodeError
  | ErrHostOOM
  | ErrVMNotFound
  | RetryInterval int
  | Errorf string
  | Wrapped string go_error
  | Wrapped2 string go_error go_error
  | OutOfFuel

text \<open>\<open>errors.As(err, &apiErr)\<close>: the first \<open>APIError\<close> of the chain, depth first.\<close>

fun as_api :: "go_error \<Rightarrow> (int \<times> string) option" where
  "as_api (APIError c m) = Some (c, m)"
| "as_api (Wrapped t e) = as_api e"
| "as_api (Wrapped2 t e f) = (case as_api e of None \<Rightarrow> as_api f | Some r \<Rightarrow> Some r)"
| "as_api _ = None"

text \<open>\<open>errors.Is(err, ErrHostOOM)\<close> and \<open>errors.Is(err, errVMNotFound)\<close>.\<close>

fun is_host_oom :: "go_error \<Rightarrow> bool" where
  "is_host_oom ErrHostOOM = True"
| "is_host_oom (Wrapped t e) = is_host_oom e"
| "is_host_oom (Wrapped2 t e f) = (is_host_oom e \<or> is_host_oom f)"
| "is_host_oom _ = False"

fun is_vm_not_found :: "go_error \<Rightarrow> bool" where
  "is_vm_not_found ErrVMNotFound = True"
| "is_vm_not_found (Wrapped t e) = is_vm_not_found e"
| "is_vm_not_found (Wrapped2 t e f) = (is_vm_not_found e \<or> is_vm_not_found f)"
| "is_vm_not_found _ = False"

definition ErrCodeNotFound :: int where "ErrCodeNotFound = 2"
definition ErrCodeInvalid :: int where "ErrCodeInvalid = 11"
definition ErrCodeNoMemory :: int where "ErrCodeNoMemory = 12"
definition ErrCodeDenied :: int where "ErrCodeDenied = 13"
definition ErrCodeExists :: int where "ErrCodeExists = 17"
definition ErrCodeNoSpace :: int where "ErrCodeNoSpace = 28"
definition ErrCodeMatchNotFound :: int where "ErrCodeMatchNotFound = 22"

definition IsNotFound :: "go_error \<Rightarrow> bool" where
  "IsNotFound err =
     (case as_api err of
        None \<Rightarrow> False
      | Some (code, msg) \<Rightarrow>
          code = ErrCodeNotFound \<or> (code = ErrCodeMatchNotFound \<and> contains msg ''MatchNotFound''))"

definition IsNoMemory :: "go_error \<Rightarrow> bool" where
  "IsNoMemory err =
     (case as_api err of
        None \<Rightarrow> False
      | Some (code, msg) \<Rightarrow>
          code = ErrCodeNoMemory \<or> contains msg ''[ENOMEM]'' \<or> contains msg ''Cannot guarantee memory'')"

definition containsAlreadyExists :: "string \<Rightarrow> bool" where
  "containsAlreadyExists msg \<longleftrightarrow> contains msg ''already exists'' \<or> contains msg ''Already exists''"

definition IsAlreadyExists :: "go_error \<Rightarrow> bool" where
  "IsAlreadyExists err =
     (case as_api err of
        None \<Rightarrow> False
      | Some (code, msg) \<Rightarrow> code = ErrCodeExists \<or> containsAlreadyExists msg)"

lemma IsNotFound_Wrapped [simp]: "IsNotFound (Wrapped t e) = IsNotFound e"
  by (simp add: IsNotFound_def)

lemma IsNoMemory_Wrapped [simp]: "IsNoMemory (Wrapped t e) = IsNoMemory e"
  by (simp add: IsNoMemory_def)

lemma IsAlreadyExists_Wrapped [simp]: "IsAlreadyExists (Wrapped t e) = IsAlreadyExists e"
  by (simp add: IsAlreadyExists_def)

section \<open>Resources\<close>

record vm =
  vm_id :: int
  vm_name :: string
  vm_description :: string
  vm_vcpus :: int
  vm_memory :: int
  vm_bootloader :: string
  vm_autostart :: bool
  vm_state :: string
  vm_pid :: int

definition vm_zero :: vm where
  "vm_zero = \<lparr>vm_id = 0, vm_name = [], vm_description = [], vm_vcpus = 0, vm_memory = 0,
     vm_bootloader = [], vm_autostart = False, vm_state = [], vm_pid = 0\<rparr>"

record create_vm_request =
  cv_name :: string
  cv_description :: string
  cv_uuid :: string
  cv_vcpus :: int
  cv_memory :: int
  cv_min_memory :: int
  cv_bootloader :: string
  cv_autostart :: bool
  cv_cpu_mode :: string

text \<open>Device attributes: a JSON object; the code reads and writes strings and booleans.\<close>

datatype attr = AStr string | ABool bool

type_synonym attrs = "(string \<times> attr) list"

record device =
  dev_id :: int
  dev_vm :: int
  dev_order :: int
  dev_attrs :: attrs

definition device_zero :: device where
  "device_zero = \<lparr>dev_id = 0, dev_vm = 0, dev_order = 0, dev_attrs = []\<rparr>"

record add_device_request =
  ad_vm :: int
  ad_order :: int
  ad_attrs :: attrs

text \<open>\<open>s, _ := attrs[key].(string)\<close>.\<close>

definition attr_str :: "attrs \<Rightarrow> string \<Rightarrow> string" where
  "attr_str as k = (case map_of as k of Some (AStr s) \<Rightarrow> s | _ \<Rightarrow> [])"

type_synonym user_property = "string \<times> string"

record create_dataset_request =
  cd_name :: string
  cd_type :: string
  cd_volsize :: int
  cd_encryption :: bool
  cd_inherit_encryption :: "bool option"
  cd_encryption_options :: "(string \<times> string) option"
  cd_user_properties :: "user_property list"

text \<open>What the code reads of a dataset in the answers to \<open>pool.dataset.query\<close>.\<close>

record dataset =
  ds_id :: string
  ds_name :: string
  ds_type :: string
  ds_pool :: string
  ds_user_properties :: "user_property list"
  ds_locked :: bool
  ds_volsize :: int
  ds_available :: int
  ds_used :: int

definition dataset_zero :: dataset where
  "dataset_zero = \<lparr>ds_id = [], ds_name = [], ds_type = [], ds_pool = [], ds_user_properties = [],
     ds_locked = False, ds_volsize = 0, ds_available = 0, ds_used = 0\<rparr>"

text \<open>A file's modification time is a float of the server's answer, kept as given.\<close>

record file_info =
  fi_size :: int
  fi_mtime :: string
  fi_type :: string

definition file_info_zero :: file_info where
  "file_info_zero = \<lparr>fi_size = 0, fi_mtime = ''0'', fi_type = []\<rparr>"

record file_entry =
  fe_name :: string
  fe_path :: string
  fe_type :: string

record raw_pool =
  rp_id :: int
  rp_name :: string
  rp_healthy :: bool
  rp_status :: string
  rp_size :: int

record pool_info =
  pi_id :: int
  pi_name :: string
  pi_healthy :: bool
  pi_status :: string
  pi_size :: int
  pi_free :: int
  pi_used :: int

record host_info =
  hi_hostname :: string
  hi_version :: string
  hi_physmem :: int
  hi_cores :: int

definition host_info_zero :: host_info where
  "host_info_zero = \<lparr>hi_hostname = [], hi_version = [], hi_physmem = 0, hi_cores = 0\<rparr>"

record disk_info =
  di_name :: string
  di_serial :: string
  di_size :: int
  di_type :: string
  di_pool :: string

record iface_alias =
  ia_type :: string
  ia_address :: string
  ia_netmask :: int

section \<open>Requests and answers\<close>

text \<open>
  The first block is JSON-RPC methods of TrueNAS, by method and filter; \<open>FsPut\<close> is the
  multipart upload of that many bytes of content. The second block is what the provisioner
  asks of the Omni SDK, of the image factory, of the random number generator, of its context
  (\<open>CtxErr\<close> is \<open>ctx.Err()\<close>), of a timer raced against the context (an error is the
  context's end) and of the monotonic clock, in nanoseconds. An \<open>RHttp\<close> answer holds the
  status, the announced length and the body.
\<close>

datatype op =
    VmCreate create_vm_request
  | VmGet int
  | VmList
  | VmListRunning
  | VmFindByName string
  | VmStart int
  | VmStop int bool
  | VmDelete int
  | VmResetNVRAM int
  | VmInstance int
  | DeviceCreate add_device_request
  | DeviceDelete int
  | DeviceUpdate int attrs
  | DeviceList int
  | DeviceListAll
  | DatasetCreate create_dataset_request
  | DatasetUnlock string string
  | DatasetLock string
  | DatasetGet string
  | DatasetFind string
  | DatasetListVolumes
  | DatasetListChildren string
  | DatasetSetProperty string string string
  | DatasetResize string int
  | DatasetDelete string
  | FsStat string
  | FsListdir string
  | FsPut string string int
  | PoolList
  | PoolFind string
  | NicChoices
  | InterfaceGet string
  | SystemInfo
  | SystemVersion
  | DiskList
  | ConfigPatch string "json list"
  | SchematicID "string list" "string list"
  | HttpGet string
  | NewUUID
  | RandomHex nat
  | CtxErr
  | Wait int
  | Now
  | LiveRequestIDs

datatype resp =
    RNull
  | RVM vm
  | RVMs "vm list"
  | RDevice device
  | RDevices "device list"
  | RDataset dataset
  | RDatasets "dataset list"
  | RFile file_info
  | RFiles "file_entry list"
  | RPools "raw_pool list"
  | RHost host_info
  | RAliases "iface_alias list"
  | RStrings "string list"
  | RStr string
  | RDisks "disk_info list"
  | RHttp int int string
  | RTime int

type_synonym answer = "go_error + resp"
type_synonym history = "(op \<times> answer) list"
type_synonym server = "(op, answer) env"
type_synonym ('p, 'a) client = "(op, answer, 'p, 'a) prog"

text \<open>Requests that change something outside the process.\<close>

definition is_write :: "op \<Rightarrow> bool" where
  "is_write q =
     (case q of
        VmCreate r \<Rightarrow> True | VmStart i \<Rightarrow> True | VmStop i f \<Rightarrow> True | VmDelete i \<Rightarrow> True | VmResetNVRAM i \<Rightarrow> True
      | DeviceCreate r \<Rightarrow> True | DeviceDelete i \<Rightarrow> True | DeviceUpdate i as \<Rightarrow> True
      | DatasetCreate r \<Rightarrow> True | DatasetUnlock p s \<Rightarrow> True | DatasetLock p \<Rightarrow> True
      | DatasetSetProperty p k v \<Rightarrow> True | DatasetResize p n \<Rightarrow> True | DatasetDelete p \<Rightarrow> True
      | FsPut p c n \<Rightarrow> True | ConfigPatch n ds \<Rightarrow> True | _ \<Rightarrow> False)"

text \<open>Decoding an answer into the type the caller asked for.\<close>

fun dec_vm :: "answer \<Rightarrow> go_error + vm" where
  "dec_vm (Inl e) = Inl e"
| "dec_vm (Inr (RVM v)) = Inr v"
| "dec_vm (Inr RNull) = Inr vm_zero"
| "dec_vm _ = Inl DecodeError"

fun dec_vms :: "answer \<Rightarrow> go_error + vm list" where
  "dec_vms (Inl e) = Inl e"
| "dec_vms (Inr (RVMs vs)) = Inr vs"
| "dec_vms (Inr RNull) = Inr []"
| "dec_vms _ = Inl DecodeError"

fun dec_device :: "answer \<Rightarrow> go_error + device" where
  "dec_device (Inl e) = Inl e"
| "dec_device (Inr (RDevice d)) = Inr d"
| "dec_device (Inr RNull) = Inr device_zero"
| "dec_device _ = Inl DecodeError"

fun dec_devices :: "answer \<Rightarrow> go_error + device list" where
  "dec_devices (Inl e) = Inl e"
| "dec_devices (Inr (RDevices ds)) = Inr ds"
| "dec_devices (Inr RNull) = Inr []"
| "dec_devices _ = Inl DecodeError"

fun dec_dataset :: "answer \<Rightarrow> go_error + dataset" where
  "dec_dataset (Inl e) = Inl e"
| "dec_dataset (Inr (RDataset d)) = Inr d"
| "dec_dataset (Inr RNull) = Inr dataset_zero"
| "dec_dataset _ = Inl DecodeError"

fun dec_datasets :: "answer \<Rightarrow> go_error + dataset list" where
  "dec_datasets (Inl e) = Inl e"
| "dec_datasets (Inr (RDatasets ds)) = Inr ds"
| "dec_datasets (Inr RNull) = Inr []"
| "dec_datasets _ = Inl DecodeError"

fun dec_file :: "answer \<Rightarrow> go_error + file_info" where
  "dec_file (Inl e) = Inl e"
| "dec_file (Inr (RFile f)) = Inr f"
| "dec_file (Inr RNull) = Inr file_info_zero"
| "dec_file _ = Inl DecodeError"

fun dec_files :: "answer \<Rightarrow> go_error + file_entry list" where
  "dec_files (Inl e) = Inl e"
| "dec_files (Inr (RFiles fs)) = Inr fs"
| "dec_files (Inr RNull) = Inr []"
| "dec_files _ = Inl DecodeError"

fun dec_pools :: "answer \<Rightarrow> go_error + raw_pool list" where
  "dec_pools (Inl e) = Inl e"
| "dec_pools (Inr (RPools ps)) = Inr ps"
| "dec_pools (Inr RNull) = Inr []"
| "dec_pools _ = Inl DecodeError"

fun dec_host :: "answer \<Rightarrow> go_error + host_info" where
  "dec_host (Inl e) = Inl e"
| "dec_host (Inr (RHost h)) = Inr h"
| "dec_host (Inr RNull) = Inr host_info_zero"
| "dec_host _ = Inl DecodeError"

fun dec_aliases :: "answer \<Rightarrow> go_error + iface_alias list" where
  "dec_aliases (Inl e) = Inl e"
| "dec_aliases (Inr (RAliases xs)) = Inr xs"
| "dec_aliases (Inr RNull) = Inr []"
| "dec_aliases _ = Inl DecodeError"

fun dec_strings :: "answer \<Rightarrow> go_error + string list" where
  "dec_strings (Inl e) = Inl e"
| "dec_strings (Inr (RStrings xs)) = Inr xs"
| "dec_strings (Inr RNull) = Inr []"
| "dec_strings _ = Inl DecodeError"

fun dec_disks :: "answer \<Rightarrow> go_error + disk_info list" where
  "dec_disks (Inl e) = Inl e"
| "dec_disks (Inr (RDisks ds)) = Inr ds"
| "dec_disks (Inr RNull) = Inr []"
| "dec_disks _ = Inl DecodeError"

fun dec_http :: "answer \<Rightarrow> go_error + (int \<times> int \<times> string)" where
  "dec_http (Inl e) = Inl e"
| "dec_http (Inr (RHttp status len body)) = Inr (status, len, body)"
| "dec_http _ = Inl DecodeError"

fun dec_time :: "answer \<Rightarrow> int" where
  "dec_time (Inr (RTime t)) = t"
| "dec_time _ = 0"

fun dec_str :: "answer \<Rightarrow> go_error + string" where
  "dec_str (Inl e) = Inl e"
| "dec_str (Inr (RStr s)) = Inr s"
| "dec_str (Inr RNull) = Inr []"
| "dec_str _ = Inl DecodeError"

text \<open>A call that decodes no result.\<close>

fun dec_unit :: "answer \<Rightarrow> go_error + unit" where
  "dec_unit (Inl e) = Inl e"
| "dec_unit (Inr r) = Inr ()"

text \<open>\<open>if err := ...; err != nil { return fmt.Errorf("t: %w", err) }\<close>.\<close>

definition wrap :: "string \<Rightarrow> go_error + 'a \<Rightarrow> go_error + 'a" where
  "wrap t r = map_sum (Wrapped t) (\<lambda>x. x) r"

lemma wrap_simps [simp]: "wrap t (Inl e) = Inl (Wrapped t e)" "wrap t (Inr x) = Inr x"
  by (simp_all add: wrap_def)

lemma wrap_Inr_iff [simp]: "wrap t r = Inr x \<longleftrightarrow> r = Inr x"
  by (cases r) auto

end
