(* ===== verification/Client.thy ===== *)
theory Client
  imports TrueNAS
begin

text \<open>
  The TrueNAS client of internal/client: one definition per exported method of vm.go,
  device.go, storage.go and host.go. Each asks the server through \<open>Client.call\<close>, which
  takes a slot of the concurrency semaphore and hands the request to the transport; a
  cancelled context is one of the errors the server's answer may be.
\<close>

section \<open>Virtual machines (vm.go)\<close>

definition CreateVM :: "server \<Rightarrow> create_vm_request \<Rightarrow> ('p, go_error + vm) client" where
  "CreateVM srv req = do { r \<leftarrow> ask srv (VmCreate req); ret (wrap ''vm.create failed: '' (dec_vm r)) }"

definition GetVM :: "server \<Rightarrow> int \<Rightarrow> ('p, go_error + vm) client" where
  "GetVM srv i = do { r \<leftarrow> ask srv (VmGet i); ret (wrap ''vm.query failed: '' (dec_vm r)) }"

definition ListVMs :: "server \<Rightarrow> ('p, go_error + vm list) client" where
  "ListVMs srv = do { r \<leftarrow> ask srv VmList; ret (wrap ''vm.query failed: '' (dec_vms r)) }"

definition running_memory :: "vm list \<Rightarrow> int" where
  "running_memory vms = fold (\<lambda>v total. if vm_state v = ''RUNNING'' then i64 (total + vm_memory v) else total) vms 0"

definition RunningGuestsMemoryMiB :: "server \<Rightarrow> ('p, go_error + int) client" where
  "RunningGuestsMemoryMiB srv = do {
     r \<leftarrow> ask srv VmListRunning;
     ret (map_sum (Wrapped ''vm.query (running guests) failed: '') running_memory (dec_vms r)) }"

definition FindVMByName :: "server \<Rightarrow> string \<Rightarrow> ('p, go_error + vm option) client" where
  "FindVMByName srv n = do {
     r \<leftarrow> ask srv (VmFindByName n);
     ret (case dec_vms r of
            Inl e \<Rightarrow> Inl (Wrapped ''vm.query failed: '' e)
          | Inr [] \<Rightarrow> Inr None
          | Inr (v # vs) \<Rightarrow> Inr (Some v)) }"

definition StartVM :: "server \<Rightarrow> int \<Rightarrow> ('p, go_error + unit) client" where
  "StartVM srv i = do { r \<leftarrow> ask srv (VmStart i); ret (wrap ''vm.start failed: '' (dec_unit r)) }"

definition StopVM :: "server \<Rightarrow> int \<Rightarrow> bool \<Rightarrow> ('p, go_error + unit) client" where
  "StopVM srv i force = do { r \<leftarrow> ask srv (VmStop i force); ret (wrap ''vm.stop failed: '' (dec_unit r)) }"

definition DeleteVM :: "server \<Rightarrow> int \<Rightarrow> ('p, go_error + unit) client" where
  "DeleteVM srv i = do {
     r \<leftarrow> ask srv (VmDelete i);
     ret (case dec_unit r of
            Inl e \<Rightarrow> if IsNotFound e then Inr () else Inl (Wrapped ''vm.delete failed: '' e)
          | Inr u \<Rightarrow> Inr ()) }"

section \<open>Devices (device.go)\<close>

definition AddDevice :: "server \<Rightarrow> add_device_request \<Rightarrow> ('p, go_error + device) client" where
  "AddDevice srv req = do {
     r \<leftarrow> ask srv (DeviceCreate req);
     ret (wrap ''vm.device.create failed: '' (dec_device r)) }"

definition AddCDROM :: "server \<Rightarrow> int \<Rightarrow> string \<Rightarrow> ('p, go_error + device) client" where
  "AddCDROM srv vm isoPath = AddDevice srv
     \<lparr>ad_vm = vm, ad_order = 1500, ad_attrs = [(''dtype'', AStr ''CDROM''), (''path'', AStr isoPath)]\<rparr>"

record nic_config =
  nc_network_interface :: string
  nc_type :: string
  nc_mac :: string
  nc_mtu :: int
  nc_trust_guest_rx_filters :: bool

definition is_lower_hex :: "char \<Rightarrow> bool" where
  "is_lower_hex c \<longleftrightarrow> (let k = (of_char c :: nat) in (48 \<le> k \<and> k \<le> 57) \<or> (97 \<le> k \<and> k \<le> 102))"

text \<open>The regular expression \<open>^([0-9a-f]{2}:){5}[0-9a-f]{2}$\<close>.\<close>

definition macRe :: "string \<Rightarrow> bool" where
  "macRe s \<longleftrightarrow> (let parts = split_all (CHR '':'') s
                in length parts = 6 \<and> (\<forall>p \<in> set parts. length p = 2 \<and> (\<forall>c \<in> set p. is_lower_hex c)))"

definition AddNICWithConfig :: "server \<Rightarrow> int \<Rightarrow> nic_config \<Rightarrow> int \<Rightarrow> ('p, go_error + device) client" where
  "AddNICWithConfig srv vm cfg order =
     (if nc_mac cfg \<noteq> [] \<and> \<not> macRe (nc_mac cfg)
      then ret (Inl (Errorf ''invalid MAC address: must be lowercase colon-separated hex''))
      else
        let nicType = (if nc_type cfg = [] then ''VIRTIO'' else nc_type cfg);
            as = [(''dtype'', AStr ''NIC''), (''type'', AStr nicType),
                  (''nic_attach'', AStr (nc_network_interface cfg))]
                 @ (if nc_mac cfg \<noteq> [] then [(''mac'', AStr (nc_mac cfg))] else [])
                 @ (if nc_trust_guest_rx_filters cfg then [(''trust_guest_rx_filters'', ABool True)] else [])
        in AddDevice srv \<lparr>ad_vm = vm, ad_order = order, ad_attrs = as\<rparr>)"

definition AddNIC :: "server \<Rightarrow> int \<Rightarrow> string \<Rightarrow> ('p, go_error + device) client" where
  "AddNIC srv vm nicAttach = AddNICWithConfig srv vm
     \<lparr>nc_network_interface = nicAttach, nc_type = [], nc_mac = [], nc_mtu = 0, nc_trust_guest_rx_filters = False\<rparr> 2001"

definition DeleteDevice :: "server \<Rightarrow> int \<Rightarrow> ('p, go_error + unit) client" where
  "DeleteDevice srv i = do {
     r \<leftarrow> ask srv (DeviceDelete i);
     ret (case dec_unit r of
            Inl e \<Rightarrow> if IsNotFound e then Inr () else Inl (Wrapped ''vm.device.delete failed: '' e)
          | Inr u \<Rightarrow> Inr ()) }"

definition UpdateDevice :: "server \<Rightarrow> int \<Rightarrow> attrs \<Rightarrow> ('p, go_error + device) client" where
  "UpdateDevice srv i as = do {
     r \<leftarrow> ask srv (DeviceUpdate i as);
     ret (wrap ''vm.device.update failed: '' (dec_device r)) }"

definition ListDevices :: "server \<Rightarrow> int \<Rightarrow> ('p, go_error + device list) client" where
  "ListDevices srv vm = do {
     r \<leftarrow> ask srv (DeviceList vm);
     ret (wrap ''vm.device.query failed: '' (dec_devices r)) }"

text \<open>
  The MAC addresses on a segment with the VM that has each; a later device of the same
  MAC replaces the earlier one, as the Go map does.
\<close>

definition segment_macs :: "string \<Rightarrow> device list \<Rightarrow> (string \<times> int) list" where
  "segment_macs nicAttach ds =
     fold (\<lambda>d macs.
             if attr_str (dev_attrs d) ''dtype'' \<noteq> ''NIC'' then macs
             else if attr_str (dev_attrs d) ''nic_attach'' \<noteq> nicAttach then macs
             else let mac = attr_str (dev_attrs d) ''mac''
                  in if mac \<noteq> [] then (to_lower mac, dev_vm d) # macs else macs) ds []"

definition NICMACsOnSegment :: "server \<Rightarrow> string \<Rightarrow> ('p, go_error + (string \<times> int) list) client" where
  "NICMACsOnSegment srv nicAttach = do {
     r \<leftarrow> ask srv DeviceListAll;
     ret (map_sum (Wrapped ''vm.device.query failed: '') (segment_macs nicAttach) (dec_devices r)) }"

definition FindCDROM :: "server \<Rightarrow> int \<Rightarrow> ('p, go_error + device option) client" where
  "FindCDROM srv vm = do {
     r \<leftarrow> ListDevices srv vm;
     ret (map_sum (\<lambda>e. e) (find (\<lambda>d. attr_str (dev_attrs d) ''dtype'' = ''CDROM'')) r) }"

definition SwapCDROM :: "server \<Rightarrow> int \<Rightarrow> string \<Rightarrow> ('p, go_error + device) client" where
  "SwapCDROM srv vm isoPath = do {
     r \<leftarrow> FindCDROM srv vm;
     case r of
       Inl e \<Rightarrow> ret (Inl (Wrapped ''failed to find CDROM: '' e))
     | Inr (Some d) \<Rightarrow> UpdateDevice srv (dev_id d) [(''dtype'', AStr ''CDROM''), (''path'', AStr isoPath)]
     | Inr None \<Rightarrow> AddCDROM srv vm isoPath }"

definition ResetVMNVRAM :: "server \<Rightarrow> int \<Rightarrow> ('p, go_error + unit) client" where
  "ResetVMNVRAM srv vm = do {
     r \<leftarrow> ask srv (VmResetNVRAM vm);
     ret (wrap ''vm.update (reset NVRAM) failed: '' (dec_unit r)) }"

definition AddDiskWithOrder :: "server \<Rightarrow> int \<Rightarrow> string \<Rightarrow> int \<Rightarrow> ('p, go_error + device) client" where
  "AddDiskWithOrder srv vm zvolPath order = AddDevice srv
     \<lparr>ad_vm = vm, ad_order = order,
      ad_attrs = [(''dtype'', AStr ''DISK''), (''type'', AStr ''VIRTIO''),
                  (''path'', AStr (''/dev/zvol/'' @ zvolPath))]\<rparr>"

definition AddDisk :: "server \<Rightarrow> int \<Rightarrow> string \<Rightarrow> ('p, go_error + device) client" where
  "AddDisk srv vm zvolPath = AddDiskWithOrder srv vm zvolPath 1000"

section \<open>Datasets, files and networks (storage.go)\<close>

definition OmniManagedProperties :: "string \<Rightarrow> user_property list" where
  "OmniManagedProperties requestID =
     [(''org.omni:managed'', ''true''), (''org.omni:provider'', ''truenas''), (''org.omni:request-id'', requestID)]"

definition CreateDataset :: "server \<Rightarrow> create_dataset_request \<Rightarrow> ('p, go_error + dataset) client" where
  "CreateDataset srv req = do {
     r \<leftarrow> ask srv (DatasetCreate req);
     ret (wrap ''pool.dataset.create failed: '' (dec_dataset r)) }"

definition gib_bytes :: "int \<Rightarrow> int" where
  "gib_bytes sizeGiB = i64 (sizeGiB * 1024 * 1024 * 1024)"

definition CreateZvol :: "server \<Rightarrow> string \<Rightarrow> int \<Rightarrow> user_property list \<Rightarrow> ('p, go_error + dataset) client" where
  "CreateZvol srv name sizeGiB props = CreateDataset srv
     \<lparr>cd_name = name, cd_type = ''VOLUME'', cd_volsize = gib_bytes sizeGiB, cd_encryption = False,
      cd_inherit_encryption = None, cd_encryption_options = None, cd_user_properties = props\<rparr>"

definition CreateEncryptedZvol ::
  "server \<Rightarrow> string \<Rightarrow> int \<Rightarrow> string \<Rightarrow> user_property list \<Rightarrow> ('p, go_error + dataset) client" where
  "CreateEncryptedZvol srv name sizeGiB passphrase props = CreateDataset srv
     \<lparr>cd_name = name, cd_type = ''VOLUME'', cd_volsize = gib_bytes sizeGiB, cd_encryption = True,
      cd_inherit_encryption = Some False, cd_encryption_options = Some (''AES-256-GCM'', passphrase),
      cd_user_properties = props\<rparr>"

definition UnlockDataset :: "server \<Rightarrow> string \<Rightarrow> string \<Rightarrow> ('p, go_error + unit) client" where
  "UnlockDataset srv path passphrase = do {
     r \<leftarrow> ask srv (DatasetUnlock path passphrase);
     ret (wrap ''pool.dataset.unlock failed: '' (dec_unit r)) }"

definition LockDataset :: "server \<Rightarrow> string \<Rightarrow> ('p, go_error + unit) client" where
  "LockDataset srv path = do {
     r \<leftarrow> ask srv (DatasetLock path);
     ret (wrap ''pool.dataset.lock failed: '' (dec_unit r)) }"

definition IsDatasetLocked :: "server \<Rightarrow> string \<Rightarrow> ('p, go_error + bool) client" where
  "IsDatasetLocked srv path = do {
     r \<leftarrow> ask srv (DatasetGet path);
     ret (map_sum (Wrapped ''pool.dataset.query failed: '') ds_locked (dec_dataset r)) }"

definition SetDatasetUserProperty :: "server \<Rightarrow> string \<Rightarrow> string \<Rightarrow> string \<Rightarrow> ('p, go_error + unit) client" where
  "SetDatasetUserProperty srv path key value = do {
     r \<leftarrow> ask srv (DatasetSetProperty path key value);
     ret (wrap ''pool.dataset.update failed: '' (dec_unit r)) }"

definition GetDatasetUserProperties :: "server \<Rightarrow> string \<Rightarrow> ('p, go_error + user_property list) client" where
  "GetDatasetUserProperties srv path = do {
     r \<leftarrow> ask srv (DatasetGet path);
     ret (map_sum (Wrapped ''pool.dataset.query failed: '') ds_user_properties (dec_dataset r)) }"

text \<open>Reading a Go map: the empty string for a missing key.\<close>

definition get_prop :: "user_property list \<Rightarrow> string \<Rightarrow> string" where
  "get_prop ps k = (case map_of ps k of None \<Rightarrow> [] | Some v \<Rightarrow> v)"

definition GetDatasetUserProperty :: "server \<Rightarrow> string \<Rightarrow> string \<Rightarrow> ('p, go_error + string) client" where
  "GetDatasetUserProperty srv path property = do {
     r \<leftarrow> GetDatasetUserProperties srv path;
     ret (map_sum (\<lambda>e. e) (\<lambda>ps. get_prop ps property) r) }"

definition filesystem_request :: "string \<Rightarrow> create_dataset_request" where
  "filesystem_request name =
     \<lparr>cd_name = name, cd_type = ''FILESYSTEM'', cd_volsize = 0, cd_encryption = False,
      cd_inherit_encryption = None, cd_encryption_options = None, cd_user_properties = []\<rparr>"

definition EnsureDataset :: "server \<Rightarrow> string \<Rightarrow> ('p, go_error + unit) client" where
  "EnsureDataset srv name = do {
     r \<leftarrow> CreateDataset srv (filesystem_request name);
     ret (case r of
            Inl e \<Rightarrow> if IsAlreadyExists e then Inr () else Inl e
          | Inr d \<Rightarrow> Inr ()) }"

definition DatasetExists :: "server \<Rightarrow> string \<Rightarrow> ('p, go_error + bool) client" where
  "DatasetExists srv path = do {
     r \<leftarrow> ask srv (DatasetFind path);
     ret (map_sum (Wrapped ''pool.dataset.query failed: '') (\<lambda>ds. ds \<noteq> []) (dec_datasets r)) }"

record managed_zvol =
  mz_path :: string
  mz_request_id :: string

definition managed_zvol_of :: "dataset \<Rightarrow> managed_zvol option" where
  "managed_zvol_of ds =
     (if map_of (ds_user_properties ds) ''org.omni:managed'' \<noteq> Some ''true'' then None
      else case map_of (ds_user_properties ds) ''org.omni:request-id'' of
             None \<Rightarrow> None
           | Some reqID \<Rightarrow> if reqID = [] then None else Some \<lparr>mz_path = ds_id ds, mz_request_id = reqID\<rparr>)"

definition ListManagedZvols :: "server \<Rightarrow> ('p, go_error + managed_zvol list) client" where
  "ListManagedZvols srv = do {
     r \<leftarrow> ask srv DatasetListVolumes;
     ret (map_sum (Wrapped ''pool.dataset.query failed: '') (List.map_filter managed_zvol_of) (dec_datasets r)) }"

definition DeleteDataset :: "server \<Rightarrow> string \<Rightarrow> ('p, go_error + unit) client" where
  "DeleteDataset srv path = do {
     r \<leftarrow> ask srv (DatasetDelete path);
     ret (case dec_unit r of
            Inl e \<Rightarrow> if IsNotFound e then Inr () else Inl (Wrapped ''pool.dataset.delete failed: '' e)
          | Inr u \<Rightarrow> Inr ()) }"

definition StatFile :: "server \<Rightarrow> string \<Rightarrow> ('p, go_error + file_info option) client" where
  "StatFile srv path = do {
     r \<leftarrow> ask srv (FsStat path);
     ret (case dec_file r of
            Inl e \<Rightarrow> if IsNotFound e then Inr None else Inl (Wrapped ''filesystem.stat failed: '' e)
          | Inr i \<Rightarrow> Inr (Some i)) }"

definition FileExists :: "server \<Rightarrow> string \<Rightarrow> ('p, go_error + bool) client" where
  "FileExists srv path = do {
     r \<leftarrow> StatFile srv path;
     ret (map_sum (\<lambda>e. e) (\<lambda>i. i \<noteq> None) r) }"

definition UploadFile :: "server \<Rightarrow> string \<Rightarrow> string \<Rightarrow> int \<Rightarrow> ('p, go_error + unit) client" where
  "UploadFile srv destPath content len = do { r \<leftarrow> ask srv (FsPut destPath content len); ret (dec_unit r) }"

definition ListFiles :: "server \<Rightarrow> string \<Rightarrow> ('p, go_error + file_entry list) client" where
  "ListFiles srv path = do {
     r \<leftarrow> ask srv (FsListdir path);
     ret (case dec_files r of
            Inl e \<Rightarrow> if IsNotFound e then Inr [] else Inl (Wrapped ''filesystem.listdir failed: '' e)
          | Inr fs \<Rightarrow> Inr fs) }"

definition RecreateDataset :: "server \<Rightarrow> string \<Rightarrow> ('p, go_error + unit) client" where
  "RecreateDataset srv name = do {
     d \<leftarrow> DeleteDataset srv name;
     case d of
       Inl e \<Rightarrow> ret (Inl (Wrapped ''failed to delete dataset: '' e))
     | Inr u \<Rightarrow> do {
         r \<leftarrow> CreateDataset srv (filesystem_request name);
         ret (map_sum (Wrapped ''failed to recreate dataset: '') (\<lambda>d. ()) r) } }"

definition ListChildDatasets :: "server \<Rightarrow> string \<Rightarrow> ('p, go_error + dataset list) client" where
  "ListChildDatasets srv parentPath = do {
     r \<leftarrow> ask srv (DatasetListChildren (parentPath @ ''/''));
     ret (wrap ''pool.dataset.query failed: '' (dec_datasets r)) }"

definition GetZvolSize :: "server \<Rightarrow> string \<Rightarrow> ('p, go_error + int) client" where
  "GetZvolSize srv path = do {
     r \<leftarrow> ask srv (DatasetGet path);
     ret (map_sum (Wrapped ''pool.dataset.query failed: '') ds_volsize (dec_dataset r)) }"

definition ResizeZvol :: "server \<Rightarrow> string \<Rightarrow> int \<Rightarrow> ('p, go_error + unit) client" where
  "ResizeZvol srv path newSizeGiB = do {
     r \<leftarrow> ask srv (DatasetResize path (gib_bytes newSizeGiB));
     ret (wrap ''pool.dataset.update (resize) failed: '' (dec_unit r)) }"

definition getRootDatasetSpace :: "server \<Rightarrow> string \<Rightarrow> ('p, go_error + dataset) client" where
  "getRootDatasetSpace srv poolName = do { r \<leftarrow> ask srv (DatasetGet poolName); ret (dec_dataset r) }"

definition PoolFreeSpace :: "server \<Rightarrow> string \<Rightarrow> ('p, go_error + int) client" where
  "PoolFreeSpace srv pool = do {
     r \<leftarrow> getRootDatasetSpace srv pool;
     ret (map_sum (Wrapped ''failed to query pool space: '') ds_available r) }"

definition SystemMemoryAvailable :: "server \<Rightarrow> ('p, go_error + int) client" where
  "SystemMemoryAvailable srv = do {
     r \<leftarrow> ask srv SystemInfo;
     ret (map_sum (Wrapped ''system.info failed: '') hi_physmem (dec_host r)) }"

definition PoolExists :: "server \<Rightarrow> string \<Rightarrow> ('p, go_error + bool) client" where
  "PoolExists srv pool = do {
     r \<leftarrow> ask srv (PoolFind pool);
     ret (map_sum (Wrapped ''pool.query failed: '') (\<lambda>ps. ps \<noteq> []) (dec_pools r)) }"

definition NetworkInterfaceChoices :: "server \<Rightarrow> ('p, go_error + string list) client" where
  "NetworkInterfaceChoices srv = do {
     r \<leftarrow> ask srv NicChoices;
     ret (wrap ''vm.device.nic_attach_choices failed: '' (dec_strings r)) }"

definition NetworkInterfaceValid :: "server \<Rightarrow> string \<Rightarrow> ('p, go_error + bool) client" where
  "NetworkInterfaceValid srv networkInterface = do {
     r \<leftarrow> NetworkInterfaceChoices srv;
     ret (map_sum (\<lambda>e. e) (\<lambda>cs. networkInterface \<in> set cs) r) }"

definition show_ipv4 :: "nat \<Rightarrow> string" where
  "show_ipv4 n = join ''.'' (map show_nat [n div 256 ^ 3 mod 256, n div 256 ^ 2 mod 256, n div 256 mod 256, n mod 256])"

text \<open>\<open>ip.Mask(net.CIDRMask(bits, 32))\<close>; a mask out of range prints as a nil address.\<close>

definition mask_ipv4 :: "nat \<Rightarrow> int \<Rightarrow> string" where
  "mask_ipv4 ip bits =
     (if bits < 0 \<or> 32 < bits then ''<nil>''
      else let k = 2 ^ (32 - nat bits) in show_ipv4 (ip div k * k))"

fun first_subnet :: "iface_alias list \<Rightarrow> string" where
  "first_subnet [] = []"
| "first_subnet (a # as) =
     (if ia_type a = ''INET'' then
        (case parse_ipv4 (ia_address a) of
           None \<Rightarrow> first_subnet as
         | Some ip \<Rightarrow> mask_ipv4 ip (ia_netmask a) @ ''/'' @ format_int (ia_netmask a))
      else first_subnet as)"

definition InterfaceSubnet :: "server \<Rightarrow> string \<Rightarrow> ('p, go_error + string) client" where
  "InterfaceSubnet srv name = do {
     r \<leftarrow> ask srv (InterfaceGet name);
     ret (map_sum (Wrapped ''interface.query failed: '') first_subnet (dec_aliases r)) }"

definition first_ip :: "iface_alias list \<Rightarrow> string" where
  "first_ip as = (case find (\<lambda>a. ia_type a = ''INET'' \<and> ia_address a \<noteq> []) as of None \<Rightarrow> [] | Some a \<Rightarrow> ia_address a)"

definition InterfaceIP :: "server \<Rightarrow> string \<Rightarrow> ('p, go_error + string) client" where
  "InterfaceIP srv name = do {
     r \<leftarrow> ask srv (InterfaceGet name);
     ret (map_sum (Wrapped ''interface.query failed: '') first_ip (dec_aliases r)) }"

section \<open>Host (host.go)\<close>

definition GetHostInfo :: "server \<Rightarrow> ('p, go_error + host_info) client" where
  "GetHostInfo srv = do { r \<leftarrow> ask srv SystemInfo; ret (wrap ''system.info failed: '' (dec_host r)) }"

definition GetSystemVersion :: "server \<Rightarrow> ('p, go_error + string) client" where
  "GetSystemVersion srv = do { r \<leftarrow> ask srv SystemVersion; ret (wrap ''system.version failed: '' (dec_str r)) }"

definition ListDisks :: "server \<Rightarrow> ('p, go_error + disk_info list) client" where
  "ListDisks srv = do { r \<leftarrow> ask srv DiskList; ret (wrap ''disk.query failed: '' (dec_disks r)) }"

definition GetVMInstance :: "server \<Rightarrow> int \<Rightarrow> ('p, go_error + vm) client" where
  "GetVMInstance srv i = do { r \<leftarrow> ask srv (VmInstance i); ret (wrap ''vm.get_instance failed: '' (dec_vm r)) }"

definition pool_of_raw :: "raw_pool \<Rightarrow> go_error + dataset \<Rightarrow> pool_info" where
  "pool_of_raw rp space =
     (let p = \<lparr>pi_id = rp_id rp, pi_name = rp_name rp, pi_healthy = rp_healthy rp, pi_status = rp_status rp,
               pi_size = rp_size rp, pi_free = rp_size rp, pi_used = 0\<rparr>
      in case space of
           Inl e \<Rightarrow> p
         | Inr ds \<Rightarrow> p\<lparr>pi_free := ds_available ds, pi_used := ds_used ds\<rparr>)"

fun pools_of_raw :: "server \<Rightarrow> raw_pool list \<Rightarrow> ('p, pool_info list) client" where
  "pools_of_raw srv [] = ret []"
| "pools_of_raw srv (rp # rps) = do {
     ds \<leftarrow> getRootDatasetSpace srv (rp_name rp);
     ps \<leftarrow> pools_of_raw srv rps;
     ret (pool_of_raw rp ds # ps) }"

definition ListPools :: "server \<Rightarrow> ('p, go_error + pool_info list) client" where
  "ListPools srv = do {
     r \<leftarrow> ask srv PoolList;
     case dec_pools r of
       Inl e \<Rightarrow> ret (Inl (Wrapped ''pool.query failed: '' e))
     | Inr rps \<Rightarrow> do { ps \<leftarrow> pools_of_raw srv rps; ret (Inr ps) } }"

lemmas client_defs =
  CreateVM_def GetVM_def ListVMs_def RunningGuestsMemoryMiB_def FindVMByName_def StartVM_def StopVM_def
  DeleteVM_def AddDevice_def AddCDROM_def AddNICWithConfig_def AddNIC_def DeleteDevice_def UpdateDevice_def
  ListDevices_def NICMACsOnSegment_def FindCDROM_def SwapCDROM_def ResetVMNVRAM_def AddDiskWithOrder_def
  AddDisk_def CreateDataset_def CreateZvol_def CreateEncryptedZvol_def UnlockDataset_def LockDataset_def
  IsDatasetLocked_def SetDatasetUserProperty_def GetDatasetUserProperties_def GetDatasetUserProperty_def
  EnsureDataset_def DatasetExists_def ListManagedZvols_def DeleteDataset_def StatFile_def FileExists_def
  UploadFile_def ListFiles_def RecreateDataset_def ListChildDatasets_def GetZvolSize_def ResizeZvol_def
  getRootDatasetSpace_def PoolFreeSpace_def SystemMemoryAvailable_def PoolExists_def
  NetworkInterfaceChoices_def NetworkInterfaceValid_def InterfaceSubnet_def InterfaceIP_def GetHostInfo_def
  ListPools_def GetSystemVersion_def ListDisks_def GetVMInstance_def

end
