(* ===== verification/Patches.thy ===== *)
theory Patches
  imports MachineData Client
begin

text \<open>
  The Talos configuration patches (internal/provisioner/config_patch.go and user_volume.go).
  A patch is a list of documents; marshalling them to JSON or YAML text is the library's.
  A builder returns an error, no patch (\<open>nil\<close>), or the documents.
\<close>

section \<open>Names and small objects\<close>

definition patchName :: "string \<Rightarrow> string \<Rightarrow> string" where
  "patchName kind requestID = kind @ ''-'' @ requestID"

abbreviation obj1 :: "string \<Rightarrow> json \<Rightarrow> json" where
  "obj1 k v \<equiv> JObj [(k, v)]"

text \<open>A nil slice marshals to \<open>null\<close>.\<close>

definition json_slice :: "json list \<Rightarrow> json" where
  "json_slice xs = (if xs = [] then JNull else JArr xs)"

definition network_patch :: "json list \<Rightarrow> json" where
  "network_patch interfaces = obj1 ''machine'' (obj1 ''network'' (obj1 ''interfaces'' (json_slice interfaces)))"

section \<open>MTU\<close>

record nic_mtu_config =
  nm_mac :: string
  nm_mtu :: int

definition mtu_interface :: "nic_mtu_config \<Rightarrow> json" where
  "mtu_interface n =
     JObj [(''deviceSelector'', obj1 ''hardwareAddr'' (JStr (nm_mac n))), (''mtu'', JInt (nm_mtu n))]"

definition buildMTUPatch :: "nic_mtu_config list \<Rightarrow> json" where
  "buildMTUPatch nics = network_patch (map mtu_interface nics)"

section \<open>Advertised subnets\<close>

text \<open>\<open>Inl s\<close>: the entry \<open>s\<close> is not a CIDR.\<close>

fun parse_subnets :: "string list \<Rightarrow> string + string list" where
  "parse_subnets [] = Inr []"
| "parse_subnets (t # ts) =
     (let s = trim_space t in
      if s = [] then parse_subnets ts
      else if \<not> valid_cidr s then Inl s
      else map_sum (\<lambda>e. e) (\<lambda>ss. s # ss) (parse_subnets ts))"

definition parseAdvertisedSubnets :: "string \<Rightarrow> string + string list" where
  "parseAdvertisedSubnets s = (if s = [] then Inr [] else parse_subnets (split_all (CHR '','') s))"

definition kubelet_subnets :: "string list \<Rightarrow> json" where
  "kubelet_subnets subnets =
     obj1 ''kubelet'' (obj1 ''nodeIP'' (obj1 ''validSubnets'' (JArr (map JStr subnets))))"

definition buildAdvertisedSubnetsPatch :: "string \<Rightarrow> string + json option" where
  "buildAdvertisedSubnetsPatch s =
     (case parseAdvertisedSubnets s of
        Inl e \<Rightarrow> Inl e
      | Inr subnets \<Rightarrow>
          Inr (if subnets = [] then None
               else Some (JObj [(''cluster'', obj1 ''etcd'' (obj1 ''advertisedSubnets'' (JArr (map JStr subnets)))),
                                (''machine'', kubelet_subnets subnets)])))"

definition buildKubeletSubnetsPatch :: "string \<Rightarrow> string + json option" where
  "buildKubeletSubnetsPatch s =
     (case parseAdvertisedSubnets s of
        Inl e \<Rightarrow> Inl e
      | Inr subnets \<Rightarrow>
          Inr (if subnets = [] then None else Some (obj1 ''machine'' (kubelet_subnets subnets))))"

lemma parse_subnets_sound:
  "parse_subnets ts = Inr ss \<Longrightarrow> (\<forall>s \<in> set ss. valid_cidr s) \<and>
   ss = filter (\<lambda>s. s \<noteq> []) (map trim_space ts)"
proof (induction ts arbitrary: ss)
  case (Cons t ts)
  then show ?case by (cases "parse_subnets ts") (auto simp: Let_def split: if_splits)
qed simp

lemma parse_subnets_Inr:
  "(\<exists>ss. parse_subnets ts = Inr ss) \<longleftrightarrow> (\<forall>t \<in> set ts. trim_space t = [] \<or> valid_cidr (trim_space t))"
proof (induction ts)
  case (Cons t ts)
  then show ?case by (cases "parse_subnets ts") (auto simp: Let_def)
qed simp

section \<open>Additional interfaces\<close>

definition resolveNICDHCP :: "additional_nic \<Rightarrow> bool" where
  "resolveNICDHCP n = (case an_dhcp n of None \<Rightarrow> True | Some b \<Rightarrow> b)"

record nic_interface_config =
  nif_mac :: string
  nif_dhcp :: bool

text \<open>
  The configurations and the two counts. The code panics when the lists differ in length
  (\<open>None\<close>).
\<close>

fun collect_configs :: "additional_nic list \<Rightarrow> string list \<Rightarrow> nic_interface_config list" where
  "collect_configs (n # ns) (m # ms) =
     (if m = [] then collect_configs ns ms
      else \<lparr>nif_mac = m, nif_dhcp = resolveNICDHCP n\<rparr> # collect_configs ns ms)"
| "collect_configs _ _ = []"

definition collectNICInterfaceConfigs ::
  "additional_nic list \<Rightarrow> string list \<Rightarrow> (nic_interface_config list \<times> nat \<times> nat) option" where
  "collectNICInterfaceConfigs nics macs =
     (if length nics \<noteq> length macs then None
      else let cs = collect_configs nics macs
           in Some (cs, length (filter nif_dhcp cs), length (filter (\<lambda>c. \<not> nif_dhcp c) cs)))"

fun find_duplicate :: "nat \<Rightarrow> nic_interface_config list \<Rightarrow> (string \<times> nat) list \<Rightarrow> (string \<times> nat \<times> nat) option" where
  "find_duplicate i [] seen = None"
| "find_duplicate i (n # ns) seen =
     (if nif_mac n = [] then find_duplicate (Suc i) ns seen
      else case map_of seen (nif_mac n) of
             Some prev \<Rightarrow> Some (nif_mac n, prev, i)
           | None \<Rightarrow> find_duplicate (Suc i) ns ((nif_mac n, i) # seen))"

definition dhcp_interface :: "nic_interface_config \<Rightarrow> json" where
  "dhcp_interface n =
     JObj [(''deviceSelector'', obj1 ''hardwareAddr'' (JStr (nif_mac n))), (''dhcp'', JBool (nif_dhcp n))]"

definition buildAdditionalNICInterfacesPatch ::
  "nic_interface_config list \<Rightarrow> (string \<times> nat \<times> nat) + json option" where
  "buildAdditionalNICInterfacesPatch nics =
     (if nics = [] then Inr None
      else case find_duplicate 0 nics [] of
        Some d \<Rightarrow> Inl d
      | None \<Rightarrow>
          (let interfaces = map dhcp_interface (filter (\<lambda>n. nif_mac n \<noteq> []) nics)
           in Inr (if interfaces = [] then None else Some (network_patch interfaces))))"

lemma find_duplicate_None:
  "find_duplicate i ns seen = None \<longleftrightarrow>
   distinct (filter (\<lambda>m. m \<noteq> []) (map nif_mac ns)) \<and>
   set (filter (\<lambda>m. m \<noteq> []) (map nif_mac ns)) \<inter> fst ` set seen = {}"
proof (induction ns arbitrary: i seen)
  case (Cons n ns)
  show ?case
  proof (cases "map_of seen (nif_mac n)")
    case None
    then have "nif_mac n \<notin> fst ` set seen" by (simp add: map_of_eq_None_iff)
    with Cons.IH show ?thesis by (auto simp: None)
  next
    case (Some j)
    then have "nif_mac n \<in> fst ` set seen" by (force dest: map_of_SomeD)
    with Cons.IH show ?thesis by (auto simp: Some)
  qed
qed simp

section \<open>Longhorn\<close>

definition buildLonghornOperationalPatch :: json where
  "buildLonghornOperationalPatch = obj1 ''machine'' (JObj
     [(''kernel'', obj1 ''modules'' (JArr [obj1 ''name'' (JStr ''iscsi_tcp'')])),
      (''kubelet'', obj1 ''extraMounts'' (JArr
         [JObj [(''destination'', JStr ''/var/lib/longhorn''), (''type'', JStr ''bind''),
                (''source'', JStr ''/var/mnt/longhorn''),
                (''options'', JArr [JStr ''bind'', JStr ''rshared'', JStr ''rw''])]])),
      (''sysctls'', obj1 ''vm.overcommit_memory'' (JStr ''1''))])"

definition hasLonghornDisk :: "additional_disk list \<Rightarrow> bool" where
  "hasLonghornDisk ds = list_ex (\<lambda>d. dk_name d = LonghornVolumeName) ds"

section \<open>User volumes (user_volume.go)\<close>

definition gibiByte :: int where "gibiByte = 2 ^ 30"
definition diskSizeTolerance :: int where "diskSizeTolerance = 2 ^ 20"

definition window_low :: "int \<Rightarrow> int" where
  "window_low size_gib = i64 (i64 (size_gib * gibiByte) - diskSizeTolerance)"

definition window_high :: "int \<Rightarrow> int" where
  "window_high size_gib = i64 (i64 (size_gib * gibiByte) + diskSizeTolerance)"

definition disk_selector :: "int \<Rightarrow> string" where
  "disk_selector size_gib = ''!system_disk && disk.size >= '' @ format_int (window_low size_gib)
     @ ''u && disk.size <= '' @ format_int (window_high size_gib) @ ''u''"

definition user_volume_doc :: "additional_disk \<Rightarrow> json" where
  "user_volume_doc d =
     JObj [(''apiVersion'', JStr ''v1alpha1''), (''kind'', JStr ''UserVolumeConfig''),
           (''name'', JStr (dk_name d)),
           (''provisioning'', JObj [(''diskSelector'', obj1 ''match'' (JStr (disk_selector (dk_size d)))),
                                    (''minSize'', JStr ''1GiB''), (''grow'', JBool True)]),
           (''filesystem'', obj1 ''type'' (JStr (if dk_filesystem d = [] then ''xfs'' else dk_filesystem d)))]"

datatype volume_error = VolumeNameEmpty nat | VolumeSizeNotPositive nat string

fun user_volume_docs :: "nat \<Rightarrow> additional_disk list \<Rightarrow> volume_error + json list" where
  "user_volume_docs i [] = Inr []"
| "user_volume_docs i (d # ds) =
     (if dk_name d = [] then Inl (VolumeNameEmpty i)
      else if dk_size d \<le> 0 then Inl (VolumeSizeNotPositive i (dk_name d))
      else map_sum (\<lambda>e. e) (\<lambda>docs. user_volume_doc d # docs) (user_volume_docs (Suc i) ds))"

definition buildUserVolumePatch :: "additional_disk list \<Rightarrow> volume_error + json list" where
  "buildUserVolumePatch disks = user_volume_docs 0 disks"

text \<open>The selector of a volume accepts a block device of that many bytes.\<close>

definition selects :: "int \<Rightarrow> int \<Rightarrow> bool" where
  "selects size_gib bytes \<longleftrightarrow> window_low size_gib \<le> bytes \<and> bytes \<le> window_high size_gib"

lemma window_exact:
  assumes "5 \<le> s" and "s \<le> 1048576"
  shows "window_low s = s * 2 ^ 30 - 2 ^ 20" and "window_high s = s * 2 ^ 30 + 2 ^ 20"
  using assms by (simp_all add: window_low_def window_high_def gibiByte_def diskSizeTolerance_def i64_def)

lemma user_volume_docs_ok:
  "(\<forall>d \<in> set ds. dk_name d \<noteq> [] \<and> 0 < dk_size d) \<Longrightarrow> user_volume_docs i ds = Inr (map user_volume_doc ds)"
  by (induction ds arbitrary: i) auto

lemma name_disks_named: "d \<in> set (name_disks i ds) \<Longrightarrow> dk_name d \<noteq> []"
  by (induction ds arbitrary: i) (auto simp: name_disk_def or_default_def split: if_splits)

lemma name_disks_sizes: "map dk_size (name_disks i ds) = map dk_size ds"
  by (induction ds arbitrary: i) (auto simp: name_disk_def)

lemma selects_iff:
  assumes "5 \<le> s" "s \<le> 1048576" "5 \<le> t" "t \<le> 1048576"
  shows "selects s (gib_bytes t) \<longleftrightarrow> s = t"
proof -
  have "gib_bytes t = t * 2 ^ 30" using assms by (simp add: gib_bytes_def i64_def)
  then show ?thesis using window_exact [OF assms(1,2)] by (auto simp: selects_def)
qed

lemma ApplyDefaults_named: "k \<in> set (md_additional_disks (ApplyDefaults cfg d)) \<Longrightarrow> dk_name k \<noteq> []"
  by (auto simp: ApplyDefaults_def Let_def dest: name_disks_named)

text \<open>
  When a configuration with its defaults filled in passes validation, the user-volume
  patch is built, with one document per additional disk under pairwise different names, and
  the selector of a volume accepts a zvol of this provider exactly when the zvol has the size
  of the volume's own disk.
\<close>

theorem user_volumes_of_valid_data:
  assumes "Validate env (ApplyDefaults cfg d) = None"
    and "ds = md_additional_disks (ApplyDefaults cfg d)"
  shows "buildUserVolumePatch ds = Inr (map user_volume_doc ds) \<and> distinct (map dk_name ds) \<and>
    (\<forall>a \<in> set ds. \<forall>b \<in> set ds. selects (dk_size a) (gib_bytes (dk_size b)) \<longleftrightarrow> dk_size a = dk_size b)"
proof -
  from assms(1) have v: "valid_data env (ApplyDefaults cfg d)" by (simp add: Validate_valid)
  then have k: "valid_disk k" if "k \<in> set ds" for k using that assms(2) by (simp add: valid_data_def)
  have n: "dk_name k \<noteq> []" if "k \<in> set ds" for k using that assms(2) by (simp add: ApplyDefaults_named)
  have "volume_names ds = map dk_name ds" unfolding volume_names_def using n by (auto simp: filter_id_conv)
  with v assms(2) have "distinct (map dk_name ds)" by (simp add: valid_data_def)
  moreover have "buildUserVolumePatch ds = Inr (map user_volume_doc ds)"
    unfolding buildUserVolumePatch_def by (rule user_volume_docs_ok) (use n k in \<open>force simp: valid_disk_def\<close>)
  ultimately show ?thesis using k by (auto simp: selects_iff valid_disk_def)
qed

definition example_config :: provider_config where
  "example_config = \<lparr>pc_default_pool = ''tank'', pc_default_network_interface = ''br0'',
     pc_default_boot_method = [], pc_graceful_shutdown_timeout = 0, pc_poll_interval = 0,
     pc_max_error_recoveries = 0, pc_max_start_oom_attempts = 0\<rparr>"

definition example_data :: machine_data where
  "example_data = data_zero\<lparr>md_storage_disk_size := 100,
     md_additional_disks := [(storage_disk 200)\<lparr>dk_name := []\<rparr>]\<rparr>"

lemma example_data_valid: "Validate [] (ApplyDefaults example_config example_data) = None"
  by code_simp

theorem user_volumes_witness:
  "selects 100 (gib_bytes 100) \<and> \<not> selects 100 (gib_bytes 200)"
  using user_volumes_of_valid_data [OF example_data_valid refl]
  by (simp add: example_data_def example_config_def ApplyDefaults_def Let_def data_zero_def storage_disk_def
      name_disk_def)

end
