(* ===== verification/Naming.thy ===== *)
theory Naming
  imports GoLib
begin

text \<open>
  The names the provider derives from a request: the VM name and the request id written
  into and read back from the VM's description (internal/resources/meta/meta.go,
  internal/provisioner/ownership.go), and the deterministic MAC addresses
  (internal/provisioner/mac.go). SHA-256 is an argument: a function from the input to the
  32 bytes of the digest.
\<close>

section \<open>VM names\<close>

definition is_word_char :: "char \<Rightarrow> bool" where
  "is_word_char c \<longleftrightarrow> (let k = (of_char c :: nat)
     in (48 \<le> k \<and> k \<le> 57) \<or> (65 \<le> k \<and> k \<le> 90) \<or> (97 \<le> k \<and> k \<le> 122) \<or> c = CHR ''_'')"

text \<open>\<open>vmNameSafeRe.ReplaceAllString(s, "_")\<close>.\<close>

definition mask_unsafe :: "string \<Rightarrow> string" where
  "mask_unsafe s = map (\<lambda>c. if is_word_char c then c else CHR ''_'') s"

text \<open>One pass of \<open>strings.ReplaceAll(name, "__", "_")\<close>, and the loop around it.\<close>

fun halve_underscores :: "string \<Rightarrow> string" where
  "halve_underscores (a # b # s) =
     (if a = CHR ''_'' \<and> b = CHR ''_'' then CHR ''_'' # halve_underscores s
      else a # halve_underscores (b # s))"
| "halve_underscores s = s"

fun has_double :: "string \<Rightarrow> bool" where
  "has_double (a # b # s) \<longleftrightarrow> (a = CHR ''_'' \<and> b = CHR ''_'') \<or> has_double (b # s)"
| "has_double s \<longleftrightarrow> False"

lemma length_halve: "length (halve_underscores s) \<le> length s"
  by (induction s rule: halve_underscores.induct) auto

lemma length_halve_less: "has_double s \<Longrightarrow> length (halve_underscores s) < length s"
proof (induction s rule: halve_underscores.induct)
  case (1 a b s)
  then show ?case using length_halve [of s] by (cases "a = CHR ''_'' \<and> b = CHR ''_''") auto
qed auto

function collapse_underscores :: "string \<Rightarrow> string" where
  "collapse_underscores s = (if has_double s then collapse_underscores (halve_underscores s) else s)"
  by pat_completeness auto
termination
  by (relation "measure length") (auto simp: length_halve_less)

declare collapse_underscores.simps [simp del]

definition trim_underscore :: "string \<Rightarrow> string" where
  "trim_underscore s = (if has_suffix s ''_'' then butlast s else s)"

definition BuildVMName :: "string \<Rightarrow> string \<Rightarrow> string" where
  "BuildVMName providerID requestID =
     (let p = mask_unsafe providerID;
          r = mask_unsafe (replace_char (CHR ''-'') (CHR ''_'') requestID)
      in trim_underscore (collapse_underscores (''omni_'' @ p @ ''_'' @ r)))"

definition IsOmniVMName :: "string \<Rightarrow> bool" where
  "IsOmniVMName name = has_prefix name ''omni_''"

subsection \<open>Shape of a name\<close>

definition single_underscores :: "string \<Rightarrow> bool" where
  "single_underscores s \<longleftrightarrow> (\<forall>c \<in> set s. is_word_char c) \<and> \<not> has_double s"

lemma underscore_word [simp]: "is_word_char (CHR ''_'')"
  by (simp add: is_word_char_def)

lemma set_halve: "set (halve_underscores s) \<subseteq> set s"
  by (induction s rule: halve_underscores.induct) auto

lemma set_collapse: "set (collapse_underscores s) \<subseteq> set s"
proof (induction s rule: collapse_underscores.induct)
  case (1 s)
  then show ?case using set_halve [of s] by (subst collapse_underscores.simps) auto
qed

lemma collapse_no_double: "\<not> has_double (collapse_underscores s)"
  by (induction s rule: collapse_underscores.induct) (subst collapse_underscores.simps, simp)

lemma has_double_butlast: "\<not> has_double s \<Longrightarrow> \<not> has_double (butlast s)"
proof (induction s rule: has_double.induct)
  case (1 a b s)
  then show ?case by (cases s) auto
qed auto

lemma mask_unsafe_word: "c \<in> set (mask_unsafe s) \<Longrightarrow> is_word_char c"
  by (auto simp: mask_unsafe_def)

text \<open>Collapsing keeps a first part that has no underscore, and the underscore after it.\<close>

lemma halve_prefix: "CHR ''_'' \<notin> set p \<Longrightarrow> p \<noteq> [] \<Longrightarrow> \<exists>t. halve_underscores (p @ CHR ''_'' # s) = p @ CHR ''_'' # t"
proof (induction p rule: list.induct)
  case Nil
  then show ?case by simp
next
  case (Cons a p)
  show ?case
  proof (cases p)
    case Nil
    with Cons.prems show ?thesis by (cases s) auto
  next
    case (Cons b q)
    with Cons.IH Cons.prems show ?thesis by auto
  qed
qed

lemma collapse_prefix:
  "CHR ''_'' \<notin> set p \<Longrightarrow> p \<noteq> [] \<Longrightarrow> s = p @ CHR ''_'' # u \<Longrightarrow>
   \<exists>t. collapse_underscores s = p @ CHR ''_'' # t"
proof (induction s arbitrary: u rule: collapse_underscores.induct)
  case (1 s)
  show ?case
  proof (cases "has_double s")
    case True
    from halve_prefix [OF "1.prems"(1,2)] "1.prems"(3) obtain t
      where "halve_underscores s = p @ CHR ''_'' # t" by blast
    from "1.IH" [OF True "1.prems"(1,2) this] True show ?thesis
      by (simp add: collapse_underscores.simps [of s])
  next
    case False
    with "1.prems"(3) show ?thesis using collapse_underscores.simps [of s] by auto
  qed
qed

lemma BuildVMName_single: "single_underscores (BuildVMName p r)"
proof -
  let ?s = "''omni_'' @ mask_unsafe p @ ''_'' @ mask_unsafe (replace_char (CHR ''-'') (CHR ''_'') r)"
  have w: "\<forall>c \<in> set ?s. is_word_char c"
    by (auto dest: mask_unsafe_word) (simp_all add: is_word_char_def)
  have "\<forall>c \<in> set (collapse_underscores ?s). is_word_char c"
    using w set_collapse [of ?s] by blast
  moreover have "set (butlast t) \<subseteq> set t" for t :: string
    by (meson in_set_butlastD subsetI)
  ultimately show ?thesis
    using collapse_no_double [of ?s] has_double_butlast [of "collapse_underscores ?s"]
    by (auto simp: single_underscores_def BuildVMName_def trim_underscore_def Let_def)
qed

text \<open>The letters and digits of a name, in order, are those of the two ids.\<close>

definition significant :: "char \<Rightarrow> bool" where
  "significant c \<longleftrightarrow> is_word_char c \<and> c \<noteq> CHR ''_''"

lemma significant_underscore [simp]: "\<not> significant (CHR ''_'')"
  by (simp add: significant_def)

lemma significant_mask: "significant (if is_word_char c then c else CHR ''_'') \<longleftrightarrow> significant c"
  by (simp add: significant_def)

definition alnums :: "string \<Rightarrow> string" where
  "alnums s = filter significant s"

lemma alnums_append [simp]: "alnums (s @ t) = alnums s @ alnums t"
  by (simp add: alnums_def)

lemma alnums_Cons: "alnums (c # s) = (if significant c then c # alnums s else alnums s)"
  by (simp add: alnums_def)

lemma alnums_Nil [simp]: "alnums [] = []"
  by (simp add: alnums_def)

lemma alnums_halve: "alnums (halve_underscores s) = alnums s"
proof (induction s rule: halve_underscores.induct)
  case (1 a b s)
  show ?case
  proof (cases "a = CHR ''_'' \<and> b = CHR ''_''")
    case True
    with 1 show ?thesis by (simp add: alnums_Cons)
  next
    case False
    then have "halve_underscores (a # b # s) = a # halve_underscores (b # s)" by auto
    then show ?thesis using "1.IH"(2) [OF False] by (simp only: alnums_Cons [of a])
  qed
qed simp_all

lemma alnums_collapse: "alnums (collapse_underscores s) = alnums s"
proof (induction s rule: collapse_underscores.induct)
  case (1 s)
  then show ?case using collapse_underscores.simps [of s] by (auto simp: alnums_halve)
qed

lemma has_suffix_single: "has_suffix s [c] \<longleftrightarrow> s \<noteq> [] \<and> last s = c"
  by (cases s rule: rev_cases) (auto simp: has_suffix_def has_prefix_def)

lemma alnums_trim: "alnums (trim_underscore s) = alnums s"
proof (cases s rule: rev_cases)
  case Nil
  then show ?thesis by (simp add: trim_underscore_def has_suffix_single)
next
  case (snoc t c)
  then show ?thesis by (simp add: trim_underscore_def has_suffix_single alnums_Cons)
qed

lemma alnums_mask: "alnums (mask_unsafe s) = alnums s"
proof (induction s)
  case (Cons c s)
  then show ?case by (cases "is_word_char c") (simp_all add: mask_unsafe_def alnums_Cons significant_def)
qed (simp add: mask_unsafe_def)

lemma significant_minus: "\<not> significant (CHR ''-'')"
  by (simp add: significant_def is_word_char_def)

lemma alnums_replace: "alnums (replace_char (CHR ''-'') (CHR ''_'') s) = alnums s"
proof (induction s)
  case (Cons c s)
  then show ?case
    by (cases "c = CHR ''-''") (simp_all add: replace_char_def alnums_Cons significant_minus)
qed (simp add: replace_char_def)

lemma alnums_omni: "alnums ''omni_'' = ''omni''"
  by (simp add: alnums_def significant_def is_word_char_def)

lemma alnums_underscore: "alnums ''_'' = []"
  by (simp add: alnums_Cons)

lemma alnums_BuildVMName: "alnums (BuildVMName p r) = ''omni'' @ alnums p @ alnums r"
  by (simp only: BuildVMName_def Let_def alnums_trim alnums_collapse alnums_mask alnums_replace
      alnums_append alnums_omni alnums_underscore append_Nil)

lemma BuildVMName_prefix:
  assumes "alnums p \<noteq> [] \<or> alnums r \<noteq> []"
  shows "IsOmniVMName (BuildVMName p r)"
proof -
  let ?u = "mask_unsafe p @ ''_'' @ mask_unsafe (replace_char (CHR ''-'') (CHR ''_'') r)"
  have "\<exists>t. collapse_underscores (''omni_'' @ ?u) = ''omni'' @ CHR ''_'' # t"
    by (rule collapse_prefix [of _ _ ?u]) simp_all
  then obtain t where t: "collapse_underscores (''omni_'' @ ?u) = ''omni_'' @ t" by auto
  then have n: "BuildVMName p r = trim_underscore (''omni_'' @ t)"
    by (simp add: BuildVMName_def Let_def)
  have "alnums (''omni_'' @ t) = ''omni'' @ alnums t"
    by (simp only: alnums_append alnums_omni)
  with n alnums_BuildVMName [of p r] assms have "alnums t \<noteq> []"
    using alnums_trim [of "''omni_'' @ t"] by auto
  then obtain ys y where "t = ys @ [y]" by (cases t rule: rev_cases) auto
  with n show ?thesis
    by (cases "y = CHR ''_''") (simp_all add: IsOmniVMName_def trim_underscore_def has_prefix_def
        has_suffix_single butlast_append)
qed

section \<open>Descriptions\<close>

definition omniVMDescriptionPrefix :: string where
  "omniVMDescriptionPrefix = ''Managed by Omni infra provider''"

definition omniVMDescription :: "string \<Rightarrow> string" where
  "omniVMDescription requestID = omniVMDescriptionPrefix @ '' (request-id: '' @ requestID @ '')''"

definition ParseRequestIDFromDescription :: "string \<Rightarrow> string" where
  "ParseRequestIDFromDescription description =
     (case after_marker description ''(request-id: '' of
        None \<Rightarrow> []
      | Some rest \<Rightarrow>
          (case cut_char (CHR '')'') rest of None \<Rightarrow> [] | Some (a, b) \<Rightarrow> a))"

lemma omniVMDescription_prefix: "has_prefix (omniVMDescription r) omniVMDescriptionPrefix"
  by (simp add: omniVMDescription_def)

lemma parse_description_append:
  "ParseRequestIDFromDescription (omniVMDescriptionPrefix @ '' (request-id: '' @ s) =
   (case cut_char (CHR '')'') s of None \<Rightarrow> [] | Some (a, b) \<Rightarrow> a)"
  by (simp add: ParseRequestIDFromDescription_def omniVMDescriptionPrefix_def has_prefix_def)

text \<open>What is written into a description is read back, for ids without a closing bracket.\<close>

lemma parse_omniVMDescription:
  "CHR '')'' \<notin> set r \<Longrightarrow> ParseRequestIDFromDescription (omniVMDescription r) = r"
  using parse_description_append [of "r @ '')''"] by (simp add: omniVMDescription_def)

interpretation description_codec: codec omniVMDescription "\<lambda>s. Some (ParseRequestIDFromDescription s)" "\<lambda>r. CHR '')'' \<notin> set r"
  by unfold_locales (simp add: parse_omniVMDescription)

section \<open>MAC addresses\<close>

type_synonym sha256 = "string \<Rightarrow> nat \<Rightarrow> nat"

definition hex_digit :: "nat \<Rightarrow> char" where
  "hex_digit n = (if n < 10 then char_of (48 + n) else char_of (87 + n))"

text \<open>\<open>%02x\<close> of a byte.\<close>

definition hex2 :: "nat \<Rightarrow> string" where
  "hex2 b = [hex_digit (b div 16 mod 16), hex_digit (b mod 16)]"

definition mac_of_hash :: "(nat \<Rightarrow> nat) \<Rightarrow> string" where
  "mac_of_hash h = ''02:'' @ hex2 (h 1) @ '':'' @ hex2 (h 2) @ '':'' @ hex2 (h 3) @ '':'' @ hex2 (h 4) @ '':'' @ hex2 (h 5)"

definition DeterministicMAC :: "sha256 \<Rightarrow> string \<Rightarrow> nat \<Rightarrow> string" where
  "DeterministicMAC sha requestID nicIndex = mac_of_hash (sha (requestID @ '':'' @ show_nat nicIndex))"

definition attempt_mac :: "sha256 \<Rightarrow> string \<Rightarrow> nat \<Rightarrow> nat \<Rightarrow> string" where
  "attempt_mac sha requestID nicIndex attempt =
     (if attempt = 0 then DeterministicMAC sha requestID nicIndex
      else mac_of_hash (sha (requestID @ '':'' @ show_nat nicIndex @ '':collision:'' @ show_nat attempt)))"

definition maxCollisionRetries :: nat where
  "maxCollisionRetries = 5"

fun resolve_from :: "(nat \<Rightarrow> string) \<Rightarrow> (string \<Rightarrow> bool) \<Rightarrow> nat list \<Rightarrow> (string \<times> bool) option" where
  "resolve_from mac taken [] = None"
| "resolve_from mac taken (a # as) =
     (if \<not> taken (mac a) then Some (mac a, 0 < a) else resolve_from mac taken as)"

definition ResolveDeterministicMAC :: "sha256 \<Rightarrow> string \<Rightarrow> nat \<Rightarrow> (string \<times> int) list \<Rightarrow> string \<times> bool" where
  "ResolveDeterministicMAC sha requestID nicIndex existingMACs =
     (case resolve_from (attempt_mac sha requestID nicIndex) (\<lambda>m. map_of existingMACs m \<noteq> None)
             [0..<maxCollisionRetries] of
        Some r \<Rightarrow> r
      | None \<Rightarrow> (DeterministicMAC sha requestID nicIndex, True))"

lemma resolve_from_None: "resolve_from mac taken as = None \<longleftrightarrow> (\<forall>a \<in> set as. taken (mac a))"
  by (induction as) auto

lemma resolve_from_Some:
  "resolve_from mac taken as = Some (m, c) \<Longrightarrow> \<exists>a \<in> set as. m = mac a \<and> \<not> taken m \<and> (c \<longleftrightarrow> 0 < a)"
  by (induction as) (auto split: if_splits)

lemma ResolveDeterministicMAC_attempt:
  "\<exists>a < maxCollisionRetries. fst (ResolveDeterministicMAC sha r i ms) = attempt_mac sha r i a"
proof (cases "resolve_from (attempt_mac sha r i) (\<lambda>m. map_of ms m \<noteq> None) [0..<maxCollisionRetries]")
  case None
  then show ?thesis
    by (intro exI [of _ 0]) (simp add: ResolveDeterministicMAC_def attempt_mac_def maxCollisionRetries_def)
next
  case (Some x)
  then show ?thesis
    using resolve_from_Some [of "attempt_mac sha r i" "\<lambda>m. map_of ms m \<noteq> None" "[0..<maxCollisionRetries]" "fst x" "snd x"]
    by (auto simp: ResolveDeterministicMAC_def)
qed

end
