(* ===== verification/Provisioner.thy ===== *)
theory Provisioner
  imports Patches Naming
begin

text \<open>
  The state of the provisioner and the operations on it that make no request of their own
  (internal/provisioner/provisioner.go), the ownership checks (ownership.go) and the
  classification of errors (steps.go). The process state holds the record of the machine being
  reconciled, which the SDK stores between steps, and the provisioner's own maps. The maps'
  locks make each operation atomic, so an operation is one change of the state.
\<close>

section \<open>State\<close>

record machine_spec =
  ms_uuid :: string
  ms_schematic :: string
  ms_talos_version :: string
  ms_image_id :: string
  ms_vm_id :: int
  ms_zvol_path :: string
  ms_cdrom_device_id :: int
  ms_additional_zvol_paths :: "string list"

definition spec_zero :: machine_spec where
  "spec_zero = \<lparr>ms_uuid = [], ms_schematic = [], ms_talos_version = [], ms_image_id = [], ms_vm_id = 0,
     ms_zvol_path = [], ms_cdrom_device_id = 0, ms_additional_zvol_paths = []\<rparr>"

text \<open>\<open>pv_infra_id\<close> and \<open>pv_infra_uuid\<close> are what the SDK's context was told of the machine.\<close>

record prov_state =
  pv_spec :: machine_spec
  pv_active_images :: "string set"
  pv_active_vms :: "string set"
  pv_error_counts :: "int \<rightharpoonup> int"
  pv_oom_counts :: "string \<rightharpoonup> int"
  pv_infra_id :: string
  pv_infra_uuid :: string

definition prov_zero :: prov_state where
  "prov_zero = \<lparr>pv_spec = spec_zero, pv_active_images = {}, pv_active_vms = {}, pv_error_counts = Map.empty,
     pv_oom_counts = Map.empty, pv_infra_id = [], pv_infra_uuid = []\<rparr>"

type_synonym 'a step = "(prov_state, go_error + 'a) client"

text \<open>
  What does not change while the provider runs: the server it talks to, its configuration, the
  environment variable of the extension allow-list, the provider's id (\<open>meta.ProviderID\<close>), and the library routines that are
  arguments of the model: SHA-256, \<open>strconv.ParseFloat\<close> (to the shortest text of the
  number), \<open>url.JoinPath\<close> on the image factory's address, the iteration order of a Go
  map, and the fuel of the shutdown loop.
\<close>

record runtime =
  rt_srv :: server
  rt_config :: provider_config
  rt_extensions_env :: string
  rt_provider_id :: string
  rt_sha :: sha256
  rt_parse_float :: "string \<Rightarrow> string option"
  rt_image_url :: "string \<Rightarrow> string \<Rightarrow> string \<Rightarrow> string"
  rt_map_order :: "(string \<times> int) list \<Rightarrow> (string \<times> int) list"
  rt_fuel :: nat

text \<open>The machine request: its id, its decoded provider data, and what the SDK knows of it.\<close>

record machine_request =
  rq_id :: string
  rq_data :: "go_error + machine_data"
  rq_talos_version :: string
  rq_kernel_args :: "string list"
  rq_set_id :: "string option"

definition NewProvisioner :: "provider_config \<Rightarrow> provider_config" where
  "NewProvisioner cfg =
     cfg\<lparr>pc_max_error_recoveries := or_default_int (pc_max_error_recoveries cfg) 5,
         pc_max_start_oom_attempts := or_default_int (pc_max_start_oom_attempts cfg) 5\<rparr>"

abbreviation upd_spec :: "(machine_spec \<Rightarrow> machine_spec) \<Rightarrow> (prov_state, unit) client" where
  "upd_spec f \<equiv> modify_proc (\<lambda>p. p\<lparr>pv_spec := f (pv_spec p)\<rparr>)"

definition get_spec :: "(prov_state, machine_spec) client" where
  "get_spec = do { p \<leftarrow> get_proc; ret (pv_spec p) }"

lemma run_get_spec [simp]: "run_state get_spec w = (pv_spec (w_proc w), w)"
  by (simp add: get_spec_def)

lemma emits_get_spec [emits_intros]: "emits P get_spec"
  unfolding get_spec_def by (intro emits_intros)

section \<open>Counters\<close>

text \<open>Reading a Go map of integers: zero for a missing key.\<close>

definition count_of :: "('k \<rightharpoonup> int) \<Rightarrow> 'k \<Rightarrow> int" where
  "count_of m k = (case m k of None \<Rightarrow> 0 | Some n \<Rightarrow> n)"

definition recordVMError :: "int \<Rightarrow> prov_state \<Rightarrow> prov_state" where
  "recordVMError i p = p\<lparr>pv_error_counts := (pv_error_counts p)(i \<mapsto> i64 (count_of (pv_error_counts p) i + 1))\<rparr>"

definition clearVMErrors :: "int \<Rightarrow> prov_state \<Rightarrow> prov_state" where
  "clearVMErrors i p = p\<lparr>pv_error_counts := (pv_error_counts p)(i := None)\<rparr>"

definition recordOOMAttempt :: "string \<Rightarrow> prov_state \<Rightarrow> prov_state" where
  "recordOOMAttempt n p = p\<lparr>pv_oom_counts := (pv_oom_counts p)(n \<mapsto> i64 (count_of (pv_oom_counts p) n + 1))\<rparr>"

definition clearOOMAttempts :: "string \<Rightarrow> prov_state \<Rightarrow> prov_state" where
  "clearOOMAttempts n p = p\<lparr>pv_oom_counts := (pv_oom_counts p)(n := None)\<rparr>"

definition TrackImageID :: "string \<Rightarrow> prov_state \<Rightarrow> prov_state" where
  "TrackImageID i p = p\<lparr>pv_active_images := insert i (pv_active_images p)\<rparr>"

definition TrackVMName :: "string \<Rightarrow> prov_state \<Rightarrow> prov_state" where
  "TrackVMName n p = p\<lparr>pv_active_vms := insert n (pv_active_vms p)\<rparr>"

definition UntrackVMName :: "string \<Rightarrow> prov_state \<Rightarrow> prov_state" where
  "UntrackVMName n p = p\<lparr>pv_active_vms := pv_active_vms p - {n}\<rparr>"

lemmas counter_defs = recordVMError_def clearVMErrors_def recordOOMAttempt_def clearOOMAttempts_def
  TrackImageID_def TrackVMName_def UntrackVMName_def count_of_def

subsection \<open>The contract of a circuit breaker\<close>

text \<open>
  A keyed counter of consecutive failures, as the two breakers use it: \<open>fail\<close> counts one
  failure of a key and \<open>reset\<close> forgets them. A breaker with a positive limit has tripped
  when the count after a failure exceeds the limit.
\<close>

locale breaker =
  fixes fail :: "'k \<Rightarrow> 's \<Rightarrow> 's"
    and reset :: "'k \<Rightarrow> 's \<Rightarrow> 's"
    and failures :: "'s \<Rightarrow> 'k \<Rightarrow> int"
  assumes fail_same: "0 \<le> failures s k \<Longrightarrow> failures s k < 2 ^ 63 - 1 \<Longrightarrow> failures (fail k s) k = failures s k + 1"
    and fail_other: "j \<noteq> k \<Longrightarrow> failures (fail k s) j = failures s j"
    and reset_same: "failures (reset k s) k = 0"
    and reset_other: "j \<noteq> k \<Longrightarrow> failures (reset k s) j = failures s j"
begin

text \<open>A history of the key \<open>k\<close>: \<open>True\<close> is a failure, \<open>False\<close> a reset.\<close>

fun play :: "('k \<times> bool) list \<Rightarrow> 's \<Rightarrow> 's" where
  "play [] s = s"
| "play ((k, b) # es) s = play es (if b then fail k s else reset k s)"

lemma play_append: "play (es @ fs) s = play fs (play es s)"
proof (induction es arbitrary: s)
  case (Cons e es)
  then show ?case by (cases e) simp
qed simp

lemma run_of_failures:
  assumes "0 \<le> failures s k" and "failures s k + int n < 2 ^ 63"
  shows "failures (play (replicate n (k, True)) s) k = failures s k + int n"
  using assms
proof (induction n arbitrary: s)
  case (Suc n)
  then have "failures (fail k s) k = failures s k + 1" by (simp add: fail_same)
  with Suc.prems Suc.IH [of "fail k s"] show ?case by simp
qed simp

text \<open>After a reset, exactly the failures since then count.\<close>

lemma failures_since_reset:
  "int n < 2 ^ 63 \<Longrightarrow> failures (play ((k, False) # replicate n (k, True)) s) k = int n"
  using run_of_failures [of "reset k s" k n] by (simp add: reset_same)

lemma trips_exactly_above_limit:
  assumes "0 < limit" and "int n < 2 ^ 63"
  shows "failures (play ((k, False) # replicate n (k, True)) s) k > limit \<longleftrightarrow> nat limit < n"
  using assms by (simp add: failures_since_reset del: play.simps) linarith

lemma other_keys_untouched:
  "k \<notin> fst ` set es \<Longrightarrow> failures (play es s) k = failures s k"
proof (induction es arbitrary: s)
  case (Cons e es)
  then show ?case by (cases e) (auto simp: fail_other reset_other)
qed simp

end

definition error_failures :: "prov_state \<Rightarrow> int \<Rightarrow> int" where
  "error_failures p i = count_of (pv_error_counts p) i"

definition oom_failures :: "prov_state \<Rightarrow> string \<Rightarrow> int" where
  "oom_failures p n = count_of (pv_oom_counts p) n"

lemma i64_incr: "0 \<le> n \<Longrightarrow> n < 2 ^ 63 - 1 \<Longrightarrow> i64 (n + 1) = n + 1"
  by (rule i64_id) auto

interpretation error_breaker: breaker recordVMError clearVMErrors error_failures
  by unfold_locales (simp_all add: counter_defs error_failures_def i64_incr split: option.splits)

interpretation oom_breaker: breaker recordOOMAttempt clearOOMAttempts oom_failures
  by unfold_locales (simp_all add: counter_defs oom_failures_def i64_incr split: option.splits)

section \<open>Ownership (ownership.go)\<close>

definition isOmniManagedVM :: "vm \<Rightarrow> bool" where
  "isOmniManagedVM v = has_prefix (vm_description v) omniVMDescriptionPrefix"

definition owned_props :: "user_property list \<Rightarrow> string \<Rightarrow> bool" where
  "owned_props ps requestID \<longleftrightarrow>
     get_prop ps ''org.omni:managed'' = ''true'' \<and>
     (requestID = [] \<or> get_prop ps ''org.omni:request-id'' = [] \<or> get_prop ps ''org.omni:request-id'' = requestID)"

definition verifyZvolOwnership :: "server \<Rightarrow> string \<Rightarrow> string \<Rightarrow> unit step" where
  "verifyZvolOwnership srv zvolPath requestID =
     (if zvolPath = [] then ret (Inl (Errorf ''zvol path is empty''))
      else bindE (mapE (Wrapped ''failed to read ownership properties'') (GetDatasetUserProperties srv zvolPath))
        (\<lambda>props.
          if get_prop props ''org.omni:managed'' \<noteq> ''true''
          then ret (Inl (Errorf ''zvol is not tagged org.omni:managed=true''))
          else if requestID = [] then ret (Inr ())
          else let storedID = get_prop props ''org.omni:request-id''
               in if storedID \<noteq> [] \<and> storedID \<noteq> requestID
                  then ret (Inl (Errorf ''zvol has another request-id''))
                  else ret (Inr ())))"

section \<open>Classification of errors (steps.go)\<close>

text \<open>
  \<open>categorizeError\<close>; its second argument is the rendered message, \<open>err.Error()\<close>.
\<close>

datatype error_category =
    CatHostOOM | CatPoolNotFound | CatPoolFull | CatConfigInvalid | CatConfigPatch | CatNICInvalid
  | CatConnection | CatAuth | CatTimeout | CatMemory | CatTOFURead | CatImage | CatUnknown

definition categorize_text :: "string \<Rightarrow> error_category" where
  "categorize_text m =
     (if contains m ''pool'' \<and> contains m ''not found'' then CatPoolNotFound
      else if contains m ''ENOSPC'' \<or> contains m ''pool is full'' then CatPoolFull
      else if contains m ''invalid MachineClass config'' then CatConfigInvalid
      else if contains m ''config patch'' then CatConfigPatch
      else if contains m ''network_interface'' \<or> contains m ''nic_attach'' \<or> contains m ''NIC'' then CatNICInvalid
      else if contains m ''reconnect'' \<or> contains m ''unreachable'' then CatConnection
      else if contains m ''permission'' \<or> contains m ''EACCES'' then CatAuth
      else if contains m ''timeout'' \<or> contains m ''deadline'' then CatTimeout
      else if contains m ''[ENOMEM]'' \<or> contains m ''Cannot guarantee memory'' then CatHostOOM
      else if contains m ''memory'' \<or> contains m ''RAM'' then CatMemory
      else if contains m ''TOFU baseline'' \<or> contains m ''stat cached ISO'' \<or> contains m ''metadata re-verification''
      then CatTOFURead
      else if contains m ''schematic'' \<or> contains m ''ISO'' then CatImage
      else CatUnknown)"

definition categorizeError :: "go_error option \<Rightarrow> string \<Rightarrow> error_category" where
  "categorizeError err m =
     (case err of
        None \<Rightarrow> CatUnknown
      | Some e \<Rightarrow> if is_host_oom e \<or> IsNoMemory e then CatHostOOM else categorize_text m)"

text \<open>
  The error a step reports: nothing for the SDK's bare requeue, which no code of the provider
  wraps or gives an inner error, and nothing for a cancelled context (the second argument).
\<close>

definition reported_error :: "go_error \<Rightarrow> bool \<Rightarrow> go_error option" where
  "reported_error err canceled = (case err of RetryInterval d \<Rightarrow> None | _ \<Rightarrow> if canceled then None else Some err)"

definition recordProvisionError :: "go_error option \<Rightarrow> bool \<Rightarrow> string \<Rightarrow> error_category option" where
  "recordProvisionError err canceled m =
     (case err of
        None \<Rightarrow> None
      | Some e \<Rightarrow> map_option (\<lambda>e'. categorizeError (Some e') m) (reported_error e canceled))"

definition isControlPlaneRequest :: "machine_request \<Rightarrow> bool" where
  "isControlPlaneRequest rq = (case rq_set_id rq of None \<Rightarrow> False | Some s \<Rightarrow> has_suffix s ''-control-planes'')"

text \<open>A runtime for concrete evaluations, around a server.\<close>

definition example_runtime :: "server \<Rightarrow> runtime" where
  "example_runtime srv =
     \<lparr>rt_srv = srv, rt_config = NewProvisioner example_config, rt_extensions_env = [], rt_provider_id = ''truenas'',
      rt_sha = (\<lambda>s i. length s + i), rt_parse_float = Some, rt_image_url = (\<lambda>s v f. s @ v @ f),
      rt_map_order = (\<lambda>m. m), rt_fuel = 16\<rparr>"

end
