(* ===== verification/IsoCache.thy ===== *)
theory IsoCache
  imports Provisioner
begin

text \<open>
  The cache of Talos images and its trust-on-first-use checks
  (internal/provisioner/iso_tofu.go, and \<open>stepUploadISO\<close> with its helpers in steps.go).
  The single-flight group that merges concurrent downloads of one image is not modelled: the
  function it runs is called directly.
\<close>

section \<open>Decisions\<close>

datatype tofu_result = TofuFirstUse | TofuMatch | TofuMismatch | TofuPoisoned

definition poisonedPrefix :: string where "poisonedPrefix = ''POISONED-''"

definition classifyTOFU :: "string \<Rightarrow> string \<Rightarrow> tofu_result" where
  "classifyTOFU storedHash downloadedHash =
     (if has_prefix storedHash poisonedPrefix then TofuPoisoned
      else if storedHash = [] then TofuFirstUse
      else if storedHash = downloadedHash then TofuMatch
      else TofuMismatch)"

definition cachedISOPoisoned :: "string \<Rightarrow> bool" where
  "cachedISOPoisoned storedHash = has_prefix storedHash poisonedPrefix"

definition poisonMarker :: "string \<Rightarrow> string" where
  "poisonMarker badHash = poisonedPrefix @ badHash"

definition isoHashProperty :: "string \<Rightarrow> string" where
  "isoHashProperty imageID = ''org.omni:iso-sha256-'' @ imageID"

definition isoSizeProperty :: "string \<Rightarrow> string" where
  "isoSizeProperty imageID = ''org.omni:iso-size-'' @ imageID"

definition isoMtimeProperty :: "string \<Rightarrow> string" where
  "isoMtimeProperty imageID = ''org.omni:iso-mtime-'' @ imageID"

text \<open>
  A float is kept as its shortest text, so \<open>formatISOMtime\<close> is the identity. Equality of
  floats is equality of texts, but for the two zeros, and not-a-number equals nothing.
\<close>

definition formatISOMtime :: "string \<Rightarrow> string" where
  "formatISOMtime mtime = mtime"

definition parseISOMtime :: "runtime \<Rightarrow> string \<Rightarrow> string option" where
  "parseISOMtime rt s = rt_parse_float rt s"

definition float_eq :: "string \<Rightarrow> string \<Rightarrow> bool" where
  "float_eq x y \<longleftrightarrow> (x = y \<and> x \<noteq> ''NaN'') \<or> (x \<in> {''0'', ''-0''} \<and> y \<in> {''0'', ''-0''})"

definition verifyISOMetadata ::
  "runtime \<Rightarrow> string \<Rightarrow> string \<Rightarrow> file_info option \<Rightarrow> tofu_result \<times> go_error option" where
  "verifyISOMetadata rt storedSize storedMtime actual =
     (if storedSize = [] \<and> storedMtime = [] then (TofuFirstUse, None)
      else case actual of
        None \<Rightarrow> (TofuMismatch, Some (Errorf ''on-disk ISO disappeared between cache-hit check and stat''))
      | Some info \<Rightarrow>
          (case parse_int64 storedSize of
             None \<Rightarrow> (TofuMismatch, Some (Errorf ''recorded ISO size is not a valid int64''))
           | Some wantSize \<Rightarrow>
               if wantSize \<noteq> fi_size info then (TofuMismatch, Some (Errorf ''ISO size drift''))
               else case parseISOMtime rt storedMtime of
                 None \<Rightarrow> (TofuMismatch, Some (Errorf ''recorded ISO mtime is not a valid float64''))
               | Some wantMtime \<Rightarrow>
                   if \<not> float_eq wantMtime (fi_mtime info)
                   then (TofuMismatch, Some (Errorf ''ISO mtime drift''))
                   else (TofuMatch, None)))"

section \<open>The cached file\<close>

record iso_cache_ref =
  ir_dataset :: string
  ir_path :: string
  ir_image_id :: string
  ir_hash_prop :: string
  ir_size_prop :: string
  ir_mtime_prop :: string

definition newISOCacheRef :: "string \<Rightarrow> string \<Rightarrow> string \<Rightarrow> iso_cache_ref" where
  "newISOCacheRef ds path imageID =
     \<lparr>ir_dataset = ds, ir_path = path, ir_image_id = imageID, ir_hash_prop = isoHashProperty imageID,
      ir_size_prop = isoSizeProperty imageID, ir_mtime_prop = isoMtimeProperty imageID\<rparr>"

text \<open>A failure to record is logged and counted only.\<close>

definition recordTOFUProperty :: "runtime \<Rightarrow> iso_cache_ref \<Rightarrow> string \<Rightarrow> string \<Rightarrow> (prov_state, unit) client" where
  "recordTOFUProperty rt ref key value = do {
     r \<leftarrow> SetDatasetUserProperty (rt_srv rt) (ir_dataset ref) key value;
     ret () }"

definition poisonRetryAttempts :: nat where "poisonRetryAttempts = 3"
definition poisonRetryDelay :: int where "poisonRetryDelay = 500000000"

fun poison_attempts :: "runtime \<Rightarrow> string \<Rightarrow> string \<Rightarrow> string \<Rightarrow> nat \<Rightarrow> (prov_state, bool) client" where
  "poison_attempts rt ds key marker 0 = ret False"
| "poison_attempts rt ds key marker (Suc n) = do {
     r \<leftarrow> SetDatasetUserProperty (rt_srv rt) ds key marker;
     case r of
       Inr u \<Rightarrow> ret True
     | Inl e \<Rightarrow> do {
         c \<leftarrow> ask (rt_srv rt) CtxErr;
         case dec_unit c of
           Inl e' \<Rightarrow> ret False
         | Inr u \<Rightarrow>
             if n = 0 then ret False
             else do {
               t \<leftarrow> ask (rt_srv rt) (Wait poisonRetryDelay);
               case dec_unit t of
                 Inl e'' \<Rightarrow> ret False
               | Inr u' \<Rightarrow> poison_attempts rt ds key marker n } } }"

definition setIfPoisonable :: "runtime \<Rightarrow> iso_cache_ref \<Rightarrow> string \<Rightarrow> string \<Rightarrow> (prov_state, bool) client" where
  "setIfPoisonable rt ref key marker = poison_attempts rt (ir_dataset ref) key marker poisonRetryAttempts"

definition not_persisted_suffix :: "bool \<Rightarrow> string" where
  "not_persisted_suffix persisted =
     (if persisted then [] else '' (POISON marker NOT persisted; on-disk bytes still trusted by next run)'')"

definition poisoned_error :: go_error where
  "poisoned_error = Errorf ''ISO is marked POISONED from a prior factory-compromise detection''"

definition verifyCachedISO :: "runtime \<Rightarrow> iso_cache_ref \<Rightarrow> file_info \<Rightarrow> unit step" where
  "verifyCachedISO rt ref stat =
     bindE (mapE (Wrapped ''failed to read TOFU baseline for cached ISO'')
              (GetDatasetUserProperties (rt_srv rt) (ir_dataset ref)))
       (\<lambda>props.
         let storedHash = get_prop props (ir_hash_prop ref)
         in if cachedISOPoisoned storedHash then ret (Inl poisoned_error)
            else if storedHash = [] then ret (Inr ())
            else case verifyISOMetadata rt (get_prop props (ir_size_prop ref))
                        (get_prop props (ir_mtime_prop ref)) (Some stat) of
              (TofuMatch, vErr) \<Rightarrow> ret (Inr ())
            | (TofuFirstUse, vErr) \<Rightarrow> do {
                recordTOFUProperty rt ref (ir_size_prop ref) (format_int (fi_size stat));
                recordTOFUProperty rt ref (ir_mtime_prop ref) (formatISOMtime (fi_mtime stat));
                ret (Inr ()) }
            | (TofuMismatch, vErr) \<Rightarrow> do {
                persisted \<leftarrow> setIfPoisonable rt ref (ir_hash_prop ref) (poisonMarker storedHash);
                ret (Inl (Wrapped (''cached ISO failed metadata re-verification'' @ not_persisted_suffix persisted)
                           (case vErr of None \<Rightarrow> DecodeError | Some e \<Rightarrow> e))) }
            | (TofuPoisoned, vErr) \<Rightarrow> ret (Inl (Errorf ''verifyCachedISO: unexpected tofuResult'')))"

definition reverifyISOBeforeAttach :: "runtime \<Rightarrow> string \<Rightarrow> string \<Rightarrow> string \<Rightarrow> unit step" where
  "reverifyISOBeforeAttach rt isoDataset isoPath imageID =
     bindE (mapE (Wrapped ''failed to re-stat ISO before CDROM attach'') (StatFile (rt_srv rt) isoPath))
       (\<lambda>stat.
         case stat of
           None \<Rightarrow> ret (Inl (Errorf ''ISO vanished between upload and CDROM attach''))
         | Some info \<Rightarrow> verifyCachedISO rt (newISOCacheRef isoDataset isoPath imageID) info)"

section \<open>Downloading\<close>

definition maxISODownloadBytes :: int where
  "maxISODownloadBytes = 2147483648"

text \<open>\<open>hex.EncodeToString\<close> of the SHA-256 digest.\<close>

definition sha_hex :: "runtime \<Rightarrow> string \<Rightarrow> string" where
  "sha_hex rt s = concat (map (\<lambda>i. hex2 (rt_sha rt s i)) [0..<32])"

text \<open>
  The upload streams the first \<open>maxISODownloadBytes + 1\<close> bytes of the body, hashing what
  it reads. The limited reader is used up when it gave that many.
\<close>

definition downloadAndUploadISO :: "runtime \<Rightarrow> string \<Rightarrow> string \<Rightarrow> string step" where
  "downloadAndUploadISO rt isoPath imageURL = do {
     resp \<leftarrow> ask (rt_srv rt) (HttpGet imageURL);
     case dec_http resp of
       Inl e \<Rightarrow> ret (Inl (Wrapped ''failed to download ISO'' e))
     | Inr (status, contentLength, body) \<Rightarrow>
         if status \<noteq> 200 then ret (Inl (Errorf ''ISO download returned status''))
         else if 0 < contentLength \<and> maxISODownloadBytes < contentLength
         then ret (Inl (Errorf ''ISO Content-Length exceeds cap''))
         else
           let content = take (nat (maxISODownloadBytes + 1)) body
           in bindE (mapE (Wrapped ''failed to upload ISO to TrueNAS'')
                       (UploadFile (rt_srv rt) isoPath content contentLength))
                (\<lambda>_. if int (length content) = maxISODownloadBytes + 1
                      then ret (Inl (Errorf ''ISO download exceeded cap''))
                      else ret (Inr (sha_hex rt content))) }"

definition handleISOHashMismatch :: "runtime \<Rightarrow> iso_cache_ref \<Rightarrow> string \<Rightarrow> string \<Rightarrow> unit step" where
  "handleISOHashMismatch rt ref expectedHash downloadedHash = do {
     persisted \<leftarrow> setIfPoisonable rt ref (ir_hash_prop ref) (poisonMarker downloadedHash);
     ret (Inl (Errorf (''ISO hash mismatch'' @ not_persisted_suffix persisted))) }"

definition ensureISODatasets :: "runtime \<Rightarrow> machine_data \<Rightarrow> string \<Rightarrow> unit step" where
  "ensureISODatasets rt d isoDataset =
     bindE (if md_dataset_prefix d \<noteq> []
            then mapE (Wrapped ''failed to ensure dataset prefix'') (EnsureDataset (rt_srv rt) (BasePath d))
            else ret (Inr ()))
       (\<lambda>_. mapE (Wrapped ''failed to ensure ISO dataset'') (EnsureDataset (rt_srv rt) isoDataset))"

definition downloadOrReuseISO :: "runtime \<Rightarrow> iso_cache_ref \<Rightarrow> machine_data \<Rightarrow> string \<Rightarrow> unit step" where
  "downloadOrReuseISO rt ref d imageURL =
     bindE (mapE (Wrapped ''failed to stat ISO'') (StatFile (rt_srv rt) (ir_path ref))) (\<lambda>stat.
     case stat of
       Some info \<Rightarrow> verifyCachedISO rt ref info
     | None \<Rightarrow>
         bindE (ensureISODatasets rt d (ir_dataset ref)) (\<lambda>_.
         bindE (mapE (Wrapped ''failed to read TOFU baseline hash'')
                  (GetDatasetUserProperty (rt_srv rt) (ir_dataset ref) (ir_hash_prop ref))) (\<lambda>expectedHash.
         if cachedISOPoisoned expectedHash then ret (Inl poisoned_error)
         else
           bindE (downloadAndUploadISO rt (ir_path ref) imageURL) (\<lambda>downloadedHash.
           if classifyTOFU expectedHash downloadedHash = TofuMismatch
           then handleISOHashMismatch rt ref expectedHash downloadedHash
           else do {
             uploadedStat \<leftarrow> StatFile (rt_srv rt) (ir_path ref);
             recordTOFUProperty rt ref (ir_hash_prop ref) downloadedHash;
             case uploadedStat of
               Inr (Some info) \<Rightarrow> do {
                 recordTOFUProperty rt ref (ir_size_prop ref) (format_int (fi_size info));
                 recordTOFUProperty rt ref (ir_mtime_prop ref) (formatISOMtime (fi_mtime info));
                 ret (Inr ()) }
             | _ \<Rightarrow> ret (Inr ()) }))))"

section \<open>The step\<close>

definition validatePool :: "runtime \<Rightarrow> string \<Rightarrow> unit step" where
  "validatePool rt pool =
     bindE (mapE (Wrapped ''failed to verify pool'') (PoolExists (rt_srv rt) pool))
       (\<lambda>exists.
         if exists then ret (Inr ())
         else if CHR ''/'' \<in> set pool
         then ret (Inl (Errorf ''pool not found - this looks like a dataset path, not a pool name''))
         else ret (Inl (Errorf ''pool not found on TrueNAS - this must be a top-level ZFS pool name'')))"

definition iso_dataset :: "machine_data \<Rightarrow> string" where
  "iso_dataset d = BasePath d @ ''/talos-iso''"

definition iso_path :: "machine_data \<Rightarrow> string \<Rightarrow> string" where
  "iso_path d imageID = ''/mnt/'' @ iso_dataset d @ ''/'' @ imageID @ ''.iso''"

definition stepUploadISO :: "runtime \<Rightarrow> machine_request \<Rightarrow> unit step" where
  "stepUploadISO rt rq = do {
     upd_spec (\<lambda>s. s\<lparr>ms_talos_version := rq_talos_version rq\<rparr>);
     case rq_data rq of
       Inl e \<Rightarrow> ret (Inl (Wrapped ''failed to unmarshal provider data'' e))
     | Inr d0 \<Rightarrow>
         let d = ApplyDefaults (rt_config rt) d0
         in bindE (validatePool rt (md_pool d)) (\<lambda>_. do {
              spec \<leftarrow> get_spec;
              let imageURL = rt_image_url rt (ms_schematic spec) (rq_talos_version rq)
                               (''nocloud-'' @ md_architecture d @ ''.iso'');
              let imageID = sha_hex rt imageURL;
              upd_spec (\<lambda>s. s\<lparr>ms_image_id := imageID\<rparr>);
              modify_proc (TrackImageID imageID);
              downloadOrReuseISO rt (newISOCacheRef (iso_dataset d) (iso_path d imageID) imageID) d imageURL }) }"

section \<open>What is trusted\<close>

text \<open>
  The properties of the dataset vouch for a file: they are not poisoned, and either no hash
  was recorded, or the recorded size and time, when there are any, are the file's.
\<close>

definition trusted :: "runtime \<Rightarrow> iso_cache_ref \<Rightarrow> user_property list \<Rightarrow> file_info \<Rightarrow> bool" where
  "trusted rt ref props info \<longleftrightarrow>
     \<not> cachedISOPoisoned (get_prop props (ir_hash_prop ref)) \<and>
     (get_prop props (ir_hash_prop ref) = [] \<or>
      (get_prop props (ir_size_prop ref) = [] \<and> get_prop props (ir_mtime_prop ref) = []) \<or>
      (parse_int64 (get_prop props (ir_size_prop ref)) = Some (fi_size info) \<and>
       (\<exists>t. rt_parse_float rt (get_prop props (ir_mtime_prop ref)) = Some t \<and> float_eq t (fi_mtime info))))"

lemma verifyISOMetadata_Match:
  "fst (verifyISOMetadata rt s m (Some info)) = TofuMatch \<longleftrightarrow>
   \<not> (s = [] \<and> m = []) \<and> parse_int64 s = Some (fi_size info) \<and>
   (\<exists>t. rt_parse_float rt m = Some t \<and> float_eq t (fi_mtime info))"
  by (auto simp: verifyISOMetadata_def parseISOMtime_def split: option.splits)

lemma verifyISOMetadata_FirstUse:
  "fst (verifyISOMetadata rt s m (Some info)) = TofuFirstUse \<longleftrightarrow> s = [] \<and> m = []"
  by (auto simp: verifyISOMetadata_def split: option.splits)

lemma verifyISOMetadata_not_Poisoned: "fst (verifyISOMetadata rt s m a) \<noteq> TofuPoisoned"
  by (auto simp: verifyISOMetadata_def split: option.splits)

lemma trusted_iff:
  "trusted rt ref props info \<longleftrightarrow>
     \<not> cachedISOPoisoned (get_prop props (ir_hash_prop ref)) \<and>
     (get_prop props (ir_hash_prop ref) = [] \<or>
      fst (verifyISOMetadata rt (get_prop props (ir_size_prop ref)) (get_prop props (ir_mtime_prop ref)) (Some info))
        \<in> {TofuMatch, TofuFirstUse})"
  using verifyISOMetadata_Match [of rt _ _ info] verifyISOMetadata_FirstUse [of rt _ _ info]
  unfolding trusted_def by (auto simp: )

lemma run_setIfPoisonable:
  "\<exists>b es. run_state (setIfPoisonable rt ref k m) w = (b, w\<lparr>w_hist := w_hist w @ (DatasetSetProperty (ir_dataset ref) k m,
     rt_srv rt (w_hist w) (DatasetSetProperty (ir_dataset ref) k m)) # es\<rparr>)"
proof -
  have step: "\<exists>b es. run_state (poison_attempts rt ds k m (Suc n)) w =
      (b, w\<lparr>w_hist := w_hist w @ (DatasetSetProperty ds k m, rt_srv rt (w_hist w) (DatasetSetProperty ds k m)) # es\<rparr>)"
    for ds n w
  proof (induction n arbitrary: w)
    case 0
    then show ?case by (auto simp: SetDatasetUserProperty_def split: sum.splits)
  next
    case (Suc n)
    let ?e1 = "(DatasetSetProperty ds k m, rt_srv rt (w_hist w) (DatasetSetProperty ds k m))"
    let ?h1 = "w_hist w @ [?e1]"
    let ?h2 = "?h1 @ [(CtxErr, rt_srv rt ?h1 CtxErr)]"
    let ?h3 = "?h2 @ [(Wait poisonRetryDelay, rt_srv rt ?h2 (Wait poisonRetryDelay))]"
    from Suc [of "w\<lparr>w_hist := ?h3\<rparr>"] obtain b es where
      "run_state (poison_attempts rt ds k m (Suc n)) (w\<lparr>w_hist := ?h3\<rparr>) = (b, w\<lparr>w_hist := ?h3 @ es\<rparr>)" by auto
    then show ?case
      by (auto simp: SetDatasetUserProperty_def poison_attempts.simps(2) [of rt ds k m "Suc n"]
          simp del: poison_attempts.simps split: sum.splits)
  qed
  show ?thesis unfolding setIfPoisonable_def poisonRetryAttempts_def
    using step [of "ir_dataset ref" 2] by (simp add: numeral_3_eq_3 numeral_2_eq_2)
qed

lemma verifyCachedISO_run:
  "let r = rt_srv rt (w_hist w) (DatasetGet (ir_dataset ref));
       out = run_state (verifyCachedISO rt ref info) w
   in (fst out = Inr () \<longleftrightarrow> (\<exists>d. dec_dataset r = Inr d \<and> trusted rt ref (ds_user_properties d) info)) \<and>
      (\<forall>d. dec_dataset r = Inr d \<longrightarrow> \<not> trusted rt ref (ds_user_properties d) info \<longrightarrow>
           \<not> cachedISOPoisoned (get_prop (ds_user_properties d) (ir_hash_prop ref)) \<longrightarrow>
           (\<exists>a es. w_hist (snd out) = w_hist w @ (DatasetGet (ir_dataset ref), r) #
              (DatasetSetProperty (ir_dataset ref) (ir_hash_prop ref)
                 (poisonMarker (get_prop (ds_user_properties d) (ir_hash_prop ref))), a) # es))"
proof (cases "dec_dataset (rt_srv rt (w_hist w) (DatasetGet (ir_dataset ref)))")
  case (Inl e)
  then show ?thesis
    by (simp add: Let_def verifyCachedISO_def run_bindE run_mapE GetDatasetUserProperties_def)
next
  case (Inr d)
  let ?ps = "ds_user_properties d"
  let ?v = "verifyISOMetadata rt (get_prop ?ps (ir_size_prop ref)) (get_prop ?ps (ir_mtime_prop ref)) (Some info)"
  let ?w1 = "w\<lparr>w_hist := w_hist w @ [(DatasetGet (ir_dataset ref), rt_srv rt (w_hist w) (DatasetGet (ir_dataset ref)))]\<rparr>"
  have run: "run_state (verifyCachedISO rt ref info) w =
    run_state (let storedHash = get_prop ?ps (ir_hash_prop ref)
         in if cachedISOPoisoned storedHash then ret (Inl poisoned_error)
            else if storedHash = [] then ret (Inr ())
            else case ?v of
              (TofuMatch, vErr) \<Rightarrow> ret (Inr ())
            | (TofuFirstUse, vErr) \<Rightarrow> do {
                recordTOFUProperty rt ref (ir_size_prop ref) (format_int (fi_size info));
                recordTOFUProperty rt ref (ir_mtime_prop ref) (formatISOMtime (fi_mtime info));
                ret (Inr ()) }
            | (TofuMismatch, vErr) \<Rightarrow> do {
                persisted \<leftarrow> setIfPoisonable rt ref (ir_hash_prop ref) (poisonMarker storedHash);
                ret (Inl (Wrapped (''cached ISO failed metadata re-verification'' @ not_persisted_suffix persisted)
                           (case vErr of None \<Rightarrow> DecodeError | Some e \<Rightarrow> e))) }
            | (TofuPoisoned, vErr) \<Rightarrow> ret (Inl (Errorf ''verifyCachedISO: unexpected tofuResult''))) ?w1"
    using Inr by (simp add: verifyCachedISO_def run_bindE run_mapE GetDatasetUserProperties_def)
  obtain res err where v: "?v = (res, err)" by (cases ?v)
  show ?thesis
  proof (cases res)
    case TofuMismatch
    obtain b es where p: "run_state (setIfPoisonable rt ref (ir_hash_prop ref) (poisonMarker (get_prop ?ps (ir_hash_prop ref)))) ?w1
      = (b, ?w1\<lparr>w_hist := w_hist ?w1 @ (DatasetSetProperty (ir_dataset ref) (ir_hash_prop ref) (poisonMarker (get_prop ?ps (ir_hash_prop ref))),
     rt_srv rt (w_hist ?w1) (DatasetSetProperty (ir_dataset ref) (ir_hash_prop ref) (poisonMarker (get_prop ?ps (ir_hash_prop ref))))) # es\<rparr>)"
      using run_setIfPoisonable by blast
    then show ?thesis using Inr v TofuMismatch
      by (simp add: Let_def run trusted_iff)
  next
    case TofuPoisoned
    with v verifyISOMetadata_not_Poisoned [of rt _ _ "Some info"] show ?thesis by (metis fst_conv)
  qed (use Inr v in \<open>simp_all add: Let_def run trusted_iff recordTOFUProperty_def SetDatasetUserProperty_def\<close>)
qed


definition example_ref :: iso_cache_ref where
  "example_ref = newISOCacheRef ''tank/talos-iso'' ''/mnt/tank/talos-iso/x.iso'' ''x''"

definition recorded :: "user_property list \<Rightarrow> dataset" where
  "recorded ps = dataset_zero\<lparr>ds_user_properties := ps\<rparr>"

definition drifted_props :: "user_property list" where
  "drifted_props = [(isoHashProperty ''x'', ''abc''), (isoSizeProperty ''x'', ''10''), (isoMtimeProperty ''x'', ''5'')]"


section \<open>What a download establishes\<close>

text \<open>The file was found and the properties vouch for it.\<close>

definition vouched :: "runtime \<Rightarrow> iso_cache_ref \<Rightarrow> history \<Rightarrow> bool" where
  "vouched rt ref h \<longleftrightarrow>
     (\<exists>r info r' d. (FsStat (ir_path ref), r) \<in> set h \<and> dec_file r = Inr info \<and>
        (DatasetGet (ir_dataset ref), r') \<in> set h \<and> dec_dataset r' = Inr d \<and>
        trusted rt ref (ds_user_properties d) info)"

lemma lasting_vouched [simp, intro]: "lasting (vouched rt ref)"
  unfolding vouched_def by (auto simp: lasting_def)

lemma emits_setIfPoisonable: "emits (\<lambda>q r. True) (setIfPoisonable rt ref k m)"
proof -
  have "emits (\<lambda>q r. True) (poison_attempts rt ds k m n)" for ds n
    by (induction n) (auto simp: SetDatasetUserProperty_def intro!: emits_intros)
  then show ?thesis by (simp add: setIfPoisonable_def)
qed

lemma emits_recordTOFUProperty: "emits (\<lambda>q r. True) (recordTOFUProperty rt ref k v)"
  unfolding recordTOFUProperty_def SetDatasetUserProperty_def by (auto intro!: emits_intros)

lemma emits_case_tofu:
  "emits P a \<Longrightarrow> emits P b \<Longrightarrow> emits P c \<Longrightarrow> emits P d \<Longrightarrow>
   emits P (case r of TofuFirstUse \<Rightarrow> a | TofuMatch \<Rightarrow> b | TofuMismatch \<Rightarrow> c | TofuPoisoned \<Rightarrow> d)"
  by (cases r) simp_all

lemma verifyCachedISO_reads:
  "\<exists>es. w_hist (snd (run_state (verifyCachedISO rt ref info) w)) =
     w_hist w @ (DatasetGet (ir_dataset ref), rt_srv rt (w_hist w) (DatasetGet (ir_dataset ref))) # es"
proof -
  let ?g = "mapE (Wrapped ''failed to read TOFU baseline for cached ISO'')
              (GetDatasetUserProperties (rt_srv rt) (ir_dataset ref)) :: user_property list step"
  have "w_hist (snd (run_state ?g w)) = w_hist w @ [(DatasetGet (ir_dataset ref), rt_srv rt (w_hist w) (DatasetGet (ir_dataset ref)))]"
    by (simp add: run_mapE GetDatasetUserProperties_def)
  moreover have "\<exists>es. w_hist (snd (run_state (verifyCachedISO rt ref info) w)) = w_hist (snd (run_state ?g w)) @ es"
    unfolding verifyCachedISO_def
    by (rule bindE_extends [where P = "\<lambda>q r. True"])
      (intro emits_intros emits_case_tofu emits_setIfPoisonable emits_recordTOFUProperty)
  ultimately show ?thesis by auto
qed

lemma safe_verifyCachedISO:
  assumes "lasting E"
  shows "safe anything E (verifyCachedISO rt ref info)
    (\<lambda>r h. E h \<and> (r = Inr () \<longrightarrow> (\<exists>r d. (DatasetGet (ir_dataset ref), r) \<in> set h \<and> dec_dataset r = Inr d \<and>
        trusted rt ref (ds_user_properties d) info)))"
proof (rule safeI)
  fix w a w'
  assume g: "guarded anything (w_hist w)" and e: "E (w_hist w)" and run: "run_state (verifyCachedISO rt ref info) w = (a, w')"
  let ?r = "rt_srv rt (w_hist w) (DatasetGet (ir_dataset ref))"
  obtain es where h: "w_hist w' = w_hist w @ (DatasetGet (ir_dataset ref), ?r) # es"
    using verifyCachedISO_reads [of rt ref info w] run by auto
  moreover have "E (w_hist w')" unfolding h by (rule lastingD [OF assms e])
  moreover have "a = Inr () \<longrightarrow> (\<exists>d. dec_dataset ?r = Inr d \<and> trusted rt ref (ds_user_properties d) info)"
    using verifyCachedISO_run [of rt w ref info] run by (simp add: Let_def)
  moreover have "guarded anything (w_hist w')" by (simp add: guarded_def)
  ultimately show "guarded anything (w_hist w') \<and> E (w_hist w') \<and> (a = Inr () \<longrightarrow>
     (\<exists>r d. (DatasetGet (ir_dataset ref), r) \<in> set (w_hist w') \<and> dec_dataset r = Inr d \<and>
        trusted rt ref (ds_user_properties d) info))"
    by auto
qed

text \<open>For the same reason any guard that allows these requests is kept.\<close>

lemma emits_verifyCachedISO:
  assumes "\<And>r. P (DatasetGet (ir_dataset ref)) r" "\<And>k v r. P (DatasetSetProperty (ir_dataset ref) k v) r"
    "\<And>r. P CtxErr r" "\<And>d r. P (Wait d) r"
  shows "emits P (verifyCachedISO rt ref info)"
proof -
  have "emits P (poison_attempts rt (ir_dataset ref) k m n)" for k m n
    by (induction n) (auto simp: SetDatasetUserProperty_def assms intro!: emits_intros)
  then show ?thesis
    unfolding verifyCachedISO_def Let_def GetDatasetUserProperties_def setIfPoisonable_def recordTOFUProperty_def
      SetDatasetUserProperty_def
    by (intro emits_intros emits_case_tofu) (simp_all add: assms)
qed

lemma safe_StatFile:
  assumes "lasting E" and "\<And>h. E h \<Longrightarrow> G h (FsStat p)"
  shows "safe G E (StatFile srv p) (\<lambda>r h. E h \<and>
    (\<forall>info. r = Inr (Some info) \<longrightarrow> (\<exists>x. (FsStat p, x) \<in> set h \<and> dec_file x = Inr info)))"
  unfolding StatFile_def
  apply (rule safe_conseq [OF safe_call [OF assms(1)]])
    apply (simp add: assms(2))
   apply assumption
  apply (elim conjE exE)
  subgoal for a h r by (cases "dec_file r") auto
  done

lemma safe_GetDatasetUserProperty:
  assumes "lasting E" and "\<And>h. E h \<Longrightarrow> G h (DatasetGet ds)"
  shows "safe G E (GetDatasetUserProperty srv ds k) (\<lambda>r h. E h \<and>
    (\<forall>v. r = Inr v \<longrightarrow> (\<exists>x d. (DatasetGet ds, x) \<in> set h \<and> dec_dataset x = Inr d \<and>
        v = get_prop (ds_user_properties d) k)))"
  unfolding GetDatasetUserProperty_def GetDatasetUserProperties_def State_Monad.bind_assoc
    State_Monad.bind_left_identity
  apply (rule safe_conseq [OF safe_call [OF assms(1)]])
    apply (simp add: assms(2))
   apply assumption
  apply (elim conjE exE)
  subgoal for a h r by (cases "dec_dataset r") auto
  done

text \<open>The content of an accepted upload, and its hash.\<close>

definition uploaded :: "runtime \<Rightarrow> string \<Rightarrow> string \<Rightarrow> history \<Rightarrow> bool" where
  "uploaded rt path hash h \<longleftrightarrow>
     (\<exists>content n u. (FsPut path content n, Inr u) \<in> set h \<and> int (length content) \<le> maxISODownloadBytes \<and>
        hash = sha_hex rt content)"

lemma lasting_uploaded [simp, intro]: "lasting (uploaded rt path hash)"
  by (auto simp: lasting_def uploaded_def)

lemma int_length_take: "int (length (take (nat (m + 1)) xs)) \<noteq> m + 1 \<Longrightarrow> 0 \<le> m \<Longrightarrow> int (length (take (nat (m + 1)) xs)) \<le> m"
  by auto

lemma safe_downloadAndUploadISO:
  assumes "lasting E"
  shows "safe anything E (downloadAndUploadISO rt path url) (\<lambda>r h. E h \<and> (\<forall>hash. r = Inr hash \<longrightarrow> uploaded rt path hash h))"
proof -
  let ?Q = "\<lambda>r h. E h \<and> (\<forall>hash. r = Inr hash \<longrightarrow> uploaded rt path hash h)"
  have upload: "safe anything E (bindE (mapE (Wrapped ''failed to upload ISO to TrueNAS'') (UploadFile (rt_srv rt) path content n))
      (\<lambda>_. if int (length content) = maxISODownloadBytes + 1 then ret (Inl (Errorf ''ISO download exceeded cap''))
            else ret (Inr (sha_hex rt content)))) ?Q"
    if c: "content = take (nat (maxISODownloadBytes + 1)) body" for content n body
    unfolding mapE_def UploadFile_def State_Monad.bind_assoc State_Monad.bind_left_identity
    apply (rule safe_bindE [where R = "\<lambda>_ h. E h \<and> (\<exists>u. (FsPut path content n, Inr u) \<in> set h)"])
     apply (rule safe_conseq [OF safe_call [OF assms]])
       apply simp
      apply assumption
     apply (elim conjE exE)
    subgoal for a h r by (cases r) auto
    using int_length_take [of maxISODownloadBytes body]
    apply (auto intro!: safe_if safe_ret simp: uploaded_def c maxISODownloadBytes_def)
    done
  show ?thesis
    unfolding downloadAndUploadISO_def
    apply (rule safe_bind [where R = "\<lambda>_. E"])
     apply (rule safe_emits)
      apply (auto intro!: emits_intros assms)[2]
    apply (rule safe_case_sum)
     apply (rule safe_ret, simp)
    apply (rule safe_case_prod)
    apply (intro safe_case_prod safe_if safe_let upload)
      apply (rule safe_ret, simp)+
    apply assumption
    done
qed

text \<open>
  The upload was accepted, and the hash that the properties held before, if any, is the hash
  of what was uploaded.
\<close>

definition pinned_upload :: "runtime \<Rightarrow> iso_cache_ref \<Rightarrow> history \<Rightarrow> bool" where
  "pinned_upload rt ref h \<longleftrightarrow>
     (\<exists>hash r d. uploaded rt (ir_path ref) hash h \<and> (DatasetGet (ir_dataset ref), r) \<in> set h \<and>
        dec_dataset r = Inr d \<and> get_prop (ds_user_properties d) (ir_hash_prop ref) \<in> {[], hash})"

lemma lasting_pinned [simp, intro]: "lasting (pinned_upload rt ref)"
  unfolding pinned_upload_def by (intro lasting_ex lasting_conj lasting_uploaded lasting_member lasting_True)

lemma emits_ensureISODatasets: "emits (\<lambda>q r. True) (ensureISODatasets rt d ds)"
  unfolding ensureISODatasets_def EnsureDataset_def CreateDataset_def by (intro emits_intros) simp_all

lemma classify_not_mismatch:
  "classifyTOFU p hash \<noteq> TofuMismatch \<Longrightarrow> \<not> cachedISOPoisoned p \<Longrightarrow> p \<in> {[], hash}"
  by (auto simp: classifyTOFU_def cachedISOPoisoned_def split: if_splits)

definition record_baseline :: "runtime \<Rightarrow> iso_cache_ref \<Rightarrow> string \<Rightarrow> unit step" where
  "record_baseline rt ref hash = do {
     uploadedStat \<leftarrow> StatFile (rt_srv rt) (ir_path ref);
     recordTOFUProperty rt ref (ir_hash_prop ref) hash;
     case uploadedStat of
       Inr (Some info) \<Rightarrow> do {
         recordTOFUProperty rt ref (ir_size_prop ref) (format_int (fi_size info));
         recordTOFUProperty rt ref (ir_mtime_prop ref) (formatISOMtime (fi_mtime info));
         ret (Inr ()) }
     | _ \<Rightarrow> ret (Inr ()) }"

lemma emits_record_baseline: "emits (\<lambda>q r. True) (record_baseline rt ref hash)"
  unfolding record_baseline_def StatFile_def recordTOFUProperty_def SetDatasetUserProperty_def
  by (intro emits_intros) simp_all

lemma safe_download:
  "safe anything (\<lambda>h. True)
    (bindE (ensureISODatasets rt d (ir_dataset ref)) (\<lambda>_.
     bindE (mapE (Wrapped ''failed to read TOFU baseline hash'')
              (GetDatasetUserProperty (rt_srv rt) (ir_dataset ref) (ir_hash_prop ref))) (\<lambda>expectedHash.
     if cachedISOPoisoned expectedHash then ret (Inl poisoned_error)
     else
       bindE (downloadAndUploadISO rt (ir_path ref) url) (\<lambda>downloadedHash.
       if classifyTOFU expectedHash downloadedHash = TofuMismatch
       then handleISOHashMismatch rt ref expectedHash downloadedHash
       else record_baseline rt ref downloadedHash))))
   (\<lambda>r h. r = Inr () \<longrightarrow> pinned_upload rt ref h)"
proof -
  let ?P = "\<lambda>p h. \<exists>x ds. (DatasetGet (ir_dataset ref), x) \<in> set h \<and> dec_dataset x = Inr ds \<and>
      p = get_prop (ds_user_properties ds) (ir_hash_prop ref)"
  have P: "lasting (?P p)" for p by (intro lasting_ex lasting_conj lasting_member lasting_True)
  have mismatch: "safe anything (\<lambda>h. True) (handleISOHashMismatch rt ref a b) (\<lambda>r h. r = Inr () \<longrightarrow> pinned_upload rt ref h)" for a b
    unfolding handleISOHashMismatch_def
    by (rule safe_bind [OF safe_any]) (auto intro!: emits_setIfPoisonable safe_ret)
  have finish: "safe anything (pinned_upload rt ref) (record_baseline rt ref hash) (\<lambda>r. pinned_upload rt ref)" for hash
    by (rule safe_any) (auto intro!: emits_record_baseline)
  show ?thesis
    apply (rule safe_bindE [where R = "\<lambda>_ _. True"])
     apply (rule safe_conseq [OF safe_any [OF lasting_True emits_ensureISODatasets]], simp, simp split: sum.splits)
    apply (rule safe_bindE [where R = ?P])
     apply (rule safe_mapE)
     apply (rule safe_conseq [OF safe_GetDatasetUserProperty [OF lasting_True]], simp, simp)
    subgoal for u r h by (cases r) auto
    apply (rule safe_if)
     apply (rule safe_ret, simp)
    subgoal for u p
      apply (rule safe_bindE [where R = "\<lambda>hash h. ?P p h \<and> uploaded rt (ir_path ref) hash h"])
       apply (rule safe_conseq [OF safe_downloadAndUploadISO [OF P]], assumption)
      subgoal for r h by (cases r) auto
      apply (rule safe_if)
       apply (rule safe_conseq [OF mismatch], simp, assumption)
      apply (rule safe_conseq [OF finish])
      subgoal for hash h using classify_not_mismatch [of p hash] unfolding pinned_upload_def by blast
      apply simp
      done
    done
qed

lemma safe_downloadOrReuseISO:
  "safe anything (\<lambda>h. True) (downloadOrReuseISO rt ref d url)
    (\<lambda>r h. r = Inr () \<longrightarrow> vouched rt ref h \<or> pinned_upload rt ref h)"
proof -
  let ?S = "\<lambda>info h. \<exists>x. (FsStat (ir_path ref), x) \<in> set h \<and> dec_file x = Inr info"
  have S: "lasting (?S info)" for info by (intro lasting_ex lasting_conj lasting_member lasting_True)
  have reuse: "safe anything (?S info) (verifyCachedISO rt ref info)
      (\<lambda>r h. r = Inr () \<longrightarrow> vouched rt ref h \<or> pinned_upload rt ref h)" for info
    by (rule safe_conseq [OF safe_verifyCachedISO [OF S]]) (auto simp: vouched_def)
  show ?thesis
    unfolding downloadOrReuseISO_def
    apply (rule safe_bindE [where R = "\<lambda>st h. \<forall>info. st = Some info \<longrightarrow> ?S info h"])
     apply (rule safe_mapE)
     apply (rule safe_conseq [OF safe_StatFile [OF lasting_True]], simp, simp)
    subgoal for r h by (cases r) auto
    subgoal for st
      apply (rule safe_case_option)
       apply (rule safe_conseq [OF safe_download [unfolded record_baseline_def]], simp, simp)
      apply (rule safe_conseq [OF reuse], simp, assumption)
      done
    done
qed

text \<open>
  C4: whenever the image step succeeds, either the file was found and the recorded properties
  vouch for it, or it was just uploaded within the size limit, and the hash recorded before,
  if there was one, is the hash of the uploaded bytes.
\<close>

theorem downloadOrReuseISO_sound:
  "case run_state (downloadOrReuseISO rt ref d url) \<lparr>w_hist = [], w_proc = p\<rparr> of
     (Inl e, w) \<Rightarrow> True
   | (Inr u, w) \<Rightarrow> vouched rt ref (w_hist w) \<or> pinned_upload rt ref (w_hist w)"
  using safeD [OF safe_downloadOrReuseISO, of "\<lparr>w_hist = [], w_proc = p\<rparr>" rt ref d url]
  by (auto split: prod.splits sum.splits)

section \<open>Two consequences\<close>

lemma ensureISODatasets_creates: "emits (\<lambda>q r. \<exists>c. q = DatasetCreate c) (ensureISODatasets rt d ds)"
  unfolding ensureISODatasets_def EnsureDataset_def CreateDataset_def by (intro emits_intros) simp_all

lemma run_StatFile:
  "run_state (StatFile srv p) w =
   (case dec_file (srv (w_hist w) (FsStat p)) of
      Inl e \<Rightarrow> if IsNotFound e then Inr None else Inl (Wrapped ''filesystem.stat failed: '' e)
    | Inr i \<Rightarrow> Inr (Some i), w\<lparr>w_hist := w_hist w @ [(FsStat p, srv (w_hist w) (FsStat p))]\<rparr>)"
  by (simp add: StatFile_def)

lemma run_GetDatasetUserProperty:
  "run_state (GetDatasetUserProperty srv ds k) w =
   (case dec_dataset (srv (w_hist w) (DatasetGet ds)) of
      Inl e \<Rightarrow> Inl (Wrapped ''pool.dataset.query failed: '' e)
    | Inr d \<Rightarrow> Inr (get_prop (ds_user_properties d) k),
    w\<lparr>w_hist := w_hist w @ [(DatasetGet ds, srv (w_hist w) (DatasetGet ds))]\<rparr>)"
  by (simp add: GetDatasetUserProperty_def GetDatasetUserProperties_def split: sum.splits)

definition only_looks :: "op \<Rightarrow> bool" where
  "only_looks q \<longleftrightarrow> (\<exists>p. q = FsStat p) \<or> (\<exists>p. q = DatasetGet p) \<or> (\<exists>c. q = DatasetCreate c)"

lemma poisoned_run:
  assumes "\<And>h d. dec_dataset (rt_srv rt h (DatasetGet (ir_dataset ref))) = Inr d \<Longrightarrow>
             cachedISOPoisoned (get_prop (ds_user_properties d) (ir_hash_prop ref))"
  shows "\<exists>e es. run_state (downloadOrReuseISO rt ref d url) w = (Inl e, w\<lparr>w_hist := w_hist w @ es\<rparr>) \<and>
    (\<forall>(q, r) \<in> set es. only_looks q)"
proof -
  let ?stat = "(FsStat (ir_path ref), rt_srv rt (w_hist w) (FsStat (ir_path ref)))"
  let ?w1 = "w\<lparr>w_hist := w_hist w @ [?stat]\<rparr>"
  have verify: "\<exists>e es. run_state (verifyCachedISO rt ref info) v = (Inl e, v\<lparr>w_hist := w_hist v @ es\<rparr>) \<and>
      (\<forall>(q, r) \<in> set es. only_looks q)" for info v
    using assms [of "w_hist v"]
    by (cases "dec_dataset (rt_srv rt (w_hist v) (DatasetGet (ir_dataset ref)))")
      (auto simp: verifyCachedISO_def run_bindE run_mapE GetDatasetUserProperties_def Let_def only_looks_def)
  obtain r2 w2 where r2: "run_state (ensureISODatasets rt d (ir_dataset ref)) ?w1 = (r2, w2)"
    by (cases "run_state (ensureISODatasets rt d (ir_dataset ref)) ?w1")
  have p2: "w_proc w2 = w_proc w"
    using r2 by (auto simp: ensureISODatasets_def EnsureDataset_def CreateDataset_def run_bindE run_mapE
        split: sum.splits if_splits)
  obtain es2 where h2: "w_hist w2 = w_hist ?w1 @ es2" and q2: "\<And>q r. (q, r) \<in> set es2 \<Longrightarrow> \<exists>c. q = DatasetCreate c"
    using emitsD [OF ensureISODatasets_creates r2] by metis
  let ?a = "rt_srv rt (w_hist w2) (DatasetGet (ir_dataset ref))"
  let ?w3 = "w2\<lparr>w_hist := w_hist w2 @ [(DatasetGet (ir_dataset ref), ?a)]\<rparr>"
  have w2: "w2 = w\<lparr>w_hist := w_hist ?w1 @ es2\<rparr>" using h2 p2 by simp
  have looks: "\<forall>(q, r) \<in> set es2. only_looks q" using q2 by (auto simp: only_looks_def)
  show ?thesis
  proof (cases "dec_file (rt_srv rt (w_hist w) (FsStat (ir_path ref)))")
    case (Inr info)
    from verify [of info ?w1] obtain e es where
      "run_state (verifyCachedISO rt ref info) ?w1 = (Inl e, w\<lparr>w_hist := w_hist ?w1 @ es\<rparr>)"
      and "\<forall>(q, r) \<in> set es. only_looks q" by auto
    with Inr show ?thesis
      by (intro exI [of _ e] exI [of _ "?stat # es"])
        (simp add: downloadOrReuseISO_def run_bindE run_mapE run_StatFile only_looks_def)
  next
    case (Inl e)
    show ?thesis
    proof (cases "IsNotFound e")
      case False
      with Inl show ?thesis
        by (simp add: downloadOrReuseISO_def run_bindE run_mapE run_StatFile)
          (rule exI [of _ "[?stat]"], simp add: only_looks_def)
    next
      case True
      show ?thesis
      proof (cases r2)
        case (Inl e2)
        with True \<open>dec_file _ = Inl e\<close> r2 looks show ?thesis
          by (simp add: downloadOrReuseISO_def run_bindE run_mapE run_StatFile w2)
            (rule exI [of _ "?stat # es2"], simp add: only_looks_def)
      next
        case (Inr u)
        have "\<exists>e. run_state (downloadOrReuseISO rt ref d url) w = (Inl e, ?w3)"
          using True \<open>dec_file _ = Inl e\<close> Inr r2 assms [of "w_hist w2"]
          by (cases "dec_dataset ?a")
            (simp_all add: downloadOrReuseISO_def run_bindE run_mapE run_StatFile run_GetDatasetUserProperty)
        then obtain e3 where "run_state (downloadOrReuseISO rt ref d url) w = (Inl e3, ?w3)" by blast
        then show ?thesis
          using looks by (intro exI [of _ e3] exI [of _ "?stat # es2 @ [(DatasetGet (ir_dataset ref), ?a)]"])
            (simp add: w2 only_looks_def)
      qed
    qed
  qed
qed

text \<open>
  C9: a poisoned hash property blocks the image step for good: whether or not the file is
  there, the step fails, downloads nothing, uploads nothing and leaves the property as it is.
  (So deleting the file, as the error message tells the operator, does not help: the property
  has to be cleared too.)
\<close>

theorem poison_blocks:
  assumes "\<And>h d. dec_dataset (rt_srv rt h (DatasetGet (ir_dataset ref))) = Inr d \<Longrightarrow>
             cachedISOPoisoned (get_prop (ds_user_properties d) (ir_hash_prop ref))"
  shows "\<exists>e es. run_state (downloadOrReuseISO rt ref d url) w = (Inl e, w\<lparr>w_hist := w_hist w @ es\<rparr>) \<and>
    (\<forall>(q, r) \<in> set es. only_looks q)"
  using assms by (rule poisoned_run)

definition poisoned_nas :: server where
  "poisoned_nas h q = (case q of
       FsStat p \<Rightarrow> Inl (APIError 2 [])
     | DatasetGet p \<Rightarrow> Inr (RDataset (recorded [(isoHashProperty ''x'', poisonMarker ''abc'')]))
     | _ \<Rightarrow> Inr RNull)"

theorem poison_blocks_witness:
  "\<exists>e es. run_state (downloadOrReuseISO (example_runtime poisoned_nas) example_ref data_zero ''u'') \<lparr>w_hist = [], w_proc = prov_zero\<rparr>
     = (Inl e, \<lparr>w_hist = es, w_proc = prov_zero\<rparr>)"
  using poison_blocks [of "example_runtime poisoned_nas" example_ref data_zero "''u''" "\<lparr>w_hist = [], w_proc = prov_zero\<rparr>"]
  by (fastforce simp: example_runtime_def poisoned_nas_def recorded_def example_ref_def newISOCacheRef_def get_prop_def
      cachedISOPoisoned_def poisonMarker_def poisonedPrefix_def has_prefix_def)

text \<open>A file server with nothing recorded yet, and an image factory that sends \<open>body\<close>.\<close>

definition fresh_nas :: "string \<Rightarrow> server" where
  "fresh_nas body h q = (case q of
       FsStat p \<Rightarrow> if list_ex (\<lambda>(q, r). case q of FsPut p' c n \<Rightarrow> p' = p | _ \<Rightarrow> False) h
                   then Inr (RFile \<lparr>fi_size = 0, fi_mtime = ''0'', fi_type = ''FILE''\<rparr>) else Inl (APIError 2 [])
     | DatasetGet p \<Rightarrow> Inr (RDataset (recorded (List.map_filter
                         (\<lambda>(q, r). case q of DatasetSetProperty p' k v \<Rightarrow> if p' = p then Some (k, v) else None | _ \<Rightarrow> None) h)))
     | HttpGet u \<Rightarrow> Inr (RHttp 200 (-1) body)
     | _ \<Rightarrow> Inr RNull)"

text \<open>
  An image over the size limit is refused only once. The refusal comes after the upload,
  nothing is recorded, and the next attempt finds the file, has no hash to hold it to, and
  accepts it.
\<close>

theorem oversized_image_accepted_on_retry:
  assumes "maxISODownloadBytes < int (length body)"
  shows "let (r1, w1) = run_state (downloadOrReuseISO (example_runtime (fresh_nas body)) ref data_zero url) \<lparr>w_hist = [], w_proc = p\<rparr>;
             (r2, w2) = run_state (downloadOrReuseISO (example_runtime (fresh_nas body)) ref data_zero url) w1
         in r1 = Inl (Errorf ''ISO download exceeded cap'') \<and> r2 = Inr ()"
proof -
  have len: "min (length body) 2147483649 = 2147483649"
    using assms by (simp add: maxISODownloadBytes_def)
  show ?thesis
    unfolding downloadOrReuseISO_def
    by (simp add: run_bindE run_mapE run_StatFile run_GetDatasetUserProperty example_runtime_def fresh_nas_def
        IsNotFound_def ErrCodeNotFound_def ensureISODatasets_def EnsureDataset_def CreateDataset_def data_zero_def recorded_def
        List.map_filter_def get_prop_def cachedISOPoisoned_def poisonedPrefix_def has_prefix_def
        downloadAndUploadISO_def UploadFile_def len verifyCachedISO_def GetDatasetUserProperties_def Let_def
        maxISODownloadBytes_def)
qed

theorem oversized_image_witness:
  "let (r1, w1) = run_state (downloadOrReuseISO (example_runtime (fresh_nas (replicate (nat (maxISODownloadBytes + 1)) (CHR ''x''))))
           example_ref data_zero ''u'') \<lparr>w_hist = [], w_proc = prov_zero\<rparr>
   in r1 \<noteq> Inr ()"
  using oversized_image_accepted_on_retry [of "replicate (nat (maxISODownloadBytes + 1)) (CHR ''x'')" example_ref "''u''" prov_zero]
  by (auto simp: Let_def maxISODownloadBytes_def split: prod.splits)

end
