(* ===== verification/Teardown.thy ===== *)
theory Teardown
  imports Provisioner
begin

text \<open>
  Tearing a machine down (internal/provisioner/deprovision.go). The shutdown loop runs until a
  deadline of the monotonic clock, so it has fuel; \<open>wait_returns\<close> below gives the fuel
  that is enough under a clock that timers advance.
\<close>

section \<open>Virtual machines\<close>

definition poll_interval :: "runtime \<Rightarrow> int" where
  "poll_interval rt = (if pc_poll_interval (rt_config rt) = 0 then 2000000000 else pc_poll_interval (rt_config rt))"

text \<open>\<open>None\<close>: not ended within the fuel.\<close>

fun waitForGracefulStop :: "runtime \<Rightarrow> int \<Rightarrow> int \<Rightarrow> nat \<Rightarrow> (prov_state, bool option) client" where
  "waitForGracefulStop rt vmID deadline 0 = ret None"
| "waitForGracefulStop rt vmID deadline (Suc fuel) = do {
     t \<leftarrow> ask (rt_srv rt) Now;
     if \<not> dec_time t < deadline then ret (Some False)
     else do {
       v \<leftarrow> GetVM (rt_srv rt) vmID;
       case v of
         Inl e \<Rightarrow> ret (Some (IsNotFound e))
       | Inr vm \<Rightarrow>
           if vm_state vm = ''STOPPED'' then ret (Some True)
           else do {
             c \<leftarrow> ask (rt_srv rt) (Wait (poll_interval rt));
             case dec_unit c of
               Inl e \<Rightarrow> ret (Some False)
             | Inr u \<Rightarrow> waitForGracefulStop rt vmID deadline fuel } } }"

definition graceful_timeout :: "runtime \<Rightarrow> int" where
  "graceful_timeout rt =
     (let t = (if pc_graceful_shutdown_timeout (rt_config rt) < 0 then 0
               else pc_graceful_shutdown_timeout (rt_config rt))
      in if t = 0 then 30000000000 else t)"

definition gracefullyStopVM :: "runtime \<Rightarrow> int \<Rightarrow> (prov_state, bool option) client" where
  "gracefullyStopVM rt vmID = do {
     r \<leftarrow> StopVM (rt_srv rt) vmID False;
     t \<leftarrow> ask (rt_srv rt) Now;
     waitForGracefulStop rt vmID (dec_time t + graceful_timeout rt) (rt_fuel rt) }"

definition fetchOwnedVM :: "runtime \<Rightarrow> int \<Rightarrow> vm step" where
  "fetchOwnedVM rt vmID = do {
     r \<leftarrow> GetVM (rt_srv rt) vmID;
     ret (case r of
            Inl e \<Rightarrow> if IsNotFound e then Inl ErrVMNotFound
                     else Inl (Wrapped ''failed to read VM for ownership check'' e)
          | Inr v \<Rightarrow> if isOmniManagedVM v then Inr v else Inl (Errorf ''refusing to deprovision VM'')) }"

definition cleanupVM :: "runtime \<Rightarrow> int \<Rightarrow> unit step" where
  "cleanupVM rt vmID =
     (if vmID = 0 then ret (Inr ())
      else do {
        r \<leftarrow> fetchOwnedVM rt vmID;
        case r of
          Inl e \<Rightarrow> ret (if is_vm_not_found e then Inr () else Inl e)
        | Inr v \<Rightarrow> do {
            stopped \<leftarrow> gracefullyStopVM rt vmID;
            case stopped of
              None \<Rightarrow> ret (Inl OutOfFuel)
            | Some b \<Rightarrow> do {
                f \<leftarrow> (if b then ret (Inr ()) else StopVM (rt_srv rt) vmID True);
                d \<leftarrow> DeleteVM (rt_srv rt) vmID;
                ret (case d of
                       Inl e \<Rightarrow> if IsNotFound e then Inr () else Inl (Wrapped ''failed to delete VM'' e)
                     | Inr u \<Rightarrow> Inr ()) } } })"

section \<open>Volumes\<close>

definition cleanupZvol :: "runtime \<Rightarrow> string \<Rightarrow> string \<Rightarrow> unit step" where
  "cleanupZvol rt zvolPath requestID =
     (if zvolPath = [] then ret (Inr ())
      else do {
        r \<leftarrow> verifyZvolOwnership (rt_srv rt) zvolPath requestID;
        case r of
          Inl err \<Rightarrow> do {
            x \<leftarrow> DatasetExists (rt_srv rt) zvolPath;
            ret (if x = Inr False then Inr () else Inl (Wrapped ''refusing to delete zvol'' err)) }
        | Inr u \<Rightarrow> do {
            d \<leftarrow> DeleteDataset (rt_srv rt) zvolPath;
            ret (case d of
                   Inl e \<Rightarrow> if IsNotFound e then Inr () else Inl (Wrapped ''failed to delete zvol'' e)
                 | Inr u \<Rightarrow> Inr ()) } })"

section \<open>Deprovisioning\<close>

text \<open>
  The request is \<open>None\<close> when the SDK has none; its id is then empty.
\<close>

definition Deprovision :: "runtime \<Rightarrow> machine_spec \<Rightarrow> string option \<Rightarrow> unit step" where
  "Deprovision rt s req =
     (let requestID = (case req of None \<Rightarrow> [] | Some i \<Rightarrow> i)
      in bindE (cleanupVM rt (ms_vm_id s)) (\<lambda>_.
         bindE (for_each (\<lambda>z. cleanupZvol rt z requestID) (ms_additional_zvol_paths s)) (\<lambda>_.
         bindE (cleanupZvol rt (ms_zvol_path s) requestID) (\<lambda>_. do {
           (if requestID \<noteq> [] then modify_proc (clearOOMAttempts (BuildVMName (rt_provider_id rt) requestID)) else ret ());
           modify_proc (clearVMErrors (ms_vm_id s));
           modify_proc (UntrackVMName (BuildVMName (rt_provider_id rt) requestID));
           ret (Inr ()) }))))"

section \<open>What tearing down may touch\<close>

text \<open>A VM was read under this id and carried the provider's marker.\<close>

definition managed_read :: "history \<Rightarrow> int \<Rightarrow> bool" where
  "managed_read h i \<longleftrightarrow> (\<exists>r v. (VmGet i, r) \<in> set h \<and> dec_vm r = Inr v \<and> isOmniManagedVM v)"

text \<open>The properties of a zvol were read and name the request as the owner.\<close>

definition owned_read :: "history \<Rightarrow> string \<Rightarrow> string \<Rightarrow> bool" where
  "owned_read h z requestID \<longleftrightarrow>
     (\<exists>r d. (DatasetGet z, r) \<in> set h \<and> dec_dataset r = Inr d \<and> owned_props (ds_user_properties d) requestID)"

text \<open>
  The server said that the VM does not exist, or deleted it. (An error that wraps the
  provider's own sentinel counts too; no server returns one.)
\<close>

definition vm_gone :: "history \<Rightarrow> int \<Rightarrow> bool" where
  "vm_gone h i \<longleftrightarrow> i = 0 \<or>
     (\<exists>r e. (VmGet i, r) \<in> set h \<and> dec_vm r = Inl e \<and> (IsNotFound e \<or> is_vm_not_found e)) \<or>
     (\<exists>r. (VmDelete i, r) \<in> set h \<and> (case dec_unit r of Inl e \<Rightarrow> IsNotFound e | Inr u \<Rightarrow> True))"

definition deprovision_guard :: "machine_spec \<Rightarrow> string \<Rightarrow> history \<Rightarrow> op \<Rightarrow> bool" where
  "deprovision_guard s requestID h q =
     (case q of
        VmStop i f \<Rightarrow> i = ms_vm_id s \<and> managed_read h i
      | VmDelete i \<Rightarrow> i = ms_vm_id s \<and> managed_read h i
      | DatasetDelete z \<Rightarrow> z \<in> set (ms_zvol_path s # ms_additional_zvol_paths s) \<and> z \<noteq> [] \<and>
                          owned_read h z requestID \<and> vm_gone h (ms_vm_id s)
      | _ \<Rightarrow> \<not> is_write q)"

lemma lasting_managed_read [simp, intro]: "lasting (\<lambda>h. managed_read h i)"
  by (auto simp: lasting_def managed_read_def)

lemma lasting_vm_gone [simp, intro]: "lasting (\<lambda>h. vm_gone h i)"
  by (auto simp: lasting_def vm_gone_def)

lemma lasting_owned_read [simp, intro]: "lasting (\<lambda>h. owned_read h z rid)"
  by (auto simp: lasting_def owned_read_def)

lemma emits_GetVM: "(\<And>r. P (VmGet i) r) \<Longrightarrow> emits P (GetVM srv i)"
  unfolding GetVM_def by (auto intro!: emits_intros)

lemma emits_waitForGracefulStop:
  "(\<And>r. P Now r) \<Longrightarrow> (\<And>r. P (VmGet vmID) r) \<Longrightarrow> (\<And>d r. P (Wait d) r) \<Longrightarrow>
   emits P (waitForGracefulStop rt vmID deadline fuel)"
  by (induction fuel) (auto intro!: emits_intros emits_GetVM)

lemma emits_gracefullyStopVM:
  "(\<And>r. P Now r) \<Longrightarrow> (\<And>r. P (VmGet vmID) r) \<Longrightarrow> (\<And>d r. P (Wait d) r) \<Longrightarrow>
   (\<And>r. P (VmStop vmID False) r) \<Longrightarrow> emits P (gracefullyStopVM rt vmID)"
  unfolding gracefullyStopVM_def StopVM_def by (auto intro!: emits_intros emits_waitForGracefulStop)

text \<open>
  \<open>G\<close> lets a managed VM be stopped and deleted, and allows reads. Then cleaning up is safe,
  and when it succeeds the VM is gone.
\<close>

definition allows_cleanup :: "(history \<Rightarrow> op \<Rightarrow> bool) \<Rightarrow> int \<Rightarrow> bool" where
  "allows_cleanup G i \<longleftrightarrow>
     (\<forall>h q. \<not> is_write q \<longrightarrow> G h q) \<and>
     (\<forall>h. managed_read h i \<longrightarrow> (\<forall>f. G h (VmStop i f)) \<and> G h (VmDelete i))"

lemma allows_read: "allows_cleanup G i \<Longrightarrow> \<not> is_write q \<Longrightarrow> G h q"
  by (simp add: allows_cleanup_def)

lemma allows_managed: "allows_cleanup G i \<Longrightarrow> managed_read h i \<Longrightarrow> G h (VmStop i f) \<and> G h (VmDelete i)"
  by (simp add: allows_cleanup_def)

lemma not_write [simp]: "\<not> is_write (VmGet i)" "\<not> is_write Now" "\<not> is_write (Wait d)" "\<not> is_write (DatasetGet z)"
    "\<not> is_write (DatasetFind z)"
  by (simp_all add: is_write_def)

lemma safe_fetchOwnedVM:
  assumes G: "allows_cleanup G i" and E: "lasting E"
  shows "safe G E (fetchOwnedVM rt i)
    (\<lambda>r h. E h \<and> (case r of Inl e \<Rightarrow> is_vm_not_found e \<longrightarrow> vm_gone h i | Inr v \<Rightarrow> managed_read h i))"
  unfolding fetchOwnedVM_def GetVM_def State_Monad.bind_assoc State_Monad.bind_left_identity
  apply (rule safe_conseq [OF safe_call [OF E]])
    apply (simp add: allows_read [OF G])
   apply assumption
  apply (elim conjE exE)
  subgoal for a h r
    by (cases "dec_vm r") (auto simp: vm_gone_def managed_read_def)
  done

lemma safe_StopVM:
  assumes "lasting E" and "\<And>h. E h \<Longrightarrow> G h (VmStop i f)"
  shows "safe G E (StopVM srv i f) (\<lambda>_. E)"
  unfolding StopVM_def by (rule safe_conseq [OF safe_call [OF assms(1)]]) (auto simp: assms(2))

lemma safe_DeleteVM:
  assumes "lasting E" and "\<And>h. E h \<Longrightarrow> G h (VmDelete i)"
  shows "safe G E (DeleteVM srv i) (\<lambda>r h. E h \<and> (case r of Inr u \<Rightarrow> vm_gone h i | Inl e \<Rightarrow> \<not> IsNotFound e))"
  unfolding DeleteVM_def
  apply (rule safe_conseq [OF safe_call [OF assms(1)]])
    apply (simp add: assms(2))
   apply assumption
  apply (elim conjE exE)
  subgoal for a h r
    by (cases "dec_unit r") (auto simp: vm_gone_def)
  done

lemma safe_cleanupVM:
  assumes G: "allows_cleanup G i" and E: "lasting E"
  shows "safe G E (cleanupVM rt i) (\<lambda>r h. E h \<and> (r = Inr () \<longrightarrow> vm_gone h i))"
proof (cases "i = 0")
  case True
  then show ?thesis by (auto simp: cleanupVM_def vm_gone_def intro!: safe_ret)
next
  case False
  let ?M = "\<lambda>h. E h \<and> managed_read h i"
  have M: "lasting ?M" using E by simp
  have polite: "safe G ?M (gracefullyStopVM rt i) (\<lambda>_. ?M)"
    unfolding gracefullyStopVM_def
    by (rule safe_bind [OF safe_StopVM [OF M]], use allows_managed [OF G] in blast,
        rule safe_emits [where E = ?M, OF _ M])
      (auto intro!: emits_intros emits_waitForGracefulStop simp: allows_read [OF G])
  have force: "safe G ?M (if b then ret (Inr ()) else StopVM (rt_srv rt) i True) (\<lambda>_. ?M)" for b
    using allows_managed [OF G] M by (auto intro!: safe_ret safe_StopVM)
  have del: "safe G ?M (DeleteVM (rt_srv rt) i)
      (\<lambda>r h. ?M h \<and> (case r of Inr u \<Rightarrow> vm_gone h i | Inl e \<Rightarrow> \<not> IsNotFound e))"
    by (rule safe_DeleteVM [OF M]) (use allows_managed [OF G] in blast)
  have rest: "safe G ?M (do {
      f \<leftarrow> (if b then ret (Inr ()) else StopVM (rt_srv rt) i True);
      d \<leftarrow> DeleteVM (rt_srv rt) i;
      ret (case d of Inl e \<Rightarrow> if IsNotFound e then Inr () else Inl (Wrapped ''failed to delete VM'' e)
                   | Inr u \<Rightarrow> Inr ()) })
    (\<lambda>r h. E h \<and> (r = Inr () \<longrightarrow> vm_gone h i))" for b
    by (rule safe_bind [OF force], rule safe_bind [OF del], rule safe_ret) (auto split: sum.splits)
  have main: "safe G ?M (do {
      stopped \<leftarrow> gracefullyStopVM rt i;
      case stopped of
        None \<Rightarrow> ret (Inl OutOfFuel)
      | Some b \<Rightarrow> do {
          f \<leftarrow> (if b then ret (Inr ()) else StopVM (rt_srv rt) i True);
          d \<leftarrow> DeleteVM (rt_srv rt) i;
          ret (case d of Inl e \<Rightarrow> if IsNotFound e then Inr () else Inl (Wrapped ''failed to delete VM'' e)
                       | Inr u \<Rightarrow> Inr ()) } })
    (\<lambda>r h. E h \<and> (r = Inr () \<longrightarrow> vm_gone h i))"
    by (rule safe_bind [OF polite], rule safe_case_option, rule safe_ret, simp, rule rest)
  show ?thesis
    using False unfolding cleanupVM_def
    apply simp
    apply (rule safe_bind [OF safe_fetchOwnedVM [OF G E]])
    apply (rule safe_case_sum)
     apply (rule safe_ret, simp)
    apply (rule safe_conseq [OF main], simp_all)
    done
qed

text \<open>A zvol is gone: its deletion succeeded or found nothing, or the server listed nothing there.\<close>

definition zvol_gone :: "history \<Rightarrow> string \<Rightarrow> bool" where
  "zvol_gone h z \<longleftrightarrow> z = [] \<or>
     (\<exists>r. (DatasetDelete z, r) \<in> set h \<and> (case dec_unit r of Inl e \<Rightarrow> IsNotFound e | Inr u \<Rightarrow> True)) \<or>
     (\<exists>r. (DatasetFind z, r) \<in> set h \<and> dec_datasets r = Inr [])"

lemma lasting_zvol_gone [simp, intro]: "lasting (\<lambda>h. zvol_gone h z)"
  by (auto simp: lasting_def zvol_gone_def)

lemma safe_verifyZvolOwnership:
  assumes "lasting E" and "\<And>h. G h (DatasetGet z)" and "z \<noteq> []"
  shows "safe G E (verifyZvolOwnership srv z rid) (\<lambda>r h. E h \<and> (r = Inr () \<longrightarrow> owned_read h z rid))"
proof -
  let ?f = "\<lambda>r. map_sum (Wrapped ''failed to read ownership properties'') (\<lambda>x. x)
               (map_sum (Wrapped ''pool.dataset.query failed: '') ds_user_properties (dec_dataset r))"
  have call: "safe G E (do { r \<leftarrow> ask srv (DatasetGet z); ret (?f r) })
      (\<lambda>x h. E h \<and> (\<exists>r. (DatasetGet z, r) \<in> set h \<and> x = ?f r))"
    by (rule safe_call [OF assms(1)]) (rule assms(2))
  show ?thesis
    using \<open>z \<noteq> []\<close> unfolding verifyZvolOwnership_def mapE_def GetDatasetUserProperties_def
      State_Monad.bind_assoc State_Monad.bind_left_identity
    apply simp
    apply (rule safe_bindE [where R = "\<lambda>ps h. E h \<and> (\<exists>r d. (DatasetGet z, r) \<in> set h \<and>
             dec_dataset r = Inr d \<and> ps = ds_user_properties d)"])
     apply (rule safe_conseq [OF call], assumption)
     apply (elim conjE exE)
    subgoal for a h r by (cases "dec_dataset r") auto
    apply (auto intro!: safe_ret safe_if safe_let simp: owned_read_def owned_props_def Let_def)
    done
qed

lemma safe_DatasetExists:
  assumes "lasting E" and "\<And>h. G h (DatasetFind z)"
  shows "safe G E (DatasetExists srv z) (\<lambda>r h. E h \<and> (r = Inr False \<longrightarrow> zvol_gone h z))"
  unfolding DatasetExists_def
  apply (rule safe_conseq [OF safe_call [OF assms(1)]])
    apply (rule assms(2))
   apply assumption
  apply (elim conjE exE)
  subgoal for a h r by (cases "dec_datasets r") (auto simp: zvol_gone_def)
  done

lemma safe_DeleteDataset:
  assumes "lasting E" and "\<And>h. E h \<Longrightarrow> G h (DatasetDelete z)"
  shows "safe G E (DeleteDataset srv z) (\<lambda>r h. E h \<and> (case r of Inr u \<Rightarrow> zvol_gone h z | Inl e \<Rightarrow> \<not> IsNotFound e))"
  unfolding DeleteDataset_def
  apply (rule safe_conseq [OF safe_call [OF assms(1)]])
    apply (simp add: assms(2))
   apply assumption
  apply (elim conjE exE)
  subgoal for a h r by (cases "dec_unit r") (auto simp: zvol_gone_def)
  done

lemma safe_cleanupZvol:
  assumes E: "lasting E" and get: "\<And>h. G h (DatasetGet z)" and list: "\<And>h. G h (DatasetFind z)"
    and del: "\<And>h. E h \<Longrightarrow> z \<noteq> [] \<Longrightarrow> owned_read h z rid \<Longrightarrow> G h (DatasetDelete z)"
  shows "safe G E (cleanupZvol rt z rid) (\<lambda>r h. E h \<and> (r = Inr () \<longrightarrow> zvol_gone h z))"
proof (cases "z = []")
  case True
  then show ?thesis by (auto simp: cleanupZvol_def zvol_gone_def intro!: safe_ret)
next
  case False
  let ?O = "\<lambda>h. E h \<and> owned_read h z rid"
  have refuse: "safe G E (do { x \<leftarrow> DatasetExists (rt_srv rt) z;
      ret (if x = Inr False then Inr () else Inl (Wrapped ''refusing to delete zvol'' err)) })
    (\<lambda>r h. E h \<and> (r = Inr () \<longrightarrow> zvol_gone h z))" for err
    by (rule safe_bind [OF safe_DatasetExists [OF E]], rule list, rule safe_ret) auto
  have delete: "safe G ?O (do { d \<leftarrow> DeleteDataset (rt_srv rt) z;
      ret (case d of Inl e \<Rightarrow> if IsNotFound e then Inr () else Inl (Wrapped ''failed to delete zvol'' e)
                   | Inr u \<Rightarrow> Inr ()) })
    (\<lambda>r h. E h \<and> (r = Inr () \<longrightarrow> zvol_gone h z))"
    by (rule safe_bind [OF safe_DeleteDataset], use E in simp, use del False in blast, rule safe_ret)
      (auto split: sum.splits)
  show ?thesis
    using False unfolding cleanupZvol_def
    apply simp
    apply (rule safe_bind [OF safe_verifyZvolOwnership [where G = G and z = z and rid = rid, OF E get False]])
    apply (rule safe_case_sum)
     apply (rule safe_conseq [OF refuse], simp_all)
    apply (rule safe_conseq [OF delete], simp_all)
    done
qed

section \<open>Deprovisioning as a whole\<close>

lemma deprovision_allows_cleanup: "allows_cleanup (deprovision_guard s rid) (ms_vm_id s)"
  by (auto simp: allows_cleanup_def deprovision_guard_def is_write_def split: op.splits)

lemma deprovision_guard_simps [simp]:
  "deprovision_guard s rid h (DatasetGet z)" "deprovision_guard s rid h (DatasetFind z)"
  "deprovision_guard s rid h (DatasetDelete z) \<longleftrightarrow>
     z \<in> set (ms_zvol_path s # ms_additional_zvol_paths s) \<and> z \<noteq> [] \<and> owned_read h z rid \<and> vm_gone h (ms_vm_id s)"
  by (simp_all add: deprovision_guard_def is_write_def)

lemma safe_zvols:
  assumes "\<And>z. z \<in> set zs \<Longrightarrow> z \<in> set (ms_zvol_path s # ms_additional_zvol_paths s)" and E: "lasting E"
    and "\<And>h. E h \<Longrightarrow> vm_gone h (ms_vm_id s)"
  shows "safe (deprovision_guard s rid) E (for_each (\<lambda>z. cleanupZvol rt z rid) zs)
    (\<lambda>r h. E h \<and> ((\<exists>us. r = Inr us) \<longrightarrow> (\<forall>z \<in> set zs. zvol_gone h z)))"
  using assms
proof (induction zs arbitrary: E)
  case (Cons z zs)
  have z: "z \<in> set (ms_zvol_path s # ms_additional_zvol_paths s)" by (rule Cons.prems(1)) simp
  have one: "safe (deprovision_guard s rid) E (cleanupZvol rt z rid) (\<lambda>r h. E h \<and> (r = Inr () \<longrightarrow> zvol_gone h z))"
    by (rule safe_cleanupZvol) (use z Cons.prems(2,3) in auto)
  let ?E = "\<lambda>h. E h \<and> zvol_gone h z"
  have rest: "safe (deprovision_guard s rid) ?E (for_each (\<lambda>z. cleanupZvol rt z rid) zs)
    (\<lambda>r h. ?E h \<and> ((\<exists>us. r = Inr us) \<longrightarrow> (\<forall>z \<in> set zs. zvol_gone h z)))"
    by (rule Cons.IH) (use Cons.prems in auto)
  show ?case
    unfolding for_each.simps
    apply (rule safe_bind [OF one])
    apply (rule safe_case_sum)
     apply (rule safe_ret, simp)
    apply (rule safe_bind [where R = "\<lambda>r h. ?E h \<and> ((\<exists>us. r = Inr us) \<longrightarrow> (\<forall>z \<in> set zs. zvol_gone h z))"])
     apply (rule safe_conseq [OF rest], simp, simp)
    apply (rule safe_ret)
    subgoal for u y rs h by (cases rs) auto
    done
qed (simp add: safe_ret)

lemma safe_Deprovision:
  "safe (deprovision_guard s (case req of None \<Rightarrow> [] | Some i \<Rightarrow> i)) (\<lambda>h. True) (Deprovision rt s req)
    (\<lambda>r h. r = Inr () \<longrightarrow> vm_gone h (ms_vm_id s) \<and>
       (\<forall>z \<in> set (ms_zvol_path s # ms_additional_zvol_paths s). zvol_gone h z))"
proof -
  let ?rid = "case req of None \<Rightarrow> [] | Some i \<Rightarrow> i"
  let ?G = "deprovision_guard s ?rid" and ?V = "\<lambda>h. vm_gone h (ms_vm_id s)"
  let ?Z = "\<lambda>h. ?V h \<and> (\<forall>z \<in> set (ms_additional_zvol_paths s). zvol_gone h z)"
  have vm: "safe ?G (\<lambda>h. True) (cleanupVM rt (ms_vm_id s)) (\<lambda>r h. r = Inr () \<longrightarrow> ?V h)"
    using safe_cleanupVM [OF deprovision_allows_cleanup, of "\<lambda>h. True"] by simp
  have zs: "safe ?G ?V (for_each (\<lambda>z. cleanupZvol rt z ?rid) (ms_additional_zvol_paths s))
      (\<lambda>r h. ?V h \<and> ((\<exists>us. r = Inr us) \<longrightarrow> (\<forall>z \<in> set (ms_additional_zvol_paths s). zvol_gone h z)))"
    by (rule safe_zvols) auto
  have root: "safe ?G ?Z (cleanupZvol rt (ms_zvol_path s) ?rid)
      (\<lambda>r h. ?Z h \<and> (r = Inr () \<longrightarrow> zvol_gone h (ms_zvol_path s)))"
    by (rule safe_cleanupZvol) auto
  show ?thesis
    unfolding Deprovision_def Let_def
    apply (rule safe_bindE [where R = "\<lambda>_. ?V"])
     apply (rule safe_conseq [OF vm], simp, auto split: sum.splits)[1]
    apply (rule safe_bindE [where R = "\<lambda>_. ?Z"])
     apply (rule safe_conseq [OF zs], simp, auto split: sum.splits)[1]
    apply (rule safe_bindE [where R = "\<lambda>_ h. ?Z h \<and> zvol_gone h (ms_zvol_path s)"])
     apply (rule safe_conseq [OF root], simp, auto split: sum.splits)[1]
    apply (rule safe_conseq [OF safe_emits [where E = "\<lambda>h. ?Z h \<and> zvol_gone h (ms_zvol_path s)"]])
       apply (auto intro!: emits_intros)
    done
qed

text \<open>
  C1: deprovisioning a machine writes nothing but stops and deletions of the machine's own VM
  and zvols. A VM is stopped or deleted only after it was read and carried the provider's
  marker. A zvol is deleted only after its properties were read and name the request as owner,
  and only once the VM is gone.
\<close>

theorem Deprovision_deletes_only_own:
  "guarded (deprovision_guard s (case req of None \<Rightarrow> [] | Some i \<Rightarrow> i))
     (w_hist (snd (run_state (Deprovision rt s req) \<lparr>w_hist = [], w_proc = p\<rparr>)))"
  by (rule safe_run [OF safe_conseq [OF safe_Deprovision]]) simp_all

text \<open>
  C6: when deprovisioning reports success, the VM and every zvol of the machine, the additional
  ones and the root, are gone: the server deleted them, or said that they do not exist.
\<close>

theorem Deprovision_success:
  assumes "run_state (Deprovision rt s req) \<lparr>w_hist = [], w_proc = p\<rparr> = (Inr (), w')"
  shows "vm_gone (w_hist w') (ms_vm_id s) \<and>
    (\<forall>i < length (ms_additional_zvol_paths s). zvol_gone (w_hist w') (ms_additional_zvol_paths s ! i)) \<and>
    zvol_gone (w_hist w') (ms_zvol_path s)"
  using safeD [OF safe_Deprovision _ _ assms] by (simp add: guarded_def)

text \<open>A server that has the VM and the zvol of the request \<open>r\<close>, and obeys.\<close>

definition obedient_nas :: server where
  "obedient_nas h q =
     (case q of
        VmGet i \<Rightarrow> Inr (RVM (vm_zero\<lparr>vm_id := i, vm_description := omniVMDescription ''r'', vm_state := ''STOPPED''\<rparr>))
      | DatasetGet z \<Rightarrow> Inr (RDataset (dataset_zero\<lparr>ds_user_properties := OmniManagedProperties ''r''\<rparr>))
      | Now \<Rightarrow> Inr (RTime 0)
      | _ \<Rightarrow> Inr RNull)"

definition doomed :: machine_spec where
  "doomed = spec_zero\<lparr>ms_vm_id := 7, ms_zvol_path := ''tank/r''\<rparr>"

theorem Deprovision_success_witness:
  "vm_gone (w_hist (snd (run_state (Deprovision (example_runtime obedient_nas) doomed (Some ''r''))
     \<lparr>w_hist = [], w_proc = prov_zero\<rparr>))) 7"
proof -
  have "fst (run_state (Deprovision (example_runtime obedient_nas) doomed (Some ''r''))
     \<lparr>w_hist = [], w_proc = prov_zero\<rparr>) = Inr ()" by code_simp
  then have "run_state (Deprovision (example_runtime obedient_nas) doomed (Some ''r'')) \<lparr>w_hist = [], w_proc = prov_zero\<rparr> =
      (Inr (), snd (run_state (Deprovision (example_runtime obedient_nas) doomed (Some ''r'')) \<lparr>w_hist = [], w_proc = prov_zero\<rparr>))"
    by (metis prod.collapse)
  from Deprovision_success [OF this] show ?thesis by (simp add: doomed_def)
qed

section \<open>The shutdown loop ends\<close>

text \<open>
  \<open>c\<close> is the monotonic clock: the answer to \<open>Now\<close> after a history. It never goes
  back, and a timer of \<open>d\<close> nanoseconds that fires has let at least \<open>d\<close> pass.
\<close>

definition advancing_clock :: "server \<Rightarrow> (history \<Rightarrow> int) \<Rightarrow> bool" where
  "advancing_clock srv c \<longleftrightarrow>
     (\<forall>h. srv h Now = Inr (RTime (c h))) \<and> (\<forall>h e. c h \<le> c (h @ [e])) \<and>
     (\<forall>h d r. c h + d \<le> c (h @ [(Wait d, Inr r)]))"

lemma clock_now: "advancing_clock srv c \<Longrightarrow> srv h Now = Inr (RTime (c h))"
  by (simp add: advancing_clock_def)

lemma clock_mono: "advancing_clock srv c \<Longrightarrow> c h \<le> c (h @ es)"
proof (induction es rule: rev_induct)
  case (snoc e es)
  then have "c (h @ es) \<le> c ((h @ es) @ [e])" unfolding advancing_clock_def by blast
  with snoc show ?case by simp
qed simp

lemma clock_wait: "advancing_clock srv c \<Longrightarrow> c h + d \<le> c (h @ [(Wait d, Inr r)])"
  by (simp add: advancing_clock_def)

lemma wait_returns:
  assumes c: "advancing_clock (rt_srv rt) c" and poll: "0 < poll_interval rt"
    and "deadline - c (w_hist w) \<le> int n * poll_interval rt"
  shows "fst (run_state (waitForGracefulStop rt i deadline (Suc n)) w) \<noteq> None"
  using assms(3)
proof (induction n arbitrary: w)
  case 0
  then show ?case by (simp add: clock_now [OF c])
next
  case (Suc n)
  let ?srv = "rt_srv rt" and ?h = "w_hist w" and ?d = "poll_interval rt"
  let ?h1 = "?h @ [(Now, Inr (RTime (c ?h)))]"
  let ?h2 = "?h1 @ [(VmGet i, ?srv ?h1 (VmGet i))]"
  let ?a = "?srv ?h2 (Wait ?d)"
  let ?w3 = "w\<lparr>w_hist := ?h2 @ [(Wait ?d, ?a)]\<rparr>"
  have next_poll: "fst (run_state (waitForGracefulStop rt i deadline (Suc n)) ?w3) \<noteq> None" if "?a = Inr r" for r
  proof (rule Suc.IH)
    have "c ?h \<le> c ?h2" using clock_mono [OF c, of ?h] by (metis append.assoc)
    moreover have "c ?h2 + ?d \<le> c (?h2 @ [(Wait ?d, ?a)])" 
      unfolding that by (rule clock_wait [OF c])
    ultimately show "deadline - c (w_hist ?w3) \<le> int n * ?d" using Suc.prems by (simp add: algebra_simps)
  qed
  show ?case
  proof (cases "dec_unit ?a")
    case (Inl e)
    then show ?thesis
      by (simp add: clock_now [OF c] GetVM_def split: sum.splits del: waitForGracefulStop.simps not_None_eq
          add: waitForGracefulStop.simps(2) [of rt i deadline "Suc n"])
  next
    case (Inr u)
    then obtain r where "?a = Inr r" by (cases ?a) auto
    with next_poll Inr show ?thesis
      by (simp add: clock_now [OF c] GetVM_def split: sum.splits del: waitForGracefulStop.simps not_None_eq
          add: waitForGracefulStop.simps(2) [of rt i deadline "Suc n"])
  qed
qed

lemma waitForGracefulStop_more_fuel:
  "fst (run_state (waitForGracefulStop rt i deadline n) w) = Some b \<Longrightarrow> n \<le> m \<Longrightarrow>
   run_state (waitForGracefulStop rt i deadline m) w = run_state (waitForGracefulStop rt i deadline n) w"
proof (induction n arbitrary: w m)
  case (Suc n)
  then obtain k where m: "m = Suc k" and k: "n \<le> k" by (cases m) auto
  let ?srv = "rt_srv rt"
  let ?h1 = "w_hist w @ [(Now, ?srv (w_hist w) Now)]"
  let ?h2 = "?h1 @ [(VmGet i, ?srv ?h1 (VmGet i))]"
  note IH = Suc.IH [OF _ k]
  show ?case
  proof (cases "dec_vm (?srv ?h1 (VmGet i))")
    case (Inl e)
    then show ?thesis by (simp add: m GetVM_def)
  next
    case (Inr v)
    show ?thesis
    proof (cases "dec_unit (?srv ?h2 (Wait (poll_interval rt)))")
      case (Inl e)
      with Inr show ?thesis by (simp add: m GetVM_def)
    next
      case (Inr u)
      with \<open>dec_vm _ = Inr v\<close> Suc.prems(1) show ?thesis by (simp add: m GetVM_def IH split: if_splits)
    qed
  qed
qed simp

text \<open>
  C8: the graceful shutdown of a VM returns, whatever the server answers, when the clock
  advances as timers fire and the fuel covers the timeout divided by the poll interval.
\<close>

theorem gracefullyStopVM_returns:
  assumes "advancing_clock (rt_srv rt) c" and "0 < poll_interval rt"
    and "graceful_timeout rt \<le> int n * poll_interval rt" and "n < rt_fuel rt"
  shows "\<exists>b. fst (run_state (gracefullyStopVM rt i) w) = Some b"
proof -
  let ?h1 = "w_hist w @ [(VmStop i False, rt_srv rt (w_hist w) (VmStop i False))]"
  let ?w2 = "w\<lparr>w_hist := ?h1 @ [(Now, Inr (RTime (c ?h1)))]\<rparr>"
  let ?deadline = "c ?h1 + graceful_timeout rt"
  have "c ?h1 \<le> c (?h1 @ [(Now, Inr (RTime (c ?h1)))])" by (rule clock_mono [OF assms(1)])
  with assms(3) have "?deadline - c (w_hist ?w2) \<le> int n * poll_interval rt" by simp
  from wait_returns [OF assms(1,2) this] obtain b
    where b: "fst (run_state (waitForGracefulStop rt i ?deadline (Suc n)) ?w2) = Some b" by blast
  with waitForGracefulStop_more_fuel [OF b, of "rt_fuel rt"] assms(4)
  have "fst (run_state (waitForGracefulStop rt i ?deadline (rt_fuel rt)) ?w2) = Some b" by simp
  then show ?thesis by (simp add: gracefullyStopVM_def StopVM_def clock_now [OF assms(1)])
qed

definition waited :: "history \<Rightarrow> int" where
  "waited h = sum_list (map (\<lambda>(q, r). case q of Wait d \<Rightarrow> max 0 d | _ \<Rightarrow> 0) h)"

definition idle_server :: server where
  "idle_server h q = (if q = Now then Inr (RTime (waited h)) else Inr RNull)"

lemma idle_server_clock: "advancing_clock idle_server waited"
  by (auto simp: advancing_clock_def idle_server_def waited_def split: op.splits)

theorem gracefullyStopVM_witness:
  "\<exists>b. fst (run_state (gracefullyStopVM (example_runtime idle_server) 7) \<lparr>w_hist = [], w_proc = prov_zero\<rparr>) = Some b"
  using gracefullyStopVM_returns [of "example_runtime idle_server" waited 15] idle_server_clock
  by (simp add: example_runtime_def NewProvisioner_def example_config_def poll_interval_def graceful_timeout_def)

end
