(* ===== verification/Preflight.thy ===== *)
theory Preflight
  imports Provisioner "HOL-Library.AList"
begin

text \<open>
  The zvols of a machine and the checks before one is made (internal/provisioner/steps.go):
  \<open>ensureZvol\<close> with its encrypted form and resizing, the free space of the pools, and
  the free memory of the host.
\<close>

section \<open>Zvols\<close>

definition maybeResizeZvol :: "runtime \<Rightarrow> string \<Rightarrow> int \<Rightarrow> unit step" where
  "maybeResizeZvol rt zvolPath requestedGiB = do {
     r \<leftarrow> GetZvolSize (rt_srv rt) zvolPath;
     case r of
       Inl e \<Rightarrow> ret (Inr ())
     | Inr currentBytes \<Rightarrow>
         if gib_bytes requestedGiB \<le> currentBytes then ret (Inr ())
         else mapE (Wrapped ''failed to resize zvol'') (ResizeZvol (rt_srv rt) zvolPath requestedGiB) }"

definition passphraseProperty :: string where
  "passphraseProperty = ''org.omni:passphrase''"

definition generatePassphrase :: "runtime \<Rightarrow> string step" where
  "generatePassphrase rt = do {
     r \<leftarrow> ask (rt_srv rt) (RandomHex 32);
     ret (wrap ''failed to generate random passphrase'' (dec_str r)) }"

definition ensureEncryptedZvol :: "runtime \<Rightarrow> string \<Rightarrow> int \<Rightarrow> user_property list \<Rightarrow> unit step" where
  "ensureEncryptedZvol rt zvolPath sizeGiB props =
     bindE (generatePassphrase rt) (\<lambda>passphrase. do {
       r \<leftarrow> CreateEncryptedZvol (rt_srv rt) zvolPath sizeGiB passphrase (props @ [(passphraseProperty, passphrase)]);
       case r of
         Inr ds \<Rightarrow> ret (Inr ())
       | Inl err \<Rightarrow>
           if \<not> IsAlreadyExists err then ret (Inl (Wrapped ''failed to create encrypted zvol'' err))
           else
             bindE (mapE (Wrapped ''failed to read stored passphrase'')
                      (GetDatasetUserProperty (rt_srv rt) zvolPath passphraseProperty)) (\<lambda>stored.
             if stored = [] then ret (Inl (Errorf ''encrypted zvol exists but has no stored passphrase''))
             else do {
               l \<leftarrow> IsDatasetLocked (rt_srv rt) zvolPath;
               bindE (if l = Inr True
                      then mapE (Wrapped ''failed to unlock encrypted zvol'')
                             (UnlockDataset (rt_srv rt) zvolPath stored)
                      else ret (Inr ()))
                 (\<lambda>_. maybeResizeZvol rt zvolPath sizeGiB) }) })"

definition ensureZvol :: "runtime \<Rightarrow> string \<Rightarrow> int \<Rightarrow> bool \<Rightarrow> user_property list \<Rightarrow> unit step" where
  "ensureZvol rt zvolPath sizeGiB encrypted props =
     (if encrypted then ensureEncryptedZvol rt zvolPath sizeGiB props
      else do {
        r \<leftarrow> CreateZvol (rt_srv rt) zvolPath sizeGiB props;
        case r of
          Inr ds \<Rightarrow> ret (Inr ())
        | Inl err \<Rightarrow>
            if \<not> IsAlreadyExists err then ret (Inl (Wrapped ''failed to create zvol'' err))
            else maybeResizeZvol rt zvolPath sizeGiB })"

section \<open>Pre-flight checks\<close>

text \<open>\<open>poolRequiredGiB\<close>: the sizes of the zvols summed per pool.\<close>

definition add_required :: "string \<Rightarrow> int \<Rightarrow> (string \<times> int) list \<Rightarrow> (string \<times> int) list" where
  "add_required pool size_gib m =
     AList.update pool (i64 ((case map_of m pool of None \<Rightarrow> 0 | Some n \<Rightarrow> n) + size_gib)) m"

definition disk_pool :: "machine_data \<Rightarrow> additional_disk \<Rightarrow> string" where
  "disk_pool d k = (if dk_pool k = [] then md_pool d else dk_pool k)"

definition poolRequiredGiB :: "machine_data \<Rightarrow> (string \<times> int) list" where
  "poolRequiredGiB d =
     fold (\<lambda>k m. add_required (disk_pool d k) (dk_size k) m) (md_additional_disks d) [(md_pool d, md_disk_size d)]"

fun check_pools :: "runtime \<Rightarrow> (string \<times> int) list \<Rightarrow> unit step" where
  "check_pools rt [] = ret (Inr ())"
| "check_pools rt ((pool, requiredGiB) # ps) = do {
     r \<leftarrow> PoolFreeSpace (rt_srv rt) pool;
     case r of
       Inl e \<Rightarrow> check_pools rt ps
     | Inr freeBytes \<Rightarrow>
         if freeBytes < gib_bytes requiredGiB then ret (Inl (Errorf ''pool has too little free space''))
         else check_pools rt ps }"

definition reserved_mib :: "machine_data \<Rightarrow> int" where
  "reserved_mib d = (if 0 < md_min_memory d then md_min_memory d else md_memory d)"

definition preflightHostMemory :: "runtime \<Rightarrow> machine_data \<Rightarrow> unit step" where
  "preflightHostMemory rt d = do {
     m \<leftarrow> SystemMemoryAvailable (rt_srv rt);
     case m of
       Inl e \<Rightarrow> ret (Inr ())
     | Inr hostMem \<Rightarrow>
         let hostMiB = go_div hostMem (1024 * 1024)
         in if go_div (i64 (hostMiB * 80)) 100 < md_memory d
            then ret (Inl (Errorf ''MachineClass exceeds host RAM''))
            else do {
              g \<leftarrow> RunningGuestsMemoryMiB (rt_srv rt);
              case g of
                Inl e \<Rightarrow> ret (Inr ())
              | Inr runningMiB \<Rightarrow>
                  let freeMiB = i64 (hostMiB - runningMiB)
                  in if go_div (i64 (freeMiB * 90)) 100 < reserved_mib d
                     then ret (Inl (Wrapped ''TrueNAS host has too little free memory'' ErrHostOOM))
                     else ret (Inr ()) } }"

section \<open>What the zvol operations may do\<close>

text \<open>
  A zvol is only ever grown: a resize follows a reading of a smaller size. It is unlocked only
  after it was read to be locked, with the passphrase read from it. Nothing is deleted.
\<close>

definition zvol_guard :: "string \<Rightarrow> history \<Rightarrow> op \<Rightarrow> bool" where
  "zvol_guard z h q =
     (case q of
        DatasetCreate c \<Rightarrow> cd_name c = z \<and> cd_type c = ''VOLUME''
      | DatasetResize p n \<Rightarrow> p = z \<and> (\<exists>r d. (DatasetGet z, r) \<in> set h \<and> dec_dataset r = Inr d \<and> ds_volsize d < n)
      | DatasetUnlock p s \<Rightarrow> p = z \<and> s \<noteq> [] \<and>
          (\<exists>r d. (DatasetGet z, r) \<in> set h \<and> dec_dataset r = Inr d \<and>
             get_prop (ds_user_properties d) passphraseProperty = s) \<and>
          (\<exists>r d. (DatasetGet z, r) \<in> set h \<and> dec_dataset r = Inr d \<and> ds_locked d)
      | RandomHex n \<Rightarrow> True
      | _ \<Rightarrow> \<not> is_write q)"

lemma zvol_guard_simps [simp]:
  "zvol_guard z h (DatasetGet p)" "zvol_guard z h (RandomHex n)"
  "zvol_guard z h (DatasetCreate c) \<longleftrightarrow> cd_name c = z \<and> cd_type c = ''VOLUME''"
  by (simp_all add: zvol_guard_def is_write_def)

text \<open>A reading of the zvol that satisfies \<open>Q\<close>.\<close>

definition zvol_read :: "string \<Rightarrow> (dataset \<Rightarrow> bool) \<Rightarrow> history \<Rightarrow> bool" where
  "zvol_read z Q h \<longleftrightarrow> (\<exists>r d. (DatasetGet z, r) \<in> set h \<and> dec_dataset r = Inr d \<and> Q d)"

lemma lasting_zvol_read [simp, intro]: "lasting (zvol_read z Q)"
  unfolding zvol_read_def by (intro lasting_ex lasting_conj lasting_member lasting_True)

lemma safe_read_dataset:
  assumes "lasting E" and "\<And>h. G h (DatasetGet z)"
  shows "safe G E (do { r \<leftarrow> ask srv (DatasetGet z); ret (map_sum f g (dec_dataset r)) })
    (\<lambda>x h. E h \<and> (\<forall>v. x = Inr v \<longrightarrow> zvol_read z (\<lambda>d. v = g d) h))"
  apply (rule safe_conseq [OF safe_call [OF assms(1)]])
    apply (rule assms(2))
   apply assumption
  apply (elim conjE exE)
  subgoal for a h r by (cases "dec_dataset r") (auto simp: zvol_read_def)
  done

lemma safe_maybeResizeZvol:
  assumes "lasting E"
  shows "safe (zvol_guard z) E (maybeResizeZvol rt z n) (\<lambda>_. E)"
proof -
  have resize: "safe (zvol_guard z) (\<lambda>h. E h \<and> zvol_read z (\<lambda>d. ds_volsize d < gib_bytes n) h)
      (mapE (Wrapped ''failed to resize zvol'') (ResizeZvol (rt_srv rt) z n)) (\<lambda>_. E)"
    unfolding mapE_def ResizeZvol_def State_Monad.bind_assoc State_Monad.bind_left_identity
    by (rule safe_conseq [OF safe_call [where E = "\<lambda>h. E h \<and> zvol_read z (\<lambda>d. ds_volsize d < gib_bytes n) h"]])
      (auto simp: assms zvol_guard_def zvol_read_def)
  show ?thesis
    unfolding maybeResizeZvol_def GetZvolSize_def
    apply (rule safe_bind [OF safe_read_dataset [OF assms]], simp)
    apply (rule safe_case_sum)
     apply (rule safe_ret, simp)
    apply (rule safe_if)
     apply (rule safe_ret, simp)
    apply (rule safe_conseq [OF resize])
     apply (auto simp: zvol_read_def)
    done
qed

lemma safe_create_zvol:
  assumes "lasting E" and "cd_name c = z" and "cd_type c = ''VOLUME''"
  shows "safe (zvol_guard z) E (CreateDataset srv c) (\<lambda>_. E)"
  unfolding CreateDataset_def by (rule safe_conseq [OF safe_call [OF assms(1)]]) (simp_all add: assms(2,3))

lemma safe_ensureEncryptedZvol: "safe (zvol_guard z) (\<lambda>h. True) (ensureEncryptedZvol rt z n ps) (\<lambda>r h. True)"
proof -
  let ?P = "\<lambda>s. zvol_read z (\<lambda>d. s = get_prop (ds_user_properties d) passphraseProperty)"
  have unlock: "safe (zvol_guard z) (\<lambda>h. ?P s h \<and> zvol_read z (\<lambda>d. True = ds_locked d) h)
      (mapE (Wrapped ''failed to unlock encrypted zvol'') (UnlockDataset (rt_srv rt) z s)) (\<lambda>r h. True)" if "s \<noteq> []" for s
    unfolding mapE_def UnlockDataset_def State_Monad.bind_assoc State_Monad.bind_left_identity
    by (rule safe_conseq [OF safe_call [where E = "\<lambda>h. ?P s h \<and> zvol_read z (\<lambda>d. True = ds_locked d) h"]])
      (auto simp: that zvol_guard_def zvol_read_def)
  have after: "safe (zvol_guard z) (?P s) (do {
        l \<leftarrow> IsDatasetLocked (rt_srv rt) z;
        bindE (if l = Inr True then mapE (Wrapped ''failed to unlock encrypted zvol'') (UnlockDataset (rt_srv rt) z s)
               else ret (Inr ()))
          (\<lambda>_. maybeResizeZvol rt z n) }) (\<lambda>r h. True)" if "s \<noteq> []" for s
    unfolding IsDatasetLocked_def
    apply (rule safe_bind [OF safe_read_dataset [where E = "?P s"]], simp, simp)
    subgoal for l
      apply (rule safe_bindE [where R = "\<lambda>_ h. True"])
       apply (rule safe_if)
        apply (rule safe_conseq [OF unlock [OF that]])
         apply blast
        apply (simp split: sum.splits)
       apply (rule safe_ret, simp)
      apply (rule safe_conseq [OF safe_maybeResizeZvol [of "\<lambda>h. True"]], simp_all)
      done
    done
  have safe_passphrase: "safe (zvol_guard z) (\<lambda>h. True)
      (mapE (Wrapped ''failed to read stored passphrase'') (GetDatasetUserProperty (rt_srv rt) z passphraseProperty))
      (\<lambda>x h. \<forall>s. x = Inr s \<longrightarrow> ?P s h)"
    unfolding mapE_def GetDatasetUserProperty_def GetDatasetUserProperties_def State_Monad.bind_assoc
      State_Monad.bind_left_identity
    apply (rule safe_conseq [OF safe_call [of "\<lambda>h. True"]], simp, simp, assumption)
    apply (elim conjE exE)
    subgoal for a h r by (cases "dec_dataset r") (auto simp: zvol_read_def)
    done
  show ?thesis
    unfolding ensureEncryptedZvol_def generatePassphrase_def CreateEncryptedZvol_def
    apply (rule safe_bindE [where R = "\<lambda>_ h. True"])
     apply (rule safe_conseq [OF safe_call [of "\<lambda>h. True"]], simp, simp, simp, simp split: sum.splits)
    apply (rule safe_bind [OF safe_create_zvol [of "\<lambda>h. True"]], simp, simp, simp)
    apply (rule safe_case_sum)
     apply (rule safe_if)
      apply (rule safe_ret, simp)
     apply (rule safe_bindE [where R = ?P])
      apply (rule safe_conseq [OF safe_passphrase], simp)
    subgoal for p r e x h by (cases x) auto
     apply (rule safe_if)
      apply (rule safe_ret, simp)
     apply (rule after, assumption)
    apply (rule safe_ret, simp)
    done
qed

lemma safe_ensureZvol: "safe (zvol_guard z) (\<lambda>h. True) (ensureZvol rt z n enc ps) (\<lambda>r h. True)"
  unfolding ensureZvol_def CreateZvol_def
  apply (rule safe_if)
   apply (rule safe_ensureEncryptedZvol)
  apply (rule safe_bind [OF safe_create_zvol [of "\<lambda>h. True"]], simp, simp, simp)
  apply (intro safe_case_sum safe_if safe_ret safe_conseq [OF safe_maybeResizeZvol [of "\<lambda>h. True"]])
      apply simp_all
  done

text \<open>
  Making sure of a zvol never destroys data: the only writes are the creation of that
  volume, a resize to more than the size just read, and, for an encrypted volume that was read
  to be locked, an unlock with the non-empty passphrase stored on it.
\<close>

theorem ensureZvol_guarded:
  "guarded (zvol_guard z) (w_hist (snd (run_state (ensureZvol rt z n enc ps) \<lparr>w_hist = [], w_proc = p\<rparr>)))"
  by (rule safe_run [OF safe_conseq [OF safe_ensureZvol]]) simp_all

section \<open>What the pre-flight checks admit\<close>

text \<open>The zvols of a configuration on a pool, in GiB.\<close>

definition gib_on_pool :: "machine_data \<Rightarrow> string \<Rightarrow> int" where
  "gib_on_pool d pool =
     (if md_pool d = pool then md_disk_size d else 0) +
     sum_list (map dk_size (filter (\<lambda>k. disk_pool d k = pool) (md_additional_disks d)))"

definition required :: "(string \<times> int) list \<Rightarrow> string \<Rightarrow> int" where
  "required m pool = (case map_of m pool of None \<Rightarrow> 0 | Some n \<Rightarrow> n)"

lemma required_add:
  "required (add_required p n m) q = (if q = p then i64 (required m p + n) else required m q)"
  by (simp add: required_def add_required_def update_conv)

lemma required_fold:
  assumes "\<forall>k \<in> set ks. 0 \<le> dk_size k \<and> dk_size k \<le> 2 ^ 20" and "\<forall>q. 0 \<le> required m q \<and> required m q \<le> B"
    and "B + 2 ^ 20 * int (length ks) < 2 ^ 63"
  shows "required (fold (\<lambda>k m. add_required (disk_pool d k) (dk_size k) m) ks m) q =
    required m q + sum_list (map dk_size (filter (\<lambda>k. disk_pool d k = q) ks))"
  using assms
proof (induction ks arbitrary: m B)
  case (Cons k ks)
  let ?m = "add_required (disk_pool d k) (dk_size k) m"
  have k: "0 \<le> dk_size k" "dk_size k \<le> 2 ^ 20" using Cons.prems(1) by auto
  have r: "0 \<le> required m q" "required m q \<le> B" for q using Cons.prems(2) by auto
  have len: "B + 2 ^ 20 + 2 ^ 20 * int (length ks) < 2 ^ 63" using Cons.prems(3) by (simp add: algebra_simps)
  have e: "required ?m q = (if q = disk_pool d k then required m q + dk_size k else required m q)" for q
    using k r [of "disk_pool d k"] len by (simp add: required_add i64_id)
  have "\<forall>q. 0 \<le> required ?m q \<and> required ?m q \<le> B + 2 ^ 20"
    using k r by (auto simp: e) (smt (verit))+
  from Cons.IH [OF _ this len] Cons.prems(1) show ?case by (simp add: e)
qed simp

lemma valid_sizes:
  assumes "valid_data env d"
  shows "required (poolRequiredGiB d) q = gib_on_pool d q" and "0 \<le> gib_on_pool d q" and "gib_on_pool d q \<le> 2 ^ 20 * 17"
proof -
  let ?ks = "md_additional_disks d"
  have root: "0 \<le> md_disk_size d" "md_disk_size d \<le> 2 ^ 20" using assms by (auto simp: valid_data_def)
  have ks: "\<forall>k \<in> set ?ks. 0 \<le> dk_size k \<and> dk_size k \<le> 2 ^ 20"
    using assms by (auto simp: valid_data_def valid_disk_def)
  have len: "length ?ks \<le> 16" using assms by (simp add: valid_data_def)
  show "required (poolRequiredGiB d) q = gib_on_pool d q"
    unfolding poolRequiredGiB_def
    by (subst required_fold [OF ks, of _ "2 ^ 20"]) (use root len in \<open>auto simp: required_def gib_on_pool_def\<close>)
  have sum: "0 \<le> sum_list (map dk_size (filter P ks)) \<and> sum_list (map dk_size (filter P ks)) \<le> 2 ^ 20 * int (length ks)"
    if "\<forall>k \<in> set ks. 0 \<le> dk_size k \<and> dk_size k \<le> 2 ^ 20" for P and ks :: "additional_disk list"
    using that by (induction ks) (auto simp: algebra_simps)
  show "0 \<le> gib_on_pool d q" "gib_on_pool d q \<le> 2 ^ 20 * 17"
    using sum [OF ks, of "\<lambda>k. disk_pool d k = q"] root len by (auto simp: gib_on_pool_def)
qed

text \<open>The free space of a pool was asked for, and if the server told it, it is enough.\<close>

definition pool_fits :: "history \<Rightarrow> string \<Rightarrow> int \<Rightarrow> bool" where
  "pool_fits h pool n \<longleftrightarrow>
     (\<exists>r. (DatasetGet pool, r) \<in> set h \<and> (case dec_dataset r of Inl e \<Rightarrow> True | Inr ds \<Rightarrow> n * 2 ^ 30 \<le> ds_available ds))"

lemma lasting_pool_fits [simp, intro]: "lasting (\<lambda>h. pool_fits h p n)"
  unfolding pool_fits_def by (intro lasting_ex lasting_conj lasting_member lasting_True)

lemma safe_check_pools:
  "lasting E \<Longrightarrow> safe anything E (check_pools rt ps)
     (\<lambda>r h. E h \<and> (r = Inr () \<longrightarrow> (\<forall>(pool, n) \<in> set ps. 0 \<le> n \<and> n \<le> 2 ^ 20 * 17 \<longrightarrow> pool_fits h pool n)))"
proof (induction ps arbitrary: E)
  case (Cons pn ps)
  obtain pool n where pn: "pn = (pool, n)" by (cases pn)
  let ?O = "\<lambda>x h. E h \<and> (\<exists>r. (DatasetGet pool, r) \<in> set h \<and>
      x = map_sum (Wrapped ''failed to query pool space: '') ds_available (dec_dataset r))"
  have ask_space: "safe anything E (PoolFreeSpace (rt_srv rt) pool) ?O"
    unfolding PoolFreeSpace_def getRootDatasetSpace_def State_Monad.bind_assoc State_Monad.bind_left_identity
    by (rule safe_call [OF Cons.prems]) simp
  have O: "lasting (?O x)" for x by (intro lasting_conj Cons.prems lasting_ex lasting_member lasting_True)
  have fits: "pool_fits h pool n"
    if "?O x h" "\<forall>free. x = Inr free \<longrightarrow> gib_bytes n \<le> free" "0 \<le> n" "n \<le> 2 ^ 20 * 17" for x h
  proof -
    from that obtain r where r: "(DatasetGet pool, r) \<in> set h"
      and x: "x = map_sum (Wrapped ''failed to query pool space: '') ds_available (dec_dataset r)" by blast
    have "gib_bytes n = n * 2 ^ 30" using that(3,4) by (simp add: gib_bytes_def i64_id)
    with that(2) x show ?thesis unfolding pool_fits_def
      by (intro exI [of _ r]) (cases "dec_dataset r"; simp add: r)
  qed
  show ?case
    unfolding pn check_pools.simps
    apply (rule safe_bind [OF ask_space])
    subgoal for x
      apply (rule safe_case_sum)
      subgoal for e
        apply (rule safe_conseq [OF Cons.IH [OF O [of x]]], assumption)
        using fits [of _ x] by (auto split: prod.splits)
      apply (rule safe_if)
       apply (rule safe_ret, simp)
      subgoal for free
        apply (rule safe_conseq [OF Cons.IH [OF O [of x]]], assumption)
        using fits [of _ x] by (auto split: prod.splits)
      done
    done
qed (simp add: safe_ret)

text \<open>
  The memory of the host was asked for. If the server told it, the VM has at most four fifths
  of it, and if the memory of the running guests was told too, what the VM reserves is at most
  nine tenths of the rest.
\<close>

definition memory_fits :: "history \<Rightarrow> machine_data \<Rightarrow> bool" where
  "memory_fits h d \<longleftrightarrow>
     (\<exists>r. (SystemInfo, r) \<in> set h \<and>
        (case dec_host r of
           Inl e \<Rightarrow> True
         | Inr hi \<Rightarrow>
             (let host = go_div (hi_physmem hi) (1024 * 1024)
              in md_memory d \<le> go_div (i64 (host * 80)) 100 \<and>
                 (\<exists>r'. (VmListRunning, r') \<in> set h \<and>
                    (case dec_vms r' of
                       Inl e \<Rightarrow> True
                     | Inr vms \<Rightarrow> reserved_mib d \<le> go_div (i64 (i64 (host - running_memory vms) * 90)) 100)))))"

lemma memory_fitsI1: "(SystemInfo, r) \<in> set h \<Longrightarrow> dec_host r = Inl e \<Longrightarrow> memory_fits h d"
  unfolding memory_fits_def by (intro exI [of _ r]) simp

lemma memory_fitsI2:
  assumes "(SystemInfo, r) \<in> set h" "dec_host r = Inr hi" "(VmListRunning, r') \<in> set h"
    and "\<not> go_div (i64 (go_div (hi_physmem hi) 1048576 * 80)) 100 < md_memory d"
    and "case dec_vms r' of Inl e \<Rightarrow> True
         | Inr vms \<Rightarrow> \<not> go_div (i64 (i64 (go_div (hi_physmem hi) 1048576 - running_memory vms) * 90)) 100 < reserved_mib d"
  shows "memory_fits h d"
  unfolding memory_fits_def
  by (intro exI [of _ r] conjI assms(1)) (use assms in \<open>auto simp: Let_def not_less intro!: exI [of _ r'] split: sum.splits\<close>)

lemma safe_preflightHostMemory:
  assumes "lasting E"
  shows "safe anything E (preflightHostMemory rt d) (\<lambda>r h. E h \<and> (r = Inr () \<longrightarrow> memory_fits h d))"
proof -
  let ?S = "\<lambda>m h. E h \<and> (\<exists>r. (SystemInfo, r) \<in> set h \<and> m = map_sum (Wrapped ''system.info failed: '') hi_physmem (dec_host r))"
  have S: "lasting (?S m)" for m by (intro lasting_conj assms lasting_ex lasting_member lasting_True)
  show ?thesis
    unfolding preflightHostMemory_def SystemMemoryAvailable_def RunningGuestsMemoryMiB_def Let_def
    apply (rule safe_bind [OF safe_call [OF assms]], simp)
    subgoal for m
      apply (rule safe_case_sum)
      subgoal for e
        apply (rule safe_ret)
        apply (elim conjE exE)
        subgoal for h r by (cases "dec_host r") (auto simp: memory_fits_def)
        done
      apply (rule safe_if)
       apply (rule safe_ret, simp)
      subgoal for hostMem
        apply (rule safe_bind [OF safe_call [OF S [of m]]], simp)
        subgoal for g
          apply (rule safe_case_sum)
          subgoal for e
            apply (rule safe_ret)
            apply (elim conjE exE)
            subgoal for h r r' by (cases "dec_host r'"; cases "dec_vms r") (auto intro: memory_fitsI2)
            done
          apply (rule safe_if)
           apply (rule safe_ret, simp)
          subgoal for runningMiB
            apply (rule safe_ret)
            apply (elim conjE exE)
            subgoal for h r r' by (cases "dec_host r'"; cases "dec_vms r") (auto intro: memory_fitsI2)
            done
          done
        done
      done
    done
qed

end
