(* ===== verification/Steps.thy ===== *)
theory Steps
  imports IsoCache Teardown Preflight
begin

text \<open>
  Creating and starting a machine (internal/provisioner/steps.go): adoption and recovery of an
  existing VM, the attachment of devices, the configuration
  patches, and the four steps of \<open>ProvisionSteps\<close>.
\<close>

section \<open>Starting\<close>

definition translateStartError :: "runtime \<Rightarrow> string \<Rightarrow> go_error \<Rightarrow> (prov_state, go_error) client" where
  "translateStartError rt vmName err =
     (if \<not> IsNoMemory err then ret (Wrapped ''failed to start VM'' err)
      else do {
        modify_proc (recordOOMAttempt vmName);
        p \<leftarrow> get_proc;
        let count = oom_failures p vmName;
        let limit = pc_max_start_oom_attempts (rt_config rt);
        if 0 < limit \<and> limit < count
        then ret (Wrapped ''TrueNAS host out of memory after all attempts: cannot start VM'' ErrHostOOM)
        else ret (Wrapped2 ''TrueNAS host out of memory: cannot start VM'' ErrHostOOM err) })"

definition resetNVRAMIfNeeded :: "runtime \<Rightarrow> int \<Rightarrow> string \<Rightarrow> (prov_state, unit) client" where
  "resetNVRAMIfNeeded rt vmID vmName = do {
     r \<leftarrow> GetVM (rt_srv rt) vmID;
     case r of
       Inl e \<Rightarrow> ret ()
     | Inr v \<Rightarrow>
         if vm_state v = ''ERROR'' then do {
           n \<leftarrow> ResetVMNVRAM (rt_srv rt) vmID;
           case n of
             Inl e \<Rightarrow> ret ()
           | Inr u \<Rightarrow> do {
               s \<leftarrow> StartVM (rt_srv rt) vmID;
               case s of
                 Inl e \<Rightarrow> if IsNoMemory e then modify_proc (recordOOMAttempt vmName) else ret ()
               | Inr u \<Rightarrow> ret () } }
         else ret () }"

text \<open>
  The result of the pointer-to-error functions: \<open>None\<close> to go on creating, \<open>Some\<close> of what
  the step returns otherwise.
\<close>

definition seconds :: "int \<Rightarrow> int" where
  "seconds n = n * 1000000000"

definition handleExistingVM :: "runtime \<Rightarrow> vm \<Rightarrow> string \<Rightarrow> (prov_state, (go_error + unit) option) client" where
  "handleExistingVM rt v vmName =
     (if \<not> isOmniManagedVM v then ret (Some (Inl (Errorf ''refusing to adopt VM'')))
      else if vm_state v = ''RUNNING'' then do {
        modify_proc (TrackVMName vmName);
        modify_proc (clearVMErrors (vm_id v));
        ret (Some (Inr ())) }
      else if vm_state v = ''ERROR'' then do {
        modify_proc (recordVMError (vm_id v));
        p \<leftarrow> get_proc;
        let count = error_failures p (vm_id v);
        let limit = pc_max_error_recoveries (rt_config rt);
        if 0 < limit \<and> limit < count then do {
          modify_proc (clearVMErrors (vm_id v));
          c \<leftarrow> cleanupVM rt (vm_id v);
          ret (Some (Inl (if c = Inl OutOfFuel then OutOfFuel else RetryInterval (seconds 5)))) }
        else do {
          resetNVRAMIfNeeded rt (vm_id v) vmName;
          ret (Some (Inl (RetryInterval (seconds 30)))) } }
      else do {
        s \<leftarrow> StartVM (rt_srv rt) (vm_id v);
        case s of
          Inl e \<Rightarrow> do { t \<leftarrow> translateStartError rt vmName e; ret (Some (Inl t)) }
        | Inr u \<Rightarrow> do {
            modify_proc (clearOOMAttempts vmName);
            ret (Some (Inl (RetryInterval (seconds 10)))) } })"

definition find_by_name :: "runtime \<Rightarrow> string \<Rightarrow> (prov_state, (go_error + unit) option) client" where
  "find_by_name rt vmName = do {
     r \<leftarrow> FindVMByName (rt_srv rt) vmName;
     case r of
       Inl e \<Rightarrow> ret (Some (Inl (Wrapped ''failed to check for existing VM'' e)))
     | Inr None \<Rightarrow> ret None
     | Inr (Some v) \<Rightarrow> do {
         upd_spec (\<lambda>s. s\<lparr>ms_vm_id := i32 (vm_id v)\<rparr>);
         handleExistingVM rt v vmName } }"

definition checkExistingVM :: "runtime \<Rightarrow> string \<Rightarrow> (prov_state, (go_error + unit) option) client" where
  "checkExistingVM rt vmName = do {
     spec \<leftarrow> get_spec;
     if ms_vm_id spec \<noteq> 0 then do {
       r \<leftarrow> GetVM (rt_srv rt) (ms_vm_id spec);
       case r of
         Inl e \<Rightarrow>
           if \<not> IsNotFound e then ret (Some (Inl (Wrapped ''failed to get VM'' e)))
           else do {
             upd_spec (\<lambda>s. s\<lparr>ms_vm_id := 0, ms_cdrom_device_id := 0\<rparr>);
             find_by_name rt vmName }
       | Inr v \<Rightarrow> handleExistingVM rt v vmName }
     else find_by_name rt vmName }"

section \<open>Devices\<close>

definition additional_base :: "machine_data \<Rightarrow> additional_disk \<Rightarrow> string \<times> string" where
  "additional_base d k =
     (let prefix = (if dk_dataset_prefix k = [] then md_dataset_prefix d else dk_dataset_prefix k)
      in (prefix, if prefix \<noteq> [] then disk_pool d k @ ''/'' @ prefix else disk_pool d k))"

definition additional_path :: "machine_data \<Rightarrow> string \<Rightarrow> nat \<Rightarrow> additional_disk \<Rightarrow> string" where
  "additional_path d requestID i k =
     snd (additional_base d k) @ ''/omni-vms/'' @ requestID @ ''-disk-'' @ show_nat (i + 1)"

definition attach_disk :: "runtime \<Rightarrow> int \<Rightarrow> string \<Rightarrow> machine_data \<Rightarrow> nat \<times> additional_disk \<Rightarrow> unit step" where
  "attach_disk rt vmID requestID d ik =
     (let i = fst ik; k = snd ik; prefix = fst (additional_base d k); base = snd (additional_base d k);
          path = additional_path d requestID i k
      in bindE (if prefix \<noteq> []
                then mapE (Wrapped ''failed to ensure dataset prefix'') (EnsureDataset (rt_srv rt) base)
                else ret (Inr ())) (\<lambda>_.
         bindE (mapE (Wrapped ''failed to ensure omni-vms dataset'')
                  (EnsureDataset (rt_srv rt) (base @ ''/omni-vms''))) (\<lambda>_.
         bindE (mapE (Wrapped ''additional disk'')
                  (ensureZvol rt path (dk_size k) (dk_encrypted k) (OmniManagedProperties requestID))) (\<lambda>_.
         bindE (mapE (Wrapped ''failed to attach additional disk'')
                  (AddDiskWithOrder (rt_srv rt) vmID path (1001 + int i))) (\<lambda>dev. do {
         upd_spec (\<lambda>s. s\<lparr>ms_additional_zvol_paths := ms_additional_zvol_paths s @ [path]\<rparr>);
         ret (Inr ()) })))))"

definition attachAdditionalDisks :: "runtime \<Rightarrow> int \<Rightarrow> string \<Rightarrow> machine_data \<Rightarrow> unit step" where
  "attachAdditionalDisks rt vmID requestID d =
     bindE (for_each (attach_disk rt vmID requestID d) (enumerate 0 (md_additional_disks d)))
       (\<lambda>us. ret (Inr ()))"

text \<open>The address tried for a NIC: the resolved one, or the plain one if the segment cannot be read.\<close>

definition choose_mac :: "runtime \<Rightarrow> string \<Rightarrow> nat \<Rightarrow> string \<Rightarrow> (prov_state, string) client" where
  "choose_mac rt requestID nicIndex networkInterface = do {
     r \<leftarrow> NICMACsOnSegment (rt_srv rt) networkInterface;
     ret (case r of
            Inl e \<Rightarrow> DeterministicMAC (rt_sha rt) requestID nicIndex
          | Inr segmentMACs \<Rightarrow> fst (ResolveDeterministicMAC (rt_sha rt) requestID nicIndex segmentMACs)) }"

definition attachPrimaryNIC :: "runtime \<Rightarrow> int \<Rightarrow> string \<Rightarrow> machine_data \<Rightarrow> unit step" where
  "attachPrimaryNIC rt vmID requestID d = do {
     mac \<leftarrow> choose_mac rt requestID 0 (md_network_interface d);
     bindE (mapE (Wrapped ''failed to attach primary NIC'')
              (AddNICWithConfig (rt_srv rt) vmID
                 \<lparr>nc_network_interface = md_network_interface d, nc_type = [], nc_mac = mac, nc_mtu = 0,
                  nc_trust_guest_rx_filters = False\<rparr> 2001))
       (\<lambda>dev. ret (Inr ())) }"

definition attach_nic :: "runtime \<Rightarrow> int \<Rightarrow> string \<Rightarrow> nat \<times> additional_nic \<Rightarrow> string step" where
  "attach_nic rt vmID requestID ik =
     (let i = fst ik; nic = snd ik
      in do {
        mac \<leftarrow> choose_mac rt requestID (i + 1) (an_network_interface nic);
        bindE (mapE (Wrapped ''failed to attach additional NIC'')
                 (AddNICWithConfig (rt_srv rt) vmID
                    \<lparr>nc_network_interface = an_network_interface nic, nc_type = an_type nic, nc_mac = mac,
                     nc_mtu = an_mtu nic, nc_trust_guest_rx_filters = False\<rparr> (2002 + int i)))
          (\<lambda>dev. ret (Inr (attr_str (dev_attrs dev) ''mac''))) })"

definition mtu_patches :: "additional_nic list \<Rightarrow> string list \<Rightarrow> nic_mtu_config list" where
  "mtu_patches nics macs =
     map (\<lambda>(n, m). \<lparr>nm_mac = m, nm_mtu = an_mtu n\<rparr>)
       (filter (\<lambda>(n, m). 0 < an_mtu n \<and> m \<noteq> []) (zip nics macs))"

definition attachAdditionalNICs ::
  "runtime \<Rightarrow> int \<Rightarrow> string \<Rightarrow> machine_data \<Rightarrow> (nic_mtu_config list \<times> string list) step" where
  "attachAdditionalNICs rt vmID requestID d =
     bindE (for_each (attach_nic rt vmID requestID) (enumerate 0 (md_additional_nics d)))
       (\<lambda>macs. ret (Inr (mtu_patches (md_additional_nics d) macs, macs)))"

section \<open>Configuration patches\<close>

definition applyConfigPatch :: "runtime \<Rightarrow> string \<Rightarrow> string \<Rightarrow> json list \<Rightarrow> unit step" where
  "applyConfigPatch rt kind requestID docs = do {
     r \<leftarrow> ask (rt_srv rt) (ConfigPatch (patchName kind requestID) docs);
     ret (dec_unit r) }"

definition apply_volume_patches :: "runtime \<Rightarrow> string \<Rightarrow> machine_data \<Rightarrow> unit step" where
  "apply_volume_patches rt requestID d =
     (if md_additional_disks d = [] then ret (Inr ())
      else case buildUserVolumePatch (md_additional_disks d) of
        Inl e \<Rightarrow> ret (Inl (Errorf ''failed to build UserVolumeConfig patch''))
      | Inr docs \<Rightarrow>
          bindE (mapE (Wrapped ''failed to apply UserVolumeConfig patch'')
                   (applyConfigPatch rt ''data-volumes'' requestID docs)) (\<lambda>_.
          if hasLonghornDisk (md_additional_disks d)
          then mapE (Wrapped ''failed to apply Longhorn operational patch'')
                 (applyConfigPatch rt ''longhorn-ops'' requestID [buildLonghornOperationalPatch])
          else ret (Inr ())))"

text \<open>\<open>collectNICInterfaceConfigs\<close> panics on lists of different lengths; the panic is an error here.\<close>

definition applyNICConfigPatches ::
  "runtime \<Rightarrow> string \<Rightarrow> machine_data \<Rightarrow> string list \<Rightarrow> nic_mtu_config list \<Rightarrow> unit step" where
  "applyNICConfigPatches rt requestID d attachedMACs mtuPatches =
     bindE (if mtuPatches \<noteq> []
            then mapE (Wrapped ''failed to apply MTU config patch'')
                   (applyConfigPatch rt ''nic-mtu'' requestID [buildMTUPatch mtuPatches])
            else ret (Inr ())) (\<lambda>_.
     case collectNICInterfaceConfigs (md_additional_nics d) attachedMACs of
       None \<Rightarrow> ret (Inl (Errorf ''panic: collectNICInterfaceConfigs''))
     | Some (nicInterfaces, dhcp, noconfig) \<Rightarrow>
         if nicInterfaces = [] then ret (Inr ())
         else case buildAdditionalNICInterfacesPatch nicInterfaces of
           Inl dup \<Rightarrow> ret (Inl (Errorf ''failed to build additional-NIC interfaces config patch''))
         | Inr None \<Rightarrow> ret (Inr ())
         | Inr (Some patch) \<Rightarrow>
             mapE (Wrapped ''failed to apply additional-NIC interfaces config patch'')
               (applyConfigPatch rt ''nic-interfaces'' requestID [patch]))"

definition build_role_aware :: "machine_request \<Rightarrow> string \<Rightarrow> string + json option" where
  "build_role_aware rq subnets =
     (if isControlPlaneRequest rq then buildAdvertisedSubnetsPatch subnets else buildKubeletSubnetsPatch subnets)"

definition applyAdvertisedSubnetsConfigPatch ::
  "runtime \<Rightarrow> machine_request \<Rightarrow> string \<Rightarrow> machine_data \<Rightarrow> unit step" where
  "applyAdvertisedSubnetsConfigPatch rt rq requestID d =
     (if md_advertised_subnets d \<noteq> [] then
        (case build_role_aware rq (md_advertised_subnets d) of
           Inl s \<Rightarrow> ret (Inl (Errorf ''failed to build advertised_subnets config patch''))
         | Inr None \<Rightarrow> ret (Inr ())
         | Inr (Some patch) \<Rightarrow>
             mapE (Wrapped ''failed to apply advertised_subnets config patch'')
               (applyConfigPatch rt ''advertised-subnets'' requestID [patch]))
      else if md_additional_nics d = [] then ret (Inr ())
      else do {
        r \<leftarrow> InterfaceSubnet (rt_srv rt) (md_network_interface d);
        case r of
          Inl e \<Rightarrow> ret (Inr ())
        | Inr subnet \<Rightarrow>
            if subnet = [] then ret (Inr ())
            else case build_role_aware rq subnet of
              Inr (Some patch) \<Rightarrow>
                mapE (Wrapped ''failed to apply auto-detected advertised_subnets config patch'')
                  (applyConfigPatch rt ''advertised-subnets'' requestID [patch])
            | _ \<Rightarrow> ret (Inr ()) })"

section \<open>The steps\<close>

definition defaultExtensions :: "string list" where
  "defaultExtensions =
     [''siderolabs/qemu-guest-agent'', ''siderolabs/util-linux-tools'', ''siderolabs/iscsi-tools'']"

definition swapCDROMForUpgrade :: "runtime \<Rightarrow> machine_request \<Rightarrow> (prov_state, unit) client" where
  "swapCDROMForUpgrade rt rq =
     (case rq_data rq of
        Inl e \<Rightarrow> ret ()
      | Inr d0 \<Rightarrow> do {
          spec \<leftarrow> get_spec;
          let isoPath = iso_path (ApplyDefaults (rt_config rt) d0) (ms_image_id spec);
          r \<leftarrow> SwapCDROM (rt_srv rt) (ms_vm_id spec) isoPath;
          case r of
            Inl e \<Rightarrow> ret ()
          | Inr dev \<Rightarrow> upd_spec (\<lambda>s. s\<lparr>ms_cdrom_device_id := i32 (dev_id dev)\<rparr>) })"

definition stepCreateSchematic :: "runtime \<Rightarrow> machine_request \<Rightarrow> unit step" where
  "stepCreateSchematic rt rq =
     (case rq_data rq of
        Inl e \<Rightarrow> ret (Inl (Wrapped ''failed to unmarshal provider data'' e))
      | Inr d \<Rightarrow> do {
          r \<leftarrow> ask (rt_srv rt) (SchematicID (''console=ttyS0'' # rq_kernel_args rq) (defaultExtensions @ md_extensions d));
          case dec_str r of
            Inl e \<Rightarrow> ret (Inl (Wrapped ''failed to generate schematic'' e))
          | Inr schematic \<Rightarrow> do {
              spec \<leftarrow> get_spec;
              (if ms_zvol_path spec \<noteq> [] \<and> ms_talos_version spec \<noteq> [] \<and> ms_talos_version spec \<noteq> rq_talos_version rq
                  \<and> ms_vm_id spec \<noteq> 0 \<and> ms_cdrom_device_id spec \<noteq> 0
               then swapCDROMForUpgrade rt rq else ret ());
              upd_spec (\<lambda>s. s\<lparr>ms_schematic := schematic\<rparr>);
              ret (Inr ()) } })"

text \<open>\<open>stepCreateVM\<close> up to the creation of the VM: checks, datasets and the root zvol.\<close>

definition root_zvol :: "machine_data \<Rightarrow> string \<Rightarrow> string" where
  "root_zvol d requestID = BasePath d @ ''/omni-vms/'' @ requestID"

definition prepare_storage :: "runtime \<Rightarrow> string \<Rightarrow> machine_data \<Rightarrow> unit step" where
  "prepare_storage rt requestID d =
     bindE (check_pools rt (rt_map_order rt (poolRequiredGiB d))) (\<lambda>_.
     bindE (preflightHostMemory rt d) (\<lambda>_.
     bindE (if md_dataset_prefix d \<noteq> []
            then mapE (Wrapped ''failed to ensure dataset prefix'') (EnsureDataset (rt_srv rt) (BasePath d))
            else ret (Inr ())) (\<lambda>_.
     bindE (mapE (Wrapped ''failed to ensure omni-vms dataset'')
              (EnsureDataset (rt_srv rt) (BasePath d @ ''/omni-vms''))) (\<lambda>_.
     bindE (ensureZvol rt (root_zvol d requestID) (md_disk_size d) (md_encrypted d) (OmniManagedProperties requestID))
       (\<lambda>_. do { upd_spec (\<lambda>s. s\<lparr>ms_zvol_path := root_zvol d requestID\<rparr>); ret (Inr ()) })))))"

definition vm_request :: "string \<Rightarrow> string \<Rightarrow> string \<Rightarrow> machine_data \<Rightarrow> create_vm_request" where
  "vm_request vmName requestID machineUUID d =
     \<lparr>cv_name = vmName, cv_description = omniVMDescription requestID, cv_uuid = machineUUID,
      cv_vcpus = md_cpus d, cv_memory = md_memory d, cv_min_memory = md_min_memory d,
      cv_bootloader = md_boot_method d, cv_autostart = True, cv_cpu_mode = ''HOST-PASSTHROUGH''\<rparr>"

definition create_vm :: "runtime \<Rightarrow> string \<Rightarrow> string \<Rightarrow> machine_data \<Rightarrow> vm step" where
  "create_vm rt vmName requestID d = do {
     u \<leftarrow> ask (rt_srv rt) NewUUID;
     let machineUUID = (case dec_str u of Inl e \<Rightarrow> [] | Inr s \<Rightarrow> s);
     bindE (mapE (Wrapped ''failed to create VM'')
              (CreateVM (rt_srv rt) (vm_request vmName requestID machineUUID d))) (\<lambda>v. do {
       upd_spec (\<lambda>s. s\<lparr>ms_vm_id := i32 (vm_id v), ms_uuid := machineUUID\<rparr>);
       modify_proc (\<lambda>p. p\<lparr>pv_infra_id := format_int (vm_id v), pv_infra_uuid := machineUUID\<rparr>);
       modify_proc (TrackVMName vmName);
       ret (Inr v) }) }"

text \<open>Everything between the creation and the start.\<close>

definition attach_devices :: "runtime \<Rightarrow> machine_request \<Rightarrow> int \<Rightarrow> machine_data \<Rightarrow> unit step" where
  "attach_devices rt rq vmID d = do {
     spec \<leftarrow> get_spec;
     let requestID = rq_id rq;
     let isoPath = iso_path d (ms_image_id spec);
     bindE (reverifyISOBeforeAttach rt (iso_dataset d) isoPath (ms_image_id spec)) (\<lambda>_.
     bindE (mapE (Wrapped ''failed to attach CDROM'') (AddCDROM (rt_srv rt) vmID isoPath)) (\<lambda>cdrom. do {
     upd_spec (\<lambda>s. s\<lparr>ms_cdrom_device_id := i32 (dev_id cdrom)\<rparr>);
     bindE (mapE (Wrapped ''failed to attach root disk'') (AddDisk (rt_srv rt) vmID (root_zvol d requestID))) (\<lambda>_. do {
     upd_spec (\<lambda>s. s\<lparr>ms_additional_zvol_paths := []\<rparr>);
     bindE (attachAdditionalDisks rt vmID requestID d) (\<lambda>_.
     bindE (apply_volume_patches rt requestID d) (\<lambda>_.
     bindE (attachPrimaryNIC rt vmID requestID d) (\<lambda>_.
     bindE (attachAdditionalNICs rt vmID requestID d) (\<lambda>(mtuPatches, attachedMACs).
     bindE (applyNICConfigPatches rt requestID d attachedMACs mtuPatches) (\<lambda>_.
     applyAdvertisedSubnetsConfigPatch rt rq requestID d))))) }) })) }"

definition start_created :: "runtime \<Rightarrow> int \<Rightarrow> string \<Rightarrow> unit step" where
  "start_created rt vmID vmName = do {
     s \<leftarrow> StartVM (rt_srv rt) vmID;
     case s of
       Inl e \<Rightarrow> do { t \<leftarrow> translateStartError rt vmName e; ret (Inl t) }
     | Inr u \<Rightarrow> do { modify_proc (clearOOMAttempts vmName); ret (Inl (RetryInterval (seconds 15))) } }"

definition create_fresh :: "runtime \<Rightarrow> machine_request \<Rightarrow> string \<Rightarrow> unit step" where
  "create_fresh rt rq vmName =
     (case rq_data rq of
        Inl e \<Rightarrow> ret (Inl (Wrapped ''failed to unmarshal provider data'' e))
      | Inr d0 \<Rightarrow>
          let d = ApplyDefaults (rt_config rt) d0
          in case Validate (rt_extensions_env rt) d of
               Some e \<Rightarrow> ret (Inl (Errorf ''invalid MachineClass config''))
             | None \<Rightarrow>
                 bindE (prepare_storage rt (rq_id rq) d) (\<lambda>_.
                 bindE (create_vm rt vmName (rq_id rq) d) (\<lambda>v.
                 bindE (attach_devices rt rq (vm_id v) d) (\<lambda>_.
                 start_created rt (vm_id v) vmName))))"

definition stepCreateVM :: "runtime \<Rightarrow> machine_request \<Rightarrow> unit step" where
  "stepCreateVM rt rq =
     (let vmName = BuildVMName (rt_provider_id rt) (rq_id rq)
      in do {
        result \<leftarrow> checkExistingVM rt vmName;
        case result of
          Some r \<Rightarrow> ret r
        | None \<Rightarrow> create_fresh rt rq vmName })"

definition verifyVMExists :: "runtime \<Rightarrow> unit step" where
  "verifyVMExists rt = do {
     spec \<leftarrow> get_spec;
     r \<leftarrow> GetVM (rt_srv rt) (ms_vm_id spec);
     case r of
       Inr v \<Rightarrow> ret (Inr ())
     | Inl e \<Rightarrow>
         if \<not> IsNotFound e then ret (Inl (Wrapped ''failed to verify VM exists'' e))
         else do { upd_spec (\<lambda>s. s\<lparr>ms_vm_id := 0, ms_cdrom_device_id := 0\<rparr>); ret (Inr ()) } }"

definition stepHealthCheck :: "runtime \<Rightarrow> unit step" where
  "stepHealthCheck rt = do {
     spec \<leftarrow> get_spec;
     if ms_vm_id spec \<noteq> 0 then
       bindE (verifyVMExists rt) (\<lambda>_. do {
         spec' \<leftarrow> get_spec;
         ret (if ms_vm_id spec' = 0 then Inl (RetryInterval (seconds 5)) else Inr ()) })
     else ret (Inr ()) }"

definition ProvisionSteps :: "runtime \<Rightarrow> machine_request \<Rightarrow> (string \<times> unit step) list" where
  "ProvisionSteps rt rq =
     [(''createSchematic'', stepCreateSchematic rt rq), (''uploadISO'', stepUploadISO rt rq),
      (''createVM'', stepCreateVM rt rq), (''healthCheck'', stepHealthCheck rt)]"

section \<open>What creating may touch\<close>

text \<open>This VM was read, by id or by name, and carried the provider's marker.\<close>

definition found_managed :: "history \<Rightarrow> int \<Rightarrow> bool" where
  "found_managed h i \<longleftrightarrow>
     (\<exists>v. vm_id v = i \<and> isOmniManagedVM v \<and>
        ((\<exists>j r. (VmGet j, r) \<in> set h \<and> dec_vm r = Inr v) \<or>
         (\<exists>n r vs. (VmFindByName n, r) \<in> set h \<and> dec_vms r = Inr (v # vs))))"

definition name_free :: "history \<Rightarrow> string \<Rightarrow> bool" where
  "name_free h n \<longleftrightarrow> (\<exists>r. (VmFindByName n, r) \<in> set h \<and> dec_vms r = Inr [])"

definition created :: "history \<Rightarrow> int \<Rightarrow> bool" where
  "created h i \<longleftrightarrow> (\<exists>req r v. (VmCreate req, r) \<in> set h \<and> dec_vm r = Inr v \<and> vm_id v = i)"

definition attached :: "history \<Rightarrow> int \<Rightarrow> string \<Rightarrow> bool" where
  "attached h i dtype \<longleftrightarrow>
     (\<exists>req r d. (DeviceCreate req, r) \<in> set h \<and> dec_device r = Inr d \<and> ad_vm req = i \<and>
        attr_str (ad_attrs req) ''dtype'' = dtype)"

text \<open>The image file was found, and the properties of some dataset vouch for it.\<close>

definition iso_checked :: "runtime \<Rightarrow> history \<Rightarrow> string \<Rightarrow> bool" where
  "iso_checked rt h path \<longleftrightarrow> (\<exists>ds img. vouched rt (newISOCacheRef ds path img) h)"

definition create_guard :: "runtime \<Rightarrow> history \<Rightarrow> op \<Rightarrow> bool" where
  "create_guard rt h q =
     (case q of
        VmCreate req \<Rightarrow> name_free h (cv_name req)
      | VmStart i \<Rightarrow> found_managed h i \<or>
                     (created h i \<and> attached h i ''CDROM'' \<and> attached h i ''DISK'' \<and> attached h i ''NIC'')
      | VmStop i f \<Rightarrow> managed_read h i
      | VmDelete i \<Rightarrow> managed_read h i
      | VmResetNVRAM i \<Rightarrow> found_managed h i
      | DeviceCreate req \<Rightarrow> created h (ad_vm req) \<and>
          (attr_str (ad_attrs req) ''dtype'' = ''CDROM'' \<longrightarrow> iso_checked rt h (attr_str (ad_attrs req) ''path''))
      | DeviceDelete i \<Rightarrow> False
      | DeviceUpdate i as \<Rightarrow> False
      | DatasetDelete z \<Rightarrow> False
      | DatasetLock z \<Rightarrow> False
      | FsPut p c n \<Rightarrow> False
      | _ \<Rightarrow> True)"

text \<open>Requests the guard always allows.\<close>

definition calm :: "op \<Rightarrow> bool" where
  "calm q =
     (case q of
        VmCreate req \<Rightarrow> False | VmStart i \<Rightarrow> False | VmStop i f \<Rightarrow> False | VmDelete i \<Rightarrow> False
      | VmResetNVRAM i \<Rightarrow> False | DeviceCreate req \<Rightarrow> False | DeviceDelete i \<Rightarrow> False
      | DeviceUpdate i as \<Rightarrow> False | DatasetDelete z \<Rightarrow> False | DatasetLock z \<Rightarrow> False | FsPut p c n \<Rightarrow> False
      | _ \<Rightarrow> True)"

lemma calm_allowed: "calm q \<Longrightarrow> create_guard rt h q"
  by (cases q) (simp_all add: calm_def create_guard_def)

lemma calm_simps [simp]: "calm (VmGet i)" "calm (VmFindByName m)" "calm VmListRunning" "calm SystemInfo"
    "calm (DatasetGet p)" "calm (DatasetCreate c)" "calm (DatasetUnlock p s)" "calm (DatasetResize p z)"
    "calm (RandomHex l)" "calm NewUUID" "calm (FsStat p)" "calm (DatasetSetProperty p k v)" "calm CtxErr" "calm (Wait d)"
    "calm (ConfigPatch m ds)" "calm (InterfaceGet m)" "calm DeviceListAll" "calm (DeviceList i)" "calm Now"
  by (simp_all add: calm_def)

lemma guard_simps [simp]:
  "create_guard rt h (VmCreate c) \<longleftrightarrow> name_free h (cv_name c)"
  "create_guard rt h (VmStart i) \<longleftrightarrow> found_managed h i \<or>
     (created h i \<and> attached h i ''CDROM'' \<and> attached h i ''DISK'' \<and> attached h i ''NIC'')"
  "create_guard rt h (VmResetNVRAM i) \<longleftrightarrow> found_managed h i"
  "create_guard rt h (DeviceCreate req) \<longleftrightarrow> created h (ad_vm req) \<and>
     (attr_str (ad_attrs req) ''dtype'' = ''CDROM'' \<longrightarrow> iso_checked rt h (attr_str (ad_attrs req) ''path''))"
  by (simp_all add: create_guard_def)

lemma lasting_found_managed [simp, intro]: "lasting (\<lambda>h. found_managed h i)"
  unfolding found_managed_def by (intro lasting_ex lasting_conj lasting_disj lasting_member lasting_True)

lemma lasting_name_free [simp, intro]: "lasting (\<lambda>h. name_free h n)"
  unfolding name_free_def by (intro lasting_ex lasting_conj lasting_member lasting_True)

lemma lasting_created [simp, intro]: "lasting (\<lambda>h. created h i)"
  unfolding created_def by (intro lasting_ex lasting_conj lasting_member lasting_True)

lemma lasting_attached [simp, intro]: "lasting (\<lambda>h. attached h i t)"
  unfolding attached_def by (intro lasting_ex lasting_conj lasting_member lasting_True)

lemma lasting_iso_checked [simp, intro]: "lasting (\<lambda>h. iso_checked rt h p)"
  unfolding iso_checked_def vouched_def by (intro lasting_ex lasting_conj lasting_member lasting_True)

lemma safe_calm: "lasting E \<Longrightarrow> emits (\<lambda>q r. calm q) m \<Longrightarrow> safe (create_guard rt) E m (\<lambda>_. E)"
  by (rule safe_emits) (auto elim: emits_mono intro: calm_allowed)

lemma create_allows_cleanup: "allows_cleanup (create_guard rt) i"
  by (auto simp: allows_cleanup_def create_guard_def is_write_def split: op.splits)

section \<open>Existing virtual machines\<close>

lemma safe_StartVM:
  assumes "lasting E" and "\<And>h. E h \<Longrightarrow> create_guard rt h (VmStart i)"
  shows "safe (create_guard rt) E (StartVM srv i) (\<lambda>_. E)"
  unfolding StartVM_def by (rule safe_conseq [OF safe_call [OF assms(1)]]) (use assms(2) in auto)

lemma safe_translateStartError: "lasting E \<Longrightarrow> safe G E (translateStartError rt n e) (\<lambda>_. E)"
  unfolding translateStartError_def by (rule safe_emits) (auto intro!: emits_intros simp: Let_def)

lemma safe_resetNVRAMIfNeeded:
  assumes "lasting E" and "\<And>h. E h \<Longrightarrow> found_managed h i"
  shows "safe (create_guard rt) E (resetNVRAMIfNeeded rt' i n) (\<lambda>_. E)"
proof (rule safe_emits [OF _ assms(1)])
  show "emits (\<lambda>q r. \<forall>h. E h \<longrightarrow> create_guard rt h q) (resetNVRAMIfNeeded rt' i n)"
    unfolding resetNVRAMIfNeeded_def GetVM_def ResetVMNVRAM_def StartVM_def
    by (intro emits_intros) (use assms(2) in \<open>auto intro: calm_allowed\<close>)
qed

lemma safe_handleExistingVM:
  assumes E: "lasting E" and "\<And>h. E h \<Longrightarrow> isOmniManagedVM v \<Longrightarrow> found_managed h (vm_id v)"
  shows "safe (create_guard rt) E (handleExistingVM rt' v n) (\<lambda>r h. E h \<and> r \<noteq> None)"
proof (cases "isOmniManagedVM v")
  case False
  then show ?thesis by (auto simp: handleExistingVM_def intro!: safe_ret)
next
  case True
  with assms(2) have found: "\<And>h. E h \<Longrightarrow> found_managed h (vm_id v)" by blast
  have start: "safe (create_guard rt) E (StartVM srv (vm_id v)) (\<lambda>_. E)" for srv
    by (rule safe_StartVM [OF E]) (simp add: found)
  have clean: "safe (create_guard rt) E (cleanupVM rt' (vm_id v)) (\<lambda>_. E)"
    by (rule safe_conseq [OF safe_cleanupVM [OF create_allows_cleanup E]]) auto
  have modify: "safe (create_guard rt) E (modify_proc f) (\<lambda>_. E)" for f
    by (rule safe_modify_proc)
  have broken: "safe (create_guard rt) E (do {
        modify_proc (recordVMError (vm_id v));
        p \<leftarrow> get_proc;
        let count = error_failures p (vm_id v);
        let limit = pc_max_error_recoveries (rt_config rt');
        if 0 < limit \<and> limit < count then do {
          modify_proc (clearVMErrors (vm_id v));
          c \<leftarrow> cleanupVM rt' (vm_id v);
          ret (Some (Inl (if c = Inl OutOfFuel then OutOfFuel else RetryInterval (seconds 5)))) }
        else do {
          resetNVRAMIfNeeded rt' (vm_id v) n;
          ret (Some (Inl (RetryInterval (seconds 30)))) } }) (\<lambda>r h. E h \<and> r \<noteq> None)"
    by (intro safe_bind [OF modify] safe_bind [OF safe_get_proc [where Q = "\<lambda>_. E"]] safe_let safe_if
        safe_bind [OF clean] safe_bind [OF safe_resetNVRAMIfNeeded [OF E found]] safe_ret) simp_all
  have resume: "safe (create_guard rt) E (do {
        s \<leftarrow> StartVM (rt_srv rt') (vm_id v);
        case s of
          Inl e \<Rightarrow> do { t \<leftarrow> translateStartError rt' n e; ret (Some (Inl t)) }
        | Inr u \<Rightarrow> do {
            modify_proc (clearOOMAttempts n);
            ret (Some (Inl (RetryInterval (seconds 10)))) } }) (\<lambda>r h. E h \<and> r \<noteq> None)"
    by (intro safe_bind [OF start] safe_case_sum safe_bind [OF safe_translateStartError [OF E]] safe_bind [OF modify]
        safe_ret) simp_all
  have running: "safe (create_guard rt) E (do {
        modify_proc (TrackVMName n); modify_proc (clearVMErrors (vm_id v)); ret (Some (Inr ())) }) (\<lambda>r h. E h \<and> r \<noteq> None)"
    by (intro safe_bind [OF modify] safe_ret) simp
  show ?thesis
    unfolding handleExistingVM_def using True
    by (simp only: not_True_eq_False if_False) (intro safe_if running broken resume)
qed

lemma lasting_imp_const: "lasting E \<Longrightarrow> lasting (\<lambda>h. c \<longrightarrow> E h)"
  by (simp add: lasting_def)

text \<open>What is known of a VM that was just read.\<close>

abbreviation read_ok :: "vm \<Rightarrow> history \<Rightarrow> bool" where
  "read_ok v h \<equiv> isOmniManagedVM v \<longrightarrow> found_managed h (vm_id v)"

lemma safe_handle_read:
  "safe (create_guard rt) (read_ok v) (handleExistingVM rt' v n) (\<lambda>r h. r \<noteq> None)"
  by (rule safe_conseq [OF safe_handleExistingVM [where E = "read_ok v"]])
    (rule lasting_imp_const, rule lasting_found_managed, blast+)

lemma safe_find_by_name:
  "safe (create_guard rt) (\<lambda>h. True) (find_by_name rt' n) (\<lambda>r h. r = None \<longrightarrow> name_free h n)"
proof -
  let ?V = "\<lambda>x h. (\<forall>v. x = Inr (Some v) \<longrightarrow> read_ok v h) \<and> (x = Inr None \<longrightarrow> name_free h n)"
  have find: "safe (create_guard rt) (\<lambda>h. True) (FindVMByName srv n) ?V" for srv
    unfolding FindVMByName_def
    apply (rule safe_conseq [OF safe_call [OF lasting_True]])
      apply (rule calm_allowed, simp)
     apply assumption
    apply (elim conjE exE)
    subgoal for a h r
      by (cases "dec_vms r") (auto simp: found_managed_def name_free_def split: list.splits)
    done
  show ?thesis
    unfolding find_by_name_def
    apply (rule safe_bind [OF find])
    apply (rule safe_case_sum)
     apply (rule safe_ret, simp)
    apply (rule safe_case_option)
     apply (rule safe_ret, simp)
    subgoal for x a v
      apply (rule safe_bind [where R = "\<lambda>_. read_ok v"])
       apply (rule safe_modify_proc, simp)
      apply (rule safe_conseq [OF safe_handle_read], assumption, blast)
      done
    done
qed

lemma safe_checkExistingVM:
  "safe (create_guard rt) (\<lambda>h. True) (checkExistingVM rt' n) (\<lambda>r h. r = None \<longrightarrow> name_free h n)"
proof -
  let ?V = "\<lambda>x h. \<forall>v. x = Inr v \<longrightarrow> read_ok v h"
  have get: "safe (create_guard rt) (\<lambda>h. True) (GetVM srv i) ?V" for srv i
    unfolding GetVM_def
    apply (rule safe_conseq [OF safe_call [OF lasting_True]])
      apply (rule calm_allowed, simp)
     apply assumption
    apply (elim conjE exE)
    subgoal for a h r
      by (cases "dec_vm r") (auto simp: found_managed_def)
    done
  show ?thesis
    unfolding checkExistingVM_def get_spec_def State_Monad.bind_assoc State_Monad.bind_left_identity
    apply (rule safe_bind [where R = "\<lambda>_ _. True"])
     apply (rule safe_get_proc, simp)
    apply (rule safe_if)
     apply (rule safe_bind [OF get])
     apply (rule safe_case_sum)
      apply (rule safe_if)
       apply (rule safe_ret, simp)
      apply (rule safe_bind [where R = "\<lambda>_ _. True"])
       apply (rule safe_modify_proc, simp)
      apply (rule safe_find_by_name)
    subgoal for p x v
      by (rule safe_conseq [OF safe_handle_read [of _ v]]) blast+
    apply (rule safe_find_by_name)
    done
qed

section \<open>New virtual machines\<close>

lemma emits_ensureZvol: "emits (\<lambda>q r. calm q) (ensureZvol rt z n enc ps)"
proof -
  have resize: "emits (\<lambda>q r. calm q) (maybeResizeZvol rt z n)"
    unfolding maybeResizeZvol_def GetZvolSize_def ResizeZvol_def by (intro emits_intros) simp_all
  have "emits (\<lambda>q r. calm q) (ensureEncryptedZvol rt z n ps)"
    unfolding ensureEncryptedZvol_def generatePassphrase_def CreateEncryptedZvol_def CreateDataset_def
      GetDatasetUserProperty_def GetDatasetUserProperties_def IsDatasetLocked_def UnlockDataset_def
    by (intro emits_intros resize) simp_all
  then show ?thesis
    unfolding ensureZvol_def CreateZvol_def CreateDataset_def by (intro emits_intros resize) simp_all
qed

lemma emits_EnsureDataset: "emits (\<lambda>q r. calm q) (EnsureDataset srv p)"
  unfolding EnsureDataset_def CreateDataset_def by (intro emits_intros) simp_all

lemma emits_prepare_storage: "emits (\<lambda>q r. calm q) (prepare_storage rt rid d)"
proof -
  have pools: "emits (\<lambda>q r. calm q) (check_pools rt ps)" for ps
    by (induction rt ps rule: check_pools.induct)
      (auto simp: PoolFreeSpace_def getRootDatasetSpace_def intro!: emits_intros)
  have mem: "emits (\<lambda>q r. calm q) (preflightHostMemory rt d)"
    unfolding preflightHostMemory_def SystemMemoryAvailable_def RunningGuestsMemoryMiB_def
    by (intro emits_intros) simp_all
  show ?thesis
    unfolding prepare_storage_def by (intro emits_intros pools mem emits_EnsureDataset emits_ensureZvol)
qed

lemma safe_create_vm:
  "safe (create_guard rt) (\<lambda>h. name_free h n) (create_vm rt' n rid d) (\<lambda>r h. \<forall>v. r = Inr v \<longrightarrow> created h (vm_id v))"
proof -
  have create: "safe (create_guard rt) (\<lambda>h. name_free h n)
      (mapE (Wrapped ''failed to create VM'') (CreateVM srv (vm_request n rid u d)))
      (\<lambda>r h. \<forall>v. r = Inr v \<longrightarrow> created h (vm_id v))" for srv u
    unfolding mapE_def CreateVM_def State_Monad.bind_assoc State_Monad.bind_left_identity
    apply (rule safe_conseq [OF safe_call [OF lasting_name_free]])
      apply (simp add: vm_request_def)
     apply assumption
    apply (elim conjE exE)
    subgoal for a h r by (cases "dec_vm r") (auto simp: created_def)
    done
  show ?thesis
    unfolding create_vm_def
    apply (rule safe_bind [where R = "\<lambda>_ h. name_free h n"])
     apply (rule safe_calm, simp, intro emits_intros, simp)
    apply (rule safe_let)
    apply (rule safe_bindE [where R = "\<lambda>v h. created h (vm_id v)"])
     apply (rule safe_conseq [OF create], assumption)
    subgoal for u y r h by (cases r) auto
    subgoal for u y v
      by (intro safe_bind [OF safe_modify_proc [where Q = "\<lambda>_ h. created h (vm_id v)"]] safe_ret) simp_all
    done
qed

subsection \<open>Attaching\<close>

lemma safe_AddDevice:
  assumes "lasting E" and "\<And>h. E h \<Longrightarrow> created h (ad_vm req)"
    and "\<And>h. E h \<Longrightarrow> attr_str (ad_attrs req) ''dtype'' = ''CDROM'' \<Longrightarrow> iso_checked rt h (attr_str (ad_attrs req) ''path'')"
  shows "safe (create_guard rt) E (AddDevice srv req)
    (\<lambda>r h. E h \<and> (\<forall>d. r = Inr d \<longrightarrow> attached h (ad_vm req) (attr_str (ad_attrs req) ''dtype'')))"
  unfolding AddDevice_def
  apply (rule safe_conseq [OF safe_call [OF assms(1)]])
    apply (simp add: assms(2,3))
   apply assumption
  apply (elim conjE exE)
  subgoal for a h r by (cases "dec_device r") (auto simp: attached_def)
  done

lemma attr_str_dtype [simp]: "attr_str ((''dtype'', AStr t) # as) ''dtype'' = t"
  by (simp add: attr_str_def)

text \<open>Any device but a CDROM only needs the VM to be ours.\<close>

lemma safe_AddDisk:
  assumes "lasting E" and "\<And>h. E h \<Longrightarrow> created h i"
  shows "safe (create_guard rt) E (AddDiskWithOrder srv i z k) (\<lambda>r h. E h \<and> (\<forall>d. r = Inr d \<longrightarrow> attached h i ''DISK''))"
  unfolding AddDiskWithOrder_def
  by (rule safe_conseq [OF safe_AddDevice [OF assms(1)]]) (simp_all add: assms(2))

lemma safe_AddNIC:
  assumes "lasting E" and "\<And>h. E h \<Longrightarrow> created h i"
  shows "safe (create_guard rt) E (AddNICWithConfig srv i cfg k) (\<lambda>r h. E h \<and> (\<forall>d. r = Inr d \<longrightarrow> attached h i ''NIC''))"
  unfolding AddNICWithConfig_def Let_def
  apply (rule safe_if)
   apply (rule safe_ret, simp)
  apply (rule safe_conseq [OF safe_AddDevice [OF assms(1)]])
     apply (simp_all add: assms(2))
  done

lemma safe_AddCDROM:
  assumes "lasting E" and "\<And>h. E h \<Longrightarrow> created h i" and "\<And>h. E h \<Longrightarrow> iso_checked rt h path"
  shows "safe (create_guard rt) E (AddCDROM srv i path) (\<lambda>r h. E h \<and> (\<forall>d. r = Inr d \<longrightarrow> attached h i ''CDROM''))"
  unfolding AddCDROM_def
  by (rule safe_conseq [OF safe_AddDevice [OF assms(1)]]) (simp_all add: assms(2,3) attr_str_def)

lemma emits_choose_mac: "emits (\<lambda>q r. calm q) (choose_mac rt rid k n)"
  unfolding choose_mac_def NICMACsOnSegment_def by (intro emits_intros) simp

lemma safe_attach_disk:
  assumes "lasting E" and "\<And>h. E h \<Longrightarrow> created h i"
  shows "safe (create_guard rt) E (attach_disk rt' i rid d ik) (\<lambda>_. E)"
proof -
  have calm1: "safe (create_guard rt) E m (\<lambda>r h. case r of Inl e \<Rightarrow> E h | Inr a \<Rightarrow> E h)"
    if "emits (\<lambda>q r. calm q) m" for m :: "unit step"
    by (rule safe_conseq [OF safe_calm [OF assms(1) that]]) (auto split: sum.splits)
  show ?thesis
    unfolding attach_disk_def Let_def
    apply (rule safe_bindE [where R = "\<lambda>_. E"])
     apply (rule calm1, intro emits_intros emits_EnsureDataset)
    apply (rule safe_bindE [where R = "\<lambda>_. E"])
     apply (rule calm1, intro emits_intros emits_EnsureDataset)
    apply (rule safe_bindE [where R = "\<lambda>_. E"])
     apply (rule calm1, intro emits_intros emits_ensureZvol)
    apply (rule safe_bindE [where R = "\<lambda>_. E"])
     apply (rule safe_mapE)
     apply (rule safe_conseq [OF safe_AddDisk [OF assms]], assumption, assumption)
    subgoal for u1 u2 u3 r h by (cases r) auto
    by (intro safe_bind [OF safe_modify_proc [where Q = "\<lambda>_. E"]] safe_ret) simp_all
qed

lemma safe_attach_nic:
  assumes "lasting E" and "\<And>h. E h \<Longrightarrow> created h i"
  shows "safe (create_guard rt) E (attach_nic rt' i rid ik) (\<lambda>_. E)"
  unfolding attach_nic_def Let_def
  apply (rule safe_bind [OF safe_calm [OF assms(1) emits_choose_mac]])
  apply (rule safe_bindE [where R = "\<lambda>_. E"])
   apply (rule safe_mapE)
   apply (rule safe_conseq [OF safe_AddNIC [OF assms]], assumption, assumption)
  subgoal for m r h by (cases r) auto
  apply (rule safe_ret, assumption)
  done

lemma safe_attachPrimaryNIC:
  assumes "lasting E" and "\<And>h. E h \<Longrightarrow> created h i"
  shows "safe (create_guard rt) E (attachPrimaryNIC rt' i rid d) (\<lambda>r h. E h \<and> (r = Inr () \<longrightarrow> attached h i ''NIC''))"
  unfolding attachPrimaryNIC_def
  apply (rule safe_bind [OF safe_calm [OF assms(1) emits_choose_mac]])
  apply (rule safe_bindE [where R = "\<lambda>_ h. E h \<and> attached h i ''NIC''"])
   apply (rule safe_mapE)
   apply (rule safe_conseq [OF safe_AddNIC [OF assms]], assumption, assumption)
  subgoal for m r h by (cases r) auto
  apply (rule safe_ret, simp)
  done

lemma safe_reverify:
  assumes "lasting E"
  shows "safe (create_guard rt) E (reverifyISOBeforeAttach rt ds path img)
    (\<lambda>r h. E h \<and> (r = Inr () \<longrightarrow> iso_checked rt h path))"
proof (rule safe_strengthen)
  let ?S = "\<lambda>info h. E h \<and> (\<exists>x. (FsStat path, x) \<in> set h \<and> dec_file x = Inr info)"
  have S: "lasting (?S info)" for info by (intro lasting_ex lasting_conj lasting_member lasting_True assms)
  show "safe anything E (reverifyISOBeforeAttach rt ds path img) (\<lambda>r h. E h \<and> (r = Inr () \<longrightarrow> iso_checked rt h path))"
    unfolding reverifyISOBeforeAttach_def
    apply (rule safe_bindE [where R = "\<lambda>st h. E h \<and> (\<forall>info. st = Some info \<longrightarrow> ?S info h)"])
     apply (rule safe_mapE)
     apply (rule safe_conseq [OF safe_StatFile [OF assms]], simp, assumption)
    subgoal for r h by (cases r) auto
    apply (rule safe_case_option)
     apply (rule safe_ret, simp)
    subgoal for st info
      apply (rule safe_conseq [OF safe_verifyCachedISO [OF S [of info]]])
       apply simp
      apply (simp add: iso_checked_def vouched_def newISOCacheRef_def) by blast
    done
next
  have "emits (\<lambda>q r. calm q) (reverifyISOBeforeAttach rt ds path img)"
    unfolding reverifyISOBeforeAttach_def StatFile_def
    by (intro emits_intros emits_verifyCachedISO) simp_all
  then show "emits (\<lambda>q r. \<forall>h. E h \<longrightarrow> create_guard rt h q) (reverifyISOBeforeAttach rt ds path img)"
    by (rule emits_mono) (simp add: calm_allowed)
qed (rule assms)

lemma emits_patches:
  "emits (\<lambda>q r. calm q) (apply_volume_patches rt rid d)"
  "emits (\<lambda>q r. calm q) (applyNICConfigPatches rt rid d macs mtus)"
  "emits (\<lambda>q r. calm q) (applyAdvertisedSubnetsConfigPatch rt rq rid d)"
  unfolding apply_volume_patches_def applyNICConfigPatches_def applyAdvertisedSubnetsConfigPatch_def
    applyConfigPatch_def InterfaceSubnet_def
  by (intro emits_intros; simp)+

lemma safe_seq_calm:
  assumes "emits (\<lambda>q r. calm q) m" and "lasting E" and "\<And>a. safe (create_guard rt) E (f a) (\<lambda>r h. \<forall>b. r = Inr b \<longrightarrow> X b h)"
  shows "safe (create_guard rt) E (bindE m f) (\<lambda>r h. \<forall>b. r = Inr b \<longrightarrow> X b h)"
  by (rule safe_seq [OF safe_conseq [OF safe_calm [OF assms(2,1)]] assms(3)]) auto

lemma safe_attach_devices:
  "safe (create_guard rt) (\<lambda>h. created h i) (attach_devices rt rq i d)
    (\<lambda>r h. \<forall>u. r = Inr u \<longrightarrow> created h i \<and> attached h i ''CDROM'' \<and> attached h i ''DISK'' \<and> attached h i ''NIC'')"
proof -
  let ?C = "\<lambda>h. created h i" and ?D = "\<lambda>h. created h i \<and> attached h i ''CDROM''"
  let ?E = "\<lambda>h. (created h i \<and> attached h i ''CDROM'') \<and> attached h i ''DISK''"
  let ?F = "\<lambda>h. ((created h i \<and> attached h i ''CDROM'') \<and> attached h i ''DISK'') \<and> attached h i ''NIC''"
  let ?X = "\<lambda>r h. \<forall>u. r = Inr u \<longrightarrow> created h i \<and> attached h i ''CDROM'' \<and> attached h i ''DISK'' \<and> attached h i ''NIC''"
  have cdrom: "safe (create_guard rt) (\<lambda>h. ?C h \<and> iso_checked rt h path)
      (mapE (Wrapped ''failed to attach CDROM'') (AddCDROM (rt_srv rt) i path)) (\<lambda>r h. \<forall>a. r = Inr a \<longrightarrow> ?D h)" for path
    by (rule safe_mapE, rule safe_conseq [OF safe_AddCDROM [where E = "\<lambda>h. ?C h \<and> iso_checked rt h path" and path = path]])
      (auto simp: map_sum_def split: sum.splits)
  have root: "safe (create_guard rt) ?D
      (mapE (Wrapped ''failed to attach root disk'') (AddDisk (rt_srv rt) i z)) (\<lambda>r h. \<forall>a. r = Inr a \<longrightarrow> ?E h)" for z
    unfolding AddDisk_def
    by (rule safe_mapE, rule safe_conseq [OF safe_AddDisk [where E = ?D]]) (auto simp: map_sum_def split: sum.splits)
  have disks: "safe (create_guard rt) ?E (attachAdditionalDisks rt i (rq_id rq) d) (\<lambda>_. ?E)"
    unfolding attachAdditionalDisks_def
    by (rule safe_for_each_end, rule safe_attach_disk) simp_all
  have nic: "safe (create_guard rt) ?E (attachPrimaryNIC rt i (rq_id rq) d) (\<lambda>r h. \<forall>a. r = Inr a \<longrightarrow> ?F h)"
    by (rule safe_conseq [OF safe_attachPrimaryNIC [where E = ?E]]) auto
  have nics: "safe (create_guard rt) ?F (attachAdditionalNICs rt i (rq_id rq) d) (\<lambda>_. ?F)"
    unfolding attachAdditionalNICs_def
    by (rule safe_for_each_end, rule safe_attach_nic) simp_all
  have last: "safe (create_guard rt) ?F (applyAdvertisedSubnetsConfigPatch rt rq (rq_id rq) d) ?X"
    by (rule safe_conseq [OF safe_calm [where E = ?F]]) (auto intro!: emits_patches)
  have after_nic: "safe (create_guard rt) ?F (bindE (attachAdditionalNICs rt i (rq_id rq) d) (\<lambda>(mtus, macs).
      bindE (applyNICConfigPatches rt (rq_id rq) d macs mtus) (\<lambda>_.
      applyAdvertisedSubnetsConfigPatch rt rq (rq_id rq) d))) ?X"
    by (rule safe_seq_keep [OF nics], rule safe_case_prod, rule safe_seq_calm [where E = ?F, OF emits_patches(2) _ last]) simp
  have after_root: "safe (create_guard rt) ?E (bindE (attachAdditionalDisks rt i (rq_id rq) d) (\<lambda>_.
      bindE (apply_volume_patches rt (rq_id rq) d) (\<lambda>_.
      bindE (attachPrimaryNIC rt i (rq_id rq) d) (\<lambda>_.
      bindE (attachAdditionalNICs rt i (rq_id rq) d) (\<lambda>(mtus, macs).
      bindE (applyNICConfigPatches rt (rq_id rq) d macs mtus) (\<lambda>_.
      applyAdvertisedSubnetsConfigPatch rt rq (rq_id rq) d)))))) ?X"
    by (rule safe_seq_keep [OF disks], rule safe_seq_calm [where E = ?E, OF emits_patches(1)], simp,
        rule safe_seq [OF nic after_nic])
  show ?thesis
    unfolding attach_devices_def Let_def
    apply (rule safe_bind [where R = "\<lambda>_. ?C"])
     apply (rule safe_calm [OF _ emits_get_spec], simp)
    subgoal for spec
      apply (rule safe_seq [where R = "\<lambda>_ h. ?C h \<and> iso_checked rt h (iso_path d (ms_image_id spec))"])
       apply (rule safe_conseq [OF safe_reverify [where E = ?C]], simp, assumption, simp)
      apply (rule safe_seq [OF cdrom])
      apply (rule safe_bind [OF safe_modify_proc [where Q = "\<lambda>_. ?D"]], assumption)
      apply (rule safe_seq [OF root])
      apply (rule safe_bind [OF safe_modify_proc [where Q = "\<lambda>_. ?E"]], assumption)
      apply (rule after_root)
      done
    done
qed

lemma safe_start_created:
  assumes "lasting E" and "\<And>h. E h \<Longrightarrow> create_guard rt h (VmStart i)"
  shows "safe (create_guard rt) E (start_created rt' i n) (\<lambda>r h. \<forall>u. r \<noteq> Inr u)"
  unfolding start_created_def
  apply (rule safe_bind [OF safe_StartVM [OF assms(1)]])
   apply (rule assms(2), assumption)
  apply (rule safe_case_sum)
   apply (rule safe_bind [OF safe_translateStartError [OF assms(1)]])
   apply (rule safe_ret, simp)
  apply (rule safe_bind [OF safe_modify_proc [where Q = "\<lambda>_. E"]], assumption)
  apply (rule safe_ret, simp)
  done

lemma safe_create_fresh:
  "safe (create_guard rt) (\<lambda>h. name_free h n) (create_fresh rt rq n) (\<lambda>r h. \<forall>u. r = Inr u \<longrightarrow> False)"
proof -
  let ?R = "\<lambda>i h. created h i \<and> attached h i ''CDROM'' \<and> attached h i ''DISK'' \<and> attached h i ''NIC''"
  have fresh: "safe (create_guard rt) (\<lambda>h. name_free h n)
      (bindE (prepare_storage rt (rq_id rq) d) (\<lambda>_.
       bindE (create_vm rt n (rq_id rq) d) (\<lambda>v.
       bindE (attach_devices rt rq (vm_id v) d) (\<lambda>_. start_created rt (vm_id v) n))))
      (\<lambda>r h. \<forall>u. r = Inr u \<longrightarrow> False)" for d
    apply (rule safe_seq_calm [OF emits_prepare_storage lasting_name_free])
    apply (rule safe_seq [OF safe_create_vm [THEN safe_conseq]])
      apply assumption
     apply assumption
    subgoal for u v
      apply (rule safe_seq [where R = "\<lambda>_. ?R (vm_id v)"])
       apply (rule safe_conseq [OF safe_attach_devices], assumption, assumption)
      apply (rule safe_conseq [OF safe_start_created [where E = "?R (vm_id v)"]])
         apply (intro lasting_conj lasting_created lasting_attached)
        apply simp_all
      done
    done
  show ?thesis
    unfolding create_fresh_def Let_def
    by (intro safe_case_sum safe_case_option fresh safe_ret) simp_all
qed

lemma safe_stepCreateVM: "safe (create_guard rt) (\<lambda>h. True) (stepCreateVM rt rq) (\<lambda>r h. True)"
  unfolding stepCreateVM_def Let_def
  apply (rule safe_bind [OF safe_checkExistingVM])
  apply (rule safe_case_option)
   apply (rule safe_conseq [OF safe_create_fresh], simp, simp)
  apply (rule safe_ret, simp)
  done


section \<open>Adopting a half-made machine\<close>

lemma run_GetVM:
  "run_state (GetVM srv i) w =
   (wrap ''vm.query failed: '' (dec_vm (srv (w_hist w) (VmGet i))),
    w\<lparr>w_hist := w_hist w @ [(VmGet i, srv (w_hist w) (VmGet i))]\<rparr>)"
  by (simp add: GetVM_def)

lemma translateStartError_hist: "w_hist (snd (run_state (translateStartError rt n e) w)) = w_hist w"
  by (simp add: translateStartError_def Let_def)

text \<open>
  A machine whose VM exists, is managed, and is neither running nor failed is simply
  started: the step asks for the VM and starts it, and asks nothing else. It does not look at
  the devices. (So a run that failed between creating the VM and starting it is never
  completed: the next run starts the VM without the missing disk or network interface.)
\<close>

theorem resume_only_starts:
  assumes "ms_vm_id (pv_spec (w_proc w)) \<noteq> 0"
    and "dec_vm (rt_srv rt (w_hist w) (VmGet (ms_vm_id (pv_spec (w_proc w))))) = Inr v"
    and "isOmniManagedVM v" and "vm_state v \<noteq> ''RUNNING''" and "vm_state v \<noteq> ''ERROR''"
  shows "map fst (w_hist (snd (run_state (stepCreateVM rt rq) w))) =
         map fst (w_hist w) @ [VmGet (ms_vm_id (pv_spec (w_proc w))), VmStart (vm_id v)]"
  using assms
  by (auto simp: stepCreateVM_def checkExistingVM_def handleExistingVM_def run_GetVM StartVM_def Let_def
      translateStartError_hist case_prod_beta split: sum.splits)

text \<open>
  A VM of request \<open>r\<close> that exists and is stopped, as after a run that created it and then
  failed.
\<close>

definition half_made_vm :: vm where
  "half_made_vm = vm_zero\<lparr>vm_id := 7, vm_description := omniVMDescription ''r'', vm_state := ''STOPPED''\<rparr>"

definition stopped_nas :: server where
  "stopped_nas h q = (case q of VmGet i \<Rightarrow> Inr (RVM half_made_vm) | _ \<Rightarrow> Inr RNull)"

definition example_request :: machine_request where
  "example_request = \<lparr>rq_id = ''r'', rq_data = Inr data_zero, rq_talos_version = ''v1'', rq_kernel_args = [], rq_set_id = None\<rparr>"

definition half_made :: "(op, answer, prov_state) world" where
  "half_made = \<lparr>w_hist = [], w_proc = prov_zero\<lparr>pv_spec := spec_zero\<lparr>ms_vm_id := 7\<rparr>\<rparr>\<rparr>"

theorem resume_witness:
  "map fst (w_hist (snd (run_state (stepCreateVM (example_runtime stopped_nas) example_request) half_made))) =
   [VmGet 7, VmStart 7]"
proof -
  have "isOmniManagedVM half_made_vm" "vm_state half_made_vm = ''STOPPED''" "vm_id half_made_vm = 7"
    by (simp_all add: half_made_vm_def isOmniManagedVM_def omniVMDescription_def)
  then show ?thesis
    using resume_only_starts [of half_made "example_runtime stopped_nas" half_made_vm example_request]
    by (simp add: example_runtime_def stopped_nas_def half_made_def)
qed

section \<open>Upgrades\<close>

text \<open>A step that changes nothing, or gives a device the image at \<open>path\<close>.\<close>

definition uses_image :: "string \<Rightarrow> op \<Rightarrow> bool" where
  "uses_image path q =
     (case q of
        DeviceUpdate i as \<Rightarrow> attr_str as ''path'' = path
      | DeviceCreate req \<Rightarrow> attr_str (ad_attrs req) ''path'' = path
      | _ \<Rightarrow> \<not> is_write q)"

lemma emits_SwapCDROM: "emits (\<lambda>q r. uses_image path q) (SwapCDROM srv i path)"
  unfolding SwapCDROM_def FindCDROM_def ListDevices_def UpdateDevice_def AddCDROM_def AddDevice_def
  by (intro emits_intros) (simp_all add: uses_image_def is_write_def attr_str_def)

lemma emits_keepers:
  "emits (\<lambda>q r. uses_image path q) get_spec" "emits (\<lambda>q r. uses_image path q) (ask srv (SchematicID a b))"
  by (auto intro!: emits_intros simp: uses_image_def is_write_def)

text \<open>
  On a version upgrade the CDROM is given the image that the machine record held before
  the step: every device the step changes or adds has the path built from the old image id.
  (The image id of the new version is computed by the next step, so the swap changes nothing.)
\<close>

theorem upgrade_swaps_to_old_image:
  "case rq_data rq of
     Inl e \<Rightarrow> True
   | Inr d \<Rightarrow> list_all (\<lambda>(q, r). uses_image (iso_path (ApplyDefaults (rt_config rt) d) (ms_image_id (pv_spec (w_proc w)))) q)
       (drop (length (w_hist w)) (w_hist (snd (run_state (stepCreateSchematic rt rq) w))))"
proof (cases "rq_data rq")
  case (Inr d)
  let ?path = "iso_path (ApplyDefaults (rt_config rt) d) (ms_image_id (pv_spec (w_proc w)))"
  let ?q = "SchematicID (''console=ttyS0'' # rq_kernel_args rq) (defaultExtensions @ md_extensions d)"
  let ?a = "rt_srv rt (w_hist w) ?q"
  let ?w1 = "w\<lparr>w_hist := w_hist w @ [(?q, ?a)]\<rparr>"
  have q: "uses_image ?path ?q" by (simp add: uses_image_def is_write_def)
  obtain r2 w2 where swap: "run_state (SwapCDROM (rt_srv rt) (ms_vm_id (pv_spec (w_proc w))) ?path) ?w1 = (r2, w2)"
    by (cases "run_state (SwapCDROM (rt_srv rt) (ms_vm_id (pv_spec (w_proc w))) ?path) ?w1")
  obtain es where es: "w_hist w2 = w_hist ?w1 @ es" "\<And>q r. (q, r) \<in> set es \<Longrightarrow> uses_image ?path q"
    using emitsD [OF emits_SwapCDROM swap] by metis
  show ?thesis
    using q es swap Inr
    by (auto simp: stepCreateSchematic_def swapCDROMForUpgrade_def Let_def list_all_iff split: sum.splits)
qed simp

section \<open>Admission\<close>

lemma lasting_memory_fits [simp, intro]: "lasting (\<lambda>h. memory_fits h d)"
proof (rule lastingI)
  fix h es
  assume "memory_fits h d"
  then obtain r where r: "(SystemInfo, r) \<in> set h"
    and c: "case dec_host r of Inl e \<Rightarrow> True
       | Inr hi \<Rightarrow> (let host = go_div (hi_physmem hi) (1024 * 1024)
              in md_memory d \<le> go_div (i64 (host * 80)) 100 \<and>
                 (\<exists>r'. (VmListRunning, r') \<in> set h \<and>
                    (case dec_vms r' of
                       Inl e \<Rightarrow> True
                     | Inr vms \<Rightarrow> reserved_mib d \<le> go_div (i64 (i64 (host - running_memory vms) * 90)) 100)))"
    unfolding memory_fits_def by blast
  show "memory_fits (h @ es) d"
    unfolding memory_fits_def
  proof (intro exI [of _ r] conjI)
    show "(SystemInfo, r) \<in> set (h @ es)" using r by simp
  qed (use c in \<open>cases "dec_host r"; simp add: Let_def; blast\<close>)
qed

text \<open>The pools of a configuration, each once.\<close>

lemma poolRequired_keys:
  "distinct (map fst (poolRequiredGiB d))"
  "fst ` set (poolRequiredGiB d) = insert (md_pool d) (disk_pool d ` set (md_additional_disks d))"
proof -
  have "distinct (map fst (fold (\<lambda>k m. add_required (disk_pool d k) (dk_size k) m) ks m)) \<and>
      fst ` set (fold (\<lambda>k m. add_required (disk_pool d k) (dk_size k) m) ks m) = fst ` set m \<union> disk_pool d ` set ks"
    if "distinct (map fst m)" for ks and m
    using that
    by (induction ks arbitrary: m) (simp_all add: add_required_def distinct_update dom_update)
  from this [of "[(md_pool d, md_disk_size d)]"]
  show "distinct (map fst (poolRequiredGiB d))"
    "fst ` set (poolRequiredGiB d) = insert (md_pool d) (disk_pool d ` set (md_additional_disks d))"
    by (simp_all add: poolRequiredGiB_def)
qed

lemma safe_prepare_storage:
  "safe anything (\<lambda>h. True) (prepare_storage rt rid d) (\<lambda>r h. \<forall>u. r = Inr u \<longrightarrow>
     (\<forall>(pool, n) \<in> set (rt_map_order rt (poolRequiredGiB d)). 0 \<le> n \<and> n \<le> 2 ^ 20 * 17 \<longrightarrow> pool_fits h pool n) \<and>
     memory_fits h d)"
proof -
  let ?P = "\<lambda>h. \<forall>(pool, n) \<in> set (rt_map_order rt (poolRequiredGiB d)). 0 \<le> n \<and> n \<le> 2 ^ 20 * 17 \<longrightarrow> pool_fits h pool n"
  have P: "lasting ?P" by (auto simp: lasting_def pool_fits_def)
  note M = lasting_conj [OF P lasting_memory_fits [of d]]
  have keep: "safe anything (\<lambda>h. ?P h \<and> memory_fits h d) m (\<lambda>r h. \<forall>u. r = Inr u \<longrightarrow> ?P h \<and> memory_fits h d)"
    if "emits (\<lambda>q r. calm q) m" for m :: "unit step"
    by (rule safe_conseq [OF safe_any [OF M]]) (use emits_mono [OF that] in auto)
  show ?thesis
    unfolding prepare_storage_def
    apply (rule safe_seq [where R = "\<lambda>_. ?P"])
     apply (rule safe_conseq [OF safe_check_pools [OF lasting_True]], simp, simp)
    apply (rule safe_seq [where R = "\<lambda>_ h. ?P h \<and> memory_fits h d"])
     apply (rule safe_conseq [OF safe_preflightHostMemory [OF P]], simp, simp)
    apply (rule keep)
    apply (intro emits_intros emits_EnsureDataset emits_ensureZvol)
    done
qed


text \<open>A host with room, and a machine with disks on two of its pools.\<close>

definition roomy_nas :: server where
  "roomy_nas h q =
     (case q of
        DatasetGet p \<Rightarrow> Inr (RDataset (dataset_zero\<lparr>ds_available := 100 * 2 ^ 30\<rparr>))
      | SystemInfo \<Rightarrow> Inr (RHost (host_info_zero\<lparr>hi_physmem := 64 * 2 ^ 30\<rparr>))
      | _ \<Rightarrow> Inr RNull)"

definition two_pools :: machine_data where
  "two_pools = data_zero\<lparr>md_pool := ''tank'', md_disk_size := 40, md_memory := 4096,
     md_additional_disks := [(storage_disk 30)\<lparr>dk_name := [], dk_pool := ''fast''\<rparr>]\<rparr>"


end
