(* ===== verification/Cleanup.thy ===== *)
theory Cleanup
  imports Provisioner
begin

text \<open>
  The background maintenance of internal/cleanup/cleanup.go: the ISO dataset, orphaned VMs and
  orphaned zvols, and the loop that runs a cycle per interval.
\<close>

section \<open>The cleaner\<close>

text \<open>
  \<open>activeImageIDs\<close> reads the provisioner's state when it is called; \<open>None\<close> is a nil map.
  The callback for the live machine requests asks Omni; it may be absent, and an answer that is
  an error or a nil map gives no live set.
\<close>

record cleaner =
  cl_srv :: server
  cl_pool :: string
  cl_interval :: int
  cl_grace :: int
  cl_provider_id :: string
  cl_active :: "prov_state \<Rightarrow> string set option"
  cl_has_live :: bool

definition NewCleaner :: "cleaner \<Rightarrow> cleaner" where
  "NewCleaner cl = cl\<lparr>cl_interval := or_default_int (cl_interval cl) 3600000000000,
     cl_grace := or_default_int (cl_grace cl) 1800000000000\<rparr>"

definition ActiveImageIDs :: "prov_state \<Rightarrow> string set option" where
  "ActiveImageIDs p = Some (pv_active_images p)"

definition iso_files :: "file_entry list \<Rightarrow> file_entry list" where
  "iso_files fs = filter (\<lambda>f. fe_type f = ''FILE'' \<and> has_suffix (fe_name f) ''.iso'') fs"

definition trim_suffix :: "string \<Rightarrow> string \<Rightarrow> string" where
  "trim_suffix s t = (if has_suffix s t then take (length s - length t) s else s)"

definition cleanupISOs :: "cleaner \<Rightarrow> (prov_state, unit) client" where
  "cleanupISOs cl = do {
     r \<leftarrow> ListFiles (cl_srv cl) (''/mnt/'' @ cl_pool cl @ ''/talos-iso'');
     case r of
       Inl e \<Rightarrow> ret ()
     | Inr files \<Rightarrow> do {
         p \<leftarrow> get_proc;
         case cl_active cl p of
           None \<Rightarrow> ret ()
         | Some activeIDs \<Rightarrow>
             let isos = iso_files files;
                 totalISOs = length isos;
                 staleISOs = length (filter (\<lambda>f. trim_suffix (fe_name f) ''.iso'' \<notin> activeIDs) isos)
             in if staleISOs = 0 then ret ()
                else if staleISOs < totalISOs then ret ()
                else do { u \<leftarrow> RecreateDataset (cl_srv cl) (cl_pool cl @ ''/talos-iso''); ret () } } }"

text \<open>The set of the live requests: \<open>None\<close> when it is not known.\<close>

fun live_answer :: "answer \<Rightarrow> string list option" where
  "live_answer (Inr (RStrings ids)) = Some ids"
| "live_answer _ = None"

definition not_live :: "string list option \<Rightarrow> string \<Rightarrow> bool" where
  "not_live live requestID \<longleftrightarrow> (case live of None \<Rightarrow> False | Some ids \<Rightarrow> requestID \<notin> set ids)"

definition orphan_vm :: "string list \<Rightarrow> string list option \<Rightarrow> vm \<Rightarrow> bool" where
  "orphan_vm managedRequestIDs live v \<longleftrightarrow>
     IsOmniVMName (vm_name v) \<and>
     (let requestID = ParseRequestIDFromDescription (vm_description v)
      in requestID \<noteq> [] \<and> (not_live live requestID \<or> requestID \<notin> set managedRequestIDs))"

definition maybeDeleteOrphanVM ::
  "cleaner \<Rightarrow> string list \<Rightarrow> string list option \<Rightarrow> vm \<Rightarrow> (prov_state, unit) client" where
  "maybeDeleteOrphanVM cl managedRequestIDs live v =
     (if orphan_vm managedRequestIDs live v
      then do {
        s \<leftarrow> StopVM (cl_srv cl) (vm_id v) True;
        d \<leftarrow> DeleteVM (cl_srv cl) (vm_id v);
        ret () }
      else ret ())"

definition cleanupOrphanVMs ::
  "cleaner \<Rightarrow> managed_zvol list \<Rightarrow> string list option \<Rightarrow> (prov_state, unit) client" where
  "cleanupOrphanVMs cl zs live = do {
     r \<leftarrow> ListVMs (cl_srv cl);
     case r of
       Inl e \<Rightarrow> ret ()
     | Inr vms \<Rightarrow> for_all (maybeDeleteOrphanVM cl (map mz_request_id zs) live) vms }"

definition legacy_vm_name :: "string \<Rightarrow> string" where
  "legacy_vm_name requestID = ''omni_'' @ replace_char (CHR ''-'') (CHR ''_'') requestID"

definition orphan_zvol :: "cleaner \<Rightarrow> string list \<Rightarrow> string list option \<Rightarrow> managed_zvol \<Rightarrow> bool" where
  "orphan_zvol cl vmNames live z \<longleftrightarrow>
     not_live live (mz_request_id z) \<or>
     \<not> (BuildVMName (cl_provider_id cl) (mz_request_id z) \<in> set vmNames \<or>
        legacy_vm_name (mz_request_id z) \<in> set vmNames)"

definition delete_orphan_zvol ::
  "cleaner \<Rightarrow> string list \<Rightarrow> string list option \<Rightarrow> managed_zvol \<Rightarrow> (prov_state, unit) client" where
  "delete_orphan_zvol cl vmNames live z =
     (if orphan_zvol cl vmNames live z
      then do { d \<leftarrow> DeleteDataset (cl_srv cl) (mz_path z); ret () }
      else ret ())"

definition cleanupOrphanZvols ::
  "cleaner \<Rightarrow> managed_zvol list \<Rightarrow> string list option \<Rightarrow> (prov_state, unit) client" where
  "cleanupOrphanZvols cl zs live =
     (if zs = [] then ret ()
      else do {
        r \<leftarrow> ListVMs (cl_srv cl);
        case r of
          Inl e \<Rightarrow> ret ()
        | Inr vms \<Rightarrow> for_all (delete_orphan_zvol cl (map vm_name vms) live) zs })"

definition runOnce :: "cleaner \<Rightarrow> (prov_state, unit) client" where
  "runOnce cl = do {
     u \<leftarrow> cleanupISOs cl;
     r \<leftarrow> ListManagedZvols (cl_srv cl);
     case r of
       Inl e \<Rightarrow> ret ()
     | Inr zs \<Rightarrow> do {
         live \<leftarrow> (if cl_has_live cl then do { a \<leftarrow> ask (cl_srv cl) LiveRequestIDs; ret (live_answer a) }
                  else ret None);
         cleanupOrphanVMs cl zs live;
         cleanupOrphanZvols cl zs live } }"

text \<open>
  The loop, for the first \<open>n\<close> events after the start-up delay. An error as the answer to a
  wait is the cancellation of the context.
\<close>

fun cleanup_loop :: "cleaner \<Rightarrow> nat \<Rightarrow> (prov_state, unit) client" where
  "cleanup_loop cl 0 = ret ()"
| "cleanup_loop cl (Suc n) = do {
     a \<leftarrow> ask (cl_srv cl) (Wait (cl_interval cl));
     case dec_unit a of Inl e \<Rightarrow> ret () | Inr u \<Rightarrow> do { runOnce cl; cleanup_loop cl n } }"

definition RunCleaner :: "cleaner \<Rightarrow> nat \<Rightarrow> (prov_state, unit) client" where
  "RunCleaner cl n = do {
     a \<leftarrow> ask (cl_srv cl) (Wait 300000000000);
     case dec_unit a of Inl e \<Rightarrow> ret () | Inr u \<Rightarrow> do { runOnce cl; cleanup_loop cl n } }"


section \<open>What a cycle may delete\<close>

definition gone_from_omni :: "history \<Rightarrow> string \<Rightarrow> bool" where
  "gone_from_omni h requestID \<longleftrightarrow> (\<exists>ids. (LiveRequestIDs, Inr (RStrings ids)) \<in> set h \<and> requestID \<notin> set ids)"

definition without_zvol :: "history \<Rightarrow> string \<Rightarrow> bool" where
  "without_zvol h requestID \<longleftrightarrow>
     (\<exists>a ds. (DatasetListVolumes, a) \<in> set h \<and> dec_datasets a = Inr ds \<and>
        requestID \<notin> mz_request_id ` set (List.map_filter managed_zvol_of ds))"

definition vm_listed :: "history \<Rightarrow> vm \<Rightarrow> bool" where
  "vm_listed h v \<longleftrightarrow> (\<exists>a vs. (VmList, a) \<in> set h \<and> dec_vms a = Inr vs \<and> v \<in> set vs)"

definition zvol_listed :: "history \<Rightarrow> managed_zvol \<Rightarrow> bool" where
  "zvol_listed h z \<longleftrightarrow>
     (\<exists>a ds. (DatasetListVolumes, a) \<in> set h \<and> dec_datasets a = Inr ds \<and> z \<in> set (List.map_filter managed_zvol_of ds))"

definition without_vm :: "cleaner \<Rightarrow> history \<Rightarrow> string \<Rightarrow> bool" where
  "without_vm cl h requestID \<longleftrightarrow>
     (\<exists>a vs. (VmList, a) \<in> set h \<and> dec_vms a = Inr vs \<and>
        BuildVMName (cl_provider_id cl) requestID \<notin> vm_name ` set vs \<and> legacy_vm_name requestID \<notin> vm_name ` set vs)"

definition orphan_vm_seen :: "history \<Rightarrow> int \<Rightarrow> bool" where
  "orphan_vm_seen h i \<longleftrightarrow>
     (\<exists>v. vm_listed h v \<and> vm_id v = i \<and> IsOmniVMName (vm_name v) \<and>
        ParseRequestIDFromDescription (vm_description v) \<noteq> [] \<and>
        (gone_from_omni h (ParseRequestIDFromDescription (vm_description v)) \<or>
         without_zvol h (ParseRequestIDFromDescription (vm_description v))))"

definition orphan_zvol_seen :: "cleaner \<Rightarrow> history \<Rightarrow> string \<Rightarrow> bool" where
  "orphan_zvol_seen cl h path \<longleftrightarrow>
     (\<exists>z. zvol_listed h z \<and> mz_path z = path \<and>
        (gone_from_omni h (mz_request_id z) \<or> without_vm cl h (mz_request_id z)))"

definition cleanup_guard :: "cleaner \<Rightarrow> history \<Rightarrow> op \<Rightarrow> bool" where
  "cleanup_guard cl h q =
     (case q of
        VmStop i f \<Rightarrow> orphan_vm_seen h i
      | VmDelete i \<Rightarrow> orphan_vm_seen h i
      | DatasetDelete z \<Rightarrow> z = cl_pool cl @ ''/talos-iso'' \<or> orphan_zvol_seen cl h z
      | DatasetCreate c \<Rightarrow> c = filesystem_request (cl_pool cl @ ''/talos-iso'')
      | _ \<Rightarrow> \<not> is_write q)"

lemma lasting_seen [simp, intro]:
  "lasting (\<lambda>h. gone_from_omni h r)" "lasting (\<lambda>h. without_zvol h r)" "lasting (\<lambda>h. vm_listed h v)"
  "lasting (\<lambda>h. zvol_listed h z)" "lasting (\<lambda>h. without_vm cl h r)"
  by (auto simp: lasting_def gone_from_omni_def without_zvol_def vm_listed_def zvol_listed_def without_vm_def)

lemma safe_cleanupISOs: "safe (cleanup_guard cl) (\<lambda>h. True) (cleanupISOs cl) (\<lambda>_ h. True)"
  unfolding cleanupISOs_def ListFiles_def RecreateDataset_def DeleteDataset_def CreateDataset_def Let_def
    State_Monad.bind_assoc
  by (rule safe_emits [OF _ lasting_True]) (intro emits_intros; simp add: cleanup_guard_def is_write_def)+

text \<open>What is known of the live set: it was asked for.\<close>

definition live_known :: "history \<Rightarrow> string list option \<Rightarrow> bool" where
  "live_known h live \<longleftrightarrow> (\<forall>ids. live = Some ids \<longrightarrow> (LiveRequestIDs, Inr (RStrings ids)) \<in> set h)"

definition zvols_known :: "history \<Rightarrow> managed_zvol list \<Rightarrow> bool" where
  "zvols_known h zs \<longleftrightarrow>
     (\<exists>a ds. (DatasetListVolumes, a) \<in> set h \<and> dec_datasets a = Inr ds \<and> zs = List.map_filter managed_zvol_of ds)"

lemma lasting_known [simp, intro]: "lasting (\<lambda>h. live_known h live)" "lasting (\<lambda>h. zvols_known h zs)"
  by (auto simp: lasting_def live_known_def zvols_known_def)

lemma not_live_gone: "live_known h live \<Longrightarrow> not_live live r \<Longrightarrow> gone_from_omni h r"
  by (auto simp: live_known_def not_live_def gone_from_omni_def split: option.splits)

lemma orphan_vm_seenI:
  assumes "live_known h live" "zvols_known h zs" "vm_listed h v" "orphan_vm (map mz_request_id zs) live v"
  shows "orphan_vm_seen h (vm_id v)"
proof -
  let ?r = "ParseRequestIDFromDescription (vm_description v)"
  have "gone_from_omni h ?r \<or> without_zvol h ?r"
  proof (cases "not_live live ?r")
    case True
    with assms(1) show ?thesis by (simp add: not_live_gone)
  next
    case False
    with assms(2,4) show ?thesis by (auto simp: zvols_known_def without_zvol_def orphan_vm_def Let_def)
  qed
  with assms(3,4) show ?thesis by (auto simp: orphan_vm_seen_def orphan_vm_def Let_def)
qed

lemma safe_cleanupOrphanVMs:
  assumes E: "lasting E" and known: "\<And>h. E h \<Longrightarrow> live_known h live \<and> zvols_known h zs"
  shows "safe (cleanup_guard cl) E (cleanupOrphanVMs cl zs live) (\<lambda>_. E)"
proof -
  let ?L = "\<lambda>vms h. E h \<and> (\<forall>v \<in> set vms. vm_listed h v)"
  have seen: "orphan_vm_seen h (vm_id v)"
    if "v \<in> set vms" "?L vms h" "orphan_vm (map mz_request_id zs) live v" for v vms h
    using that known by (intro orphan_vm_seenI [of h live zs]) auto
  have L: "lasting (?L vms)" for vms by (intro lasting_conj E lasting_all lasting_seen)
  have each: "safe (cleanup_guard cl) (?L vms) (maybeDeleteOrphanVM cl (map mz_request_id zs) live v) (\<lambda>_. ?L vms)"
    if v: "v \<in> set vms" for v vms
    unfolding maybeDeleteOrphanVM_def StopVM_def DeleteVM_def State_Monad.bind_assoc
    by (rule safe_emits [OF _ L], intro emits_intros) (simp_all add: cleanup_guard_def seen [OF v])
  show ?thesis
    unfolding cleanupOrphanVMs_def ListVMs_def
    apply (rule safe_bind [OF safe_call [OF E]])
     apply (simp add: cleanup_guard_def is_write_def)
    subgoal for r
      apply (rule safe_case_sum)
       apply (rule safe_ret, simp)
      subgoal for vms
        apply (rule safe_conseq [OF safe_for_all [OF each]], assumption)
         apply (auto simp: vm_listed_def wrap_def split: sum.splits)
        subgoal for h v a by (cases "dec_vms a") auto
        done
      done
    done
qed

lemma orphan_zvol_seenI:
  assumes "live_known h live" "zvols_known h zs" "z \<in> set zs" "(VmList, a) \<in> set h" "dec_vms a = Inr vms"
    "orphan_zvol cl (map vm_name vms) live z"
  shows "orphan_zvol_seen cl h (mz_path z)"
proof -
  have "gone_from_omni h (mz_request_id z) \<or> without_vm cl h (mz_request_id z)"
  proof (cases "not_live live (mz_request_id z)")
    case True
    with assms(1) show ?thesis by (simp add: not_live_gone)
  next
    case False
    with assms(4-6) show ?thesis by (auto simp: orphan_zvol_def without_vm_def)
  qed
  with assms(2,3) show ?thesis by (auto simp: orphan_zvol_seen_def zvols_known_def zvol_listed_def)
qed

lemma safe_cleanupOrphanZvols:
  assumes E: "lasting E" and known: "\<And>h. E h \<Longrightarrow> live_known h live \<and> zvols_known h zs"
  shows "safe (cleanup_guard cl) E (cleanupOrphanZvols cl zs live) (\<lambda>_. E)"
proof -
  let ?L = "\<lambda>vms h. E h \<and> (\<exists>a. (VmList, a) \<in> set h \<and> dec_vms a = Inr vms)"
  have seen: "orphan_zvol_seen cl h (mz_path z)"
    if "z \<in> set zs" "?L vms h" "orphan_zvol cl (map vm_name vms) live z" for z vms h
    using that known orphan_zvol_seenI [of h live zs z] by blast
  have L: "lasting (?L vms)" for vms by (intro lasting_conj E lasting_ex lasting_member lasting_True)
  have each: "safe (cleanup_guard cl) (?L vms) (delete_orphan_zvol cl (map vm_name vms) live z) (\<lambda>_. ?L vms)"
    if z: "z \<in> set zs" for z vms
    unfolding delete_orphan_zvol_def DeleteDataset_def State_Monad.bind_assoc
    by (rule safe_emits [OF _ L], intro emits_intros) (use seen [OF z] in \<open>auto simp: cleanup_guard_def\<close>)
  show ?thesis
    unfolding cleanupOrphanZvols_def ListVMs_def
    apply (rule safe_if)
     apply (rule safe_ret, simp)
    apply (rule safe_bind [OF safe_call [OF E]])
     apply (simp add: cleanup_guard_def is_write_def)
    subgoal for r
      apply (rule safe_case_sum)
       apply (rule safe_ret, simp)
      subgoal for vms
        apply (rule safe_conseq [OF safe_for_all [OF each]], assumption)
         apply (elim conjE exE)
        subgoal for h a by (cases "dec_vms a") (auto simp: wrap_def)
        apply simp
        done
      done
    done
qed

lemma safe_runOnce: "safe (cleanup_guard cl) (\<lambda>h. True) (runOnce cl) (\<lambda>_ h. True)"
  unfolding runOnce_def ListManagedZvols_def
  apply (rule safe_bind [OF safe_cleanupISOs])
  apply (rule safe_bind [OF safe_call [OF lasting_True]])
   apply (simp add: cleanup_guard_def is_write_def)
  subgoal for u r
    apply (rule safe_case_sum)
     apply (rule safe_ret, simp)
    subgoal for zs
      apply (rule safe_bind [where R = "\<lambda>live h. live_known h live \<and> zvols_known h zs"])
       apply (rule safe_if)
        apply (rule safe_conseq [OF safe_call [where E = "\<lambda>h. zvols_known h zs"]])
           apply (simp_all add: cleanup_guard_def is_write_def)
        apply (elim exE)
      subgoal for h a by (cases "dec_datasets a") (auto simp: zvols_known_def)
      subgoal for live h
        by (auto simp: live_known_def elim!: live_answer.elims)
       apply (rule safe_ret)
      subgoal for h
        apply (elim conjE exE)
        subgoal for a by (cases "dec_datasets a") (auto simp: zvols_known_def live_known_def)
        done
      subgoal for live
        apply (rule safe_bind [OF safe_cleanupOrphanVMs])
          apply (intro lasting_conj lasting_known)
         apply simp
        apply (rule safe_conseq [OF safe_cleanupOrphanZvols [where E = "\<lambda>h. live_known h live \<and> zvols_known h zs"]])
           apply (auto intro!: lasting_conj lasting_known)
        done
      done
    done
  done



section \<open>The ISO dataset\<close>

lemma stale_all:
  "length (filter P xs) \<noteq> 0 \<and> \<not> length (filter P xs) < length xs \<longleftrightarrow> xs \<noteq> [] \<and> (\<forall>x \<in> set xs. P x)"
  by (metis filter_True length_0_conv length_filter_le length_filter_less linorder_not_less filter_False less_irrefl
      neq_Nil_conv list.set_intros(1))

text \<open>
  The ISO dataset is deleted exactly when the listing of its directory has at least one ISO
  and none of the ISOs is in use: an image that a machine was provisioned from since the provider
  started is never wiped.
\<close>

theorem cleanupISOs_wipes_iff:
  assumes "dec_files (cl_srv cl [] (FsListdir (''/mnt/'' @ cl_pool cl @ ''/talos-iso''))) = Inr files"
    and "cl_active cl p = Some active"
  shows "DatasetDelete (cl_pool cl @ ''/talos-iso'') \<in>
      fst ` set (w_hist (snd (run_state (cleanupISOs cl) \<lparr>w_hist = [], w_proc = p\<rparr>))) \<longleftrightarrow>
    iso_files files \<noteq> [] \<and> (\<forall>f \<in> set (iso_files files). trim_suffix (fe_name f) ''.iso'' \<notin> active)"
  using assms stale_all [of "\<lambda>f. trim_suffix (fe_name f) ''.iso'' \<notin> active" "iso_files files"]
  by (auto simp: cleanupISOs_def ListFiles_def Let_def RecreateDataset_def DeleteDataset_def CreateDataset_def
      case_prod_beta split: sum.splits)

text \<open>A pool whose only cached image is \<open>a\<close>, and a provider that knows nothing of it.\<close>

definition one_iso :: server where
  "one_iso h q = (case q of
      FsListdir d \<Rightarrow> Inr (RFiles [\<lparr>fe_name = ''a.iso'', fe_path = d @ ''/a.iso'', fe_type = ''FILE''\<rparr>])
    | _ \<Rightarrow> Inr RNull)"

definition example_cleaner :: "server \<Rightarrow> cleaner" where
  "example_cleaner srv = NewCleaner \<lparr>cl_srv = srv, cl_pool = ''tank'', cl_interval = 0, cl_grace = 0,
     cl_provider_id = ''truenas'', cl_active = ActiveImageIDs, cl_has_live = True\<rparr>"

theorem cleanupISOs_witness:
  "DatasetDelete ''tank/talos-iso'' \<in>
     fst ` set (w_hist (snd (run_state (cleanupISOs (example_cleaner one_iso)) \<lparr>w_hist = [], w_proc = prov_zero\<rparr>)))"
  using cleanupISOs_wipes_iff [of "example_cleaner one_iso"
      "[\<lparr>fe_name = ''a.iso'', fe_path = ''/mnt/tank/talos-iso/a.iso'', fe_type = ''FILE''\<rparr>]" prov_zero "{}"]
  by (simp add: example_cleaner_def NewCleaner_def one_iso_def ActiveImageIDs_def prov_zero_def iso_files_def
      has_suffix_def has_prefix_def)

section \<open>Orphans, exactly\<close>



text \<open>
  A VM that another provider on the same TrueNAS created for one of its own requests is
  stopped and deleted as soon as the live requests of this provider could be read: the scan
  looks at the request id alone, and the live set holds only this provider's requests.
\<close>

theorem foreign_vm_deleted:
  assumes "dec_vms (cl_srv cl (w_hist w) VmList) = Inr vms" and "v \<in> set vms"
    and "vm_name v = BuildVMName other r" and "vm_description v = omniVMDescription r"
    and "alnums other \<noteq> []" and "r \<noteq> []" and "CHR '')'' \<notin> set r" and "r \<notin> set ids"
  shows "VmDelete (vm_id v) \<in> fst ` set (w_hist (snd (run_state (cleanupOrphanVMs cl zs (Some ids)) w)))"
proof -
  let ?m = "maybeDeleteOrphanVM cl (map mz_request_id zs) (Some ids)"
  let ?g = "\<lambda>v. if orphan_vm (map mz_request_id zs) (Some ids) v then [VmStop (vm_id v) True, VmDelete (vm_id v)] else []"
  have one: "asks (?m v) (?g v)" for v
    unfolding maybeDeleteOrphanVM_def StopVM_def DeleteVM_def State_Monad.bind_assoc
    by (simp only: State_Monad.bind_left_identity) (intro asks_if asks_step asks_ret)
  have "orphan_vm (map mz_request_id zs) (Some ids) v"
    using assms by (simp add: orphan_vm_def Let_def BuildVMName_prefix parse_omniVMDescription not_live_def)
  with assms(2) have "VmDelete (vm_id v) \<in> set (concat (map ?g vms))" by fastforce
  with assms(1) asksD [OF asks_for_all [of ?m, OF one]] show ?thesis
    by (simp add: cleanupOrphanVMs_def ListVMs_def wrap_def flip: set_map)
qed

definition foreign_vm :: vm where
  "foreign_vm = vm_zero\<lparr>vm_id := 9, vm_name := BuildVMName ''other'' ''r'', vm_description := omniVMDescription ''r''\<rparr>"

definition shared_nas :: server where
  "shared_nas h q = (case q of VmList \<Rightarrow> Inr (RVMs [foreign_vm]) | _ \<Rightarrow> Inr RNull)"

theorem foreign_vm_witness:
  "VmDelete 9 \<in> fst ` set (w_hist (snd (run_state (cleanupOrphanVMs (example_cleaner shared_nas) [] (Some [])) 
     \<lparr>w_hist = [], w_proc = prov_zero\<rparr>)))"
  using foreign_vm_deleted [of "example_cleaner shared_nas" "\<lparr>w_hist = [], w_proc = prov_zero\<rparr>" "[foreign_vm]"
      foreign_vm "''other''" "''r''" "[]" "[]"]
  by (simp add: example_cleaner_def NewCleaner_def shared_nas_def foreign_vm_def alnums_def significant_def is_word_char_def)

end
