(* ===== verification/Lease.thy ===== *)
theory Lease
  imports GoLib "HOL-Library.Word"
begin

text \<open>
  The singleton lease of internal/singleton/singleton.go: the annotations of the
  \<open>ProviderStatus\<close> resource, the callbacks of its updates, acquisition and the heartbeat
  loop of one instance against an arbitrary state service, and the protocol of any number of
  instances as a step relation over the shared resource.
\<close>

section \<open>The lease record\<close>

text \<open>
  A metadata annotation of the \<open>ProviderStatus\<close> resource, as the code reads it: absent,
  present but not parsable, or present with a value. (Formatting a time as RFC 3339 with
  nanoseconds and parsing it gives the time back.)
\<close>

datatype 'a annot = Absent | Malformed | Value 'a

record status =
  su_instance :: "string option"
  su_heartbeat :: "go_time annot"
  su_epoch :: "64 word annot"
  su_updated :: go_time

record lease_config =
  lc_provider :: string
  lc_instance :: string
  lc_refresh :: int
  lc_stale :: int

record lease =
  le_epoch :: "64 word"
  le_takeover :: bool

definition lease_zero :: lease where
  "lease_zero = \<lparr>le_epoch = 0, le_takeover = False\<rparr>"

definition DefaultRefreshInterval :: int where "DefaultRefreshInterval = 15 * second"
definition DefaultStaleAfter :: int where "DefaultStaleAfter = 45 * second"
definition maxConsecutiveRefreshErrors :: nat where "maxConsecutiveRefreshErrors = 3"

definition NewLease :: "lease_config \<Rightarrow> string \<Rightarrow> string + lease_config" where
  "NewLease cfg uuid =
     (if lc_provider cfg = [] then Inl ''ProviderID is required''
      else let c1 = (if lc_instance cfg = [] then cfg\<lparr>lc_instance := uuid\<rparr> else cfg);
               c2 = (if lc_refresh c1 \<le> 0 then c1\<lparr>lc_refresh := DefaultRefreshInterval\<rparr> else c1);
               c3 = (if lc_stale c2 \<le> 0 then c2\<lparr>lc_stale := DefaultStaleAfter\<rparr> else c2)
           in if lc_stale c3 < i64 (2 * lc_refresh c3) then Inl ''StaleAfter must be >= 2 * RefreshInterval''
              else Inr c3)"

definition leaseAge :: "status \<Rightarrow> go_time \<Rightarrow> int option" where
  "leaseAge st now =
     (case su_heartbeat st of
        Value t \<Rightarrow> Some (time_sub now t)
      | Malformed \<Rightarrow> None
      | Absent \<Rightarrow> if time_equal (su_updated st) time_zero then None else Some (time_sub now (su_updated st)))"

definition readEpochAnnotation :: "status \<Rightarrow> 64 word" where
  "readEpochAnnotation st = (case su_epoch st of Value n \<Rightarrow> n | _ \<Rightarrow> 0)"

definition write_lease :: "lease_config \<Rightarrow> lease \<Rightarrow> go_time \<Rightarrow> status \<Rightarrow> status" where
  "write_lease cfg l now st =
     st\<lparr>su_instance := Some (lc_instance cfg), su_heartbeat := Value now, su_epoch := Value (le_epoch l)\<rparr>"

section \<open>The callbacks of the updates\<close>

text \<open>
  The function that \<open>casAcquire\<close> passes to the update: who else holds the lease and for how
  long, or the resource to write. The lease record changes on the way.
\<close>

definition claim :: "lease_config \<Rightarrow> go_time \<Rightarrow> lease \<Rightarrow> status \<Rightarrow> lease \<times> ((string \<times> int) + status)" where
  "claim cfg now l st =
     (let prior = readEpochAnnotation st;
          taken = l\<lparr>le_takeover := True, le_epoch := prior + 1\<rparr>;
          write = (\<lambda>k. (k, Inr (write_lease cfg k now st)))
      in case su_instance st of
           None \<Rightarrow> write taken
         | Some owner \<Rightarrow>
             if owner = lc_instance cfg then write (if le_epoch l = 0 then l\<lparr>le_epoch := prior\<rparr> else l)
             else case leaseAge st now of
                    None \<Rightarrow> write taken
                  | Some age \<Rightarrow> if age < lc_stale cfg then (l, Inl (owner, age)) else write taken)"

text \<open>The function of \<open>refresh\<close>: \<open>None\<close> when the lease is stolen.\<close>

definition refresh :: "lease_config \<Rightarrow> go_time \<Rightarrow> lease \<Rightarrow> status \<Rightarrow> status option" where
  "refresh cfg now l st =
     (case su_instance st of
        Some owner \<Rightarrow>
          if owner \<noteq> lc_instance cfg then None
          else if le_epoch l \<noteq> 0 \<and> le_epoch l < readEpochAnnotation st then None
          else Some (write_lease cfg l now st)
      | None \<Rightarrow>
          if le_epoch l \<noteq> 0 \<and> le_epoch l < readEpochAnnotation st then None
          else Some (write_lease cfg l now st))"

definition release :: "lease_config \<Rightarrow> status \<Rightarrow> status" where
  "release cfg st =
     (if su_instance st \<noteq> Some (lc_instance cfg) then st
      else st\<lparr>su_instance := None, su_heartbeat := Absent, su_epoch := Absent\<rparr>)"

definition created_status :: "lease_config \<Rightarrow> go_time \<Rightarrow> go_time \<Rightarrow> status" where
  "created_status cfg now u =
     \<lparr>su_instance = Some (lc_instance cfg), su_heartbeat = Value now, su_epoch = Value 1, su_updated = u\<rparr>"

section \<open>The operations\<close>

text \<open>
  The state service as an environment. \<open>UpdateClaim\<close> and the other updates are
  \<open>StateUpdateWithConflicts\<close> with the callback of that operation: the answer holds the
  clock readings and resources on which the callback ran, one per try, and the error of the
  last try, if any.
\<close>

datatype state_error = NotFoundError | ConflictError | OtherError string

datatype lease_op = StatusGet | StatusCreate status | UpdateClaim | UpdateRefresh | UpdateRelease | ClockNow | Tick

datatype lease_answer =
    Done
  | Failed state_error
  | Time go_time
  | Tries "(go_time \<times> status) list" "state_error option"

datatype lease_error =
    LeaseHeldError string int
  | ReadFailed state_error
  | CreateFailed state_error
  | AcquireFailed state_error
  | AttemptsExhausted
  | LeaseStolen
  | RefreshFailed nat state_error

type_synonym 'a leasing = "(lease_op, lease_answer, lease, 'a) prog"

fun run_claims :: "lease_config \<Rightarrow> (go_time \<times> status) list \<Rightarrow> lease \<Rightarrow> lease \<times> (string \<times> int) option" where
  "run_claims cfg [] l = (l, None)"
| "run_claims cfg ((now, st) # ts) l =
     (case claim cfg now l st of (k, Inl held) \<Rightarrow> (k, Some held) | (k, Inr st') \<Rightarrow> run_claims cfg ts k)"

fun answer_tries :: "lease_answer \<Rightarrow> (go_time \<times> status) list \<times> state_error option" where
  "answer_tries (Tries ts e) = (ts, e)"
| "answer_tries (Failed e) = ([], Some e)"
| "answer_tries _ = ([], None)"

fun answer_time :: "lease_answer \<Rightarrow> go_time" where
  "answer_time (Time t) = t"
| "answer_time _ = time_zero"

fun answer_error :: "lease_answer \<Rightarrow> state_error option" where
  "answer_error (Failed e) = Some e"
| "answer_error _ = None"

definition casAcquire :: "(lease_op, lease_answer) env \<Rightarrow> lease_config \<Rightarrow> ((string \<times> int) option \<times> state_error option) leasing" where
  "casAcquire env cfg = do {
     a \<leftarrow> ask env UpdateClaim;
     l \<leftarrow> get_proc;
     let (ts, e) = answer_tries a;
     let (k, held) = run_claims cfg ts l;
     modify_proc (\<lambda>_. k);
     ret (if held \<noteq> None then (held, None) else (None, e)) }"

definition tryCreate :: "(lease_op, lease_answer) env \<Rightarrow> lease_config \<Rightarrow> (lease_error + bool) leasing" where
  "tryCreate env cfg = do {
     t \<leftarrow> ask env ClockNow;
     modify_proc (\<lambda>l. l\<lparr>le_epoch := 1\<rparr>);
     a \<leftarrow> ask env (StatusCreate (created_status cfg (answer_time t) time_zero));
     ret (case answer_error a of
            None \<Rightarrow> Inr True
          | Some ConflictError \<Rightarrow> Inr False
          | Some e \<Rightarrow> Inl (CreateFailed e)) }"

definition claim_existing ::
  "(lease_op, lease_answer) env \<Rightarrow> lease_config \<Rightarrow> (lease_error + unit) leasing \<Rightarrow> (lease_error + unit) leasing" where
  "claim_existing env cfg again = do {
     (held, e) \<leftarrow> casAcquire env cfg;
     case held of
       Some (owner, age) \<Rightarrow> ret (Inl (LeaseHeldError owner age))
     | None \<Rightarrow>
         (case e of
            None \<Rightarrow> ret (Inr ())
          | Some NotFoundError \<Rightarrow> again
          | Some err \<Rightarrow> ret (Inl (AcquireFailed err))) }"

fun acquire_attempts :: "(lease_op, lease_answer) env \<Rightarrow> lease_config \<Rightarrow> nat \<Rightarrow> (lease_error + unit) leasing" where
  "acquire_attempts env cfg 0 = ret (Inl AttemptsExhausted)"
| "acquire_attempts env cfg (Suc n) = do {
     g \<leftarrow> ask env StatusGet;
     case answer_error g of
       Some NotFoundError \<Rightarrow>
         bindE (tryCreate env cfg) (\<lambda>created.
           if created then ret (Inr ()) else claim_existing env cfg (acquire_attempts env cfg n))
     | Some e \<Rightarrow> ret (Inl (ReadFailed e))
     | None \<Rightarrow> claim_existing env cfg (acquire_attempts env cfg n) }"

definition Acquire :: "(lease_op, lease_answer) env \<Rightarrow> lease_config \<Rightarrow> (lease_error + unit) leasing" where
  "Acquire env cfg = acquire_attempts env cfg 3"

text \<open>The callback of a refresh does not change the lease; the first stolen try ends the update.\<close>

definition refresh_lease :: "(lease_op, lease_answer) env \<Rightarrow> lease_config \<Rightarrow> (state_error option option) leasing" where
  "refresh_lease env cfg = do {
     a \<leftarrow> ask env UpdateRefresh;
     l \<leftarrow> get_proc;
     ret (if list_ex (\<lambda>(now, st). refresh cfg now l st = None) (fst (answer_tries a)) then None
          else Some (snd (answer_tries a))) }"

text \<open>
  The heartbeat loop for at most \<open>n\<close> ticks, after \<open>k\<close> failures in a row. \<open>None\<close>:
  still running. An error as the answer to a tick is the cancellation of the context.
\<close>

fun RunLease :: "(lease_op, lease_answer) env \<Rightarrow> lease_config \<Rightarrow> nat \<Rightarrow> nat \<Rightarrow> ((lease_error + unit) option) leasing" where
  "RunLease env cfg 0 k = ret None"
| "RunLease env cfg (Suc n) k = do {
     t \<leftarrow> ask env Tick;
     case answer_error t of
       Some e \<Rightarrow> ret (Some (Inr ()))
     | None \<Rightarrow> do {
         r \<leftarrow> refresh_lease env cfg;
         case r of
           None \<Rightarrow> ret (Some (Inl LeaseStolen))
         | Some (Some e) \<Rightarrow>
             if maxConsecutiveRefreshErrors \<le> k + 1 then ret (Some (Inl (RefreshFailed (k + 1) e)))
             else RunLease env cfg n (k + 1)
         | Some None \<Rightarrow> RunLease env cfg n 0 } }"


definition isMalformed200 :: "string \<Rightarrow> bool" where
  "isMalformed200 msg \<longleftrightarrow>
     contains msg ''malformed header: missing HTTP content-type'' \<and> contains msg ''200''"

text \<open>Releasing is best effort: its outcome is only logged.\<close>

definition Release :: "(lease_op, lease_answer) env \<Rightarrow> unit leasing" where
  "Release env = do { a \<leftarrow> ask env UpdateRelease; ret () }"

section \<open>A single instance\<close>

definition claimable :: "lease_config \<Rightarrow> go_time \<Rightarrow> status \<Rightarrow> bool" where
  "claimable cfg now st \<longleftrightarrow>
     (case su_instance st of
        None \<Rightarrow> True
      | Some owner \<Rightarrow> owner = lc_instance cfg \<or>
          (case leaseAge st now of None \<Rightarrow> True | Some age \<Rightarrow> lc_stale cfg \<le> age))"

lemma claim_Inr_iff: "(\<exists>st'. snd (claim cfg now l st) = Inr st') \<longleftrightarrow> claimable cfg now st"
  by (auto simp: claim_def claimable_def Let_def split: option.splits)

lemma claim_written:
  "claim cfg now l st = (k, Inr st') \<Longrightarrow> st' = write_lease cfg k now st \<and> claimable cfg now st"
  by (auto simp: claim_def claimable_def Let_def split: option.splits if_splits)

lemma claim_held:
  "claim cfg now l st = (k, Inl h) \<Longrightarrow> k = l \<and> (\<exists>i. su_instance st = Some i \<and> i \<noteq> lc_instance cfg)"
  by (auto simp: claim_def Let_def split: option.splits if_splits)

lemma run_claims_None:
  "snd (run_claims cfg ts l) = None \<longleftrightarrow> (\<forall>(now, st) \<in> set ts. claimable cfg now st)"
proof (induction ts arbitrary: l)
  case (Cons t ts)
  obtain now st where t: "t = (now, st)" by (cases t)
  obtain k r where c: "claim cfg now l st = (k, r)" by (cases "claim cfg now l st")
  show ?case
    using claim_Inr_iff [of cfg now l st] Cons.IH [of k] by (cases r) (auto simp: t c)
qed simp

definition lease_won :: "lease_config \<Rightarrow> (lease_op \<times> lease_answer) list \<Rightarrow> bool" where
  "lease_won cfg h \<longleftrightarrow>
     (\<exists>st a. (StatusCreate st, a) \<in> set h \<and> answer_error a = None) \<or>
     (\<exists>a. (UpdateClaim, a) \<in> set h \<and> snd (answer_tries a) = None \<and>
        (\<forall>(now, st) \<in> set (fst (answer_tries a)). claimable cfg now st))"

lemma lasting_lease_won: "lasting (lease_won cfg)"
  by (auto simp: lasting_def lease_won_def)

lemma safe_claim_existing:
  assumes "safe anything (\<lambda>h. True) again (\<lambda>r h. r = Inr () \<longrightarrow> lease_won cfg h)"
  shows "safe anything (\<lambda>h. True) (claim_existing env cfg again) (\<lambda>r h. r = Inr () \<longrightarrow> lease_won cfg h)"
proof -
  have cas: "safe anything (\<lambda>h. True) (casAcquire env cfg)
      (\<lambda>r h. r = (None, None) \<longrightarrow> lease_won cfg h)"
  proof (rule safeI)
    fix w r w'
    assume run: "run_state (casAcquire env cfg) w = (r, w')"
    show "guarded anything (w_hist w') \<and> (r = (None, None) \<longrightarrow> lease_won cfg (w_hist w'))"
      using run run_claims_None [of cfg "fst (answer_tries (env (w_hist w) UpdateClaim))" "w_proc w"]
      by (auto simp: casAcquire_def guarded_def lease_won_def split: prod.splits if_splits)
  qed
  show ?thesis
    unfolding claim_existing_def
    apply (rule safe_bind [OF cas])
    subgoal for r
      apply (cases r)
      apply (simp only: prod.case)
      apply (intro safe_case_option)
        apply (rule safe_ret, simp)
      subgoal for held e err
        by (cases err) (auto intro: safe_ret safe_conseq [OF assms])
      subgoal for held e p by (cases p) (auto intro: safe_ret)
      done
    done
qed

lemma safe_Acquire: "safe anything (\<lambda>h. True) (acquire_attempts env cfg n) (\<lambda>r h. r = Inr () \<longrightarrow> lease_won cfg h)"
proof (induction n)
  case (Suc n)
  note again = safe_claim_existing [OF Suc]
  have create: "safe anything (\<lambda>h. True) (tryCreate env cfg) (\<lambda>r h. r = Inr True \<longrightarrow> lease_won cfg h)"
    by (rule safeI)
      (auto simp: tryCreate_def guarded_def lease_won_def split: option.splits state_error.splits if_splits)
  show ?case
    unfolding acquire_attempts.simps
    apply (rule safe_bind [OF safe_ask [where Q = "\<lambda>_ _. True"]], simp, simp)
    subgoal for g
      apply (cases "answer_error g")
       apply (simp add: again)
      subgoal for e
        apply (cases e)
          apply simp_all
          apply (rule safe_bindE [where R = "\<lambda>created h. created \<longrightarrow> lease_won cfg h"])
           apply (rule safe_conseq [OF create], simp, auto split: sum.splits)[1]
          apply (rule safe_if)
           apply (rule safe_ret, simp)
          apply (rule safe_conseq [OF again], simp, simp)
         apply (auto intro: safe_ret)
        done
      done
    done
qed (simp add: safe_ret)

text \<open>
  An instance that acquires the lease has either created the resource, or had an update
  succeed on a resource that was, on every try, unclaimed, its own, without a usable timestamp,
  or stale by its own clock. It never succeeds against a fresh lease of another instance.
\<close>

theorem Acquire_sound:
  assumes "run_state (Acquire env cfg) \<lparr>w_hist = [], w_proc = l\<rparr> = (Inr (), w')"
  shows "lease_won cfg (w_hist w')"
  using safeD [OF safe_Acquire [of env cfg 3], of "\<lparr>w_hist = [], w_proc = l\<rparr>"] assms
  by (simp add: Acquire_def guarded_def)

definition example_lease_config :: lease_config where
  "example_lease_config = \<lparr>lc_provider = ''truenas'', lc_instance = ''a'', lc_refresh = 15 * second, lc_stale = 45 * second\<rparr>"

definition empty_state_service :: "(lease_op, lease_answer) env" where
  "empty_state_service h q =
     (case q of StatusGet \<Rightarrow> Failed NotFoundError | ClockNow \<Rightarrow> Time (time_unix 0) | _ \<Rightarrow> Done)"

theorem Acquire_witness:
  "lease_won example_lease_config
     (w_hist (snd (run_state (Acquire empty_state_service example_lease_config) \<lparr>w_hist = [], w_proc = lease_zero\<rparr>)))"
proof -
  let ?r = "run_state (Acquire empty_state_service example_lease_config) \<lparr>w_hist = [], w_proc = lease_zero\<rparr>"
  have "fst ?r = Inr ()" by code_simp
  then have "?r = (Inr (), snd ?r)" by (metis prod.collapse)
  then show ?thesis by (rule Acquire_sound)
qed

section \<open>The heartbeat loop\<close>

text \<open>
  An instance whose refreshes all fail gives up at the third tick, or earlier if the lease
  was stolen: the loop ends with an error, and so closes the channel that shuts the provider down.
\<close>

theorem RunLease_gives_up:
  assumes "\<And>h. answer_error (env h Tick) = None"
    and "\<And>h. snd (answer_tries (env h UpdateRefresh)) \<noteq> None"
  shows "\<exists>e. fst (run_state (RunLease env cfg (3 + n) 0) w) = Some (Inl e)"
proof -
  have step: "\<exists>w2. (\<exists>e. run_state (RunLease env cfg (Suc m) k) w = (Some (Inl e), w2)) \<or>
      k + 1 < 3 \<and> run_state (RunLease env cfg (Suc m) k) w = run_state (RunLease env cfg m (k + 1)) w2" for m k w
    using assms(1) assms(2) [of "w_hist w @ [(Tick, env (w_hist w) Tick)]"]
    by (auto simp: refresh_lease_def maxConsecutiveRefreshErrors_def split: option.splits)
  have "\<exists>e. fst (run_state (RunLease env cfg (Suc m) 2) w) = Some (Inl e)" for m w
    using step [of m 2 w] by auto
  then have "\<exists>e. fst (run_state (RunLease env cfg (Suc (Suc m)) 1) w) = Some (Inl e)" for m w
    using step [of "Suc m" 1 w] by (auto simp del: RunLease.simps simp flip: numeral_2_eq_2)
  then show ?thesis
    using step [of "Suc (Suc n)" 0 w] by (auto simp del: RunLease.simps simp: numeral_3_eq_3)
qed

definition broken_state_service :: "(lease_op, lease_answer) env" where
  "broken_state_service h q = (if q = Tick then Done else Failed (OtherError ''unavailable''))"

theorem RunLease_witness:
  "\<exists>e. fst (run_state (RunLease broken_state_service example_lease_config 5 0) \<lparr>w_hist = [], w_proc = lease_zero\<rparr>) =
     Some (Inl e)"
  using RunLease_gives_up [of broken_state_service example_lease_config 2] by (simp add: broken_state_service_def)


section \<open>Instances that share the resource\<close>

text \<open>
  Any number of instances act on the one resource. An instance is \<open>Fresh\<close> until its
  acquisition ends, \<open>Active\<close> while it provisions and refreshes, and \<open>Gone\<close>
  afterwards; a restarted process is a new instance with a new id. A step is one committed
  update (the resource at the commit is the one the callback saw), one failed one, or a
  movement of time. The clock read in a step is not after the true time, which the update
  commits at; it may be any time before. \<open>pr_beat\<close> is the heartbeat the instance wrote
  last. The premise on the epoch excludes the wrap-around of the 64-bit counter.
\<close>

datatype phase = Fresh | Active | Gone

record proc =
  pr_phase :: phase
  pr_lease :: lease
  pr_beat :: int

record sys =
  sy_store :: "status option"
  sy_proc :: "string \<Rightarrow> proc"
  sy_clock :: int

definition instant :: "go_time \<Rightarrow> int" where
  "instant t = t_sec t * second + t_ns t"

definition sys_init :: sys where
  "sys_init = \<lparr>sy_store = None, sy_proc = (\<lambda>i. \<lparr>pr_phase = Fresh, pr_lease = lease_zero, pr_beat = 0\<rparr>), sy_clock = 0\<rparr>"

abbreviation as_instance :: "lease_config \<Rightarrow> string \<Rightarrow> lease_config" where
  "as_instance cf i \<equiv> cf\<lparr>lc_instance := i\<rparr>"

abbreviation set_proc :: "string \<Rightarrow> proc \<Rightarrow> sys \<Rightarrow> sys" where
  "set_proc i q s \<equiv> s\<lparr>sy_proc := (sy_proc s)(i := q)\<rparr>"

text \<open>With the flag off, no instance releases the lease on shutdown.\<close>

inductive lstep :: "lease_config \<Rightarrow> bool \<Rightarrow> sys \<Rightarrow> sys \<Rightarrow> bool" for cf rel where
  tick: "sy_clock s \<le> t \<Longrightarrow> lstep cf rel s (s\<lparr>sy_clock := t\<rparr>)"
| create: "sy_store s = None \<Longrightarrow> pr_phase (sy_proc s i) = Fresh \<Longrightarrow> instant now \<le> sy_clock s \<Longrightarrow>
    lstep cf rel s
      (set_proc i \<lparr>pr_phase = Active, pr_lease = (pr_lease (sy_proc s i))\<lparr>le_epoch := 1\<rparr>, pr_beat = instant now\<rparr>
        (s\<lparr>sy_store := Some (created_status (as_instance cf i) now u)\<rparr>))"
| create_lost: "pr_phase (sy_proc s i) = Fresh \<Longrightarrow>
    lstep cf rel s (set_proc i ((sy_proc s i)\<lparr>pr_lease := (pr_lease (sy_proc s i))\<lparr>le_epoch := 1\<rparr>\<rparr>) s)"
| claim: "sy_store s = Some st \<Longrightarrow> pr_phase (sy_proc s i) = Fresh \<Longrightarrow> instant now \<le> sy_clock s \<Longrightarrow>
    unat (readEpochAnnotation st) < 2 ^ 64 - 1 \<Longrightarrow>
    claim (as_instance cf i) now (pr_lease (sy_proc s i)) st = (l, Inr st') \<Longrightarrow> ph \<in> {Active, Gone} \<Longrightarrow>
    lstep cf rel s
      (set_proc i \<lparr>pr_phase = ph, pr_lease = l, pr_beat = instant now\<rparr> (s\<lparr>sy_store := Some (st'\<lparr>su_updated := u\<rparr>)\<rparr>))"
| claim_lost: "sy_store s = Some st \<Longrightarrow> pr_phase (sy_proc s i) = Fresh \<Longrightarrow>
    claim (as_instance cf i) now (pr_lease (sy_proc s i)) st = (l, Inr st') \<Longrightarrow>
    lstep cf rel s (set_proc i ((sy_proc s i)\<lparr>pr_lease := l\<rparr>) s)"
| refresh: "sy_store s = Some st \<Longrightarrow> pr_phase (sy_proc s i) = Active \<Longrightarrow> instant now \<le> sy_clock s \<Longrightarrow>
    refresh (as_instance cf i) now (pr_lease (sy_proc s i)) st = Some st' \<Longrightarrow>
    lstep cf rel s (set_proc i ((sy_proc s i)\<lparr>pr_beat := instant now\<rparr>) (s\<lparr>sy_store := Some (st'\<lparr>su_updated := u\<rparr>)\<rparr>))"
| stop: "lstep cf rel s (set_proc i ((sy_proc s i)\<lparr>pr_phase := Gone\<rparr>) s)"
| release: "rel \<Longrightarrow> sy_store s = Some st \<Longrightarrow> pr_phase (sy_proc s i) \<noteq> Fresh \<Longrightarrow>
    lstep cf rel s
      (set_proc i ((sy_proc s i)\<lparr>pr_phase := Gone\<rparr>) (s\<lparr>sy_store := Some ((release (as_instance cf i) st)\<lparr>su_updated := u\<rparr>)\<rparr>))"
| touch: "sy_store s = Some st \<Longrightarrow> lstep cf rel s (s\<lparr>sy_store := Some (st\<lparr>su_updated := u\<rparr>)\<rparr>)"

section \<open>Fencing tokens\<close>

abbreviation active :: "sys \<Rightarrow> string \<Rightarrow> bool" where
  "active s i \<equiv> pr_phase (sy_proc s i) = Active"

abbreviation epoch_of :: "sys \<Rightarrow> string \<Rightarrow> 64 word" where
  "epoch_of s i \<equiv> le_epoch (pr_lease (sy_proc s i))"

definition owned :: "sys \<Rightarrow> status \<Rightarrow> string \<Rightarrow> 64 word \<Rightarrow> bool" where
  "owned s st owner e \<longleftrightarrow>
     su_instance st = Some owner \<and> su_epoch st = Value e \<and> pr_phase (sy_proc s owner) \<noteq> Fresh \<and>
     (\<forall>i. active s i \<longrightarrow> epoch_of s i \<le> e \<and> (epoch_of s i = e \<longleftrightarrow> i = owner))"

definition fenced :: "sys \<Rightarrow> bool" where
  "fenced s \<longleftrightarrow>
     (sy_store s = None \<longrightarrow> (\<forall>i. \<not> active s i)) \<and>
     (\<forall>st. sy_store s = Some st \<longrightarrow> (\<exists>owner e. owned s st owner e)) \<and>
     (\<forall>i j. active s i \<and> active s j \<and> epoch_of s i = epoch_of s j \<longrightarrow> i = j)"

text \<open>A step that changes neither the owner nor the epoch, and makes no instance active.\<close>

lemma fenced_same:
  assumes "fenced s"
    and "map_option (\<lambda>st. (su_instance st, su_epoch st)) (sy_store s') = map_option (\<lambda>st. (su_instance st, su_epoch st)) (sy_store s)"
    and a: "\<And>i. active s' i \<Longrightarrow> active s i \<and> epoch_of s' i = epoch_of s i"
    and f: "\<And>i. pr_phase (sy_proc s i) \<noteq> Fresh \<Longrightarrow> pr_phase (sy_proc s' i) \<noteq> Fresh"
  shows "fenced s'"
proof (cases "sy_store s")
  case None
  with assms(1,2) a show ?thesis by (auto simp: fenced_def)
next
  case (Some st)
  with assms(1) obtain owner e where o: "owned s st owner e" by (auto simp: fenced_def)
  from Some assms(2) obtain st' where st': "sy_store s' = Some st'" "su_instance st' = su_instance st" "su_epoch st' = su_epoch st"
    by (cases "sy_store s'") auto
  with o a f have "owned s' st' owner e" by (auto simp: owned_def)
  moreover have "\<forall>i j. active s' i \<and> active s' j \<and> epoch_of s' i = epoch_of s' j \<longrightarrow> i = j"
    using assms(1) a by (auto simp: fenced_def)
  ultimately show ?thesis using st'(1) by (auto simp: fenced_def)
qed

lemma claim_other:
  assumes "claim (as_instance cf i) now l st = (k, Inr st')" and "su_instance st = Some owner" and "owner \<noteq> i"
  shows "le_epoch k = readEpochAnnotation st + 1 \<and> st' = write_lease (as_instance cf i) k now st"
  using assms by (auto simp: claim_def Let_def split: option.splits if_splits)

lemma word_next: "unat (e :: 64 word) < 2 ^ 64 - 1 \<Longrightarrow> e < e + 1"
  by (simp add: word_less_nat_alt unat_word_ariths)

lemma fenced_claim:
  assumes "fenced s" and "sy_store s = Some st" and "pr_phase (sy_proc s i) = Fresh"
    and "unat (readEpochAnnotation st) < 2 ^ 64 - 1"
    and "claim (as_instance cf i) now (pr_lease (sy_proc s i)) st = (l, Inr st')" and "ph \<noteq> Fresh"
  shows "fenced (set_proc i \<lparr>pr_phase = ph, pr_lease = l, pr_beat = b\<rparr> (s\<lparr>sy_store := Some (st'\<lparr>su_updated := u\<rparr>)\<rparr>))"
    (is "fenced ?s")
proof -
  from assms(1,2) obtain owner e where o: "owned s st owner e" by (auto simp: fenced_def)
  then have "owner \<noteq> i" using assms(3) by (auto simp: owned_def)
  with claim_other [OF assms(5)] o
  have l: "le_epoch l = e + 1" and st': "st' = write_lease (as_instance cf i) l now st"
    by (simp_all add: readEpochAnnotation_def owned_def)
  have "e < e + 1" using assms(4) o by (intro word_next) (simp add: readEpochAnnotation_def owned_def)
  then have new: "epoch_of s j < e + 1" if "active s j" for j
    using o that by (fastforce simp: owned_def)
  have ne: "epoch_of s j \<noteq> e + 1" if "active s j" for j
    using new [OF that] by (rule less_imp_neq)
  have own: "owned ?s (st'\<lparr>su_updated := u\<rparr>) i (e + 1)"
    using new ne assms(6) by (simp add: owned_def st' l write_lease_def less_imp_le)
  have uniq: "\<forall>j k. active ?s j \<and> active ?s k \<and> epoch_of ?s j = epoch_of ?s k \<longrightarrow> j = k"
  proof (intro allI impI)
    fix j k
    assume a: "active ?s j \<and> active ?s k \<and> epoch_of ?s j = epoch_of ?s k"
    show "j = k"
    proof (cases "j = i \<or> k = i")
      case True
      with a ne [of j] ne [of k] show ?thesis by (cases "j = i"; cases "k = i") (simp_all add: l)
    next
      case False
      with a assms(1) show ?thesis unfolding fenced_def by simp
    qed
  qed
  show ?thesis
    unfolding fenced_def
  proof (intro conjI uniq allI impI)
    fix x
    assume "sy_store ?s = Some x"
    then have "x = st'\<lparr>su_updated := u\<rparr>" by simp
    with own show "\<exists>owner e. owned ?s x owner e" by blast
  qed simp
qed

lemma refresh_written:
  assumes "refresh (as_instance cf i) now l st = Some st'"
  shows "st' = write_lease (as_instance cf i) l now st \<and> su_instance st \<in> {None, Some i}"
  using assms by (auto simp: refresh_def split: option.splits if_splits)

lemma fenced_step:
  assumes "lstep cf False s s'" and "fenced s"
  shows "fenced s'"
  using assms
proof (cases rule: lstep.cases)
  case (create i now u)
  with assms(2) show ?thesis by (auto simp: fenced_def owned_def created_status_def)
next
  case (claim st i now l st' ph u)
  show ?thesis
    unfolding claim(1) by (rule fenced_claim [OF assms(2) claim(2,3,5,6)]) (use claim(7) in auto)
next
  case (refresh st i now st' u)
  from assms(2) refresh obtain owner e where "owned s st owner e" by (auto simp: fenced_def)
  with refresh refresh_written [OF refresh(5)]
  have "su_instance st' = su_instance st" "su_epoch st' = su_epoch st"
    by (auto simp: owned_def write_lease_def)
  with refresh show ?thesis by (intro fenced_same [OF assms(2)]) (auto split: if_splits)
next
  case (stop i)
  then show ?thesis by (intro fenced_same [OF assms(2)]) (auto split: if_splits)
next
  case (create_lost i)
  then show ?thesis by (intro fenced_same [OF assms(2)]) (auto split: if_splits)
next
  case (claim_lost st i now l st')
  then show ?thesis by (intro fenced_same [OF assms(2)]) (auto split: if_splits)
qed (use assms(2) in \<open>auto intro!: fenced_same [OF assms(2)]\<close>)

interpretation fencing: inductive_invariant sys_init "lstep cf False" "\<lambda>s. True" fenced for cf
proof
  show "fenced sys_init" by (simp add: fenced_def sys_init_def)
qed (rule fenced_step)

text \<open>
  C20: as long as no instance releases the lease, the epochs of the instances that believe to
  hold it are pairwise different: a receiver that rejects epochs below the greatest it has seen
  serves one of them.
\<close>

theorem epochs_fence:
  assumes "reaches sys_init (lstep cf False) (\<lambda>s. True) s" and "active s i" and "active s j" and "i \<noteq> j"
  shows "epoch_of s i \<noteq> epoch_of s j"
  using fencing.always [OF assms(1)] assms(2-4) by (auto simp: fenced_def)


text \<open>A run in which the second instance takes over from the first after its lease went stale.\<close>

definition t_at :: "int \<Rightarrow> go_time" where
  "t_at n = \<lparr>t_sec = n, t_ns = 0\<rparr>"

definition a_active :: sys where
  "a_active = set_proc ''a'' \<lparr>pr_phase = Active, pr_lease = lease_zero\<lparr>le_epoch := 1\<rparr>, pr_beat = 0\<rparr>
     (sys_init\<lparr>sy_store := Some (created_status (as_instance example_lease_config ''a'') (t_at 0) (t_at 0))\<rparr>)"

definition b_taken :: sys where
  "b_taken = set_proc ''b'' \<lparr>pr_phase = Active, pr_lease = \<lparr>le_epoch = 2, le_takeover = True\<rparr>, pr_beat = 45 * second\<rparr>
     (a_active\<lparr>sy_clock := 45 * second, sy_store := Some \<lparr>su_instance = Some ''b'', su_heartbeat = Value (t_at 45),
        su_epoch = Value 2, su_updated = t_at 45\<rparr>\<rparr>)"

lemma a_active_reached: "reaches sys_init (lstep example_lease_config rel) (\<lambda>s. True) a_active"
proof -
  have "lstep example_lease_config rel sys_init a_active"
    using lstep.create [of sys_init "''a''" "t_at 0" example_lease_config rel "t_at 0"]
    by (simp add: a_active_def sys_init_def t_at_def instant_def)
  then show ?thesis by (rule reaches_step [where ok = "\<lambda>s. True", OF reaches_start TrueI])
qed

lemma b_taken_reached: "reaches sys_init (lstep example_lease_config rel) (\<lambda>s. True) b_taken"
proof -
  let ?t = "a_active\<lparr>sy_clock := 45 * second\<rparr>"
  have "lstep example_lease_config rel a_active ?t"
    by (rule lstep.tick) (simp add: a_active_def sys_init_def second_def)
  then have t: "reaches sys_init (lstep example_lease_config rel) (\<lambda>s. True) ?t"
    by (rule reaches_step [where ok = "\<lambda>s. True", OF a_active_reached TrueI])
  have "lstep example_lease_config rel ?t b_taken"
    using lstep.claim [of ?t "created_status (as_instance example_lease_config ''a'') (t_at 0) (t_at 0)" "''b''" "t_at 45"
        example_lease_config "\<lparr>le_epoch = 2, le_takeover = True\<rparr>"
        "write_lease (as_instance example_lease_config ''b'') \<lparr>le_epoch = 2, le_takeover = True\<rparr> (t_at 45)
          (created_status (as_instance example_lease_config ''a'') (t_at 0) (t_at 0))" Active rel "t_at 45"]
    by (simp add: b_taken_def a_active_def sys_init_def t_at_def instant_def second_def created_status_def
        readEpochAnnotation_def claim_def leaseAge_def time_sub_def example_lease_config_def lease_zero_def write_lease_def)
  then show ?thesis by (rule reaches_step [where ok = "\<lambda>s. True", OF t TrueI])
qed

theorem epochs_fence_witness:
  "epoch_of b_taken ''a'' \<noteq> epoch_of b_taken ''b''"
  using epochs_fence [OF b_taken_reached, of "''a''" "''b''"] by (simp add: b_taken_def a_active_def)


text \<open>
  Releasing the lease deletes the epoch with the other annotations, so the next instance
  starts at epoch 1 again: an instance that has not noticed yet that it lost the lease and its
  successor's successor act under the same fencing token.
\<close>

theorem release_reuses_epoch:
  "\<exists>s. reaches sys_init (lstep example_lease_config True) (\<lambda>s. True) s \<and>
     active s ''a'' \<and> active s ''c'' \<and> epoch_of s ''a'' = epoch_of s ''c''"
proof -
  let ?l = "\<lparr>le_epoch = 1, le_takeover = True\<rparr>"
  let ?st = "\<lparr>su_instance = None, su_heartbeat = Absent, su_epoch = Absent, su_updated = t_at 45\<rparr>"
  let ?r = "set_proc ''b'' ((sy_proc b_taken ''b'')\<lparr>pr_phase := Gone\<rparr>) (b_taken\<lparr>sy_store := Some ?st\<rparr>)"
  let ?c = "set_proc ''c'' \<lparr>pr_phase = Active, pr_lease = ?l, pr_beat = 45 * second\<rparr>
      (?r\<lparr>sy_store := Some (write_lease (as_instance example_lease_config ''c'') ?l (t_at 45) ?st)\<rparr>)"
  have "lstep example_lease_config True b_taken ?r"
    using lstep.release [of True b_taken _ "''b''" example_lease_config "t_at 45"]
    by (simp add: b_taken_def release_def)
  then have r: "reaches sys_init (lstep example_lease_config True) (\<lambda>s. True) ?r"
    by (rule reaches_step [where ok = "\<lambda>s. True", OF b_taken_reached TrueI])
  have "lstep example_lease_config True ?r ?c"
    using lstep.claim [of ?r ?st "''c''" "t_at 45" example_lease_config ?l
        "write_lease (as_instance example_lease_config ''c'') ?l (t_at 45) ?st" Active True "t_at 45"]
    by (simp add: b_taken_def a_active_def sys_init_def t_at_def instant_def second_def
        readEpochAnnotation_def claim_def lease_zero_def write_lease_def)
  then have "reaches sys_init (lstep example_lease_config True) (\<lambda>s. True) ?c"
    by (rule reaches_step [where ok = "\<lambda>s. True", OF r TrueI])
  moreover have "active ?c ''a'' \<and> active ?c ''c'' \<and> epoch_of ?c ''a'' = epoch_of ?c ''c''"
    by (simp add: b_taken_def a_active_def)
  ultimately show ?thesis by blast
qed

section \<open>Mutual exclusion\<close>

text \<open>Every active instance has written a heartbeat within the staleness limit.\<close>

definition timely :: "lease_config \<Rightarrow> sys \<Rightarrow> bool" where
  "timely cf s \<longleftrightarrow> (\<forall>i. active s i \<longrightarrow> sy_clock s - pr_beat (sy_proc s i) < lc_stale cf)"

definition exclusive :: "sys \<Rightarrow> bool" where
  "exclusive s \<longleftrightarrow>
     (\<forall>i. active s i \<longrightarrow>
        (\<exists>st t. sy_store s = Some st \<and> su_instance st = Some i \<and> su_heartbeat st = Value t \<and>
           instant t = pr_beat (sy_proc s i)))"

lemma exclusive_unique: "exclusive s \<Longrightarrow> active s i \<Longrightarrow> active s j \<Longrightarrow> i = j"
  unfolding exclusive_def by (metis option.inject)

lemma time_sub_less: "instant t - instant u < n \<Longrightarrow> 0 < n \<Longrightarrow> time_sub t u < n"
  by (simp add: time_sub_def instant_def Let_def algebra_simps)

lemma no_claim_under_lease:
  assumes "exclusive s" and "timely cf s" and "0 < lc_stale cf" and "sy_store s = Some st" and "instant now \<le> sy_clock s"
    and "claim (as_instance cf i) now l st = (k, Inr st')" and "active s j"
  shows "j = i"
proof (rule ccontr)
  assume "j \<noteq> i"
  from assms(1,4,7) obtain t where st: "su_instance st = Some j" "su_heartbeat st = Value t"
    and t: "instant t = pr_beat (sy_proc s j)" by (auto simp: exclusive_def)
  from assms(2,5,7) t have "instant now - instant t < lc_stale cf" by (auto simp: timely_def)
  with assms(3) have "time_sub now t < lc_stale cf" by (rule time_sub_less [rotated])
  with claim_written [OF assms(6)] st \<open>j \<noteq> i\<close> show False by (simp add: claimable_def leaseAge_def)
qed

lemma exclusive_step:
  assumes "exclusive s" and "timely cf s" and "0 < lc_stale cf" and "lstep cf True s s'"
  shows "exclusive s'"
  using assms(4)
proof (cases rule: lstep.cases)
  case (tick t)
  with assms(1) show ?thesis by (simp add: exclusive_def)
next
  case (create i now u)
  with assms(1) show ?thesis by (auto simp: exclusive_def created_status_def)
next
  case (create_lost i)
  with assms(1) show ?thesis by (auto simp: exclusive_def)
next
  case (claim st i now l st' ph u)
  have "\<not> active s j" if "j \<noteq> i" for j
    using no_claim_under_lease [OF assms(1-3) claim(2,4,6)] that by blast
  with claim claim_written [OF claim(6)] show ?thesis by (simp add: exclusive_def write_lease_def)
next
  case (claim_lost st i now l st')
  with assms(1) show ?thesis by (auto simp: exclusive_def)
next
  case (refresh st i now st' u)
  have "\<not> active s j" if "j \<noteq> i" for j
    using exclusive_unique [OF assms(1) refresh(3)] that by blast
  with refresh refresh_written [OF refresh(5)] show ?thesis by (simp add: exclusive_def write_lease_def)
next
  case (stop i)
  with assms(1) show ?thesis by (auto simp: exclusive_def)
next
  case (release st i u)
  with assms(1) show ?thesis by (fastforce simp: exclusive_def release_def)
next
  case (touch st u)
  with assms(1) show ?thesis by (fastforce simp: exclusive_def)
qed

lemma exclusion: "0 < lc_stale cf \<Longrightarrow> inductive_invariant sys_init (lstep cf True) (timely cf) exclusive"
proof
  show "exclusive sys_init" by (simp add: exclusive_def sys_init_def)
qed (rule exclusive_step)

text \<open>
  C19: in every run in which each active instance has refreshed its heartbeat within
  \<open>StaleAfter\<close> whenever a step is made, at most one instance is active, with releases,
  restarts, lost updates, delayed clock readings and other writers of the resource included.
\<close>

theorem one_active_instance:
  assumes "0 < lc_stale cf" and "reaches sys_init (lstep cf True) (timely cf) s" and "active s i"
  shows "{j. active s j} = {i}"
  using inductive_invariant.always [OF exclusion [OF assms(1)] assms(2)] assms(3) exclusive_unique by blast

theorem one_active_witness: "{j. active a_active j} = {''a''}"
proof -
  have "lstep example_lease_config True sys_init a_active"
    using lstep.create [of sys_init "''a''" "t_at 0" example_lease_config True "t_at 0"]
    by (simp add: a_active_def sys_init_def t_at_def instant_def)
  moreover have "timely example_lease_config sys_init" by (simp add: timely_def sys_init_def)
  ultimately have "reaches sys_init (lstep example_lease_config True) (timely example_lease_config) a_active"
    by (intro reaches_step [where ok = "timely example_lease_config", OF reaches_start])
  then show ?thesis
    by (rule one_active_instance [rotated]) (simp_all add: example_lease_config_def a_active_def second_def)
qed

end
