(* ===== verification/RotationConfig.thy ===== *)
theory RotationConfig
  imports GoLib "HOL-Library.Char_ord" "HOL-Library.List_Lexorder" "HOL-Library.Multiset"
begin

text \<open>
  The rotation policy on a machine class (internal/noderotation/annotations.go) and the
  generation hash that tells fresh from stale machines (generation.go and the helpers at the end
  of discovery.go).
\<close>

section \<open>Annotations\<close>

type_synonym annotations = "string \<rightharpoonup> string"

text \<open>Reading a Go map of strings: the empty string for a missing key.\<close>

definition annotation :: "annotations \<Rightarrow> string \<Rightarrow> string" where
  "annotation a k = (case a k of None \<Rightarrow> [] | Some v \<Rightarrow> v)"

definition AnnotationEnabled :: string where "AnnotationEnabled = ''node-rotation.omni/enabled''"
definition AnnotationRole :: string where "AnnotationRole = ''node-rotation.omni/role''"
definition AnnotationStrategy :: string where "AnnotationStrategy = ''node-rotation.omni/strategy''"
definition AnnotationMinHealthy :: string where "AnnotationMinHealthy = ''node-rotation.omni/min-healthy''"
definition AnnotationClassGeneration :: string where
  "AnnotationClassGeneration = ''node-rotation.omni/class-generation''"
definition AnnotationRotationState :: string where
  "AnnotationRotationState = ''node-rotation.omni/rotation-state''"
definition AnnotationSurgePhase :: string where "AnnotationSurgePhase = ''node-rotation.omni/surge-phase''"

lemmas annotation_keys = AnnotationEnabled_def AnnotationRole_def AnnotationStrategy_def
  AnnotationMinHealthy_def AnnotationClassGeneration_def AnnotationRotationState_def AnnotationSurgePhase_def

datatype role = ControlPlane | Worker
datatype strategy = Surge | InPlace

record rotation_config =
  rc_role :: role
  rc_strategy :: strategy
  rc_min_healthy :: int

definition DefaultMinHealthyControlPlane :: int where "DefaultMinHealthyControlPlane = 2"
definition DefaultMinHealthyWorker :: int where "DefaultMinHealthyWorker = 1"

definition IsRotationOptIn :: "annotations \<Rightarrow> bool" where
  "IsRotationOptIn a =
     (case a AnnotationEnabled of None \<Rightarrow> False | Some v \<Rightarrow> equal_fold (trim_space v) ''true'')"

text \<open>The errors of the parser: which annotation is missing, unknown, no number, negative, or refused.\<close>

datatype rotation_error = Required string | Unknown string | NotANumber string | Negative string | InPlaceControlPlane

definition parseRole :: "string \<Rightarrow> rotation_error + role" where
  "parseRole raw =
     (let s = trim_space (to_lower raw)
      in if s = [] then Inl (Required AnnotationRole)
         else if s = ''controlplane'' then Inr ControlPlane
         else if s = ''worker'' then Inr Worker
         else Inl (Unknown AnnotationRole))"

definition parseStrategy :: "string \<Rightarrow> rotation_error + strategy" where
  "parseStrategy raw =
     (let s = trim_space (to_lower raw)
      in if s = [] then Inl (Required AnnotationStrategy)
         else if s = ''surge'' then Inr Surge
         else if s = ''in-place'' then Inr InPlace
         else Inl (Unknown AnnotationStrategy))"

definition parseMinHealthy :: "annotations \<Rightarrow> role \<Rightarrow> rotation_error + int" where
  "parseMinHealthy a r =
     (case a AnnotationMinHealthy of
        None \<Rightarrow> Inr (case r of ControlPlane \<Rightarrow> DefaultMinHealthyControlPlane | Worker \<Rightarrow> DefaultMinHealthyWorker)
      | Some raw \<Rightarrow>
          (case parse_int64 (trim_space raw) of
             None \<Rightarrow> Inl (NotANumber AnnotationMinHealthy)
           | Some n \<Rightarrow> if n < 0 then Inl (Negative AnnotationMinHealthy) else Inr n))"

text \<open>\<open>Inr None\<close>: the class has not opted in.\<close>

definition ParseMachineClassRotationConfig :: "annotations \<Rightarrow> rotation_error + rotation_config option" where
  "ParseMachineClassRotationConfig a =
     (if \<not> IsRotationOptIn a then Inr None
      else case parseRole (annotation a AnnotationRole) of
        Inl e \<Rightarrow> Inl e
      | Inr role \<Rightarrow>
          (case parseStrategy (annotation a AnnotationStrategy) of
             Inl e \<Rightarrow> Inl e
           | Inr strategy \<Rightarrow>
               if role = ControlPlane \<and> strategy = InPlace then Inl InPlaceControlPlane
               else case parseMinHealthy a role of
                 Inl e \<Rightarrow> Inl e
               | Inr n \<Rightarrow> Inr (Some \<lparr>rc_role = role, rc_strategy = strategy, rc_min_healthy = n\<rparr>)))"

definition valid_rotation :: "rotation_config \<Rightarrow> bool" where
  "valid_rotation c \<longleftrightarrow> \<not> (rc_role c = ControlPlane \<and> rc_strategy c = InPlace) \<and> 0 \<le> rc_min_healthy c \<and> rc_min_healthy c < 2 ^ 63"

lemma parse_rotation_valid: "ParseMachineClassRotationConfig a = Inr (Some c) \<Longrightarrow> valid_rotation c \<and> IsRotationOptIn a"
  by (auto simp: ParseMachineClassRotationConfig_def valid_rotation_def parseMinHealthy_def
      DefaultMinHealthyControlPlane_def DefaultMinHealthyWorker_def
      dest!: parse_int64_range split: sum.splits option.splits if_splits role.splits)

section \<open>Generations\<close>

record generation_inputs =
  gi_provider_data :: string
  gi_kernel_args :: "string list"
  gi_meta_values :: "string list"
  gi_grpc_tunnel :: string

text \<open>
  The JSON document that is hashed; \<open>omitempty\<close> leaves empty slices and strings out. The
  SHA-256 of its text, cut to eight bytes and printed in hexadecimal, is the argument
  \<open>digest\<close>.
\<close>

definition generation_json :: "generation_inputs \<Rightarrow> json" where
  "generation_json g = JObj
     ((''provider_data'', JStr (gi_provider_data g)) #
      (if gi_kernel_args g = [] then [] else [(''kernel_args'', JArr (map JStr (gi_kernel_args g)))]) @
      (if gi_meta_values g = [] then [] else [(''meta_values'', JArr (map JStr (gi_meta_values g)))]) @
      (if gi_grpc_tunnel g = [] then [] else [(''grpc_tunnel'', JStr (gi_grpc_tunnel g))]))"

definition ComputeGeneration :: "(json \<Rightarrow> string) \<Rightarrow> generation_inputs \<Rightarrow> string" where
  "ComputeGeneration digest g = digest (generation_json g)"

definition metaValuesToStringSlice :: "(int \<times> string) list \<Rightarrow> string list" where
  "metaValuesToStringSlice values = sort (map (\<lambda>(k, v). format_int k @ ''='' @ v) values)"

text \<open>The fields of the auto-provision block of a class, and of a request, that are hashed.\<close>

record boot_spec =
  bs_provider_data :: string
  bs_grpc_tunnel :: string
  bs_kernel_args :: "string list"
  bs_meta_values :: "(int \<times> string) list"

definition MachineRequestGeneration :: "(json \<Rightarrow> string) \<Rightarrow> string \<Rightarrow> string \<Rightarrow> string list \<Rightarrow> string list \<Rightarrow> string" where
  "MachineRequestGeneration digest providerData grpcTunnel kernelArgs metaValues =
     ComputeGeneration digest
       \<lparr>gi_provider_data = providerData, gi_kernel_args = kernelArgs, gi_meta_values = metaValues,
        gi_grpc_tunnel = grpcTunnel\<rparr>"

definition MachineClassGeneration ::
  "(json \<Rightarrow> string) \<Rightarrow> bool \<Rightarrow> string \<Rightarrow> string \<Rightarrow> string list \<Rightarrow> string list \<Rightarrow> string" where
  "MachineClassGeneration digest autoProvisionPresent providerData grpcTunnel kernelArgs metaValues =
     (if \<not> autoProvisionPresent then []
      else ComputeGeneration digest
        \<lparr>gi_provider_data = providerData, gi_kernel_args = kernelArgs, gi_meta_values = metaValues,
         gi_grpc_tunnel = grpcTunnel\<rparr>)"

definition generationFromMachineClass :: "(json \<Rightarrow> string) \<Rightarrow> boot_spec option \<Rightarrow> string" where
  "generationFromMachineClass digest ap =
     (case ap of
        None \<Rightarrow> []
      | Some b \<Rightarrow> MachineClassGeneration digest True (bs_provider_data b) (bs_grpc_tunnel b) (bs_kernel_args b)
                    (metaValuesToStringSlice (bs_meta_values b)))"

definition generationFromMachineRequest :: "(json \<Rightarrow> string) \<Rightarrow> boot_spec \<Rightarrow> string" where
  "generationFromMachineRequest digest b =
     MachineRequestGeneration digest (bs_provider_data b) (bs_grpc_tunnel b) (bs_kernel_args b)
       (metaValuesToStringSlice (bs_meta_values b))"

definition boot_document :: "boot_spec \<Rightarrow> json" where
  "boot_document b = generation_json
     \<lparr>gi_provider_data = bs_provider_data b, gi_kernel_args = bs_kernel_args b,
      gi_meta_values = metaValuesToStringSlice (bs_meta_values b), gi_grpc_tunnel = bs_grpc_tunnel b\<rparr>"

lemma map_JStr [simp]: "map JStr xs = map JStr ys \<longleftrightarrow> xs = ys"
  by (simp add: inj_map_eq_map inj_def)

lemma generation_json_inj: "generation_json g = generation_json g' \<longleftrightarrow> g = g'"
  by (cases g; cases g') (auto simp: generation_json_def split: if_splits)

lemma sort_eq_iff: "sort xs = sort ys \<longleftrightarrow> mset xs = mset ys"
  by (metis mset_sort sorted_list_of_multiset_mset)

lemma show_nat_inj: "show_nat a = show_nat b \<longleftrightarrow> a = b"
  by (metis digits_val_show_nat option.inject)

lemma show_nat_not_minus: "CHR ''-'' # s \<noteq> show_nat n" "show_nat n \<noteq> CHR ''-'' # s"
  using show_nat_hd(1) [of n] by (metis list.sel(1))+

lemma format_int_inj: "format_int m = format_int n \<longleftrightarrow> m = n"
  by (auto simp: format_int_def show_nat_inj show_nat_not_minus)

text \<open>The text of a meta value can be read back: a number has no equals sign.\<close>

lemma format_int_no_equals: "CHR ''='' \<notin> set (format_int n)"
  using show_nat_not_char [of "CHR ''=''"] by (auto simp: format_int_def digit_val_def)

lemma meta_text_inj: "format_int k @ CHR ''='' # v = format_int k' @ CHR ''='' # v' \<longleftrightarrow> k = k' \<and> v = v'"
  using cut_char_append [OF format_int_no_equals, of k v] cut_char_append [OF format_int_no_equals, of k' v']
  by (metis format_int_inj option.inject prod.inject)

lemma meta_slice_eq:
  "metaValuesToStringSlice vs = metaValuesToStringSlice ws \<longleftrightarrow> mset vs = mset ws"
proof -
  let ?f = "\<lambda>(k, v). format_int k @ ''='' @ v"
  have "inj_on ?f A" for A by (rule inj_onI) (auto simp: meta_text_inj)
  then have "image_mset ?f (mset vs) = image_mset ?f (mset ws) \<longleftrightarrow> mset vs = mset ws"
    using image_mset_eq_plus_image_msetD [where f = ?f and A = "mset vs" and B = "{#}" and C = "mset ws"] by auto
  then show ?thesis by (simp add: metaValuesToStringSlice_def sort_eq_iff)
qed

text \<open>
  C30: a request counts as stale exactly when its provider data, kernel arguments or tunnel
  setting differ from those of its class, or its meta values differ as a multiset (their order
  does not matter), when the digest tells the two hashed documents apart.
\<close>

theorem generation_detects_changes:
  assumes "digest (boot_document b) = digest (boot_document b') \<Longrightarrow> boot_document b = boot_document b'"
  shows "generationFromMachineRequest digest b = generationFromMachineClass digest (Some b') \<longleftrightarrow>
    bs_provider_data b = bs_provider_data b' \<and> bs_kernel_args b = bs_kernel_args b' \<and>
    bs_grpc_tunnel b = bs_grpc_tunnel b' \<and> mset (bs_meta_values b) = mset (bs_meta_values b')"
proof -
  have "generationFromMachineRequest digest b = generationFromMachineClass digest (Some b') \<longleftrightarrow>
      boot_document b = boot_document b'"
    using assms by (auto simp: generationFromMachineRequest_def generationFromMachineClass_def
        MachineClassGeneration_def MachineRequestGeneration_def ComputeGeneration_def boot_document_def)
  then show ?thesis by (auto simp: boot_document_def generation_json_inj meta_slice_eq)
qed

definition big_class :: boot_spec where
  "big_class = \<lparr>bs_provider_data = ''cpu:4'', bs_grpc_tunnel = ''UNSET'', bs_kernel_args = [],
     bs_meta_values = [(10, ''a''), (12, ''b'')]\<rparr>"

text \<open>A digest for examples: the provider data itself.\<close>

definition example_digest :: "json \<Rightarrow> string" where
  "example_digest j = (case j of JObj ((k, JStr s) # fs) \<Rightarrow> s | _ \<Rightarrow> [])"

theorem generation_witness:
  "generationFromMachineRequest example_digest (big_class\<lparr>bs_meta_values := [(12, ''b''), (10, ''a'')]\<rparr>) =
     generationFromMachineClass example_digest (Some big_class)"
proof -
  have "mset [(12, ''b''), (10, ''a'')] = mset [(10 :: int, ''a''), (12, ''b'')]" by simp
  then have "metaValuesToStringSlice [(12, ''b''), (10, ''a'')] = metaValuesToStringSlice [(10, ''a''), (12, ''b'')]"
    by (simp only: meta_slice_eq)
  then show ?thesis
    using generation_detects_changes [of example_digest "big_class\<lparr>bs_meta_values := [(12, ''b''), (10, ''a'')]\<rparr>" big_class]
    by (simp add: big_class_def boot_document_def)
qed

end
