(* ===== verification/RotationState.thy ===== *)
theory RotationState
  imports RotationConfig
begin

text \<open>
  What one pass of the reconciler knows of a machine set and its requests, the two annotations
  that coordinate a rotation, and the order of the requests (internal/noderotation/discovery.go).
\<close>

section \<open>Resources and candidates\<close>

text \<open>
  A machine set: whether it has the control-plane label, the type of its allocation (static or
  not, read by the autoscaler only), and the allocation: the class and the machine count.
\<close>

record machine_set =
  st_id :: string
  st_annotations :: annotations
  st_control_plane :: bool
  st_static :: bool
  st_allocation :: "(string \<times> int) option"

record machine_class =
  kc_id :: string
  kc_annotations :: annotations
  kc_auto_provision :: "boot_spec option"

record infra_request =
  ir_id :: string
  ir_provider :: string
  ir_set :: string
  ir_created :: go_time
  ir_boot :: boot_spec

datatype stage = UNKNOWN | PROVISIONING | PROVISIONED | FAILED

record request_status =
  rs_request :: infra_request
  rs_generation :: string
  rs_stale :: bool
  rs_stage :: stage
  rs_created :: go_time

record candidate =
  cd_set :: machine_set
  cd_class :: machine_class
  cd_config :: rotation_config
  cd_generation :: string
  cd_count :: int
  cd_requests :: "request_status list"

definition FreshCount :: "candidate \<Rightarrow> int" where
  "FreshCount c = int (length (filter (\<lambda>r. \<not> rs_stale r \<and> rs_stage r = PROVISIONED) (cd_requests c)))"

definition StaleRequests :: "candidate \<Rightarrow> request_status list" where
  "StaleRequests c = filter rs_stale (cd_requests c)"

section \<open>The lock and the phase on a machine set\<close>

definition parseRotationStateAnnotation :: "string \<Rightarrow> (string \<times> go_time) option" where
  "parseRotationStateAnnotation raw =
     (case cut_char (CHR '':'') raw of
        None \<Rightarrow> None
      | Some (gen, rest) \<Rightarrow>
          (case parse_int64 rest of None \<Rightarrow> None | Some secs \<Rightarrow> Some (gen, time_unix secs)))"

definition formatRotationStateAnnotation :: "string \<times> go_time \<Rightarrow> string" where
  "formatRotationStateAnnotation gt = fst gt @ '':'' @ format_int (time_to_unix (snd gt))"

definition HasActiveLock :: "candidate \<Rightarrow> go_time \<Rightarrow> int \<Rightarrow> bool" where
  "HasActiveLock c now ttl =
     (case st_annotations (cd_set c) AnnotationRotationState of
        None \<Rightarrow> False
      | Some raw \<Rightarrow>
          (case parseRotationStateAnnotation raw of
             None \<Rightarrow> False
           | Some (gen, ts) \<Rightarrow> time_sub now ts < ttl))"

text \<open>The phase is a string type in the code.\<close>

definition SurgePhaseWaitUp :: string where "SurgePhaseWaitUp = ''wait-up''"
definition SurgePhaseWaitDown :: string where "SurgePhaseWaitDown = ''wait-down''"

record surge_phase_state =
  sp_phase :: string
  sp_original_count :: int
  sp_started_at :: go_time

definition surge_zero :: surge_phase_state where
  "surge_zero = \<lparr>sp_phase = [], sp_original_count = 0, sp_started_at = time_zero\<rparr>"

definition parseSurgePhaseAnnotation :: "string \<Rightarrow> surge_phase_state option" where
  "parseSurgePhaseAnnotation raw =
     (case splitn 3 (CHR '':'') raw of
        [phase, num, ts] \<Rightarrow>
          if phase = SurgePhaseWaitUp \<or> phase = SurgePhaseWaitDown then
            (case parse_int64 num of
               None \<Rightarrow> None
             | Some origCount \<Rightarrow>
                 if origCount < 0 then None
                 else case parse_int64 ts of
                   None \<Rightarrow> None
                 | Some secs \<Rightarrow>
                     Some \<lparr>sp_phase = phase, sp_original_count = origCount, sp_started_at = time_unix secs\<rparr>)
          else None
      | _ \<Rightarrow> None)"

definition formatSurgePhaseAnnotation :: "surge_phase_state \<Rightarrow> string" where
  "formatSurgePhaseAnnotation s =
     sp_phase s @ '':'' @ format_int (sp_original_count s) @ '':'' @ format_int (time_to_unix (sp_started_at s))"

definition SurgePhase :: "candidate \<Rightarrow> surge_phase_state option" where
  "SurgePhase c =
     (case st_annotations (cd_set c) AnnotationSurgePhase of
        None \<Rightarrow> None
      | Some raw \<Rightarrow> parseSurgePhaseAnnotation raw)"

text \<open>The times the annotations keep exactly: whole seconds of the \<open>int64\<close> range of Unix time.\<close>

definition whole_second :: "go_time \<Rightarrow> bool" where
  "whole_second t \<longleftrightarrow> t_ns t = 0 \<and> - (2 ^ 63) \<le> t_sec t \<and> t_sec t < 2 ^ 63"

lemma whole_second_roundtrip: "whole_second t \<Longrightarrow> time_unix (time_to_unix t) = t"
  by (simp add: time_unix_to_unix whole_second_def i64_id)

lemma unix_int64: "int64_value (time_to_unix t)"
  using i64_range by (simp add: int64_value_def time_to_unix_def)

interpretation rotation_state_codec: codec formatRotationStateAnnotation parseRotationStateAnnotation
  "\<lambda>(gen, t). CHR '':'' \<notin> set gen \<and> whole_second t"
proof
  fix x :: "string \<times> go_time"
  assume "case x of (gen, t) \<Rightarrow> CHR '':'' \<notin> set gen \<and> whole_second t"
  moreover obtain gen t where "x = (gen, t)" by (cases x)
  ultimately show "parseRotationStateAnnotation (formatRotationStateAnnotation x) = Some x"
    by (simp add: parseRotationStateAnnotation_def formatRotationStateAnnotation_def
        int64_codec.decode_encode [OF unix_int64] whole_second_roundtrip)
qed

definition valid_surge :: "surge_phase_state \<Rightarrow> bool" where
  "valid_surge s \<longleftrightarrow> sp_phase s \<in> {SurgePhaseWaitUp, SurgePhaseWaitDown} \<and>
     0 \<le> sp_original_count s \<and> sp_original_count s < 2 ^ 63 \<and> whole_second (sp_started_at s)"

lemma splitn3:
  assumes "c \<notin> set a" and "c \<notin> set b"
  shows "splitn 3 c (a @ c # b @ c # d) = [a, b, d]"
  using assms by (simp add: numeral_3_eq_3)

interpretation surge_phase_codec: codec formatSurgePhaseAnnotation parseSurgePhaseAnnotation valid_surge
proof
  fix s
  assume v: "valid_surge s"
  then have "CHR '':'' \<notin> set (sp_phase s)" by (auto simp: valid_surge_def SurgePhaseWaitUp_def SurgePhaseWaitDown_def)
  then have "splitn 3 (CHR '':'') (formatSurgePhaseAnnotation s) =
      [sp_phase s, format_int (sp_original_count s), format_int (time_to_unix (sp_started_at s))]"
    using splitn3 [OF _ format_int_no_colon] by (simp add: formatSurgePhaseAnnotation_def)
  moreover have "int64_value (sp_original_count s)" using v by (simp add: valid_surge_def int64_value_def)
  ultimately show "parseSurgePhaseAnnotation (formatSurgePhaseAnnotation s) = Some s"
    using v by (auto simp: parseSurgePhaseAnnotation_def valid_surge_def int64_codec.decode_encode
        int64_codec.decode_encode [OF unix_int64] whole_second_roundtrip)
qed


section \<open>The order of the requests\<close>

definition request_le :: "request_status \<Rightarrow> request_status \<Rightarrow> bool" where
  "request_le a b \<longleftrightarrow>
     time_before (rs_created a) (rs_created b) \<or>
     (time_equal (rs_created a) (rs_created b) \<and> ir_id (rs_request a) \<le> ir_id (rs_request b))"

text \<open>The inner loop: the element at \<open>j\<close> moves left by swaps until it is in place.\<close>

fun sink :: "request_status list \<Rightarrow> nat \<Rightarrow> request_status list" where
  "sink xs 0 = xs"
| "sink xs (Suc j) =
     (if request_le (xs ! j) (xs ! Suc j) then xs
      else sink (xs[j := xs ! Suc j, Suc j := xs ! j]) j)"

definition sortRequestsByCreatedAt :: "request_status list \<Rightarrow> request_status list" where
  "sortRequestsByCreatedAt reqs = fold (\<lambda>i ys. sink ys i) [1..<length reqs] reqs"

text \<open>
  The loop is an insertion sort. \<open>place x ys\<close> puts \<open>x\<close> into a sorted list that is read
  from its end.
\<close>

fun place :: "request_status \<Rightarrow> request_status list \<Rightarrow> request_status list" where
  "place x [] = [x]"
| "place x (y # ys) = (if request_le y x then x # y # ys else y # place x ys)"

lemma sink_place: "sink (rev ys @ x # zs) (length ys) = rev (place x ys) @ zs"
proof (induction ys arbitrary: zs)
  case (Cons y ys)
  have a: "(rev ys @ y # x # zs) ! length ys = y" "(rev ys @ y # x # zs) ! Suc (length ys) = x"
    by (simp_all add: nth_append)
  have "(rev ys @ y # x # zs)[length ys := x, Suc (length ys) := y] = rev ys @ x # y # zs"
    by (simp add: list_update_append)
  with a Cons.IH [of "y # zs"] show ?case by simp
qed simp

lemma sort_place:
  "fold (\<lambda>i ys. sink ys i) [length ys..<length ys + length zs] (rev ys @ zs) = rev (fold place zs ys)"
proof (induction zs arbitrary: ys)
  case (Cons z zs)
  have len: "length (place z ys) = Suc (length ys)" by (induction ys) auto
  have "[length ys..<length ys + length (z # zs)] = length ys # [Suc (length ys)..<Suc (length ys) + length zs]"
    by (subst upt_conv_Cons) simp_all
  with Cons.IH [of "place z ys"] len show ?case by (simp add: sink_place)
qed simp

lemma sortRequests_place: "sortRequestsByCreatedAt reqs = rev (fold place reqs [])"
proof (cases reqs)
  case (Cons r rs)
  with sort_place [of "[r]" rs] show ?thesis by (simp add: sortRequestsByCreatedAt_def)
qed (simp add: sortRequestsByCreatedAt_def)

lemma request_le_total: "request_le a b \<or> request_le b a"
  by (auto simp: request_le_def time_before_def time_equal_def)

lemma request_le_trans: "request_le a b \<Longrightarrow> request_le b c \<Longrightarrow> request_le a c"
  by (auto simp: request_le_def time_before_def time_equal_def)

lemma mset_place: "mset (place x ys) = add_mset x (mset ys)"
  by (induction ys) auto

lemma sorted_place:
  "sorted_wrt (\<lambda>a b. request_le b a) ys \<Longrightarrow> sorted_wrt (\<lambda>a b. request_le b a) (place x ys)"
proof (induction ys)
  case (Cons y ys)
  have "set (place x ys) = insert x (set ys)" by (metis mset_place set_mset_add_mset_insert set_mset_mset)
  with Cons request_le_total [of x y] show ?case by (auto intro: request_le_trans)
qed simp

lemma sorted_fold_place:
  "sorted_wrt (\<lambda>a b. request_le b a) ys \<Longrightarrow> sorted_wrt (\<lambda>a b. request_le b a) (fold place zs ys)"
  by (induction zs arbitrary: ys) (auto intro: sorted_place)

lemma mset_fold_place: "mset (fold place zs ys) = mset zs + mset ys"
  by (induction zs arbitrary: ys) (auto simp: mset_place)

lemma sortRequests_sorted: "sorted_wrt request_le (sortRequestsByCreatedAt reqs)"
  using sorted_fold_place [of "[]" reqs] by (simp add: sortRequests_place sorted_wrt_rev)

lemma sortRequests_mset: "mset (sortRequestsByCreatedAt reqs) = mset reqs"
  by (simp add: sortRequests_place mset_fold_place)

lemma sortRequests_set [simp]: "set (sortRequestsByCreatedAt reqs) = set reqs"
  by (metis sortRequests_mset set_mset_mset)

text \<open>Two sorted lists of the same elements are equal when the order identifies no two of them.\<close>

lemma sorted_unique:
  assumes "sorted_wrt request_le xs" and "sorted_wrt request_le ys" and "mset xs = mset ys"
    and "\<And>a b. a \<in> set xs \<Longrightarrow> b \<in> set xs \<Longrightarrow> ir_id (rs_request a) = ir_id (rs_request b) \<Longrightarrow> a = b"
  shows "xs = ys"
  using assms
proof (induction xs arbitrary: ys)
  case (Cons x xs)
  from Cons.prems(3) obtain y zs where ys: "ys = y # zs" by (cases ys) auto
  have xy: "x \<in> set ys" "y \<in> set (x # xs)"
    using Cons.prems(3) ys by (metis list.set_intros(1) set_mset_mset)+
  have "request_le x y" using Cons.prems(1) xy(2) request_le_total [of x x] by auto
  moreover have "request_le y x" using Cons.prems(2) xy(1) ys request_le_total [of y y] by auto
  ultimately have "ir_id (rs_request x) = ir_id (rs_request y)"
    by (auto simp: request_le_def time_before_def time_equal_def)
  with Cons.prems(4) xy(2) have "x = y" by simp
  with Cons.prems ys Cons.IH [of zs] show ?case by auto
qed simp

text \<open>
  The requests are sorted oldest first, ties by id, none lost, added or changed, and the
  result does not depend on the order of the listing: two listings of the same requests give
  the same first victim.
\<close>

theorem sortRequests_deterministic:
  assumes "mset reqs = mset reqs'" and "distinct (map (\<lambda>r. ir_id (rs_request r)) reqs)"
  shows "sorted_wrt request_le (sortRequestsByCreatedAt reqs) \<and> mset (sortRequestsByCreatedAt reqs) = mset reqs \<and>
    sortRequestsByCreatedAt reqs = sortRequestsByCreatedAt reqs'"
proof -
  have "a = b" if "a \<in> set reqs" "b \<in> set reqs" "ir_id (rs_request a) = ir_id (rs_request b)" for a b
    using assms(2) that by (auto simp: distinct_map inj_on_def)
  then have "sortRequestsByCreatedAt reqs = sortRequestsByCreatedAt reqs'"
    using sorted_unique [OF sortRequests_sorted sortRequests_sorted, of reqs reqs'] assms(1)
    by (simp add: sortRequests_mset)
  with sortRequests_sorted sortRequests_mset show ?thesis by blast
qed


definition request_at :: "string \<Rightarrow> int \<Rightarrow> request_status" where
  "request_at i t = \<lparr>rs_request = \<lparr>ir_id = i, ir_provider = [], ir_set = [], ir_created = time_unix t, ir_boot = big_class\<rparr>,
     rs_generation = [], rs_stale = True, rs_stage = PROVISIONED, rs_created = time_unix t\<rparr>"

theorem sortRequests_witness:
  "sortRequestsByCreatedAt [request_at ''b'' 5, request_at ''a'' 9, request_at ''c'' 5] =
   sortRequestsByCreatedAt [request_at ''c'' 5, request_at ''b'' 5, request_at ''a'' 9]"
  using sortRequests_deterministic
    [of "[request_at ''b'' 5, request_at ''a'' 9, request_at ''c'' 5]"
      "[request_at ''c'' 5, request_at ''b'' 5, request_at ''a'' 9]"]
  by (simp add: request_at_def)

text \<open>
  Both annotations survive their round trip through the machine set: a phase written with a
  valid step, count and whole-second start is read back as it was, next to any other annotation,
  and a lock written for a generation without a colon is read as held exactly until its time to
  live has passed, whatever the phase annotation says.
\<close>

theorem annotations_roundtrip:
  fixes c :: candidate and A :: annotations
  assumes "valid_surge s" and "CHR '':'' \<notin> set gen" and "whole_second t"
    and "st_annotations (cd_set c) = A(AnnotationRotationState \<mapsto> formatRotationStateAnnotation (gen, t),
      AnnotationSurgePhase \<mapsto> formatSurgePhaseAnnotation s)"
  shows "SurgePhase c = Some s \<and> HasActiveLock c now ttl = (time_sub now t < ttl) \<and>
    (formatSurgePhaseAnnotation s = formatSurgePhaseAnnotation s' \<longrightarrow> valid_surge s' \<longrightarrow> s' = s)"
proof -
  have "AnnotationRotationState \<noteq> AnnotationSurgePhase"
    by (simp add: AnnotationRotationState_def AnnotationSurgePhase_def)
  moreover have "parseRotationStateAnnotation (formatRotationStateAnnotation (gen, t)) = Some (gen, t)"
    using assms(2,3) by (intro rotation_state_codec.decode_encode) simp
  moreover have "parseSurgePhaseAnnotation (formatSurgePhaseAnnotation r) = Some r" if "valid_surge r" for r
    by (rule surge_phase_codec.decode_encode [OF that])
  ultimately show ?thesis
    using assms(1,4) by (auto simp: SurgePhase_def HasActiveLock_def) (metis option.inject)
qed

theorem annotations_roundtrip_witness:
  "SurgePhase \<lparr>cd_set = \<lparr>st_id = ''workers'',
       st_annotations = Map.empty(AnnotationRotationState \<mapsto> formatRotationStateAnnotation (''g1'', time_zero),
         AnnotationSurgePhase \<mapsto> formatSurgePhaseAnnotation
           \<lparr>sp_phase = SurgePhaseWaitDown, sp_original_count = 3, sp_started_at = time_unix 60\<rparr>),
       st_control_plane = False, st_static = True, st_allocation = None\<rparr>,
     cd_class = \<lparr>kc_id = ''class'', kc_annotations = Map.empty, kc_auto_provision = None\<rparr>,
     cd_config = \<lparr>rc_role = Worker, rc_strategy = Surge, rc_min_healthy = 1\<rparr>, cd_generation = ''g1'', cd_count = 3, cd_requests = []\<rparr> =
   Some \<lparr>sp_phase = SurgePhaseWaitDown, sp_original_count = 3, sp_started_at = time_unix 60\<rparr>"
proof -
  let ?s = "\<lparr>sp_phase = SurgePhaseWaitDown, sp_original_count = 3, sp_started_at = time_unix 60\<rparr>"
  have s: "valid_surge ?s" using i64_range by (simp add: valid_surge_def whole_second_def time_unix_def)
  have g: "CHR '':'' \<notin> set ''g1''" and t: "whole_second time_zero"
    by (simp_all add: whole_second_def time_zero_def)
  show ?thesis
    by (rule annotations_roundtrip [OF s g t, THEN conjunct1]) simp
qed

end
