(* ===== verification/RotationPlan.thy ===== *)
theory RotationPlan
  imports RotationState
begin

text \<open>
  The decisions of the node-rotation engine (internal/noderotation/actions.go) and the planner
  that makes one from a candidate and the clock (plan.go).
\<close>

section \<open>Decisions (actions.go)\<close>

datatype action =
    ActionNone | ActionLockedByPriorStep | ActionWaitingForReady | ActionWaitingForTeardown
  | ActionMinHealthyFloor | ActionTeardownStale | ActionSurgeUp | ActionSurgeDown
  | ActionSurgeCycleComplete | ActionSurgeAborted | ActionStampGeneration | ActionRefreshLock

datatype abort_kind = AbortKindNone | AbortKindCountDriftWaitUp | AbortKindCountDriftWaitDown | AbortKindUnknownPhase

record decision =
  de_candidate :: "candidate option"
  de_action :: action
  de_target :: string
  de_previous :: string
  de_abort :: abort_kind
  de_live :: int
  de_expected :: int
  de_next :: surge_phase_state
  de_clear :: bool

definition decision_zero :: decision where
  "decision_zero = \<lparr>de_candidate = None, de_action = ActionNone, de_target = [], de_previous = [],
     de_abort = AbortKindNone, de_live = 0, de_expected = 0, de_next = surge_zero, de_clear = False\<rparr>"

section \<open>Planning (plan.go)\<close>

definition hasInFlightProvisioning :: "request_status list \<Rightarrow> bool" where
  "hasInFlightProvisioning reqs = list_ex (\<lambda>r. rs_stage r = PROVISIONING) reqs"

definition countStaleProvisioned :: "request_status list \<Rightarrow> int" where
  "countStaleProvisioned stale = int (length (filter (\<lambda>r. rs_stage r = PROVISIONED) stale))"

definition request_id :: "request_status \<Rightarrow> string" where
  "request_id r = ir_id (rs_request r)"

definition planInPlace :: "candidate \<Rightarrow> request_status list \<Rightarrow> decision \<Rightarrow> decision" where
  "planInPlace c stale d =
     (case stale of
        [] \<Rightarrow> d\<lparr>de_action := ActionNone\<rparr>
      | victim # rest \<Rightarrow>
          if hasInFlightProvisioning (cd_requests c) then d\<lparr>de_action := ActionWaitingForReady\<rparr>
          else let freshProvisioned = FreshCount c;
                   healthyAfter = (if rs_stage victim = PROVISIONED then freshProvisioned + 1 - 1 else freshProvisioned)
               in if healthyAfter < rc_min_healthy (cd_config c) then d\<lparr>de_action := ActionMinHealthyFloor\<rparr>
                  else d\<lparr>de_action := ActionTeardownStale, de_target := request_id victim\<rparr>)"

definition plan_idle :: "candidate \<Rightarrow> request_status list \<Rightarrow> decision \<Rightarrow> go_time \<Rightarrow> decision" where
  "plan_idle c stale d now =
     (if stale = [] then d\<lparr>de_action := ActionNone\<rparr>
      else if FreshCount c + countStaleProvisioned stale < rc_min_healthy (cd_config c)
      then d\<lparr>de_action := ActionMinHealthyFloor\<rparr>
      else d\<lparr>de_action := ActionSurgeUp,
             de_next := \<lparr>sp_phase = SurgePhaseWaitUp, sp_original_count = cd_count c, sp_started_at = now\<rparr>\<rparr>)"

definition plan_wait_up :: "candidate \<Rightarrow> request_status list \<Rightarrow> decision \<Rightarrow> surge_phase_state \<Rightarrow> decision" where
  "plan_wait_up c stale d phase =
     (let expected = i64 (sp_original_count phase + 1)
      in if cd_count c \<noteq> expected
         then d\<lparr>de_action := ActionSurgeAborted, de_abort := AbortKindCountDriftWaitUp, de_live := cd_count c,
                de_expected := expected\<rparr>
         else let wanted = i64 (i64 (sp_original_count phase - int (length stale)) + 1);
                  expectedFresh = (if wanted < 1 then 1 else wanted)
              in if FreshCount c < expectedFresh then d\<lparr>de_action := ActionWaitingForReady\<rparr>
                 else d\<lparr>de_action := ActionSurgeDown, de_next := phase\<lparr>sp_phase := SurgePhaseWaitDown\<rparr>\<rparr>)"

definition plan_wait_down :: "candidate \<Rightarrow> decision \<Rightarrow> surge_phase_state \<Rightarrow> decision" where
  "plan_wait_down c d phase =
     (if cd_count c \<noteq> sp_original_count phase
      then d\<lparr>de_action := ActionSurgeAborted, de_abort := AbortKindCountDriftWaitDown, de_live := cd_count c,
             de_expected := sp_original_count phase\<rparr>
      else if sp_original_count phase < int (length (cd_requests c))
      then d\<lparr>de_action := ActionWaitingForTeardown\<rparr>
      else d\<lparr>de_action := ActionSurgeCycleComplete, de_clear := True\<rparr>)"

definition planSurge :: "candidate \<Rightarrow> request_status list \<Rightarrow> decision \<Rightarrow> go_time \<Rightarrow> decision" where
  "planSurge c stale d now =
     (case SurgePhase c of
        None \<Rightarrow> plan_idle c stale d now
      | Some phase \<Rightarrow>
          if sp_phase phase = SurgePhaseWaitUp then plan_wait_up c stale d phase
          else if sp_phase phase = SurgePhaseWaitDown then plan_wait_down c d phase
          else d\<lparr>de_action := ActionSurgeAborted, de_abort := AbortKindUnknownPhase\<rparr>)"

definition Plan :: "int \<Rightarrow> go_time \<Rightarrow> candidate \<Rightarrow> decision" where
  "Plan lockTTL now c =
     (let d = decision_zero\<lparr>de_candidate := Some c\<rparr>;
          existing = annotation (kc_annotations (cd_class c)) AnnotationClassGeneration
      in if existing \<noteq> cd_generation c
         then d\<lparr>de_action := ActionStampGeneration, de_previous := existing\<rparr>
         else if HasActiveLock c now lockTTL \<and> SurgePhase c = None
         then d\<lparr>de_action := ActionLockedByPriorStep\<rparr>
         else case rc_strategy (cd_config c) of
                InPlace \<Rightarrow> planInPlace c (StaleRequests c) d
              | Surge \<Rightarrow> planSurge c (StaleRequests c) d now)"

lemmas plan_defs = Plan_def planInPlace_def planSurge_def plan_idle_def plan_wait_up_def plan_wait_down_def
  decision_zero_def Let_def

section \<open>What the planner may decide\<close>

definition healthy :: "request_status list \<Rightarrow> int" where
  "healthy rs = int (length (filter (\<lambda>r. rs_stage r = PROVISIONED) rs))"

lemma healthy_split: "healthy (cd_requests c) = FreshCount c + countStaleProvisioned (StaleRequests c)"
proof -
  have "length (filter P xs) = length (filter (\<lambda>r. \<not> Q r \<and> P r) xs) + length (filter P (filter Q xs))" for P Q :: "request_status \<Rightarrow> bool" and xs
    by (induction xs) auto
  from this [of "\<lambda>r. rs_stage r = PROVISIONED" "cd_requests c" rs_stale] show ?thesis
    by (simp add: healthy_def FreshCount_def countStaleProvisioned_def StaleRequests_def)
qed

lemma healthy_without_stale:
  assumes "v \<in> set (StaleRequests c)"
  shows "FreshCount c \<le> healthy (filter (\<lambda>r. r \<noteq> v) (cd_requests c))"
proof -
  have "filter (\<lambda>r. \<not> rs_stale r \<and> rs_stage r = PROVISIONED) (cd_requests c) =
      filter (\<lambda>r. \<not> rs_stale r \<and> rs_stage r = PROVISIONED) (filter (\<lambda>r. r \<noteq> v) (cd_requests c))"
    using assms by (auto simp: StaleRequests_def intro!: filter_cong)
  also have "length \<dots> \<le> length (filter (\<lambda>r. rs_stage r = PROVISIONED) (filter (\<lambda>r. r \<noteq> v) (cd_requests c)))"
  proof -
    have "length (filter (\<lambda>r. \<not> P r \<and> Q r) xs) \<le> length (filter Q xs)" for P Q :: "request_status \<Rightarrow> bool" and xs
      by (induction xs) auto
    then show ?thesis .
  qed
  finally show ?thesis by (simp add: FreshCount_def healthy_def)
qed



definition stamped :: "candidate \<Rightarrow> bool" where
  "stamped c \<longleftrightarrow> annotation (kc_annotations (cd_class c)) AnnotationClassGeneration = cd_generation c"

text \<open>A set of workers \<open>workers\<close> with the given strategy, annotations, count and requests.\<close>

definition example_candidate :: "strategy \<Rightarrow> annotations \<Rightarrow> int \<Rightarrow> request_status list \<Rightarrow> candidate" where
  "example_candidate s a n rs =
     \<lparr>cd_set = \<lparr>st_id = ''ms'', st_annotations = a, st_control_plane = False, st_static = True, st_allocation = Some (''workers'', n)\<rparr>,
      cd_class = \<lparr>kc_id = ''workers'', kc_annotations = [AnnotationClassGeneration \<mapsto> ''g2''],
                  kc_auto_provision = Some big_class\<rparr>,
      cd_config = \<lparr>rc_role = Worker, rc_strategy = s, rc_min_healthy = DefaultMinHealthyWorker\<rparr>,
      cd_generation = ''g2'', cd_count = n, cd_requests = rs\<rparr>"

abbreviation stale_at :: "string \<Rightarrow> int \<Rightarrow> request_status" where
  "stale_at i t \<equiv> request_at i t"

definition fresh_at :: "string \<Rightarrow> int \<Rightarrow> request_status" where
  "fresh_at i t = (request_at i t)\<lparr>rs_generation := ''g2'', rs_stale := False\<rparr>"


text \<open>
  An in-place rotation of a set in which every machine is stale, as after every edit of a
  class, never starts when the floor is at least one (the default), however many healthy
  machines the set has: the floor is compared with the number of fresh machines alone.
\<close>

theorem all_stale_never_rotates:
  assumes "rc_strategy (cd_config c) = InPlace" and "stamped c" and "\<not> HasActiveLock c now ttl"
    and "cd_requests c \<noteq> []" and "\<And>r. r \<in> set (cd_requests c) \<Longrightarrow> rs_stale r \<and> rs_stage r = PROVISIONED"
    and "1 \<le> rc_min_healthy (cd_config c)"
  shows "de_action (Plan ttl now c) = ActionMinHealthyFloor"
proof -
  have stale: "StaleRequests c = cd_requests c" using assms(5) by (simp add: StaleRequests_def)
  have fresh: "FreshCount c = 0" using assms(5) by (auto simp: FreshCount_def filter_empty_conv)
  have "\<not> hasInFlightProvisioning (cd_requests c)" using assms(5) by (auto simp: hasInFlightProvisioning_def list_ex_iff)
  with assms stale fresh show ?thesis
    by (cases "cd_requests c") (auto simp: plan_defs stamped_def)
qed

theorem all_stale_witness:
  "de_action (Plan 300 time_zero
     (example_candidate InPlace Map.empty 3 [stale_at ''a'' 1, stale_at ''b'' 2, stale_at ''c'' 3])) = ActionMinHealthyFloor"
  by (rule all_stale_never_rotates)
    (auto simp: example_candidate_def stamped_def annotation_def HasActiveLock_def request_at_def DefaultMinHealthyWorker_def)

lemma all_when_filter_full: "length xs \<le> length (filter P xs) \<Longrightarrow> \<forall>x \<in> set xs. P x"
  using length_filter_less [of _ xs P] by (auto simp: not_less [symmetric])

text \<open>
  The count is dropped in a surge only while it is still one above the original count, with
  at least one fresh machine, and, unless there are more requests than the count, only when
  every fresh machine is provisioned.
\<close>

theorem surge_down_ready:
  assumes "de_action (Plan ttl now c) = ActionSurgeDown" and "SurgePhase c = Some phase"
    and "0 \<le> sp_original_count phase" and "sp_original_count phase < 2 ^ 63 - 1"
    and "int (length (cd_requests c)) \<le> cd_count c"
  shows "cd_count c = sp_original_count phase + 1 \<and> 1 \<le> FreshCount c \<and>
    (\<forall>r \<in> set (cd_requests c). \<not> rs_stale r \<longrightarrow> rs_stage r = PROVISIONED)"
proof -
  let ?n = "sp_original_count phase" and ?s = "int (length (StaleRequests c))" and ?l = "int (length (cd_requests c))"
  have split: "length xs = length (filter rs_stale xs) + length (filter (\<lambda>r. \<not> rs_stale r) xs)" for xs
    by (simp add: sum_length_filter_compl)
  have i: "i64 (?n + 1) = ?n + 1" using assms(3,4) by (simp add: i64_id)
  from assms(1,2) have count: "cd_count c = ?n + 1"
    and wanted: "(if i64 (i64 (?n - ?s) + 1) < 1 then 1 else i64 (i64 (?n - ?s) + 1)) \<le> FreshCount c"
    by (auto simp: plan_defs i split: if_splits strategy.splits list.splits)
  have s: "0 \<le> ?s" "?s \<le> ?l" by (simp_all add: StaleRequests_def)
  then have b: "i64 (?n - ?s) = ?n - ?s" using assms(3-5) count by (intro i64_id) auto
  then have "i64 (i64 (?n - ?s) + 1) = ?n - ?s + 1" using s assms(3-5) count by (simp add: i64_id)
  with wanted have fresh: "1 \<le> FreshCount c" "?n - ?s + 1 \<le> FreshCount c" by (auto split: if_splits)
  have "length (filter (\<lambda>r. \<not> rs_stale r) (cd_requests c)) \<le> length (filter (\<lambda>r. \<not> rs_stale r \<and> rs_stage r = PROVISIONED) (cd_requests c))"
    using fresh(2) assms(5) count split [of "cd_requests c"] by (simp add: FreshCount_def StaleRequests_def)
  also have "filter (\<lambda>r. \<not> rs_stale r \<and> rs_stage r = PROVISIONED) (cd_requests c) =
      filter (\<lambda>r. rs_stage r = PROVISIONED) (filter (\<lambda>r. \<not> rs_stale r) (cd_requests c))" by (simp add: conj_commute)
  finally have "\<forall>r \<in> set (filter (\<lambda>r. \<not> rs_stale r) (cd_requests c)). rs_stage r = PROVISIONED"
    by (rule all_when_filter_full)
  with count fresh(1) show ?thesis by simp
qed

definition waiting_up :: surge_phase_state where
  "waiting_up = \<lparr>sp_phase = SurgePhaseWaitUp, sp_original_count = 2, sp_started_at = time_unix 100\<rparr>"

definition in_phase :: "surge_phase_state \<Rightarrow> annotations" where
  "in_phase s = [AnnotationSurgePhase \<mapsto> formatSurgePhaseAnnotation s]"

lemma SurgePhase_in_phase: "SurgePhase (example_candidate s (in_phase waiting_up) n rs) = Some waiting_up"
proof -
  have "valid_surge waiting_up"
    by (simp add: valid_surge_def waiting_up_def whole_second_def time_unix_def i64_def unix_to_internal_def)
  then show ?thesis by (simp add: SurgePhase_def example_candidate_def in_phase_def surge_phase_codec.decode_encode)
qed

lemma example_selectors:
  "cd_count (example_candidate s a n rs) = n" "cd_requests (example_candidate s a n rs) = rs"
  "rc_strategy (cd_config (example_candidate s a n rs)) = s" "stamped (example_candidate s a n rs)"
  by (simp_all add: example_candidate_def stamped_def annotation_def)

theorem surge_down_witness:
  "1 \<le> FreshCount (example_candidate Surge (in_phase waiting_up) 3 [stale_at ''a'' 1, stale_at ''b'' 2, fresh_at ''c'' 3])"
proof -
  let ?c = "example_candidate Surge (in_phase waiting_up) 3 [stale_at ''a'' 1, stale_at ''b'' 2, fresh_at ''c'' 3]"
  have fresh: "FreshCount ?c = 1" "length (StaleRequests ?c) = 2"
    by (simp_all add: FreshCount_def StaleRequests_def example_selectors request_at_def fresh_at_def)
  have "de_action (Plan 300 time_zero ?c) = de_action (plan_wait_up ?c (StaleRequests ?c) (decision_zero\<lparr>de_candidate := Some ?c\<rparr>) waiting_up)"
    using example_selectors(4) [of Surge "in_phase waiting_up"]
    by (simp add: Plan_def planSurge_def SurgePhase_in_phase example_selectors stamped_def Let_def)
      (simp add: waiting_up_def)
  also have "\<dots> = ActionSurgeDown"
    using fresh by (simp add: plan_wait_up_def example_selectors waiting_up_def i64_def Let_def)
  finally have "de_action (Plan 300 time_zero ?c) = ActionSurgeDown" .
  from surge_down_ready [OF this SurgePhase_in_phase] show ?thesis
    by (simp add: example_selectors waiting_up_def)
qed

text \<open>
  A surge cycle in which the class is edited again while the replacement is coming up waits
  for ever: all machines are stale, none is fresh, so every pass waits, at any time, and no pass
  aborts the cycle or starts another.
\<close>

theorem edited_surge_waits_forever:
  assumes "rc_strategy (cd_config c) = Surge" and "stamped c" and "SurgePhase c = Some phase"
    and "sp_phase phase = SurgePhaseWaitUp" and "cd_count c = i64 (sp_original_count phase + 1)" and "FreshCount c = 0"
  shows "de_action (Plan ttl now c) = ActionWaitingForReady"
  using assms by (auto simp: plan_defs stamped_def)

theorem edited_surge_witness:
  "de_action (Plan 300 time_zero (example_candidate Surge (in_phase waiting_up) 3
     [stale_at ''a'' 1, stale_at ''b'' 2, stale_at ''c'' 3])) = ActionWaitingForReady"
  by (rule edited_surge_waits_forever [OF _ _ SurgePhase_in_phase])
    (simp_all add: example_candidate_def waiting_up_def stamped_def annotation_def i64_def FreshCount_def request_at_def)

section \<open>Progress\<close>

text \<open>
  A round of an in-place rotation: the pass destroys what the planner decides, and the controller
  of the machine request set, which is not part of this repository, replaces it; \<open>new\<close> is the
  replacement, seen at the next discovery.
\<close>

definition in_place_round :: "int \<Rightarrow> go_time \<Rightarrow> request_status \<Rightarrow> candidate \<Rightarrow> candidate" where
  "in_place_round ttl now new c =
     (if de_action (Plan ttl now c) = ActionTeardownStale
      then c\<lparr>cd_requests := sortRequestsByCreatedAt
             (filter (\<lambda>r. request_id r \<noteq> de_target (Plan ttl now c)) (cd_requests c) @ [new])\<rparr>
      else c)"

text \<open>A set between rounds: everything provisioned, enough of it fresh, no lock, the generation stamped.\<close>

definition settled :: "int \<Rightarrow> go_time \<Rightarrow> candidate \<Rightarrow> bool" where
  "settled ttl now c \<longleftrightarrow> rc_strategy (cd_config c) = InPlace \<and> stamped c \<and> \<not> HasActiveLock c now ttl \<and>
     (\<forall>r \<in> set (cd_requests c). rs_stage r = PROVISIONED) \<and> distinct (map request_id (cd_requests c)) \<and>
     rc_min_healthy (cd_config c) \<le> FreshCount c"

lemma settled_victim:
  assumes "settled ttl now c" and "StaleRequests c = v # rest"
  shows "de_action (Plan ttl now c) = ActionTeardownStale \<and> de_target (Plan ttl now c) = request_id v"
  using assms by (auto simp: settled_def stamped_def plan_defs hasInFlightProvisioning_def list_ex_iff)

lemma filter_id_remove:
  "distinct (map f xs) \<Longrightarrow> v \<in> set xs \<Longrightarrow> mset (filter (\<lambda>r. f r \<noteq> f v) xs) = mset xs - {#v#}"
proof (induction xs)
  case (Cons x xs)
  show ?case
  proof (cases "x = v")
    case True
    with Cons.prems have "filter (\<lambda>r. f r \<noteq> f v) xs = xs" by (metis (mono_tags, lifting) distinct.simps(2) filter_True image_eqI list.simps(9) set_map)
    with True show ?thesis by simp
  next
    case False
    with Cons.prems have "v \<in> set xs" by simp
    moreover from this Cons.prems False have "f x \<noteq> f v" by auto
    ultimately show ?thesis using Cons by (simp add: insert_DiffM2 diff_union_swap)
  qed
qed simp

lemma disjoint_after_insert: "A \<subseteq> insert x B \<Longrightarrow> x \<notin> N \<Longrightarrow> N \<inter> B = {} \<Longrightarrow> N \<inter> A = {}"
  by auto

lemma count_filter: "length (filter P xs) = size (filter_mset P (mset xs))"
  by (metis mset_filter size_mset)

lemma round_settled:
  assumes "settled ttl now c" and "StaleRequests c = v # rest"
    and "\<not> rs_stale new" and "rs_stage new = PROVISIONED" and "request_id new \<notin> request_id ` set (cd_requests c)"
  shows "settled ttl now (in_place_round ttl now new c) \<and>
    length (StaleRequests c) = Suc (length (StaleRequests (in_place_round ttl now new c))) \<and>
    cd_config (in_place_round ttl now new c) = cd_config c \<and>
    set (cd_requests (in_place_round ttl now new c)) \<subseteq> insert new (set (cd_requests c)) \<and>
    length (cd_requests (in_place_round ttl now new c)) = length (cd_requests c)"
proof -
  let ?c = "in_place_round ttl now new c"
  let ?keep = "filter (\<lambda>r. request_id r \<noteq> request_id v) (cd_requests c)"
  have v: "v \<in> set (cd_requests c)" "rs_stale v" using assms(2) by (auto simp: StaleRequests_def filter_eq_Cons_iff)
  have c: "?c = c\<lparr>cd_requests := sortRequestsByCreatedAt (?keep @ [new])\<rparr>"
    using settled_victim [OF assms(1,2)] by (simp add: in_place_round_def)
  have d: "distinct (map request_id (cd_requests c))" using assms(1) by (simp add: settled_def)
  have m: "mset (cd_requests ?c) = mset (cd_requests c) - {#v#} + {#new#}"
    using filter_id_remove [OF d v(1)] by (simp add: c sortRequests_mset)
  have sets: "set (cd_requests ?c) \<subseteq> insert new (set (cd_requests c))"
    by (auto simp: c)
  have "mset (map request_id (cd_requests ?c)) = mset (map request_id (?keep @ [new]))"
  proof -
    have "cd_requests ?c = sortRequestsByCreatedAt (?keep @ [new])" by (simp add: c)
    then show ?thesis by (simp only: mset_map sortRequests_mset)
  qed
  moreover have "distinct (map request_id (?keep @ [new]))"
    using d assms(5) by (auto simp: distinct_map inj_on_def)
  ultimately have dist: "distinct (map request_id (cd_requests ?c))" by (metis mset_eq_imp_distinct_iff)
  have vm: "v \<in># mset (cd_requests c)" using v(1) by simp
  have fresh: "FreshCount ?c = FreshCount c + 1"
    using v(2) vm assms(3,4) by (simp add: FreshCount_def count_filter m)
  have stale: "length (StaleRequests c) = Suc (length (StaleRequests ?c))"
    using v(2) vm assms(3) by (simp add: StaleRequests_def count_filter m size_Suc_Diff1)
  have len: "length (cd_requests ?c) = length (cd_requests c)"
    using vm by (metis m size_mset size_Suc_Diff1 size_union size_single add.commute plus_1_eq_Suc)
  have "cd_set ?c = cd_set c" "cd_class ?c = cd_class c" "cd_config ?c = cd_config c" "cd_generation ?c = cd_generation c"
    by (simp_all add: c)
  then show ?thesis
    using assms(1,4) sets dist fresh stale len
    by (auto simp: settled_def stamped_def HasActiveLock_def)
qed

text \<open>
  C25: an in-place rotation ends: when enough machines are fresh at the start and the set
  controller replaces each destroyed request by a fresh one that gets provisioned, as many rounds
  as there are stale requests leave none, the number of machines is the same, and the planner
  then has nothing to do.
\<close>

theorem in_place_rotation_ends:
  assumes "settled ttl now c" and "length news = length (StaleRequests c)"
    and "\<And>r. r \<in> set news \<Longrightarrow> \<not> rs_stale r \<and> rs_stage r = PROVISIONED"
    and "distinct (map request_id news)" and "request_id ` set news \<inter> request_id ` set (cd_requests c) = {}"
  shows "let d = fold (in_place_round ttl now) news c
    in StaleRequests d = [] \<and> length (cd_requests d) = length (cd_requests c) \<and> de_action (Plan ttl now d) = ActionNone"
  using assms
proof (induction news arbitrary: c)
  case Nil
  then have "StaleRequests c = []" by simp
  then have "de_action (Plan ttl now c) = ActionNone"
    using Nil.prems(1) by (auto simp: settled_def stamped_def plan_defs)
  with \<open>StaleRequests c = []\<close> show ?case by simp
next
  case (Cons new news)
  then obtain v rest where s: "StaleRequests c = v # rest" by (cases "StaleRequests c") auto
  let ?c = "in_place_round ttl now new c"
  have new: "\<not> rs_stale new" "rs_stage new = PROVISIONED" "request_id new \<notin> request_id ` set (cd_requests c)"
    using Cons.prems(3,5) by auto
  note r = round_settled [OF Cons.prems(1) s new]
  have "settled ttl now ?c" "length news = length (StaleRequests ?c)" "length (cd_requests ?c) = length (cd_requests c)"
    using r Cons.prems(2) by auto
  moreover have "request_id ` set news \<inter> request_id ` set (cd_requests ?c) = {}"
  proof -
    have "request_id ` set (cd_requests ?c) \<subseteq> insert (request_id new) (request_id ` set (cd_requests c))" using r by blast
    moreover have "request_id new \<notin> request_id ` set news" "request_id ` set news \<inter> request_id ` set (cd_requests c) = {}"
      using Cons.prems(4,5) by auto
    ultimately show ?thesis by (rule disjoint_after_insert)
  qed
  ultimately show ?case
    using Cons.IH [of ?c] Cons.prems(3,4) by simp
qed

theorem in_place_witness:
  "StaleRequests (fold (in_place_round 300 time_zero) [fresh_at ''d'' 4, fresh_at ''e'' 5]
     (example_candidate InPlace Map.empty 3 [stale_at ''a'' 1, stale_at ''b'' 2, fresh_at ''c'' 3])) = []"
proof -
  let ?c = "example_candidate InPlace Map.empty 3 [stale_at ''a'' 1, stale_at ''b'' 2, fresh_at ''c'' 3]"
  have "settled 300 time_zero ?c"
    by (simp add: settled_def example_selectors) (simp add: example_candidate_def HasActiveLock_def FreshCount_def request_at_def
        fresh_at_def request_id_def DefaultMinHealthyWorker_def)
  moreover have "length [fresh_at ''d'' 4, fresh_at ''e'' 5] = length (StaleRequests ?c)"
    by (simp add: StaleRequests_def example_selectors) (simp add: request_at_def fresh_at_def)
  moreover have "\<not> rs_stale r \<and> rs_stage r = PROVISIONED" if "r \<in> set [fresh_at ''d'' 4, fresh_at ''e'' 5]" for r
    using that by (auto simp: fresh_at_def request_at_def)
  moreover have "distinct (map request_id [fresh_at ''d'' 4, fresh_at ''e'' 5])"
    by (simp add: fresh_at_def request_at_def request_id_def)
  moreover have "request_id ` set [fresh_at ''d'' 4, fresh_at ''e'' 5] \<inter> request_id ` set (cd_requests ?c) = {}"
    by (simp add: example_selectors) (simp add: fresh_at_def request_at_def request_id_def)
  ultimately show ?thesis
    using in_place_rotation_ends [of 300 time_zero ?c "[fresh_at ''d'' 4, fresh_at ''e'' 5]"]
    unfolding Let_def by blast
qed

end
