(* ===== verification/RotationEngine.thy ===== *)
theory RotationEngine
  imports RotationPlan "HOL-Library.AList"
begin

text \<open>
  Discovery, execution and the loop of the node-rotation reconciler
  (internal/noderotation/discovery.go, engine.go, reconciler.go) against the Omni state service.
\<close>

section \<open>The state service\<close>

text \<open>
  The closures that the engine passes to \<open>StateUpdateWithConflicts\<close>, as data, and their
  effect on the resource. The count of an allocation is a \<open>uint32\<close>.
\<close>

datatype set_update =
    SetLock string go_time
  | ClearLock
  | ClearSurgeAndLock
  | SurgeStep string go_time surge_phase_state int

definition annotate :: "string \<Rightarrow> string \<Rightarrow> machine_set \<Rightarrow> machine_set" where
  "annotate k v ms = ms\<lparr>st_annotations := (st_annotations ms)(k \<mapsto> v)\<rparr>"

definition unannotate :: "string \<Rightarrow> machine_set \<Rightarrow> machine_set" where
  "unannotate k ms = ms\<lparr>st_annotations := (st_annotations ms)(k := None)\<rparr>"

definition lock_set :: "string \<Rightarrow> go_time \<Rightarrow> machine_set \<Rightarrow> machine_set" where
  "lock_set gen now ms = annotate AnnotationRotationState (formatRotationStateAnnotation (gen, now)) ms"

fun apply_set_update :: "set_update \<Rightarrow> machine_set \<Rightarrow> string + machine_set" where
  "apply_set_update (SetLock gen now) ms = Inr (lock_set gen now ms)"
| "apply_set_update ClearLock ms = Inr (unannotate AnnotationRotationState ms)"
| "apply_set_update ClearSurgeAndLock ms =
     Inr (unannotate AnnotationRotationState (unannotate AnnotationSurgePhase ms))"
| "apply_set_update (SurgeStep gen now phase delta) ms =
     (case st_allocation ms of
        None \<Rightarrow> Inl ''has no MachineAllocation''
      | Some (name, n) \<Rightarrow>
          if n + delta < 0 then Inl ''surge would push MachineCount below zero''
          else Inr ((annotate AnnotationSurgePhase (formatSurgePhaseAnnotation phase) (lock_set gen now ms))
                 \<lparr>st_allocation := Some (name, (n + delta) mod 2 ^ 32)\<rparr>))"

text \<open>
  An update is answered with the resources on which the closure ran, one per try, and the error
  of the last try. The listings are filtered by the labels of the query: the sets of a cluster,
  the statuses of a provider, the requests of a set and a provider.
\<close>

datatype rotation_call =
    ListClasses
  | ListSets string
  | ListStatuses string
  | ListRequests string string
  | GetRequest string
  | UpdateClass string string
  | UpdateSet string set_update
  | DestroyRequest string
  | ReadClock
  | AwaitTick

datatype rotation_answer =
    Classes "machine_class list"
  | Sets "machine_set list"
  | Stages "(string \<times> stage) list"
  | Requests "infra_request list"
  | Request infra_request
  | Tried "machine_set list" "string option"
  | Clock go_time
  | Ok
  | Err string

fun answer_classes :: "rotation_answer \<Rightarrow> string + machine_class list" where
  "answer_classes (Classes cs) = Inr cs" | "answer_classes (Err e) = Inl e" | "answer_classes _ = Inl []"

fun answer_sets :: "rotation_answer \<Rightarrow> string + machine_set list" where
  "answer_sets (Sets ms) = Inr ms" | "answer_sets (Err e) = Inl e" | "answer_sets _ = Inl []"

fun answer_stages :: "rotation_answer \<Rightarrow> string + (string \<times> stage) list" where
  "answer_stages (Stages ss) = Inr ss" | "answer_stages (Err e) = Inl e" | "answer_stages _ = Inl []"

fun answer_requests :: "rotation_answer \<Rightarrow> string + infra_request list" where
  "answer_requests (Requests rs) = Inr rs" | "answer_requests (Err e) = Inl e" | "answer_requests _ = Inl []"

fun answer_request :: "rotation_answer \<Rightarrow> string + infra_request" where
  "answer_request (Request r) = Inr r" | "answer_request (Err e) = Inl e" | "answer_request _ = Inl []"

fun answer_clock :: "rotation_answer \<Rightarrow> go_time" where
  "answer_clock (Clock t) = t" | "answer_clock _ = time_zero"

fun answer_done :: "rotation_answer \<Rightarrow> string + unit" where
  "answer_done (Err e) = Inl e" | "answer_done _ = Inr ()"

text \<open>The first closure that fails ends the update with its error.\<close>

fun answer_update :: "set_update \<Rightarrow> rotation_answer \<Rightarrow> string + unit" where
  "answer_update u (Tried ms e) =
     (case List.find (\<lambda>m. isl (apply_set_update u m)) ms of
        Some m \<Rightarrow> (case apply_set_update u m of Inl x \<Rightarrow> Inl x | Inr m' \<Rightarrow> Inr ())
      | None \<Rightarrow> (case e of None \<Rightarrow> Inr () | Some x \<Rightarrow> Inl x))"
| "answer_update u (Err e) = Inl e"
| "answer_update u _ = Inl []"

text \<open>The process keeps the time of its last pass, in nanoseconds of Unix time.\<close>

type_synonym rotation_env = "(rotation_call, rotation_answer) env"
type_synonym 'a rotating = "(rotation_call, rotation_answer, int, 'a) prog"

section \<open>Discovery (discovery.go)\<close>

record discoverer =
  ds_cluster :: string
  ds_provider :: string
  ds_trust :: bool

definition checkRoleMismatch :: "discoverer \<Rightarrow> machine_set \<Rightarrow> role \<Rightarrow> bool" where
  "checkRoleMismatch d ms declared =
     (if st_control_plane ms \<and> declared \<noteq> ControlPlane then ds_trust d else True)"

definition listRequestStages :: "rotation_env \<Rightarrow> discoverer \<Rightarrow> (string + (string \<rightharpoonup> stage)) rotating" where
  "listRequestStages env d = do {
     a \<leftarrow> ask env (ListStatuses (ds_provider d));
     ret (map_sum id (\<lambda>ss. map_of (rev ss)) (answer_stages a)) }"

definition classify :: "(json \<Rightarrow> string) \<Rightarrow> string \<Rightarrow> (string \<rightharpoonup> stage) option \<Rightarrow> infra_request \<Rightarrow> request_status" where
  "classify digest currentGen stageByID mr =
     (let gen = generationFromMachineRequest digest (ir_boot mr)
      in \<lparr>rs_request = mr, rs_generation = gen, rs_stale = (gen \<noteq> currentGen),
          rs_stage = (case stageByID of
                        None \<Rightarrow> UNKNOWN
                      | Some m \<Rightarrow> (case m (ir_id mr) of None \<Rightarrow> UNKNOWN | Some s \<Rightarrow> s)),
          rs_created = ir_created mr\<rparr>)"

definition classifyRequests ::
  "rotation_env \<Rightarrow> (json \<Rightarrow> string) \<Rightarrow> discoverer \<Rightarrow> string \<Rightarrow> string \<Rightarrow> (string \<rightharpoonup> stage) option \<Rightarrow>
   (string + request_status list) rotating" where
  "classifyRequests env digest d msID currentGen stageByID = do {
     a \<leftarrow> ask env (ListRequests msID (ds_provider d));
     ret (map_sum id (\<lambda>rs. sortRequestsByCreatedAt (map (classify digest currentGen stageByID) rs)) (answer_requests a)) }"

record opted_in_class =
  oc_class :: machine_class
  oc_config :: rotation_config
  oc_generation :: string

text \<open>A class that is not opted in, invalid, or not provisioned automatically is left out.\<close>

definition opt_in :: "(json \<Rightarrow> string) \<Rightarrow> machine_class \<Rightarrow> opted_in_class option" where
  "opt_in digest mc =
     (case ParseMachineClassRotationConfig (kc_annotations mc) of
        Inl e \<Rightarrow> None
      | Inr None \<Rightarrow> None
      | Inr (Some cfg) \<Rightarrow>
          (let gen = generationFromMachineClass digest (kc_auto_provision mc)
           in if gen = [] then None
              else Some \<lparr>oc_class = mc, oc_config = cfg, oc_generation = gen\<rparr>))"

fun opted_in :: "(json \<Rightarrow> string) \<Rightarrow> machine_class list \<Rightarrow> (string \<times> opted_in_class) list" where
  "opted_in digest [] = []"
| "opted_in digest (mc # mcs) =
     (case opt_in digest mc of
        None \<Rightarrow> opted_in digest mcs
      | Some oc \<Rightarrow>
          (let later = opted_in digest mcs
           in if map_of later (kc_id mc) = None then (kc_id mc, oc) # later else later))"

text \<open>One machine set: a candidate, or none if its class, role or requests rule it out.\<close>

definition discover_set ::
  "rotation_env \<Rightarrow> (json \<Rightarrow> string) \<Rightarrow> discoverer \<Rightarrow> (string \<times> opted_in_class) list \<Rightarrow> (string \<rightharpoonup> stage) option \<Rightarrow>
   machine_set \<Rightarrow> candidate option rotating" where
  "discover_set env digest d optedIn stageByID ms =
     (case st_allocation ms of
        None \<Rightarrow> ret None
      | Some (name, n) \<Rightarrow>
          (case map_of optedIn name of
             None \<Rightarrow> ret None
           | Some entry \<Rightarrow>
               if \<not> checkRoleMismatch d ms (rc_role (oc_config entry)) then ret None
               else do {
                 r \<leftarrow> classifyRequests env digest d (st_id ms) (oc_generation entry) stageByID;
                 ret (case r of
                        Inl e \<Rightarrow> None
                      | Inr reqs \<Rightarrow>
                          Some \<lparr>cd_set = ms, cd_class = oc_class entry, cd_config = oc_config entry,
                             cd_generation = oc_generation entry, cd_count = n, cd_requests = reqs\<rparr>) }))"

fun discover_sets ::
  "rotation_env \<Rightarrow> (json \<Rightarrow> string) \<Rightarrow> discoverer \<Rightarrow> (string \<times> opted_in_class) list \<Rightarrow> (string \<rightharpoonup> stage) option \<Rightarrow>
   machine_set list \<Rightarrow> candidate list rotating" where
  "discover_sets env digest d optedIn stageByID [] = ret []"
| "discover_sets env digest d optedIn stageByID (ms # sets) = do {
     c \<leftarrow> discover_set env digest d optedIn stageByID ms;
     cs \<leftarrow> discover_sets env digest d optedIn stageByID sets;
     ret (case c of None \<Rightarrow> cs | Some x \<Rightarrow> x # cs) }"

definition Discover :: "rotation_env \<Rightarrow> (json \<Rightarrow> string) \<Rightarrow> discoverer \<Rightarrow> (string + candidate list) rotating" where
  "Discover env digest d = do {
     a \<leftarrow> ask env ListClasses;
     case answer_classes a of
       Inl e \<Rightarrow> ret (Inl e)
     | Inr classes \<Rightarrow>
         (let optedIn = opted_in digest classes
          in if optedIn = [] then ret (Inr [])
             else do {
               b \<leftarrow> ask env (ListSets (ds_cluster d));
               case answer_sets b of
                 Inl e \<Rightarrow> ret (Inl e)
               | Inr sets \<Rightarrow> do {
                   st \<leftarrow> listRequestStages env d;
                   cs \<leftarrow> discover_sets env digest d optedIn (case st of Inl e \<Rightarrow> None | Inr m \<Rightarrow> Some m) sets;
                   ret (Inr cs) } }) }"

section \<open>Execution (engine.go)\<close>

definition DefaultLockTTL :: int where "DefaultLockTTL = 5 * 60 * second"
definition MinLockTTL :: int where "MinLockTTL = 30 * second"

record engine =
  en_lockTTL :: int
  en_provider :: string

definition NewEngine :: engine where
  "NewEngine = \<lparr>en_lockTTL = DefaultLockTTL, en_provider = []\<rparr>"

definition WithLockTTL :: "int \<Rightarrow> engine \<Rightarrow> engine" where
  "WithLockTTL ttl e = e\<lparr>en_lockTTL := (if ttl < MinLockTTL then MinLockTTL else ttl)\<rparr>"

definition WithProviderID :: "string \<Rightarrow> engine \<Rightarrow> engine" where
  "WithProviderID p e = e\<lparr>en_provider := p\<rparr>"

datatype execute_error =
    ErrCandidateNotActionable
  | NilCandidate
  | RefreshLockFailed string
  | StampFailed string
  | RefetchFailed string
  | ForeignProvider string
  | ForeignSet string
  | DestroyFailed string
  | LockFailed string
  | SurgeStepFailed string
  | UpdateFailed string

definition now_read :: "rotation_env \<Rightarrow> go_time rotating" where
  "now_read env = do { a \<leftarrow> ask env ReadClock; ret (answer_clock a) }"

definition update_set :: "rotation_env \<Rightarrow> string \<Rightarrow> set_update \<Rightarrow> (string + unit) rotating" where
  "update_set env i u = do { a \<leftarrow> ask env (UpdateSet i u); ret (answer_update u a) }"

definition setLock :: "rotation_env \<Rightarrow> candidate \<Rightarrow> go_time \<Rightarrow> (string + unit) rotating" where
  "setLock env c now = update_set env (st_id (cd_set c)) (SetLock (cd_generation c) now)"

definition clearLock :: "rotation_env \<Rightarrow> candidate \<Rightarrow> (string + unit) rotating" where
  "clearLock env c = update_set env (st_id (cd_set c)) ClearLock"

definition clearSurgeAndLock :: "rotation_env \<Rightarrow> candidate \<Rightarrow> (string + unit) rotating" where
  "clearSurgeAndLock env c = update_set env (st_id (cd_set c)) ClearSurgeAndLock"

definition stampGeneration :: "rotation_env \<Rightarrow> candidate \<Rightarrow> (execute_error + unit) rotating" where
  "stampGeneration env c = do {
     a \<leftarrow> ask env (UpdateClass (kc_id (cd_class c)) (cd_generation c));
     ret (map_sum StampFailed id (answer_done a)) }"

definition destroy_request :: "rotation_env \<Rightarrow> string \<Rightarrow> (execute_error + unit) rotating" where
  "destroy_request env i = do {
     a \<leftarrow> ask env (DestroyRequest i);
     ret (map_sum DestroyFailed id (answer_done a)) }"

definition teardownRequest :: "rotation_env \<Rightarrow> engine \<Rightarrow> string \<Rightarrow> string \<Rightarrow> (execute_error + unit) rotating" where
  "teardownRequest env e machineSetID requestID =
     (if en_provider e \<noteq> [] then do {
        a \<leftarrow> ask env (GetRequest requestID);
        case answer_request a of
          Inl x \<Rightarrow> ret (Inl (RefetchFailed x))
        | Inr mr \<Rightarrow>
            if ir_provider mr \<noteq> en_provider e then ret (Inl (ForeignProvider (ir_provider mr)))
            else if ir_set mr \<noteq> machineSetID then ret (Inl (ForeignSet (ir_set mr)))
            else destroy_request env requestID }
      else destroy_request env requestID)"

definition withLock :: "rotation_env \<Rightarrow> candidate \<Rightarrow> (execute_error + unit) rotating \<Rightarrow> (execute_error + unit) rotating" where
  "withLock env c action = do {
     now \<leftarrow> now_read env;
     bindE (mapE LockFailed (setLock env c now)) (\<lambda>_.
     bindE action (\<lambda>_. do {
       r \<leftarrow> clearLock env c;
       ret (Inr ()) })) }"

definition withSurgeStep :: "rotation_env \<Rightarrow> candidate \<Rightarrow> decision \<Rightarrow> int \<Rightarrow> (execute_error + unit) rotating" where
  "withSurgeStep env c d delta = do {
     now \<leftarrow> now_read env;
     mapE SurgeStepFailed (update_set env (st_id (cd_set c)) (SurgeStep (cd_generation c) now (de_next d) delta)) }"

definition not_actionable :: "rotation_env \<Rightarrow> candidate \<Rightarrow> (execute_error + unit) rotating" where
  "not_actionable env c =
     (case SurgePhase c of
        None \<Rightarrow> ret (Inl ErrCandidateNotActionable)
      | Some phase \<Rightarrow> do {
          now \<leftarrow> now_read env;
          bindE (mapE RefreshLockFailed (setLock env c now)) (\<lambda>_. ret (Inl ErrCandidateNotActionable)) })"

definition Execute :: "rotation_env \<Rightarrow> engine \<Rightarrow> decision \<Rightarrow> (execute_error + unit) rotating" where
  "Execute env e d =
     (case de_candidate d of
        None \<Rightarrow> ret (Inl NilCandidate)
      | Some c \<Rightarrow>
          (case de_action d of
             ActionNone \<Rightarrow> not_actionable env c
           | ActionLockedByPriorStep \<Rightarrow> not_actionable env c
           | ActionWaitingForReady \<Rightarrow> not_actionable env c
           | ActionWaitingForTeardown \<Rightarrow> not_actionable env c
           | ActionMinHealthyFloor \<Rightarrow> not_actionable env c
           | ActionRefreshLock \<Rightarrow> do { now \<leftarrow> now_read env; mapE UpdateFailed (setLock env c now) }
           | ActionStampGeneration \<Rightarrow> stampGeneration env c
           | ActionTeardownStale \<Rightarrow> withLock env c (teardownRequest env e (st_id (cd_set c)) (de_target d))
           | ActionSurgeUp \<Rightarrow> withSurgeStep env c d 1
           | ActionSurgeDown \<Rightarrow> withSurgeStep env c d (-1)
           | ActionSurgeCycleComplete \<Rightarrow> mapE UpdateFailed (clearSurgeAndLock env c)
           | ActionSurgeAborted \<Rightarrow> mapE UpdateFailed (clearSurgeAndLock env c)))"

section \<open>What discovery establishes\<close>

text \<open>
  A well-formed candidate: the class of the set has opted in with a valid policy, the generation
  and the stale flags are those of the hash, the count is the allocated one, the requests are
  sorted, and a set that carries the control-plane label has a class declared as control plane,
  unless declared roles are trusted.
\<close>

definition wf_candidate :: "(json \<Rightarrow> string) \<Rightarrow> discoverer \<Rightarrow> candidate \<Rightarrow> bool" where
  "wf_candidate digest d c \<longleftrightarrow>
     ParseMachineClassRotationConfig (kc_annotations (cd_class c)) = Inr (Some (cd_config c)) \<and>
     cd_generation c = generationFromMachineClass digest (kc_auto_provision (cd_class c)) \<and> cd_generation c \<noteq> [] \<and>
     st_allocation (cd_set c) = Some (kc_id (cd_class c), cd_count c) \<and>
     (st_control_plane (cd_set c) \<longrightarrow> rc_role (cd_config c) = ControlPlane \<or> ds_trust d) \<and>
     sorted_wrt request_le (cd_requests c) \<and>
     (\<forall>r \<in> set (cd_requests c). rs_generation r = generationFromMachineRequest digest (ir_boot (rs_request r)) \<and>
        (rs_stale r \<longleftrightarrow> rs_generation r \<noteq> cd_generation c))"

text \<open>Where a candidate comes from: it was listed, with its class and its requests.\<close>

definition listed :: "discoverer \<Rightarrow> candidate \<Rightarrow> (rotation_call \<times> rotation_answer) list \<Rightarrow> bool" where
  "listed d c h \<longleftrightarrow>
     (\<exists>classes. (ListClasses, Classes classes) \<in> set h \<and> cd_class c \<in> set classes) \<and>
     (\<exists>sets. (ListSets (ds_cluster d), Sets sets) \<in> set h \<and> cd_set c \<in> set sets) \<and>
     (\<exists>rs. (ListRequests (st_id (cd_set c)) (ds_provider d), Requests rs) \<in> set h \<and>
        mset (map rs_request (cd_requests c)) = mset rs)"

lemma lasting_listed [simp, intro]: "lasting (listed d c)"
  by (simp add: listed_def [abs_def])

lemma answers_Inr:
  "answer_classes a = Inr cs \<longleftrightarrow> a = Classes cs" "answer_sets a = Inr ms \<longleftrightarrow> a = Sets ms"
  "answer_requests a = Inr rs \<longleftrightarrow> a = Requests rs" "answer_request a = Inr r \<longleftrightarrow> a = Request r"
  by (cases a; simp)+

lemma opt_in_iff:
  "opt_in digest mc = Some oc \<longleftrightarrow>
     oc_class oc = mc \<and> ParseMachineClassRotationConfig (kc_annotations mc) = Inr (Some (oc_config oc)) \<and>
     oc_generation oc = generationFromMachineClass digest (kc_auto_provision mc) \<and> oc_generation oc \<noteq> []"
  by (cases oc) (auto simp: opt_in_def Let_def split: sum.splits option.splits)

lemma opted_in_Some:
  "map_of (opted_in digest mcs) name = Some oc \<Longrightarrow>
   oc_class oc \<in> set mcs \<and> kc_id (oc_class oc) = name \<and> opt_in digest (oc_class oc) = Some oc"
proof (induction mcs)
  case (Cons mc mcs)
  then show ?case by (auto simp: Let_def opt_in_iff split: option.splits if_splits)
qed simp

lemma safe_discover_set:
  assumes "lasting E" and "\<And>h. E h \<Longrightarrow> \<exists>sets. (ListSets (ds_cluster d), Sets sets) \<in> set h \<and> ms \<in> set sets"
    and "\<And>h. E h \<Longrightarrow> (ListClasses, Classes classes) \<in> set h"
  shows "safe anything E (discover_set env digest d (opted_in digest classes) st ms)
    (\<lambda>r h. E h \<and> (\<forall>c. r = Some c \<longrightarrow> wf_candidate digest d c \<and> listed d c h))"
  unfolding discover_set_def
proof (intro safe_case_option safe_case_prod safe_if safe_bind)
  fix a name n entry
  assume alloc: "st_allocation ms = Some a" "a = (name, n)"
    and entry: "map_of (opted_in digest classes) name = Some entry"
    and role: "\<not> \<not> checkRoleMismatch d ms (rc_role (oc_config entry))"
  note entry = opted_in_Some [OF entry]
  let ?c = "\<lambda>reqs. \<lparr>cd_set = ms, cd_class = oc_class entry, cd_config = oc_config entry,
      cd_generation = oc_generation entry, cd_count = n, cd_requests = reqs\<rparr>"
  show "safe anything E (classifyRequests env digest d (st_id ms) (oc_generation entry) st)
      (\<lambda>r h. E h \<and> (\<forall>reqs. r = Inr reqs \<longrightarrow> wf_candidate digest d (?c reqs) \<and> listed d (?c reqs) h))"
    unfolding classifyRequests_def
  proof (rule safe_conseq [OF safe_call [OF assms(1)]], rule TrueI, assumption)
    fix r h
    assume h: "E h \<and> (\<exists>a. (ListRequests (st_id ms) (ds_provider d), a) \<in> set h \<and>
      r = map_sum id (\<lambda>rs. sortRequestsByCreatedAt (map (classify digest (oc_generation entry) st) rs)) (answer_requests a))"
    show "E h \<and> (\<forall>reqs. r = Inr reqs \<longrightarrow> wf_candidate digest d (?c reqs) \<and> listed d (?c reqs) h)"
    proof (intro conjI allI impI)
      show "E h" using h ..
      fix reqs
      assume "r = Inr reqs"
      with h obtain a where a: "(ListRequests (st_id ms) (ds_provider d), a) \<in> set h"
        and "map_sum id (\<lambda>rs. sortRequestsByCreatedAt (map (classify digest (oc_generation entry) st) rs)) (answer_requests a) = Inr reqs"
        by metis
      then obtain rs where "a = Requests rs" and reqs: "reqs = sortRequestsByCreatedAt (map (classify digest (oc_generation entry) st) rs)"
        by (auto simp: map_sum_Inr answers_Inr)
      with a have rs: "(ListRequests (st_id ms) (ds_provider d), Requests rs) \<in> set h" by simp
      show "wf_candidate digest d (?c reqs)"
        using entry role alloc sortRequests_sorted
        by (auto simp: wf_candidate_def opt_in_iff reqs classify_def checkRoleMismatch_def Let_def split: if_splits)
      have "mset (map rs_request reqs) = image_mset rs_request (mset (map (classify digest (oc_generation entry) st) rs))"
        by (simp only: reqs mset_map sortRequests_mset)
      also have "\<dots> = mset rs" by (simp add: multiset.map_comp comp_def classify_def Let_def)
      finally show "listed d (?c reqs) h"
        using rs entry assms(2,3) h by (auto simp: listed_def)
    qed
  qed
qed (auto intro!: safe_ret split: sum.splits)

lemma emits_discover_sets:
  assumes "\<And>q r. (\<exists>i. q = ListRequests i (ds_provider d)) \<Longrightarrow> P q r"
  shows "emits P (discover_sets env digest d optedIn st sets)"
proof -
  have "emits P (discover_set env digest d optedIn st ms)" for ms
    unfolding discover_set_def classifyRequests_def using assms by (auto intro!: emits_intros split: option.splits)
  then show ?thesis by (induction sets) (auto intro!: emits_intros)
qed

lemma safe_discover_sets:
  assumes "lasting E" and "\<And>h. E h \<Longrightarrow> \<exists>all. (ListSets (ds_cluster d), Sets all) \<in> set h \<and> set sets \<subseteq> set all"
    and "\<And>h. E h \<Longrightarrow> (ListClasses, Classes classes) \<in> set h"
  shows "safe anything E (discover_sets env digest d (opted_in digest classes) st sets)
    (\<lambda>cs h. \<forall>c \<in> set cs. wf_candidate digest d c \<and> listed d c h)"
  using assms
proof (induction sets arbitrary: E)
  case (Cons ms sets)
  let ?F = "\<lambda>r h. E h \<and> (\<forall>c. r = Some c \<longrightarrow> wf_candidate digest d c \<and> listed d c h)"
  have last: "lasting (?F r)" for r
    using Cons.prems(1) by (cases r) (simp_all add: lasting_conj)
  show ?case
    unfolding discover_sets.simps
  proof (rule safe_bind [where R = ?F])
    show "safe anything E (discover_set env digest d (opted_in digest classes) st ms) ?F"
      by (rule safe_discover_set [OF Cons.prems(1)]) (use Cons.prems(2,3) in fastforce)+
  next
    fix r
    have "safe anything (?F r) (discover_sets env digest d (opted_in digest classes) st sets)
        (\<lambda>cs h. \<forall>c \<in> set cs. wf_candidate digest d c \<and> listed d c h)"
      by (rule Cons.IH [OF last]) (use Cons.prems(2,3) in fastforce)+
    moreover have "emits (\<lambda>q r. True) (discover_sets env digest d (opted_in digest classes) st sets)"
      by (rule emits_discover_sets) simp
    ultimately have "safe anything (?F r) (discover_sets env digest d (opted_in digest classes) st sets)
        (\<lambda>cs h. ?F r h \<and> (\<forall>c \<in> set cs. wf_candidate digest d c \<and> listed d c h))"
      using safe_keep [OF _ last] by blast
    then show "safe anything (?F r)
        (discover_sets env digest d (opted_in digest classes) st sets \<bind> (\<lambda>cs. ret (case r of None \<Rightarrow> cs | Some x \<Rightarrow> x # cs)))
        (\<lambda>cs h. \<forall>c \<in> set cs. wf_candidate digest d c \<and> listed d c h)"
      by (rule safe_bind) (auto intro!: safe_ret split: option.splits)
  qed
qed (simp add: safe_ret)

end
