(* ===== verification/Reconciler.thy ===== *)
theory Reconciler
  imports RotationEngine
begin

text \<open>
  The loop of the node-rotation reconciler (internal/noderotation/reconciler.go) and what holds
  of its passes: which requests it makes of the state service, and what its surge cycles do to
  the machine count of a set.
\<close>

section \<open>The reconciler\<close>

record reconciler =
  rn_digest :: "json \<Rightarrow> string"
  rn_disc :: discoverer
  rn_engine :: engine
  rn_interval :: int

definition RotationRefreshInterval :: int where "RotationRefreshInterval = 30 * second"

definition NewReconciler :: "(json \<Rightarrow> string) \<Rightarrow> discoverer \<Rightarrow> engine \<Rightarrow> int \<Rightarrow> reconciler" where
  "NewReconciler digest disc eng interval =
     \<lparr>rn_digest = digest, rn_disc = disc, rn_engine = eng,
      rn_interval = (if interval < second then RotationRefreshInterval else interval)\<rparr>"

definition unix_nano :: "go_time \<Rightarrow> int" where
  "unix_nano t = i64 ((t_sec t - unix_to_internal) * second + t_ns t)"

text \<open>The end of a pass, by whatever way, is recorded.\<close>

definition stamp_tick :: "rotation_env \<Rightarrow> unit rotating" where
  "stamp_tick env = do { t \<leftarrow> now_read env; modify_proc (\<lambda>_. unix_nano t) }"

text \<open>One candidate: the outcome is only logged and counted.\<close>

definition tick_candidate :: "rotation_env \<Rightarrow> reconciler \<Rightarrow> candidate \<Rightarrow> unit rotating" where
  "tick_candidate env r c = do {
     now \<leftarrow> now_read env;
     x \<leftarrow> Execute env (rn_engine r) (Plan (en_lockTTL (rn_engine r)) now c);
     ret () }"

definition tick :: "rotation_env \<Rightarrow> reconciler \<Rightarrow> unit rotating" where
  "tick env r = do {
     x \<leftarrow> Discover env (rn_digest r) (rn_disc r);
     case x of
       Inl e \<Rightarrow> stamp_tick env
     | Inr candidates \<Rightarrow> do { for_all (tick_candidate env r) candidates; stamp_tick env } }"

text \<open>
  The loop for at most \<open>n\<close> periods of the ticker; an error as the answer to the wait is the
  end of the context. \<open>None\<close>: still running.
\<close>

fun run_ticks :: "rotation_env \<Rightarrow> reconciler \<Rightarrow> nat \<Rightarrow> string option rotating" where
  "run_ticks env r 0 = ret None"
| "run_ticks env r (Suc n) = do {
     a \<leftarrow> ask env AwaitTick;
     case answer_done a of
       Inl e \<Rightarrow> ret (Some e)
     | Inr u \<Rightarrow> do { tick env r; run_ticks env r n } }"

definition Run_reconciler :: "rotation_env \<Rightarrow> reconciler \<Rightarrow> nat \<Rightarrow> string option rotating" where
  "Run_reconciler env r n = do { tick env r; run_ticks env r n }"

text \<open>The jitter from eight random bytes (none: the generator failed).\<close>

definition go_rem :: "int \<Rightarrow> int \<Rightarrow> int" where
  "go_rem a b = a - go_div a b * b"

definition tickJitter :: "int \<Rightarrow> int list option \<Rightarrow> int" where
  "tickJitter interval rnd =
     (case rnd of
        None \<Rightarrow> 0
      | Some bytes \<Rightarrow>
          (let m = go_div interval 10
           in if m \<le> 0 then 0
              else let v = i64 (foldl (\<lambda>v b. v * 256 + b) 0 bytes)
                   in go_rem (if v < 0 then i64 (- v) else v) m))"

section \<open>What a pass asks of the state service\<close>

definition locked_since :: "candidate \<Rightarrow> (rotation_call \<times> rotation_answer) list \<Rightarrow> bool" where
  "locked_since c h \<longleftrightarrow>
     (\<exists>t b. (UpdateSet (st_id (cd_set c)) (SetLock (cd_generation c) t), b) \<in> set h \<and>
        answer_update (SetLock (cd_generation c) t) b = Inr ())"

text \<open>The victim of an in-place step, and the candidate for which it is one.\<close>

definition in_place_victim :: "candidate \<Rightarrow> string \<Rightarrow> bool" where
  "in_place_victim c i \<longleftrightarrow> rc_strategy (cd_config c) = InPlace \<and>
     (\<exists>v \<in> set (cd_requests c). rs_stale v \<and> request_id v = i \<and>
        rc_min_healthy (cd_config c) \<le> healthy (filter (\<lambda>r. r \<noteq> v) (cd_requests c)))"

definition rotation_guard ::
  "(json \<Rightarrow> string) \<Rightarrow> discoverer \<Rightarrow> string \<Rightarrow> (rotation_call \<times> rotation_answer) list \<Rightarrow> rotation_call \<Rightarrow> bool" where
  "rotation_guard digest d provider h q =
     (case q of
        DestroyRequest i \<Rightarrow>
          (\<exists>c mr. wf_candidate digest d c \<and> listed d c h \<and> in_place_victim c i \<and> locked_since c h \<and>
             (\<exists>pre. h = pre @ [(GetRequest i, Request mr)]) \<and> ir_provider mr = provider \<and> ir_set mr = st_id (cd_set c))
      | UpdateSet i u \<Rightarrow> (\<exists>c. wf_candidate digest d c \<and> listed d c h \<and> st_id (cd_set c) = i)
      | UpdateClass i gen \<Rightarrow>
          (\<exists>c. wf_candidate digest d c \<and> listed d c h \<and> kc_id (cd_class c) = i \<and> cd_generation c = gen)
      | _ \<Rightarrow> True)"

lemma safe_Discover:
  "safe anything (\<lambda>h. True) (Discover env digest d)
     (\<lambda>r h. \<forall>cs c. r = Inr cs \<and> c \<in> set cs \<longrightarrow> wf_candidate digest d c \<and> listed d c h)"
proof -
  let ?Q = "\<lambda>r h. \<forall>cs c. r = Inr cs \<and> c \<in> set cs \<longrightarrow> wf_candidate digest d c \<and> listed d c h"
  have call: "safe anything E (ask env q) (\<lambda>a h. E h \<and> (q, a) \<in> set h)" if "lasting E" for E q
    using safe_call [of E anything q env "\<lambda>r. r"] that by (simp add: safe_def triple_def lasting_def guarded_def)
  have stages: "emits (\<lambda>q r. True) (listRequestStages env d)"
    unfolding listRequestStages_def by (auto intro!: emits_intros)
  show ?thesis
    unfolding Discover_def
  proof (intro safe_bind safe_case_sum safe_let safe_if)
    show "safe anything (\<lambda>h. True) (ask env ListClasses) (\<lambda>a h. True \<and> (ListClasses, a) \<in> set h)"
      by (rule call) simp
  next
    fix a classes oi
    assume a: "answer_classes a = Inr classes"
    show "safe anything (\<lambda>h. True \<and> (ListClasses, a) \<in> set h) (ask env (ListSets (ds_cluster d)))
        (\<lambda>b h. (True \<and> (ListClasses, a) \<in> set h) \<and> (ListSets (ds_cluster d), b) \<in> set h)"
      by (rule call) simp
  next
    fix a classes oi b sets
    assume "answer_classes a = Inr classes" and "oi = opted_in digest classes" and "answer_sets b = Inr sets"
    then have ab: "a = Classes classes" "b = Sets sets" by (simp_all add: answers_Inr)
    let ?E = "\<lambda>h. (True \<and> (ListClasses, a) \<in> set h) \<and> (ListSets (ds_cluster d), b) \<in> set h"
    have E: "lasting ?E" by (intro lasting_conj) simp_all
    show "safe anything ?E (listRequestStages env d) (\<lambda>_. ?E)" by (rule safe_any [OF E stages])
    fix st
    show "safe anything ?E (discover_sets env digest d oi (case st of Inl e \<Rightarrow> None | Inr m \<Rightarrow> Some m) sets)
        (\<lambda>cs h. \<forall>c \<in> set cs. wf_candidate digest d c \<and> listed d c h)"
      unfolding \<open>oi = _\<close> by (rule safe_discover_sets [OF E]) (auto simp: ab)
  qed (auto intro!: safe_ret)
qed

lemma Plan_teardown:
  assumes "de_action (Plan ttl now c) = ActionTeardownStale"
  shows "in_place_victim c (de_target (Plan ttl now c))"
proof -
  from assms obtain v rest where s: "StaleRequests c = v # rest"
    and f: "rc_min_healthy (cd_config c) \<le> FreshCount c"
    and i: "rc_strategy (cd_config c) = InPlace" "de_target (Plan ttl now c) = request_id v"
    by (auto simp: plan_defs split: if_splits strategy.splits list.splits option.splits)
  from s have "v \<in> set (StaleRequests c)" by simp
  with healthy_without_stale [of v c] i f show ?thesis
    by (auto simp: in_place_victim_def StaleRequests_def)
qed

lemma Plan_candidate [simp]: "de_candidate (Plan ttl now c) = Some c"
  by (simp add: plan_defs split: strategy.split list.split option.split)

lemma safe_setLock:
  assumes "lasting E" and "\<And>h. E h \<Longrightarrow> wf_candidate digest d c \<and> listed d c h"
  shows "safe (rotation_guard digest d p) E (setLock env c now) (\<lambda>r h. E h \<and> (r = Inr () \<longrightarrow> locked_since c h))"
  unfolding setLock_def update_set_def
  by (rule safe_conseq [OF safe_call [OF assms(1)]])
    (use assms(2) in \<open>auto simp: rotation_guard_def locked_since_def\<close>)

lemma safe_teardownRequest:
  assumes "en_provider e \<noteq> []" and "in_place_victim c i" and "wf_candidate digest d c"
  shows "safe (rotation_guard digest d (en_provider e)) (\<lambda>h. listed d c h \<and> locked_since c h)
    (teardownRequest env e (st_id (cd_set c)) i) (\<lambda>r h. listed d c h)"
proof -
  let ?E = "\<lambda>h. listed d c h \<and> locked_since c h"
  have last: "lasting ?E"
    by (intro lasting_conj lasting_listed) (auto simp: lasting_def locked_since_def)
  show ?thesis
  proof (rule safeI)
    fix w r w'
    assume g: "guarded (rotation_guard digest d (en_provider e)) (w_hist w)" and E: "?E (w_hist w)"
      and run: "run_state (teardownRequest env e (st_id (cd_set c)) i) w = (r, w')"
    let ?a = "env (w_hist w) (GetRequest i)"
    let ?h = "w_hist w @ [(GetRequest i, ?a)]"
    let ?b = "env ?h (DestroyRequest i)"
    have E1: "?E ?h" by (rule lastingD [OF last E])
    have g1: "guarded (rotation_guard digest d (en_provider e)) ?h"
      using g by (subst guarded_snoc) (simp add: rotation_guard_def)
    consider "w_hist w' = ?h" | mr where "w_hist w' = ?h @ [(DestroyRequest i, ?b)]" "?a = Request mr"
        "ir_provider mr = en_provider e" "ir_set mr = st_id (cd_set c)"
      using run assms(1)
      by (auto simp: teardownRequest_def destroy_request_def answers_Inr split: sum.splits if_splits)
    then show "guarded (rotation_guard digest d (en_provider e)) (w_hist w') \<and> listed d c (w_hist w')"
    proof cases
      case 1
      with g1 E1 show ?thesis by simp
    next
      case 2
      then have "rotation_guard digest d (en_provider e) ?h (DestroyRequest i)"
        using E1 assms(2,3) by (auto simp: rotation_guard_def)
      then have "guarded (rotation_guard digest d (en_provider e)) (?h @ [(DestroyRequest i, ?b)])"
        using g1 by (subst guarded_snoc) simp
      with 2(1) lastingD [OF lasting_listed, of d c ?h] E1 show ?thesis by simp
    qed
  qed
qed

lemma emits_Execute:
  assumes "\<And>q r. (\<forall>i. q \<noteq> DestroyRequest i) \<Longrightarrow> (\<forall>i u. q = UpdateSet i u \<longrightarrow> i = st_id (cd_set c)) \<Longrightarrow>
      (\<forall>i g. q = UpdateClass i g \<longrightarrow> i = kc_id (cd_class c) \<and> g = cd_generation c) \<Longrightarrow> P q r"
    and "de_candidate x = Some c" and "de_action x \<noteq> ActionTeardownStale"
  shows "emits P (Execute env e x)"
proof -
  have upd: "emits P (update_set env (st_id (cd_set c)) u)" for u
    unfolding update_set_def by (intro emits_intros assms(1)) auto
  have now: "emits P (now_read env)" unfolding now_read_def by (intro emits_intros assms(1)) auto
  have stamp: "emits P (stampGeneration env c)"
    unfolding stampGeneration_def by (intro emits_intros assms(1)) auto
  note defs = not_actionable_def setLock_def withSurgeStep_def clearSurgeAndLock_def
  show ?thesis
    unfolding Execute_def assms(2) option.case
    using assms(3) by (cases "de_action x") (auto simp: defs intro!: emits_intros upd now stamp split: option.splits)
qed

lemma safe_Execute:
  assumes "wf_candidate digest d c" and "en_provider e \<noteq> []"
  shows "safe (rotation_guard digest d (en_provider e)) (listed d c) (Execute env e (Plan ttl now c)) (\<lambda>r. listed d c)"
proof (cases "de_action (Plan ttl now c) = ActionTeardownStale")
  case False
  show ?thesis
    by (rule safe_emits [OF emits_Execute [OF _ Plan_candidate False] lasting_listed])
      (use assms(1) in \<open>auto simp: rotation_guard_def split: rotation_call.splits\<close>)
next
  case True
  have clear: "safe (rotation_guard digest d (en_provider e)) (listed d c) (clearLock env c) (\<lambda>_. listed d c)"
    unfolding clearLock_def update_set_def
    by (rule safe_conseq [OF safe_call [OF lasting_listed]]) (use assms(1) in \<open>auto simp: rotation_guard_def\<close>)
  have now: "safe (rotation_guard digest d (en_provider e)) (listed d c) (now_read env) (\<lambda>_. listed d c)"
    unfolding now_read_def
    by (rule safe_conseq [OF safe_call [OF lasting_listed]]) (auto simp: rotation_guard_def)
  show ?thesis
    unfolding Execute_def Plan_candidate option.case True action.case withLock_def
  proof (rule safe_bind [OF now])
    fix t
    have lock: "safe (rotation_guard digest d (en_provider e)) (listed d c) (setLock env c t)
        (\<lambda>r h. listed d c h \<and> (r = Inr () \<longrightarrow> locked_since c h))"
      by (rule safe_setLock [OF lasting_listed]) (use assms(1) in simp)
    show "safe (rotation_guard digest d (en_provider e)) (listed d c)
        (bindE (mapE LockFailed (setLock env c t)) (\<lambda>_.
          bindE (teardownRequest env e (st_id (cd_set c)) (de_target (Plan ttl now c)))
            (\<lambda>_. clearLock env c \<bind> (\<lambda>r. ret (Inr ()))))) (\<lambda>r. listed d c)"
    proof (rule safe_bindE)
      show "safe (rotation_guard digest d (en_provider e)) (listed d c) (mapE LockFailed (setLock env c t))
          (\<lambda>r h. case r of Inl x \<Rightarrow> listed d c h | Inr a \<Rightarrow> listed d c h \<and> locked_since c h)"
        by (rule safe_mapE, rule safe_conseq [OF lock]) (auto simp: map_sum_Inr split: sum.splits)
    next
      fix u
      show "safe (rotation_guard digest d (en_provider e)) (\<lambda>h. listed d c h \<and> locked_since c h)
          (bindE (teardownRequest env e (st_id (cd_set c)) (de_target (Plan ttl now c)))
            (\<lambda>_. clearLock env c \<bind> (\<lambda>r. ret (Inr ())))) (\<lambda>r. listed d c)"
        by (rule safe_bindE [OF safe_conseq [OF safe_teardownRequest [OF assms(2) Plan_teardown [OF True] assms(1)]]])
          (auto intro: safe_bind [OF clear] safe_ret split: sum.splits)
    qed
  qed
qed

lemma emits_tick_candidate: "emits (\<lambda>q r. True) (tick_candidate env r c)"
proof -
  note defs = tick_candidate_def Execute_def not_actionable_def setLock_def clearLock_def clearSurgeAndLock_def
    update_set_def now_read_def stampGeneration_def withSurgeStep_def withLock_def teardownRequest_def destroy_request_def
  show ?thesis
    unfolding defs by (auto intro!: emits_intros split: action.split option.split)
qed

lemma emits_Discover:
  assumes "\<And>q r. (\<exists>x y. q \<in> {ListClasses, ListSets x, ListStatuses y, ListRequests x y}) \<Longrightarrow> P q r"
  shows "emits P (Discover env digest d)"
  unfolding Discover_def listRequestStages_def
  by (intro emits_intros emits_discover_sets; rule assms) auto

lemma safe_tick:
  assumes "en_provider (rn_engine r) \<noteq> []"
  shows "safe (rotation_guard (rn_digest r) (rn_disc r) (en_provider (rn_engine r))) (\<lambda>h. True) (tick env r) (\<lambda>_ h. True)"
    (is "safe ?G _ _ _")
proof -
  have now: "safe ?G E (now_read env) (\<lambda>_. E)" if "lasting E" for E
    unfolding now_read_def
    by (rule safe_conseq [OF safe_call [OF that]]) (auto simp: rotation_guard_def)
  have one: "safe ?G (listed (rn_disc r) c) (tick_candidate env r c) (\<lambda>_. listed (rn_disc r) c)"
    if "wf_candidate (rn_digest r) (rn_disc r) c" for c
    unfolding tick_candidate_def
    by (intro safe_bind [OF now [OF lasting_listed]] safe_bind [OF safe_Execute [OF that assms]] safe_ret)
  have all: "safe ?G (\<lambda>h. \<forall>c \<in> set cs. wf_candidate (rn_digest r) (rn_disc r) c \<and> listed (rn_disc r) c h)
      (for_all (tick_candidate env r) cs) (\<lambda>_ h. True)" for cs
  proof (cases "\<forall>c \<in> set cs. wf_candidate (rn_digest r) (rn_disc r) c")
    case True
    let ?E = "\<lambda>h. \<forall>c \<in> set cs. listed (rn_disc r) c h"
    have "safe ?G ?E (tick_candidate env r c) (\<lambda>_. ?E)" if "c \<in> set cs" for c
    proof -
      have last: "lasting ?E" by (intro lasting_all lasting_listed)
      have "safe ?G ?E (tick_candidate env r c) (\<lambda>_ h. True)"
        by (rule safe_conseq [OF one [of c]]) (use that True in auto)
      from safe_keep [OF this last emits_tick_candidate] show ?thesis by (rule safe_conseq) auto
    qed
    then have "safe ?G ?E (for_all (tick_candidate env r) cs) (\<lambda>_. ?E)" by (rule safe_for_all)
    then show ?thesis by (rule safe_conseq) auto
  qed (auto intro!: safeI)
  have stamp: "safe ?G (\<lambda>h. True) (stamp_tick env) (\<lambda>_ h. True)"
    unfolding stamp_tick_def by (intro safe_bind [OF now] safe_modify_proc) simp_all
  show ?thesis
    unfolding tick_def
  proof (rule safe_bind)
    have "safe ?G (\<lambda>h. True) (Discover env (rn_digest r) (rn_disc r))
        (\<lambda>x h. \<forall>cs c. x = Inr cs \<and> c \<in> set cs \<longrightarrow> wf_candidate (rn_digest r) (rn_disc r) c \<and> listed (rn_disc r) c h)"
      by (rule safe_strengthen [OF safe_Discover emits_Discover]) (auto simp: rotation_guard_def)
    then show "safe ?G (\<lambda>h. True) (Discover env (rn_digest r) (rn_disc r))
        (\<lambda>x h. \<forall>cs. x = Inr cs \<longrightarrow> (\<forall>c \<in> set cs. wf_candidate (rn_digest r) (rn_disc r) c \<and> listed (rn_disc r) c h))"
      by (rule safe_conseq) auto
  next
    fix x
    show "safe ?G (\<lambda>h. \<forall>cs. x = Inr cs \<longrightarrow> (\<forall>c \<in> set cs. wf_candidate (rn_digest r) (rn_disc r) c \<and> listed (rn_disc r) c h))
        (case x of Inl e \<Rightarrow> stamp_tick env | Inr cs \<Rightarrow> for_all (tick_candidate env r) cs \<bind> (\<lambda>_. stamp_tick env)) (\<lambda>_ h. True)"
      by (intro safe_case_sum safe_bind [OF _ stamp] safe_conseq [OF stamp] safe_conseq [OF all]) auto
  qed
qed

lemma rotation_guard_AwaitTick: "rotation_guard digest d p h AwaitTick"
  by (simp add: rotation_guard_def)

lemma safe_run_ticks:
  assumes "en_provider (rn_engine r) \<noteq> []"
  shows "safe (rotation_guard (rn_digest r) (rn_disc r) (en_provider (rn_engine r))) (\<lambda>h. True) (run_ticks env r n) (\<lambda>_ h. True)"
proof (induction n)
  case (Suc n)
  show ?case
    unfolding run_ticks.simps
    by (rule safe_bind [OF safe_ask [where Q = "\<lambda>_ _. True"]])
      (simp_all add: rotation_guard_AwaitTick safe_ret safe_bind [OF safe_tick [OF assms] Suc] split: sum.split)
qed (simp add: safe_ret)


text \<open>A run that destroys a stale request: two requests, one of them of an older class.\<close>

definition rotating_class :: machine_class where
  "rotating_class = \<lparr>kc_id = ''workers'',
     kc_annotations = [AnnotationEnabled \<mapsto> ''true'', AnnotationRole \<mapsto> ''worker'', AnnotationStrategy \<mapsto> ''in-place'',
        AnnotationClassGeneration \<mapsto> ''cpu:4''], kc_auto_provision = Some big_class\<rparr>"

definition rotating_set :: machine_set where
  "rotating_set = \<lparr>st_id = ''ms'', st_annotations = Map.empty, st_control_plane = False, st_static = True, st_allocation = Some (''workers'', 2)\<rparr>"

definition rotating_request :: "string \<Rightarrow> string \<Rightarrow> infra_request" where
  "rotating_request i d = \<lparr>ir_id = i, ir_provider = ''truenas'', ir_set = ''ms'', ir_created = time_unix 5,
     ir_boot = big_class\<lparr>bs_provider_data := d\<rparr>\<rparr>"

definition rotating_env :: rotation_env where
  "rotating_env h q =
     (case q of
        ListClasses \<Rightarrow> Classes [rotating_class]
      | ListSets c \<Rightarrow> Sets [rotating_set]
      | ListStatuses p \<Rightarrow> Stages [(''old'', PROVISIONED), (''new'', PROVISIONED)]
      | ListRequests i p \<Rightarrow> Requests [rotating_request ''new'' ''cpu:4'', rotating_request ''old'' ''cpu:2'']
      | GetRequest i \<Rightarrow> Request (rotating_request i ''cpu:2'')
      | UpdateSet i u \<Rightarrow> Tried [] None
      | ReadClock \<Rightarrow> Clock (time_unix 100)
      | _ \<Rightarrow> Ok)"

definition example_reconciler :: reconciler where
  "example_reconciler = NewReconciler example_digest \<lparr>ds_cluster = ''c'', ds_provider = ''truenas'', ds_trust = False\<rparr>
     (WithProviderID ''truenas'' NewEngine) 0"

definition destroys :: "string \<Rightarrow> rotation_call \<times> rotation_answer \<Rightarrow> bool" where
  "destroys i x = (case x of (DestroyRequest j, a) \<Rightarrow> i = j | _ \<Rightarrow> False)"

lemma example_run:
  "list_ex (destroys ''old'')
     (w_hist (snd (run_state (Run_reconciler rotating_env example_reconciler 0) \<lparr>w_hist = [], w_proc = 0\<rparr>)))"
  by code_simp


section \<open>The surge cycle\<close>

text \<open>
  A set as the updates of a history leave it: an update that is reported as committed ran its
  closure on the current set.
\<close>

fun replay :: "string \<Rightarrow> machine_set \<Rightarrow> (rotation_call \<times> rotation_answer) list \<Rightarrow> machine_set" where
  "replay i ms [] = ms"
| "replay i ms ((UpdateSet j u, a) # h) =
     (if i = j \<and> answer_update u a = Inr ()
      then (case apply_set_update u ms of Inl e \<Rightarrow> replay i ms h | Inr m \<Rightarrow> replay i m h) else replay i ms h)"
| "replay i ms (x # h) = replay i ms h"

definition serves :: "rotation_env \<Rightarrow> machine_set \<Rightarrow> bool" where
  "serves env ms \<longleftrightarrow>
     (\<forall>h u. answer_update u (env h (UpdateSet (st_id ms) u)) = Inr () \<longrightarrow>
        (\<exists>m. apply_set_update u (replay (st_id ms) ms h) = Inr m))"

definition set_phase :: "machine_set \<Rightarrow> surge_phase_state option" where
  "set_phase ms = Option.bind (st_annotations ms AnnotationSurgePhase) parseSurgePhaseAnnotation"

lemma SurgePhase_set: "SurgePhase c = set_phase (cd_set c)"
  by (simp add: SurgePhase_def set_phase_def split: option.split)

text \<open>
  One pass over a set of the surge strategy: the candidate is what discovery has just seen of
  the set, with any class, policy, generation, requests and stages; any update may fail. Other
  writers may change the set, but not its count and its phase.
\<close>

inductive surge_pass :: "engine \<Rightarrow> machine_set \<Rightarrow> machine_set \<Rightarrow> bool" for e where
  pass: "cd_set c = ms \<Longrightarrow> rc_strategy (cd_config c) = Surge \<Longrightarrow> st_allocation ms = Some (name, cd_count c) \<Longrightarrow>
    serves env ms \<Longrightarrow>
    run_state (Execute env e (Plan (en_lockTTL e) now c)) \<lparr>w_hist = [], w_proc = p\<rparr> = (r, w) \<Longrightarrow>
    surge_pass e ms (replay (st_id ms) ms (w_hist w))"
| other: "set_phase ms' = set_phase ms \<Longrightarrow> st_allocation ms' = st_allocation ms \<Longrightarrow> surge_pass e ms ms'"

text \<open>The cycle as the comments describe it: up, down, done; the count follows the phase.\<close>

datatype cycle = Idle | Up | Down

fun cycle_count :: "int \<Rightarrow> cycle \<Rightarrow> int" where
  "cycle_count n Idle = n" | "cycle_count n Up = n + 1" | "cycle_count n Down = n"

inductive cycle_step :: "cycle \<Rightarrow> cycle \<Rightarrow> bool" where
  "cycle_step x x" | "cycle_step Idle Up" | "cycle_step Up Down" | "cycle_step Down Idle"

definition cycle_of :: "machine_set \<Rightarrow> cycle" where
  "cycle_of ms =
     (case set_phase ms of None \<Rightarrow> Idle | Some s \<Rightarrow> if sp_phase s = SurgePhaseWaitUp then Up else Down)"

text \<open>The set represents the cycle: the count is the one of the phase, for the original count.\<close>

definition represents :: "string \<Rightarrow> int \<Rightarrow> machine_set \<Rightarrow> bool" where
  "represents name n ms \<longleftrightarrow> st_allocation ms = Some (name, cycle_count n (cycle_of ms)) \<and>
     (\<forall>s. set_phase ms = Some s \<longrightarrow> sp_original_count s = n)"

lemma parse_format_surge:
  assumes "sp_phase s \<in> {SurgePhaseWaitUp, SurgePhaseWaitDown}" and "0 \<le> sp_original_count s" and "sp_original_count s < 2 ^ 63"
  shows "parseSurgePhaseAnnotation (formatSurgePhaseAnnotation s) =
    Some (s\<lparr>sp_started_at := time_unix (time_to_unix (sp_started_at s))\<rparr>)"
proof -
  let ?s = "s\<lparr>sp_started_at := time_unix (time_to_unix (sp_started_at s))\<rparr>"
  have "time_to_unix (time_unix (time_to_unix t)) = time_to_unix t" for t
    using unix_int64 [of t] by (simp add: int64_value_def time_to_unix_unix)
  then have "formatSurgePhaseAnnotation s = formatSurgePhaseAnnotation ?s" by (simp add: formatSurgePhaseAnnotation_def)
  moreover have "valid_surge ?s"
    using assms i64_range by (simp add: valid_surge_def whole_second_def time_unix_def)
  ultimately show ?thesis by (simp add: surge_phase_codec.decode_encode)
qed

lemma parse_surge_valid:
  assumes "parseSurgePhaseAnnotation raw = Some s"
  shows "sp_phase s \<in> {SurgePhaseWaitUp, SurgePhaseWaitDown}"
proof (cases "\<exists>p n t. splitn 3 (CHR '':'') raw = [p, n, t]")
  case True
  with assms show ?thesis by (auto simp: parseSurgePhaseAnnotation_def split: if_splits option.splits)
next
  case False
  then have "parseSurgePhaseAnnotation raw = None"
    unfolding parseSurgePhaseAnnotation_def by (simp split: list.split)
  with assms show ?thesis by simp
qed

lemma set_phase_valid: "set_phase ms = Some s \<Longrightarrow> sp_phase s \<in> {SurgePhaseWaitUp, SurgePhaseWaitDown}"
  unfolding set_phase_def bind_eq_Some_conv using parse_surge_valid by blast

lemma annotation_keys_distinct: "AnnotationSurgePhase \<noteq> AnnotationRotationState"
  by (simp add: annotation_keys)

lemma update_phase [simp]:
  "set_phase (lock_set g t ms) = set_phase ms" "st_allocation (lock_set g t ms) = st_allocation ms"
  "set_phase (unannotate AnnotationRotationState ms) = set_phase ms"
  "st_allocation (unannotate k ms) = st_allocation ms" "st_allocation (annotate k v ms) = st_allocation ms"
  "set_phase (unannotate AnnotationSurgePhase ms) = None"
  "set_phase (annotate AnnotationSurgePhase v ms) = parseSurgePhaseAnnotation v"
  "set_phase (ms\<lparr>st_allocation := al\<rparr>) = set_phase ms"
  using annotation_keys_distinct by (simp_all add: set_phase_def lock_set_def annotate_def unannotate_def)

text \<open>The requests of an execution that is not a teardown: at most one update of the set.\<close>

definition update_of :: "go_time \<Rightarrow> candidate \<Rightarrow> decision \<Rightarrow> set_update option" where
  "update_of t c d =
     (case de_action d of
        ActionSurgeUp \<Rightarrow> Some (SurgeStep (cd_generation c) t (de_next d) 1)
      | ActionSurgeDown \<Rightarrow> Some (SurgeStep (cd_generation c) t (de_next d) (-1))
      | ActionSurgeCycleComplete \<Rightarrow> Some ClearSurgeAndLock
      | ActionSurgeAborted \<Rightarrow> Some ClearSurgeAndLock
      | ActionStampGeneration \<Rightarrow> None
      | _ \<Rightarrow> Some (SetLock (cd_generation c) t))"

lemma answer_update_ok: "answer_update u a = Inr () \<or> (\<exists>e. answer_update u a = Inl e)"
  by (cases "answer_update u a") auto

text \<open>Execution of a surge decision makes the update of the decision, or a failed one.\<close>

lemma Execute_replay:
  assumes "de_candidate d = Some c" and "de_action d \<noteq> ActionTeardownStale" and "serves env (cd_set c)"
    and "run_state (Execute env e d) \<lparr>w_hist = [], w_proc = p\<rparr> = (r, w)"
  shows "replay (st_id (cd_set c)) (cd_set c) (w_hist w) = cd_set c \<or>
    (\<exists>t u. update_of t c d = Some u \<and> apply_set_update u (cd_set c) = Inr (replay (st_id (cd_set c)) (cd_set c) (w_hist w)))"
proof -
  have ok: "\<exists>m. apply_set_update u (cd_set c) = Inr m"
    if "answer_update u (env h (UpdateSet (st_id (cd_set c)) u)) = Inr ()" "replay (st_id (cd_set c)) (cd_set c) h = cd_set c" for h u
    using assms(3) that unfolding serves_def by metis
  show ?thesis
    using assms(1,2,4) ok [of _ "[]"] ok [of _ "[(ReadClock, env [] ReadClock)]"]
    by (cases "de_action d")
      (auto simp: Execute_def update_of_def not_actionable_def setLock_def clearSurgeAndLock_def update_set_def
        now_read_def stampGeneration_def withSurgeStep_def run_bindE run_mapE
        split: option.splits sum.splits if_splits)
qed

lemma SurgeStep_applied:
  "apply_set_update (SurgeStep g t ph delta) ms = Inr ms' \<Longrightarrow> st_allocation ms = Some (name, n) \<Longrightarrow>
   st_allocation ms' = Some (name, (n + delta) mod 2 ^ 32) \<and> set_phase ms' = parseSurgePhaseAnnotation (formatSurgePhaseAnnotation ph)"
  by (auto split: if_splits)

text \<open>What the planner decides for a set that represents a cycle.\<close>

lemma Plan_surge:
  assumes "represents name n (cd_set c)" and "rc_strategy (cd_config c) = Surge" and "st_allocation (cd_set c) = Some (name', cd_count c)"
    and "0 \<le> n" and "n + 1 < 2 ^ 32" and "de_action (Plan ttl now c) = a"
  shows "a \<noteq> ActionTeardownStale \<and> a \<noteq> ActionSurgeAborted \<and>
    (a = ActionSurgeUp \<longrightarrow> set_phase (cd_set c) = None \<and>
       de_next (Plan ttl now c) = \<lparr>sp_phase = SurgePhaseWaitUp, sp_original_count = n, sp_started_at = now\<rparr>) \<and>
    (a = ActionSurgeDown \<longrightarrow> (\<exists>s. set_phase (cd_set c) = Some s \<and> sp_phase s = SurgePhaseWaitUp \<and>
       de_next (Plan ttl now c) = s\<lparr>sp_phase := SurgePhaseWaitDown\<rparr>)) \<and>
    (a = ActionSurgeCycleComplete \<longrightarrow> (\<exists>s. set_phase (cd_set c) = Some s \<and> sp_phase s = SurgePhaseWaitDown))"
proof (cases "set_phase (cd_set c)")
  case None
  with assms show ?thesis
    by (auto simp: represents_def cycle_of_def Plan_def planSurge_def plan_idle_def SurgePhase_set Let_def decision_zero_def
        split: if_splits)
next
  case (Some s)
  have i: "i64 (n + 1) = n + 1" using assms(4,5) by (simp add: i64_id)
  have "sp_phase s = SurgePhaseWaitUp \<or> sp_phase s = SurgePhaseWaitDown" using set_phase_valid [OF Some] by simp
  moreover have "SurgePhaseWaitUp \<noteq> SurgePhaseWaitDown" by (simp add: SurgePhaseWaitUp_def SurgePhaseWaitDown_def)
  ultimately show ?thesis
    using assms Some i
    by (auto simp: represents_def cycle_of_def Plan_def planSurge_def plan_wait_up_def plan_wait_down_def SurgePhase_set Let_def decision_zero_def
        split: if_splits)
qed

lemma cycle_of_lock: "cycle_of (lock_set g t ms) = cycle_of ms"
  by (simp add: cycle_of_def)

lemma represents_lock: "represents name n (lock_set g t ms) = represents name n ms"
  by (simp add: represents_def cycle_of_lock)

lemma surge_pass_simulates:
  assumes "surge_pass e ms ms'" and "represents name n ms" and "0 \<le> n" and "n + 1 < 2 ^ 32"
  shows "represents name n ms' \<and> cycle_step (cycle_of ms) (cycle_of ms')"
  using assms(1)
proof cases
  case other
  with assms(2) show ?thesis by (auto simp: represents_def cycle_of_def intro: cycle_step.intros)
next
  case (pass c name' env now p r w)
  let ?d = "Plan (en_lockTTL e) now c"
  note plan = Plan_surge [OF assms(2) [folded pass(2)] pass(3) _ assms(3,4) refl, of name' "en_lockTTL e" now]
  have alloc: "st_allocation (cd_set c) = Some (name', cd_count c)" using pass by simp
  note plan = plan [OF alloc]
  from Execute_replay [OF Plan_candidate _ _ pass(6)] pass(2,5) plan
  consider "ms' = ms" | t u where "update_of t c ?d = Some u" "apply_set_update u ms = Inr ms'"
    unfolding pass(1) by (auto simp: pass(2))
  then show ?thesis
  proof cases
    case 1
    with assms(2) show ?thesis by (auto intro: cycle_step.intros)
  next
    case 2
    have p: "SurgePhaseWaitUp \<noteq> SurgePhaseWaitDown" by (simp add: SurgePhaseWaitUp_def SurgePhaseWaitDown_def)
    show ?thesis
    proof (cases "de_action ?d")
      case ActionSurgeUp
      with plan pass(2) have n: "set_phase ms = None"
        "de_next ?d = \<lparr>sp_phase = SurgePhaseWaitUp, sp_original_count = n, sp_started_at = now\<rparr>" by auto
      from n(1) assms(2) have "st_allocation ms = Some (name, n)" by (simp add: represents_def cycle_of_def)
      moreover from 2 ActionSurgeUp have "apply_set_update (SurgeStep (cd_generation c) t (de_next ?d) 1) ms = Inr ms'"
        by (simp add: update_of_def)
      ultimately have "st_allocation ms' = Some (name, n + 1)"
        "set_phase ms' = parseSurgePhaseAnnotation (formatSurgePhaseAnnotation (de_next ?d))"
        using SurgeStep_applied assms(3,4) by (fastforce simp: mod_pos_pos_trivial)+
      with n assms(3,4) show ?thesis
        by (auto simp: represents_def cycle_of_def parse_format_surge intro: cycle_step.intros)
    next
      case ActionSurgeDown
      with plan pass(2) obtain s where s: "set_phase ms = Some s" "sp_phase s = SurgePhaseWaitUp"
        "de_next ?d = s\<lparr>sp_phase := SurgePhaseWaitDown\<rparr>" by auto
      with assms(2) have n: "st_allocation ms = Some (name, n + 1)" "sp_original_count s = n"
        by (auto simp: represents_def cycle_of_def)
      from 2 ActionSurgeDown have "apply_set_update (SurgeStep (cd_generation c) t (de_next ?d) (-1)) ms = Inr ms'"
        by (simp add: update_of_def)
      with n(1) have "st_allocation ms' = Some (name, n)"
        "set_phase ms' = parseSurgePhaseAnnotation (formatSurgePhaseAnnotation (de_next ?d))"
        using SurgeStep_applied assms(3,4) by (fastforce simp: mod_pos_pos_trivial)+
      with s n p assms(3,4) show ?thesis
        by (auto simp: represents_def cycle_of_def parse_format_surge intro: cycle_step.intros)
    next
      case ActionSurgeCycleComplete
      with plan pass(2) obtain s where "set_phase ms = Some s" "sp_phase s = SurgePhaseWaitDown" by auto
      with 2 ActionSurgeCycleComplete p assms(2) show ?thesis
        by (auto simp: update_of_def represents_def cycle_of_def intro: cycle_step.intros)
    next
      case ActionSurgeAborted
      with plan show ?thesis by simp
    next
      case ActionStampGeneration
      with 2 show ?thesis by (simp add: update_of_def)
    qed (use 2 assms(2) in \<open>auto simp: update_of_def represents_lock cycle_of_lock cycle_step.intros(1)\<close>)
  qed
qed

text \<open>
  C23: every pass over a set of the surge strategy, whatever the class, the requests, the clock
  and the outcome of the updates, refines one step of the cycle up, down, done (or none), and
  keeps the count of the set in step with the phase.
\<close>

theorem surge_refines_cycle:
  assumes "surge_pass e ms ms'" and "represents name n ms" and "0 \<le> n" and "n + 1 < 2 ^ 32"
  shows "represents name n ms' \<and> cycle_step (cycle_of ms) (cycle_of ms')"
  by (rule surge_pass_simulates [OF assms])

lemma surge_invariant:
  assumes "represents name n ms" and "0 \<le> n" and "n + 1 < 2 ^ 32"
  shows "inductive_invariant ms (surge_pass e) (\<lambda>_. True) (represents name n)"
  by unfold_locales (use assms surge_pass_simulates in blast)+

text \<open>
  C22: from a set with no cycle in flight and a count of \<open>n\<close>, every sequence of passes leaves
  the count at \<open>n\<close> or \<open>n + 1\<close>, and at \<open>n\<close> whenever no cycle is in flight; no
  cycle is ever aborted.
\<close>

theorem surge_count_restored:
  assumes "reaches ms (surge_pass e) (\<lambda>_. True) ms'"
    and "set_phase ms = None" and "st_allocation ms = Some (name, n)" and "0 \<le> n" and "n + 1 < 2 ^ 32"
  shows "st_allocation ms' \<in> {Some (name, n), Some (name, n + 1)} \<and>
    (set_phase ms' = None \<longrightarrow> st_allocation ms' = Some (name, n)) \<and>
    (\<forall>c ttl now. cd_set c = ms' \<and> rc_strategy (cd_config c) = Surge \<and> Some (name, cd_count c) = st_allocation ms' \<longrightarrow>
       de_action (Plan ttl now c) \<noteq> ActionSurgeAborted)"
proof -
  have "represents name n ms" using assms(2,3) by (simp add: represents_def cycle_of_def)
  then have r: "represents name n ms'"
    using inductive_invariant.always [OF surge_invariant assms(1)] assms(4,5) by blast
  then have "st_allocation ms' \<in> {Some (name, n), Some (name, n + 1)} \<and> (set_phase ms' = None \<longrightarrow> st_allocation ms' = Some (name, n))"
    by (cases "cycle_of ms'") (auto simp: represents_def cycle_of_def split: option.splits)
  moreover have "de_action (Plan ttl now c) \<noteq> ActionSurgeAborted"
    if "cd_set c = ms'" "rc_strategy (cd_config c) = Surge" "Some (name, cd_count c) = st_allocation ms'" for c ttl now
    using Plan_surge [of name n c name ttl now] r that assms(4,5) by simp
  ultimately show ?thesis by blast
qed

definition store_env :: "machine_set \<Rightarrow> rotation_env" where
  "store_env ms h q =
     (case q of
        UpdateSet i u \<Rightarrow> if isl (apply_set_update u (replay i ms h)) then Err ''conflict'' else Tried [] None
      | ReadClock \<Rightarrow> Clock (time_unix 100)
      | _ \<Rightarrow> Ok)"

lemma store_serves: "serves (store_env ms) ms"
  by (auto simp: serves_def store_env_def split: if_splits) (metis sum.collapse(2))

definition surged_set :: machine_set where
  "surged_set = (annotate AnnotationSurgePhase (formatSurgePhaseAnnotation waiting_up)
     (lock_set ''g2'' (time_unix 100) (cd_set (example_candidate Surge Map.empty 2 []))))\<lparr>st_allocation := Some (''workers'', 3)\<rparr>"

lemma surged_pass: "surge_pass NewEngine (cd_set (example_candidate Surge Map.empty 2 [])) surged_set"
proof -
  let ?c = "example_candidate Surge Map.empty 2 [stale_at ''a'' 1, stale_at ''b'' 2]"
  have p: "SurgePhase ?c = None" "\<not> HasActiveLock ?c t ttl" for t ttl
    by (simp_all add: SurgePhase_def HasActiveLock_def example_candidate_def)
  have "countStaleProvisioned (StaleRequests ?c) = 2" "StaleRequests ?c \<noteq> []" "FreshCount ?c = 0"
    by (simp_all add: countStaleProvisioned_def StaleRequests_def FreshCount_def example_candidate_def request_at_def)
  then have plan: "Plan ttl (time_unix 100) ?c = decision_zero\<lparr>de_candidate := Some ?c, de_action := ActionSurgeUp, de_next := waiting_up\<rparr>" for ttl
    using example_selectors(4) [of Surge Map.empty 2 "[stale_at ''a'' 1, stale_at ''b'' 2]"]
    by (simp add: Plan_def planSurge_def plan_idle_def p example_selectors stamped_def Let_def waiting_up_def)
      (simp add: example_candidate_def DefaultMinHealthyWorker_def)
  let ?u = "SurgeStep ''g2'' (time_unix 100) waiting_up 1"
  let ?h = "[(ReadClock, Clock (time_unix 100)), (UpdateSet ''ms'' ?u, Tried [] None)]"
  have u: "apply_set_update ?u (cd_set ?c) = Inr surged_set"
    by (simp add: example_candidate_def surged_set_def)
  have "w_hist (snd (run_state (Execute (store_env (cd_set ?c)) NewEngine (Plan ttl (time_unix 100) ?c)) \<lparr>w_hist = [], w_proc = 0\<rparr>)) = ?h" for ttl
    using u by (simp add: plan Execute_def withSurgeStep_def now_read_def update_set_def run_mapE)
      (simp add: store_env_def example_candidate_def)
  moreover have "replay (st_id (cd_set ?c)) (cd_set ?c) ?h = surged_set"
    using u by (simp add: example_candidate_def)
  moreover obtain r w where run: "run_state (Execute (store_env (cd_set ?c)) NewEngine (Plan (en_lockTTL NewEngine) (time_unix 100) ?c))
      \<lparr>w_hist = [], w_proc = 0\<rparr> = (r, w)" by fastforce
  have "st_allocation (cd_set ?c) = Some (''workers'', cd_count ?c)" by (simp add: example_candidate_def)
  from surge_pass.pass [OF refl example_selectors(3) this store_serves run]
  have "surge_pass NewEngine (cd_set ?c) (replay (st_id (cd_set ?c)) (cd_set ?c) (w_hist w))" .
  moreover have "cd_set ?c = cd_set (example_candidate Surge Map.empty 2 [])" by (simp add: example_candidate_def)
  ultimately show ?thesis using run by (metis snd_conv)
qed

theorem surge_count_witness:
  "st_allocation surged_set \<in> {Some (''workers'', 2), Some (''workers'', 3)}"
proof -
  have "reaches (cd_set (example_candidate Surge Map.empty 2 [])) (surge_pass NewEngine) (\<lambda>_. True) surged_set"
    by (rule reaches_step [where ok = "\<lambda>_. True" and step = "surge_pass NewEngine", OF reaches_start TrueI surged_pass])
  from surge_count_restored [OF this, of "''workers''" 2] show ?thesis
    by (simp add: example_candidate_def set_phase_def)
qed

theorem surge_refines_witness: "represents ''workers'' 2 surged_set"
  using surge_refines_cycle [OF surged_pass, of "''workers''" 2]
  by (simp add: represents_def cycle_of_def example_candidate_def set_phase_def)

section \<open>The period of the ticker\<close>

lemma go_rem_bounds: "0 < m \<Longrightarrow> \<bar>go_rem a m\<bar> < m"
proof -
  assume m: "0 < m"
  have "go_rem a m = sgn a * (\<bar>a\<bar> mod m)"
    by (cases "a = 0") (simp_all add: go_rem_def go_div_def m minus_div_mult_eq_mod [symmetric] right_diff_distrib abs_sgn mult.assoc)
  with m show ?thesis by (cases a "0 :: int" rule: linorder_cases) simp_all
qed

text \<open>
  For every configured interval and every outcome of the random generator, the period of
  the ticker is positive and at most a tenth of the interval away from it.
\<close>

theorem ticker_period:
  "let r = NewReconciler digest disc eng interval; j = tickJitter (rn_interval r) rnd
   in second \<le> rn_interval r \<and> 0 < rn_interval r + j \<and> 10 * \<bar>j\<bar> \<le> rn_interval r"
proof -
  let ?i = "rn_interval (NewReconciler digest disc eng interval)"
  have i: "second \<le> ?i" by (simp add: NewReconciler_def RotationRefreshInterval_def second_def)
  then have p: "0 < ?i" by (simp add: second_def)
  have "10 * \<bar>tickJitter ?i rnd\<bar> \<le> ?i"
  proof (cases rnd)
    case (Some bytes)
    have "0 < go_div ?i 10" "10 * go_div ?i 10 \<le> ?i"
      using i by (simp_all add: go_div_nonneg second_def)
    moreover obtain v where "tickJitter ?i rnd = go_rem v (go_div ?i 10)"
      using calculation(1) by (simp add: tickJitter_def Some Let_def)
    moreover have "\<bar>go_rem v (go_div ?i 10)\<bar> < go_div ?i 10" by (rule go_rem_bounds) fact
    ultimately show ?thesis by simp
  qed (use p in \<open>simp add: tickJitter_def\<close>)
  with i p show ?thesis by (simp add: Let_def)
qed

end
