(* ===== verification/CapacityGate.thy ===== *)
theory CapacityGate
  imports RotationPlan Client
begin

text \<open>
  The policy of the autoscaler: the annotations of a machine class
  (internal/autoscaler/annotations.go), the capacity gate (capacity.go) with its TrueNAS adapter
  (adapter.go), and the reading of the rotation lock (rotation_lock.go).
\<close>

section \<open>Annotations\<close>

definition AnnotationAutoscaleMin :: string where "AnnotationAutoscaleMin = ''bearbinary.com/autoscale-min''"
definition AnnotationAutoscaleMax :: string where "AnnotationAutoscaleMax = ''bearbinary.com/autoscale-max''"
definition AnnotationAutoscaleCapacityGate :: string where
  "AnnotationAutoscaleCapacityGate = ''bearbinary.com/autoscale-capacity-gate''"
definition AnnotationAutoscaleMinPoolFreeGiB :: string where
  "AnnotationAutoscaleMinPoolFreeGiB = ''bearbinary.com/autoscale-min-pool-free-gib''"
definition AnnotationAutoscaleMinHostMemGiB :: string where
  "AnnotationAutoscaleMinHostMemGiB = ''bearbinary.com/autoscale-min-host-mem-gib''"
definition AnnotationAutoscalePool :: string where "AnnotationAutoscalePool = ''bearbinary.com/autoscale-pool''"

lemmas autoscale_keys = AnnotationAutoscaleMin_def AnnotationAutoscaleMax_def AnnotationAutoscaleCapacityGate_def
  AnnotationAutoscaleMinPoolFreeGiB_def AnnotationAutoscaleMinHostMemGiB_def AnnotationAutoscalePool_def

datatype capacity_gate = CapacityGateHard | CapacityGateSoft

definition DefaultMinPoolFreeGiB :: int where "DefaultMinPoolFreeGiB = 50"
definition DefaultMinHostMemGiB :: int where "DefaultMinHostMemGiB = 8"

record autoscale_config =
  ac_min :: int
  ac_max :: int
  ac_gate :: capacity_gate
  ac_pool_free :: int
  ac_host_mem :: int
  ac_pool :: string

datatype autoscale_error =
  MissingAnnotation string | BadNumber string | NegativeNumber string | MaxBelowMin int int | BadGate string

definition IsAutoscaleOptIn :: "annotations \<Rightarrow> bool" where
  "IsAutoscaleOptIn a \<longleftrightarrow> a AnnotationAutoscaleMin \<noteq> None \<or> a AnnotationAutoscaleMax \<noteq> None"

definition parseNonNegativeInt :: "string \<Rightarrow> string \<Rightarrow> autoscale_error + int" where
  "parseNonNegativeInt annot raw =
     (case parse_int64 (trim_space raw) of
        None \<Rightarrow> Inl (BadNumber annot)
      | Some n \<Rightarrow> if n < 0 then Inl (NegativeNumber annot) else Inr n)"

definition parseCapacityGate :: "string \<Rightarrow> autoscale_error + capacity_gate" where
  "parseCapacityGate raw =
     (let s = trim_space (to_lower raw)
      in if s = [] then Inr CapacityGateHard
         else if s = ''hard'' then Inr CapacityGateHard
         else if s = ''soft'' then Inr CapacityGateSoft
         else Inl (BadGate s))"

definition parseOptionalGiBThreshold :: "string \<Rightarrow> annotations \<Rightarrow> int \<Rightarrow> autoscale_error + int" where
  "parseOptionalGiBThreshold annot a fallback =
     (case a annot of None \<Rightarrow> Inr fallback | Some raw \<Rightarrow> parseNonNegativeInt annot raw)"

text \<open>\<open>Inr None\<close>: the class has not opted in.\<close>

definition ParseMachineClassAutoscaleConfig :: "annotations \<Rightarrow> autoscale_error + autoscale_config option" where
  "ParseMachineClassAutoscaleConfig a =
     (if \<not> IsAutoscaleOptIn a then Inr None
      else if a AnnotationAutoscaleMin = None then Inl (MissingAnnotation AnnotationAutoscaleMin)
      else if a AnnotationAutoscaleMax = None then Inl (MissingAnnotation AnnotationAutoscaleMax)
      else case parseNonNegativeInt AnnotationAutoscaleMin (annotation a AnnotationAutoscaleMin) of Inl e \<Rightarrow> Inl e
      | Inr lo \<Rightarrow> case parseNonNegativeInt AnnotationAutoscaleMax (annotation a AnnotationAutoscaleMax) of Inl e \<Rightarrow> Inl e
      | Inr hi \<Rightarrow>
          if hi < lo then Inl (MaxBelowMin hi lo)
          else case parseCapacityGate (annotation a AnnotationAutoscaleCapacityGate) of Inl e \<Rightarrow> Inl e
          | Inr gate \<Rightarrow>
            case parseOptionalGiBThreshold AnnotationAutoscaleMinPoolFreeGiB a DefaultMinPoolFreeGiB of Inl e \<Rightarrow> Inl e
          | Inr poolFree \<Rightarrow>
            case parseOptionalGiBThreshold AnnotationAutoscaleMinHostMemGiB a DefaultMinHostMemGiB of Inl e \<Rightarrow> Inl e
          | Inr hostMem \<Rightarrow>
              Inr (Some \<lparr>ac_min = lo, ac_max = hi, ac_gate = gate, ac_pool_free = poolFree, ac_host_mem = hostMem,
                     ac_pool = trim_space (annotation a AnnotationAutoscalePool)\<rparr>))"

definition valid_autoscale :: "autoscale_config \<Rightarrow> bool" where
  "valid_autoscale c \<longleftrightarrow> 0 \<le> ac_min c \<and> ac_min c \<le> ac_max c \<and> ac_max c < 2 ^ 63 \<and>
     0 \<le> ac_pool_free c \<and> ac_pool_free c < 2 ^ 63 \<and> 0 \<le> ac_host_mem c \<and> ac_host_mem c < 2 ^ 63"

lemma parseNonNegativeInt_range: "parseNonNegativeInt k s = Inr n \<Longrightarrow> 0 \<le> n \<and> n < 2 ^ 63"
  by (auto simp: parseNonNegativeInt_def dest: parse_int64_range split: option.splits if_splits)

lemma threshold_range: "parseOptionalGiBThreshold k a d = Inr n \<Longrightarrow> 0 \<le> d \<Longrightarrow> d < 2 ^ 63 \<Longrightarrow> 0 \<le> n \<and> n < 2 ^ 63"
  using parseNonNegativeInt_range by (auto simp: parseOptionalGiBThreshold_def split: option.splits)

lemma parse_autoscale_parts:
  "ParseMachineClassAutoscaleConfig a = Inr (Some c) \<Longrightarrow>
     parseNonNegativeInt AnnotationAutoscaleMin (annotation a AnnotationAutoscaleMin) = Inr (ac_min c) \<and>
     parseNonNegativeInt AnnotationAutoscaleMax (annotation a AnnotationAutoscaleMax) = Inr (ac_max c) \<and> ac_min c \<le> ac_max c \<and>
     parseCapacityGate (annotation a AnnotationAutoscaleCapacityGate) = Inr (ac_gate c) \<and>
     parseOptionalGiBThreshold AnnotationAutoscaleMinPoolFreeGiB a DefaultMinPoolFreeGiB = Inr (ac_pool_free c) \<and>
     parseOptionalGiBThreshold AnnotationAutoscaleMinHostMemGiB a DefaultMinHostMemGiB = Inr (ac_host_mem c) \<and>
     ac_pool c = trim_space (annotation a AnnotationAutoscalePool)"
  by (cases c) (simp add: ParseMachineClassAutoscaleConfig_def split: if_splits sum.splits)

text \<open>
  C33: a configuration that the parser accepts has its bounds in order and every number in the
  range of an \<open>int\<close>, and a class that is not opted in is never an error.
\<close>

theorem autoscale_config_valid:
  "(\<forall>c. ParseMachineClassAutoscaleConfig a = Inr (Some c) \<longrightarrow> valid_autoscale c) \<and>
   (ParseMachineClassAutoscaleConfig a = Inr None \<longleftrightarrow> \<not> IsAutoscaleOptIn a)"
proof
  show "\<forall>c. ParseMachineClassAutoscaleConfig a = Inr (Some c) \<longrightarrow> valid_autoscale c"
  proof (intro allI impI)
    fix c
    assume "ParseMachineClassAutoscaleConfig a = Inr (Some c)"
    note p = parse_autoscale_parts [OF this]
    then show "valid_autoscale c"
      using threshold_range [of AnnotationAutoscaleMinPoolFreeGiB a DefaultMinPoolFreeGiB]
        threshold_range [of AnnotationAutoscaleMinHostMemGiB a DefaultMinHostMemGiB]
        parseNonNegativeInt_range [of AnnotationAutoscaleMin] parseNonNegativeInt_range [of AnnotationAutoscaleMax]
      unfolding valid_autoscale_def DefaultMinPoolFreeGiB_def DefaultMinHostMemGiB_def by fastforce
  qed
  show "ParseMachineClassAutoscaleConfig a = Inr None \<longleftrightarrow> \<not> IsAutoscaleOptIn a"
    by (simp add: ParseMachineClassAutoscaleConfig_def split: sum.split)
qed

definition scaled_annotations :: annotations where
  "scaled_annotations = [AnnotationAutoscaleMin \<mapsto> ''1'', AnnotationAutoscaleMax \<mapsto> '' 5 '', AnnotationAutoscaleCapacityGate \<mapsto> ''SOFT'']"

lemma parse_int64_text: "format_int n = s \<Longrightarrow> int64_value n \<Longrightarrow> parse_int64 s = Some n"
  using int64_codec.decode_encode by blast

lemma parse_examples: "parse_int64 (trim_space ''1'') = Some 1" "parse_int64 (trim_space '' 5 '') = Some 5"
proof -
  have "trim_space ''1'' = ''1''" "format_int 1 = ''1''" "trim_space '' 5 '' = ''5''" "format_int 5 = ''5''" by code_simp+
  then show "parse_int64 (trim_space ''1'') = Some 1" "parse_int64 (trim_space '' 5 '') = Some 5"
    by (simp_all add: parse_int64_text int64_value_def)
qed

definition scaled_config :: autoscale_config where
  "scaled_config = \<lparr>ac_min = 1, ac_max = 5, ac_gate = CapacityGateSoft, ac_pool_free = 50, ac_host_mem = 8, ac_pool = []\<rparr>"

lemma parse_scaled: "ParseMachineClassAutoscaleConfig scaled_annotations = Inr (Some scaled_config)"
proof -
  have "parseCapacityGate ''SOFT'' = Inr CapacityGateSoft" "trim_space [] = []" by code_simp+
  then show ?thesis
    using parse_examples
    by (simp add: ParseMachineClassAutoscaleConfig_def IsAutoscaleOptIn_def scaled_annotations_def annotation_def autoscale_keys
        parseNonNegativeInt_def parseOptionalGiBThreshold_def DefaultMinPoolFreeGiB_def DefaultMinHostMemGiB_def scaled_config_def)
qed

theorem autoscale_config_witness: "valid_autoscale scaled_config"
  using autoscale_config_valid [of scaled_annotations] parse_scaled by blast

section \<open>The capacity gate\<close>

datatype outcome = OutcomeAllowed | OutcomeDeniedHard | OutcomeWarnedSoft | OutcomeErrored

record capacity_decision =
  cy_outcome :: outcome
  cy_reason :: string

definition Allowed :: "capacity_decision \<Rightarrow> bool" where
  "Allowed d \<longleftrightarrow> cy_outcome d = OutcomeAllowed \<or> cy_outcome d = OutcomeWarnedSoft"

definition bytesPerGiB :: int where "bytesPerGiB = 1024 * 1024 * 1024"

text \<open>The verb \<open>%q\<close> on printable ASCII.\<close>

definition quote :: "string \<Rightarrow> string" where
  "quote s = CHR 0x22 # concat (map (\<lambda>c. if c = CHR 0x22 \<or> c = CHR 0x5C then [CHR 0x5C, c] else [c]) s) @ [CHR 0x22]"

text \<open>
  The interface \<open>CapacityQuery\<close> is two programs; \<open>text\<close> is the message of an error.
\<close>

definition checkPool ::
  "(string \<Rightarrow> ('q, 'r, 'p, 'e + int) prog) \<Rightarrow> ('e \<Rightarrow> string) \<Rightarrow> string \<Rightarrow> int \<Rightarrow> ('q, 'r, 'p, string \<times> outcome) prog" where
  "checkPool poolFree msg pool thresholdGiB = do {
     r \<leftarrow> poolFree pool;
     ret (case r of
            Inl e \<Rightarrow> (''pool '' @ quote pool @ '' capacity query failed: '' @ msg e, OutcomeErrored)
          | Inr free \<Rightarrow>
              if i64 (thresholdGiB * bytesPerGiB) \<le> free then ([], OutcomeAllowed)
              else (''pool '' @ quote pool @ '' free '' @ format_int (go_div free bytesPerGiB) @ '' GiB < threshold '' @
                      format_int thresholdGiB @ '' GiB'', OutcomeAllowed)) }"

definition checkHostMem ::
  "('q, 'r, 'p, 'e + int) prog \<Rightarrow> ('e \<Rightarrow> string) \<Rightarrow> int \<Rightarrow> ('q, 'r, 'p, string \<times> outcome) prog" where
  "checkHostMem hostFree msg thresholdGiB = do {
     r \<leftarrow> hostFree;
     ret (case r of
            Inl e \<Rightarrow> (''host memory capacity query failed: '' @ msg e, OutcomeErrored)
          | Inr free \<Rightarrow>
              if i64 (thresholdGiB * bytesPerGiB) \<le> free then ([], OutcomeAllowed)
              else (''host free memory '' @ format_int (go_div free bytesPerGiB) @ '' GiB < threshold '' @
                      format_int thresholdGiB @ '' GiB'', OutcomeAllowed)) }"

fun joinReasons :: "string list \<Rightarrow> string" where
  "joinReasons [] = []"
| "joinReasons [r] = r"
| "joinReasons (r # rs) = r @ ''; '' @ joinReasons rs"

definition decide :: "autoscale_config \<Rightarrow> string list \<Rightarrow> capacity_decision" where
  "decide cfg reasons =
     (if reasons = [] then \<lparr>cy_outcome = OutcomeAllowed, cy_reason = []\<rparr>
      else if ac_gate cfg = CapacityGateSoft then \<lparr>cy_outcome = OutcomeWarnedSoft, cy_reason = joinReasons reasons\<rparr>
      else \<lparr>cy_outcome = OutcomeDeniedHard, cy_reason = joinReasons reasons\<rparr>)"

text \<open>One half of the gate: \<open>Inl\<close> ends the check, \<open>Inr\<close> adds at most one reason.\<close>

definition gate_half :: "int \<Rightarrow> ('q, 'r, 'p, string \<times> outcome) prog \<Rightarrow> ('q, 'r, 'p, capacity_decision + string list) prog" where
  "gate_half threshold check =
     (if 0 < threshold then do {
        (reason, oc) \<leftarrow> check;
        ret (if oc = OutcomeErrored then Inl \<lparr>cy_outcome = OutcomeErrored, cy_reason = reason\<rparr>
             else Inr (if reason = [] then [] else [reason])) }
      else ret (Inr []))"

definition CheckCapacity ::
  "(string \<Rightarrow> ('q, 'r, 'p, 'e + int) prog) \<Rightarrow> ('q, 'r, 'p, 'e + int) prog \<Rightarrow> ('e \<Rightarrow> string) \<Rightarrow>
   autoscale_config \<Rightarrow> string \<Rightarrow> ('q, 'r, 'p, capacity_decision) prog" where
  "CheckCapacity poolFree hostFree msg cfg pool = do {
     p \<leftarrow> gate_half (ac_pool_free cfg) (checkPool poolFree msg pool (ac_pool_free cfg));
     case p of
       Inl d \<Rightarrow> ret d
     | Inr rs \<Rightarrow> do {
         m \<leftarrow> gate_half (ac_host_mem cfg) (checkHostMem hostFree msg (ac_host_mem cfg));
         ret (case m of Inl d \<Rightarrow> d | Inr ms \<Rightarrow> decide cfg (rs @ ms)) } }"

section \<open>The TrueNAS adapter\<close>

definition PoolFreeBytes :: "server \<Rightarrow> string \<Rightarrow> ('p, go_error + int) client" where
  "PoolFreeBytes srv pool = do {
     r \<leftarrow> ListPools srv;
     ret (case r of
            Inl e \<Rightarrow> Inl (Wrapped ''list pools: '' e)
          | Inr ps \<Rightarrow>
              (case List.find (\<lambda>p. pi_name p = pool) ps of
                 None \<Rightarrow> Inl (Errorf ''pool: not found on TrueNAS host'')
               | Some p \<Rightarrow> Inr (pi_free p))) }"

definition HostFreeMemoryBytes :: "('p, go_error + int) client" where
  "HostFreeMemoryBytes = ret (Inl (Errorf ''host free memory query not implemented yet''))"

section \<open>Labels of denials (metrics.go)\<close>

definition ReasonPoolFreeLow :: string where "ReasonPoolFreeLow = ''pool_free_low''"
definition ReasonHostMemLow :: string where "ReasonHostMemLow = ''host_mem_low''"
definition ReasonQueryFailed :: string where "ReasonQueryFailed = ''query_failed''"

definition contains_fold :: "string \<Rightarrow> string \<Rightarrow> bool" where
  "contains_fold haystack needle = contains (to_lower haystack) (to_lower needle)"

definition categorizeDenialReason :: "string \<Rightarrow> string" where
  "categorizeDenialReason reason =
     (if contains_fold reason ''host'' then ReasonHostMemLow
      else if contains_fold reason ''query failed'' then ReasonQueryFailed
      else ReasonPoolFreeLow)"

section \<open>The rotation lock, as the autoscaler reads it\<close>

definition rotationLockAnnotation :: string where "rotationLockAnnotation = ''node-rotation.omni/rotation-state''"
definition rotationLockTTL :: int where "rotationLockTTL = 5 * 60 * second"

definition isRotationLockActive :: "string \<Rightarrow> go_time \<Rightarrow> int \<Rightarrow> bool" where
  "isRotationLockActive raw now ttl =
     (case splitn 2 (CHR '':'') raw of
        [gen, ts] \<Rightarrow>
          (case parse_int64 ts of
             None \<Rightarrow> False
           | Some secs \<Rightarrow> if secs < 0 then False else time_sub now (time_unix secs) < ttl)
      | _ \<Rightarrow> False)"

section \<open>What the gate lets through\<close>

text \<open>
  The interface of the gate: two programs that make only harmless requests. The gate makes no
  others, so it can be asked at any time.
\<close>

locale capacity_query =
  fixes harmless :: "'q \<Rightarrow> bool"
    and poolFree :: "string \<Rightarrow> ('q, 'r, 'p, 'e + int) prog"
    and hostFree :: "('q, 'r, 'p, 'e + int) prog"
  assumes pool_harmless: "emits (\<lambda>q r. harmless q) (poolFree pool)"
    and host_harmless: "emits (\<lambda>q r. harmless q) hostFree"
begin

lemma gate_harmless: "emits (\<lambda>q r. harmless q) (CheckCapacity poolFree hostFree msg cfg pool)"
  unfolding CheckCapacity_def gate_half_def checkPool_def checkHostMem_def
  by (intro emits_intros pool_harmless host_harmless)

end

text \<open>What one answer of a query means for a threshold.\<close>

definition enough :: "int \<Rightarrow> 'e + int \<Rightarrow> bool" where
  "enough threshold r \<longleftrightarrow> (case r of Inl e \<Rightarrow> False | Inr free \<Rightarrow> i64 (threshold * bytesPerGiB) \<le> free)"

definition answered :: "'e + int \<Rightarrow> bool" where
  "answered r \<longleftrightarrow> (case r of Inl e \<Rightarrow> False | Inr n \<Rightarrow> True)"

text \<open>The two queries of a check, when both halves are switched on.\<close>

lemma run_gate_pool:
  "run_state (gate_half t (checkPool poolFree msg pool t)) w =
     (if 0 < t then case run_state (poolFree pool) w of (r, w') \<Rightarrow>
        (if \<not> answered r then Inl \<lparr>cy_outcome = OutcomeErrored, cy_reason = fst (fst (run_state (checkPool poolFree msg pool t) w))\<rparr>
         else Inr (if enough t r then [] else [fst (fst (run_state (checkPool poolFree msg pool t) w))]), w')
      else (Inr [], w))"
  by (auto simp: gate_half_def checkPool_def answered_def enough_def split: prod.splits sum.splits)

lemma run_gate_host:
  "run_state (gate_half t (checkHostMem hostFree msg t)) w =
     (if 0 < t then case run_state hostFree w of (r, w') \<Rightarrow>
        (if \<not> answered r then Inl \<lparr>cy_outcome = OutcomeErrored, cy_reason = fst (fst (run_state (checkHostMem hostFree msg t) w))\<rparr>
         else Inr (if enough t r then [] else [fst (fst (run_state (checkHostMem hostFree msg t) w))]), w')
      else (Inr [], w))"
  by (auto simp: gate_half_def checkHostMem_def answered_def enough_def split: prod.splits sum.splits)

text \<open>
  The gate, for any source of the numbers. A query that is made and fails is never
  allowed; a threshold that is not met is allowed only by a soft gate; and the gate refuses
  nothing else. The thresholds are compared after a multiplication that wraps at 64 bits.
\<close>

theorem gate_decision:
  "let (p, w1) = (if 0 < ac_pool_free cfg then run_state (poolFree pool) w else (Inr 0, w));
       (m, w2) = (if 0 < ac_host_mem cfg then run_state hostFree w1 else (Inr 0, w1))
   in Allowed (fst (run_state (CheckCapacity poolFree hostFree msg cfg pool) w)) \<longleftrightarrow>
     answered p \<and> answered m \<and>
     (ac_gate cfg = CapacityGateSoft \<or>
        (0 < ac_pool_free cfg \<longrightarrow> enough (ac_pool_free cfg) p) \<and> (0 < ac_host_mem cfg \<longrightarrow> enough (ac_host_mem cfg) m))"
  by (auto simp: CheckCapacity_def run_gate_pool run_gate_host Allowed_def decide_def answered_def enough_def
      split: prod.splits sum.splits if_splits)

definition full_pool :: "string \<Rightarrow> (unit, unit, unit, unit + int) prog" where
  "full_pool pool = ret (Inr 0)"

theorem gate_decision_witness:
  "\<not> Allowed (fst (run_state (CheckCapacity full_pool (ret (Inl ())) (\<lambda>e. []) (scaled_config\<lparr>ac_gate := CapacityGateHard\<rparr>) [])
     \<lparr>w_hist = [], w_proc = ()\<rparr>))"
  using gate_decision [of "scaled_config\<lparr>ac_gate := CapacityGateHard\<rparr>" full_pool "[]" "\<lparr>w_hist = [], w_proc = ()\<rparr>" "ret (Inl ())" "\<lambda>e. []"]
  by (simp add: scaled_config_def full_pool_def answered_def enough_def)

definition pool_read :: "op \<Rightarrow> bool" where
  "pool_read q \<longleftrightarrow> q = PoolList \<or> (\<exists>name. q = DatasetGet name)"

interpretation adapter: capacity_query pool_read "PoolFreeBytes srv" HostFreeMemoryBytes for srv
proof
  have "emits (\<lambda>q r. pool_read q) (pools_of_raw srv rps)" for rps
    by (induction rps) (auto simp: getRootDatasetSpace_def pool_read_def intro!: emits_intros)
  then show "emits (\<lambda>q r. pool_read q) (PoolFreeBytes srv pool)" for pool
    unfolding PoolFreeBytes_def ListPools_def by (auto simp: pool_read_def intro!: emits_intros)
  show "emits (\<lambda>q r. pool_read q) HostFreeMemoryBytes"
    unfolding HostFreeMemoryBytes_def by (intro emits_intros)
qed

lemma pools_without_space:
  assumes "\<And>h name. isl (dec_dataset (srv h (DatasetGet name)))"
  shows "fst (run_state (pools_of_raw srv rps) w) =
    map (\<lambda>rp. \<lparr>pi_id = rp_id rp, pi_name = rp_name rp, pi_healthy = rp_healthy rp, pi_status = rp_status rp,
       pi_size = rp_size rp, pi_free = rp_size rp, pi_used = 0\<rparr>) rps"
proof (induction rps arbitrary: w)
  case (Cons rp rps)
  obtain e where "dec_dataset (srv (w_hist w) (DatasetGet (rp_name rp))) = Inl e"
    using assms [of "w_hist w" "rp_name rp"] by (auto simp: isl_def)
  with Cons show ?case by (simp add: getRootDatasetSpace_def pool_of_raw_def case_prod_beta Let_def)
qed simp

lemma PoolFreeBytes_without_space:
  assumes "\<And>h name. isl (dec_dataset (srv h (DatasetGet name)))" and "dec_pools (srv (w_hist w) PoolList) = Inr rps"
    and "List.find (\<lambda>rp. rp_name rp = pool) rps = Some rp"
  shows "fst (run_state (PoolFreeBytes srv pool) w) = Inr (rp_size rp)"
proof -
  let ?f = "\<lambda>rp. \<lparr>pi_id = rp_id rp, pi_name = rp_name rp, pi_healthy = rp_healthy rp, pi_status = rp_status rp,
       pi_size = rp_size rp, pi_free = rp_size rp, pi_used = 0\<rparr>"
  have "List.find (\<lambda>p. pi_name p = pool) (map ?f rps) = map_option ?f (List.find (\<lambda>rp. rp_name rp = pool) rps)"
    by (induction rps) auto
  with assms(2,3) show ?thesis
    by (simp add: PoolFreeBytes_def ListPools_def pools_without_space [where srv = srv, OF assms(1)] case_prod_beta)
qed

text \<open>
  The gate fails open when the space of the root dataset cannot be read. The client then
  reports the raw size of the pool as its free space, so a hard gate allows a scale-up on a pool
  that is large enough, however full it is.
\<close>

theorem gate_fails_open:
  assumes "\<And>h name. isl (dec_dataset (srv h (DatasetGet name)))" and "dec_pools (srv (w_hist w) PoolList) = Inr rps"
    and "List.find (\<lambda>rp. rp_name rp = pool) rps = Some rp"
    and "ac_host_mem cfg = 0" and "i64 (ac_pool_free cfg * bytesPerGiB) \<le> rp_size rp"
  shows "Allowed (fst (run_state (CheckCapacity (PoolFreeBytes srv) HostFreeMemoryBytes msg cfg pool) w))"
proof -
  obtain p w1 where r: "run_state (PoolFreeBytes srv pool) w = (p, w1)" by fastforce
  then have "p = Inr (rp_size rp)" using PoolFreeBytes_without_space [where srv = srv, OF assms(1-3)] by simp
  with r assms(4,5) show ?thesis
    using gate_decision [of cfg "PoolFreeBytes srv" pool w "HostFreeMemoryBytes" msg]
    by (auto simp: answered_def enough_def split: if_splits)
qed

definition hard_gate :: "int \<Rightarrow> int \<Rightarrow> autoscale_config" where
  "hard_gate p m = \<lparr>ac_min = 1, ac_max = 5, ac_gate = CapacityGateHard, ac_pool_free = p, ac_host_mem = m, ac_pool = []\<rparr>"

definition blind_server :: server where
  "blind_server h q =
     (case q of
        PoolList \<Rightarrow> Inr (RPools [\<lparr>rp_id = 1, rp_name = ''tank'', rp_healthy = True, rp_status = ''ONLINE'', rp_size = 2 ^ 40\<rparr>])
      | _ \<Rightarrow> Inl (TransportError ''timeout''))"

theorem gate_fails_open_witness:
  "Allowed (fst (run_state (CheckCapacity (PoolFreeBytes blind_server) HostFreeMemoryBytes (\<lambda>e. []) (hard_gate 50 0) ''tank'')
     \<lparr>w_hist = [], w_proc = ()\<rparr>))"
  by (rule gate_fails_open [where rps = "[\<lparr>rp_id = 1, rp_name = ''tank'', rp_healthy = True, rp_status = ''ONLINE'', rp_size = 2 ^ 40\<rparr>]"
        and rp = "\<lparr>rp_id = 1, rp_name = ''tank'', rp_healthy = True, rp_status = ''ONLINE'', rp_size = 2 ^ 40\<rparr>"])
    (simp_all add: blind_server_def hard_gate_def bytesPerGiB_def i64_def)

text \<open>
  With the TrueNAS adapter no scale-up of a class with a memory threshold is ever allowed,
  not even by a soft gate: the memory query always fails. The threshold is 8 GiB when its
  annotation is absent.
\<close>

theorem memory_gate_never_opens:
  assumes "0 < ac_host_mem cfg"
  shows "\<not> Allowed (fst (run_state (CheckCapacity (PoolFreeBytes srv) HostFreeMemoryBytes msg cfg pool) w))"
  using gate_decision [of cfg "PoolFreeBytes srv" pool w "HostFreeMemoryBytes" msg] assms
  by (auto simp: HostFreeMemoryBytes_def answered_def split: prod.splits)

theorem memory_gate_witness:
  "\<not> Allowed (fst (run_state (CheckCapacity (PoolFreeBytes (\<lambda>h q. Inl DecodeError)) HostFreeMemoryBytes (\<lambda>e. [])
      ((hard_gate 0 8)\<lparr>ac_gate := CapacityGateSoft\<rparr>) ''tank'') \<lparr>w_hist = [], w_proc = ()\<rparr>))"
  by (rule memory_gate_never_opens) (simp add: hard_gate_def)

section \<open>The lock, on both sides\<close>

lemma splitn2: "splitn 2 c s = (case cut_char c s of None \<Rightarrow> [s] | Some (a, b) \<Rightarrow> [a, b])"
  by (simp add: numeral_2_eq_2 split: option.split)

text \<open>
  On every annotation value and at every time the autoscaler and the rotation engine agree
  whether a lock is active, when they use the same time to live, except for time stamps before
  1970, which only the autoscaler rejects.
\<close>

theorem lock_readers_agree:
  assumes "st_annotations (cd_set c) rotationLockAnnotation = Some raw"
  shows "isRotationLockActive raw now ttl \<longleftrightarrow>
    HasActiveLock c now ttl \<and>
      (\<forall>gen rest secs. cut_char (CHR '':'') raw = Some (gen, rest) \<and> parse_int64 rest = Some secs \<longrightarrow> 0 \<le> secs)"
proof -
  have "AnnotationRotationState = rotationLockAnnotation"
    by (simp add: AnnotationRotationState_def rotationLockAnnotation_def)
  with assms show ?thesis
    by (auto simp: isRotationLockActive_def HasActiveLock_def parseRotationStateAnnotation_def splitn2 split: option.splits)
qed

theorem lock_readers_witness:
  "isRotationLockActive ''g:x'' time_zero rotationLockTTL \<longleftrightarrow>
     HasActiveLock (example_candidate Surge [rotationLockAnnotation \<mapsto> ''g:x''] 2 []) time_zero rotationLockTTL"
proof -
  have "cut_char (CHR '':'') ''g:x'' = Some (''g'', ''x'')" "parse_int64 ''x'' = None" by code_simp+
  with lock_readers_agree [of "example_candidate Surge [rotationLockAnnotation \<mapsto> ''g:x''] 2 []" "''g:x''" time_zero rotationLockTTL]
  show ?thesis by (simp add: example_candidate_def)
qed

text \<open>A lock that the engine has written at a time is active for the autoscaler until its end.\<close>

lemma written_lock_active:
  assumes "CHR '':'' \<notin> set gen" and "0 \<le> time_to_unix t" and "time_sub now (time_unix (time_to_unix t)) < ttl"
  shows "isRotationLockActive (formatRotationStateAnnotation (gen, t)) now ttl"
  using assms by (simp add: isRotationLockActive_def formatRotationStateAnnotation_def splitn2 int64_codec.decode_encode [OF unix_int64])

end
