(* ===== verification/Autoscaler.thy ===== *)
theory Autoscaler
  imports CapacityGate RotationEngine
begin

text \<open>
  The autoscaler's node groups, scale-up writes and gRPC handlers
  (internal/autoscaler/discovery.go, writer.go, server.go, and the labels of metrics.go), against
  the Omni state service and any capacity source.
\<close>

section \<open>Requests\<close>

text \<open>
  \<open>UpdateCount i hi delta\<close> is \<open>StateUpdateWithConflicts\<close> on the set \<open>i\<close> with
  the closure of \<open>IncreaseMachineCount\<close>; its answer has the clock readings and the sets on
  which the closure ran, one per try, and the error of the last try.
\<close>

datatype scale_op =
    ListClusterSets string
  | GetClass string
  | UpdateCount string int int
  | ScaleClock
  | FreePool string
  | FreeMemory

datatype scale_answer =
    ClusterSets "machine_set list"
  | Class machine_class
  | CountTries "(go_time \<times> machine_set) list" "string option"
  | ScaleTime go_time
  | Bytes int
  | ScaleErr string

fun answer_cluster_sets :: "scale_answer \<Rightarrow> string + machine_set list" where
  "answer_cluster_sets (ClusterSets ms) = Inr ms" | "answer_cluster_sets (ScaleErr e) = Inl e" | "answer_cluster_sets _ = Inl []"

fun answer_class :: "scale_answer \<Rightarrow> string + machine_class" where
  "answer_class (Class c) = Inr c" | "answer_class (ScaleErr e) = Inl e" | "answer_class _ = Inl []"

fun answer_scale_time :: "scale_answer \<Rightarrow> go_time" where
  "answer_scale_time (ScaleTime t) = t" | "answer_scale_time _ = time_zero"

fun answer_bytes :: "scale_answer \<Rightarrow> string + int" where
  "answer_bytes (Bytes n) = Inr n" | "answer_bytes (ScaleErr e) = Inl e" | "answer_bytes _ = Inl []"

text \<open>The process keeps the labels that its counter of scale-up requests has recorded.\<close>

type_synonym scale_env = "(scale_op, scale_answer) env"
type_synonym 'a scaling = "(scale_op, scale_answer, string list, 'a) prog"

section \<open>Discovery (discovery.go)\<close>

record node_group =
  ng_id :: string
  ng_class :: string
  ng_pool :: string
  ng_size :: int
  ng_config :: "autoscale_config option"

datatype classify_error = NotStatic | ClassError string | AnnotationsError autoscale_error

text \<open>\<open>Inr None\<close>: the set is not scaled by this service.\<close>

definition group_of :: "machine_set \<Rightarrow> go_time \<Rightarrow> string \<Rightarrow> int \<Rightarrow> autoscale_config \<Rightarrow> node_group" where
  "group_of ms now name current cfg =
     (let paused = (case st_annotations ms rotationLockAnnotation of
                      None \<Rightarrow> False
                    | Some raw \<Rightarrow> isRotationLockActive raw now rotationLockTTL)
      in \<lparr>ng_id = st_id ms, ng_class = name, ng_pool = ac_pool cfg, ng_size = current,
          ng_config = Some (if paused then cfg\<lparr>ac_min := current, ac_max := current\<rparr> else cfg)\<rparr>)"

definition classify_set :: "scale_env \<Rightarrow> machine_set \<Rightarrow> go_time \<Rightarrow> (classify_error + node_group option) scaling" where
  "classify_set env ms now =
     (if st_control_plane ms then ret (Inr None)
      else case st_allocation ms of
        None \<Rightarrow> ret (Inr None)
      | Some (name, n) \<Rightarrow>
          if \<not> st_static ms then ret (Inl NotStatic)
          else do {
            a \<leftarrow> ask env (GetClass name);
            case answer_class a of
              Inl e \<Rightarrow> ret (Inl (ClassError e))
            | Inr mc \<Rightarrow>
                (case ParseMachineClassAutoscaleConfig (kc_annotations mc) of
                   Inl e \<Rightarrow> ret (Inl (AnnotationsError e))
                 | Inr None \<Rightarrow> ret (Inr None)
                 | Inr (Some cfg) \<Rightarrow> ret (Inr (Some (group_of ms now name n cfg)))) })"

fun classify_sets :: "scale_env \<Rightarrow> go_time \<Rightarrow> machine_set list \<Rightarrow> node_group list scaling" where
  "classify_sets env now [] = ret []"
| "classify_sets env now (ms # sets) = do {
     g \<leftarrow> classify_set env ms now;
     gs \<leftarrow> classify_sets env now sets;
     ret (case g of Inr (Some x) \<Rightarrow> x # gs | _ \<Rightarrow> gs) }"

definition DiscoverGroups :: "scale_env \<Rightarrow> string \<Rightarrow> (string + node_group list) scaling" where
  "DiscoverGroups env cluster = do {
     a \<leftarrow> ask env (ListClusterSets cluster);
     case answer_cluster_sets a of
       Inl e \<Rightarrow> ret (Inl e)
     | Inr sets \<Rightarrow> do {
         t \<leftarrow> ask env ScaleClock;
         gs \<leftarrow> classify_sets env (answer_scale_time t) sets;
         ret (Inr gs) } }"

section \<open>The write (writer.go)\<close>

datatype scale_error =
    DeltaNotPositive
  | MissingConfig
  | ErrAtOrAboveMax
  | ErrRotationLockHeld
  | AllocationMissing
  | UpdateError string

text \<open>The closure, on the live set and the live clock. Counts are stored as \<open>uint32\<close>.\<close>

definition scale_update :: "int \<Rightarrow> int \<Rightarrow> go_time \<Rightarrow> machine_set \<Rightarrow> scale_error + machine_set" where
  "scale_update hi delta now ms =
     (case st_allocation ms of
        None \<Rightarrow> Inl AllocationMissing
      | Some (name, n) \<Rightarrow>
          if (case st_annotations ms rotationLockAnnotation of
                None \<Rightarrow> False
              | Some raw \<Rightarrow> isRotationLockActive raw now rotationLockTTL)
          then Inl ErrRotationLockHeld
          else if hi < n + delta then Inl ErrAtOrAboveMax
          else Inr (ms\<lparr>st_allocation := Some (name, u32 (n + delta))\<rparr>))"

fun run_tries :: "int \<Rightarrow> int \<Rightarrow> (go_time \<times> machine_set) list \<Rightarrow> (scale_error + machine_set) option" where
  "run_tries hi delta [] = None"
| "run_tries hi delta ((now, ms) # ts) =
     (case scale_update hi delta now ms of
        Inl e \<Rightarrow> Some (Inl e)
      | Inr ms' \<Rightarrow> (case run_tries hi delta ts of None \<Rightarrow> Some (Inr ms') | Some r \<Rightarrow> Some r))"

fun answer_count :: "int \<Rightarrow> int \<Rightarrow> scale_answer \<Rightarrow> scale_error + machine_set" where
  "answer_count hi delta (CountTries ts e) =
     (case run_tries hi delta ts of
        Some (Inl x) \<Rightarrow> Inl x
      | Some (Inr ms) \<Rightarrow> (case e of None \<Rightarrow> Inr ms | Some x \<Rightarrow> Inl (UpdateError x))
      | None \<Rightarrow> Inl (UpdateError (case e of None \<Rightarrow> [] | Some x \<Rightarrow> x)))"
| "answer_count hi delta (ScaleErr e) = Inl (UpdateError e)"
| "answer_count hi delta _ = Inl (UpdateError [])"

definition IncreaseMachineCount :: "scale_env \<Rightarrow> node_group \<Rightarrow> int \<Rightarrow> (scale_error + int) scaling" where
  "IncreaseMachineCount env g delta =
     (if delta \<le> 0 then ret (Inl DeltaNotPositive)
      else case ng_config g of
        None \<Rightarrow> ret (Inl MissingConfig)
      | Some cfg \<Rightarrow>
          if ac_max cfg < ng_size g + delta then ret (Inl ErrAtOrAboveMax)
          else do {
            a \<leftarrow> ask env (UpdateCount (ng_id g) (ac_max cfg) delta);
            ret (map_sum id (\<lambda>ms. case st_allocation ms of None \<Rightarrow> 0 | Some (name, n) \<Rightarrow> n)
                   (answer_count (ac_max cfg) delta a)) })"

section \<open>The server (server.go)\<close>

datatype code = Unimplemented | InvalidArgument | Unavailable | NotFound | ResourceExhausted | FailedPrecondition

text \<open>The parts of the server that may be missing: discovery, the writer, and the gate.\<close>

record scale_server =
  ss_discoverer :: "string option"
  ss_writer :: bool
  ss_gate :: bool
  ss_default_pool :: string

definition NewServer :: "bool \<Rightarrow> string option \<Rightarrow> bool \<Rightarrow> scale_server" where
  "NewServer gate discoverer writer =
     \<lparr>ss_discoverer = discoverer, ss_writer = writer, ss_gate = gate, ss_default_pool = []\<rparr>"

definition WithDefaultPool :: "string \<Rightarrow> scale_server \<Rightarrow> scale_server" where
  "WithDefaultPool pool s = s\<lparr>ss_default_pool := pool\<rparr>"

definition ResultSucceeded :: string where "ResultSucceeded = ''succeeded''"
definition ResultDeniedCapacity :: string where "ResultDeniedCapacity = ''denied_capacity''"
definition ResultRejectedBounds :: string where "ResultRejectedBounds = ''rejected_bounds''"
definition ResultRejectedInvalid :: string where "ResultRejectedInvalid = ''rejected_invalid''"
definition ResultRejectedNotFound :: string where "ResultRejectedNotFound = ''rejected_not_found''"
definition ResultDeferredRotation :: string where "ResultDeferredRotation = ''deferred_rotation''"
definition ResultErroredInternal :: string where "ResultErroredInternal = ''errored_internal''"

definition recordScaleUpResult :: "string \<Rightarrow> unit scaling" where
  "recordScaleUpResult r = modify_proc (\<lambda>ls. ls @ [r])"

definition mapWriterError :: "scale_error \<Rightarrow> string \<times> code" where
  "mapWriterError e =
     (case e of
        ErrAtOrAboveMax \<Rightarrow> (ResultRejectedBounds, ResourceExhausted)
      | ErrRotationLockHeld \<Rightarrow> (ResultDeferredRotation, FailedPrecondition)
      | _ \<Rightarrow> (ResultErroredInternal, Unavailable))"

definition record_and_fail :: "string \<Rightarrow> code \<Rightarrow> (code + 'a) scaling" where
  "record_and_fail r c = do { recordScaleUpResult r; ret (Inl c) }"

definition free_pool :: "scale_env \<Rightarrow> string \<Rightarrow> (string + int) scaling" where
  "free_pool env pool = do { a \<leftarrow> ask env (FreePool pool); ret (answer_bytes a) }"

definition free_memory :: "scale_env \<Rightarrow> (string + int) scaling" where
  "free_memory env = do { a \<leftarrow> ask env FreeMemory; ret (answer_bytes a) }"

definition capacity_read :: "scale_op \<Rightarrow> bool" where
  "capacity_read q \<longleftrightarrow> q = FreeMemory \<or> (\<exists>pool. q = FreePool pool)"

interpretation source: capacity_query capacity_read "free_pool env" "free_memory env" for env
  by unfold_locales (auto simp: free_pool_def free_memory_def capacity_read_def intro!: emits_intros)

definition evaluateCapacityGate :: "scale_env \<Rightarrow> scale_server \<Rightarrow> node_group \<Rightarrow> autoscale_config \<Rightarrow> (code + unit) scaling" where
  "evaluateCapacityGate env s g cfg =
     (if \<not> ss_gate s then ret (Inr ())
      else do {
        d \<leftarrow> CheckCapacity (free_pool env) (free_memory env) (\<lambda>e. e) cfg
               (if ng_pool g = [] then ss_default_pool s else ng_pool g);
        case cy_outcome d of
          OutcomeDeniedHard \<Rightarrow> record_and_fail ResultDeniedCapacity ResourceExhausted
        | OutcomeErrored \<Rightarrow> record_and_fail ResultErroredInternal Unavailable
        | OutcomeWarnedSoft \<Rightarrow> ret (Inr ())
        | OutcomeAllowed \<Rightarrow> ret (Inr ()) })"

record proto_group =
  pg_id :: string
  pg_min :: int
  pg_max :: int

text \<open>The text for debugging is left out of the message.\<close>

definition toProtoNodeGroup :: "node_group \<Rightarrow> proto_group option" where
  "toProtoNodeGroup g =
     map_option (\<lambda>cfg. \<lparr>pg_id = ng_id g, pg_min = i32 (ac_min cfg), pg_max = i32 (ac_max cfg)\<rparr>) (ng_config g)"

definition NodeGroups :: "scale_env \<Rightarrow> scale_server \<Rightarrow> (code + proto_group list) scaling" where
  "NodeGroups env s =
     (case ss_discoverer s of
        None \<Rightarrow> ret (Inl Unimplemented)
      | Some cluster \<Rightarrow> do {
          r \<leftarrow> DiscoverGroups env cluster;
          ret (case r of Inl e \<Rightarrow> Inl Unavailable | Inr gs \<Rightarrow> Inr (List.map_filter toProtoNodeGroup gs)) })"

definition NodeGroupForNode :: "scale_server \<Rightarrow> bool \<Rightarrow> (code + proto_group option) scaling" where
  "NodeGroupForNode s has_node =
     ret (if ss_discoverer s = None then Inl Unimplemented
          else if \<not> has_node then Inl InvalidArgument else Inr None)"

definition NodeGroupTargetSize :: "scale_env \<Rightarrow> scale_server \<Rightarrow> string \<Rightarrow> (code + int) scaling" where
  "NodeGroupTargetSize env s i =
     (case ss_discoverer s of
        None \<Rightarrow> ret (Inl Unimplemented)
      | Some cluster \<Rightarrow>
          if i = [] then ret (Inl InvalidArgument)
          else do {
            r \<leftarrow> DiscoverGroups env cluster;
            ret (case r of
                   Inl e \<Rightarrow> Inl Unavailable
                 | Inr gs \<Rightarrow> (case List.find (\<lambda>g. ng_id g = i) gs of
                                None \<Rightarrow> Inl NotFound
                              | Some g \<Rightarrow> Inr (i32 (ng_size g)))) })"

definition increase_group :: "scale_env \<Rightarrow> scale_server \<Rightarrow> node_group \<Rightarrow> int \<Rightarrow> (code + unit) scaling" where
  "increase_group env s g delta =
     bindE (case ng_config g of None \<Rightarrow> ret (Inr ()) | Some cfg \<Rightarrow> evaluateCapacityGate env s g cfg) (\<lambda>_. do {
       r \<leftarrow> IncreaseMachineCount env g delta;
       case r of
         Inl e \<Rightarrow> record_and_fail (fst (mapWriterError e)) (snd (mapWriterError e))
       | Inr n \<Rightarrow> do { recordScaleUpResult ResultSucceeded; ret (Inr ()) } })"

definition NodeGroupIncreaseSize :: "scale_env \<Rightarrow> scale_server \<Rightarrow> string \<Rightarrow> int \<Rightarrow> (code + unit) scaling" where
  "NodeGroupIncreaseSize env s i delta =
     (case ss_discoverer s of
        None \<Rightarrow> record_and_fail ResultErroredInternal Unimplemented
      | Some cluster \<Rightarrow>
          if \<not> ss_writer s then record_and_fail ResultErroredInternal Unimplemented
          else if i = [] then record_and_fail ResultRejectedInvalid InvalidArgument
          else if delta \<le> 0 then record_and_fail ResultRejectedInvalid InvalidArgument
          else do {
            r \<leftarrow> DiscoverGroups env cluster;
            case r of
              Inl e \<Rightarrow> record_and_fail ResultErroredInternal Unavailable
            | Inr gs \<Rightarrow>
                (case List.find (\<lambda>g. ng_id g = i) gs of
                   None \<Rightarrow> record_and_fail ResultRejectedNotFound NotFound
                 | Some g \<Rightarrow> increase_group env s g delta) })"

definition NodeGroupDecreaseTargetSize :: "string \<Rightarrow> int \<Rightarrow> (code + unit) scaling" where
  "NodeGroupDecreaseTargetSize i delta = ret (Inl Unimplemented)"

definition NodeGroupDeleteNodes :: "string \<Rightarrow> string list \<Rightarrow> (code + unit) scaling" where
  "NodeGroupDeleteNodes i nodes = ret (Inl Unimplemented)"

section \<open>What a scale-up writes\<close>

lemma scale_update_iff:
  "scale_update hi delta now ms = Inr ms' \<longleftrightarrow>
     (\<exists>name n. st_allocation ms = Some (name, n) \<and> n + delta \<le> hi \<and>
        (\<forall>raw. st_annotations ms rotationLockAnnotation = Some raw \<longrightarrow> \<not> isRotationLockActive raw now rotationLockTTL) \<and>
        ms' = ms\<lparr>st_allocation := Some (name, u32 (n + delta))\<rparr>)"
  by (auto simp: scale_update_def split: option.splits)

text \<open>Where a group comes from, and the configuration it has unless it is paused.\<close>

definition scalable :: "string \<Rightarrow> node_group \<Rightarrow> (scale_op \<times> scale_answer) list \<Rightarrow> bool" where
  "scalable cluster g h \<longleftrightarrow>
     (\<exists>sets ms mc cfg. (ListClusterSets cluster, ClusterSets sets) \<in> set h \<and> ms \<in> set sets \<and> st_id ms = ng_id g \<and>
        \<not> st_control_plane ms \<and> st_static ms \<and> st_allocation ms = Some (ng_class g, ng_size g) \<and>
        (GetClass (ng_class g), Class mc) \<in> set h \<and> ParseMachineClassAutoscaleConfig (kc_annotations mc) = Inr (Some cfg) \<and>
        ng_config g \<in> {Some cfg, Some (cfg\<lparr>ac_min := ng_size g, ac_max := ng_size g\<rparr>)})"

lemma lasting_scalable [simp, intro]: "lasting (scalable cluster g)"
  by (auto simp: lasting_def scalable_def; blast)

lemma scale_answers:
  "answer_cluster_sets a = Inr ms \<longleftrightarrow> a = ClusterSets ms" "answer_class a = Inr c \<longleftrightarrow> a = Class c"
  by (cases a; simp)+

lemma group_of_fields:
  "ng_id (group_of ms now name n cfg) = st_id ms" "ng_class (group_of ms now name n cfg) = name"
  "ng_size (group_of ms now name n cfg) = n"
  "ng_config (group_of ms now name n cfg) \<in> {Some cfg, Some (cfg\<lparr>ac_min := n, ac_max := n\<rparr>)}"
  by (auto simp: group_of_def Let_def)

lemma safe_classify_set:
  assumes "lasting E" and "\<And>h. E h \<Longrightarrow> \<exists>sets. (ListClusterSets cluster, ClusterSets sets) \<in> set h \<and> ms \<in> set sets"
  shows "safe anything E (classify_set env ms now) (\<lambda>r h. E h \<and> (\<forall>g. r = Inr (Some g) \<longrightarrow> scalable cluster g h))"
proof (rule safeI)
  fix w r w'
  assume E: "E (w_hist w)" and run: "run_state (classify_set env ms now) w = (r, w')"
  from run have "\<exists>es. w_hist w' = w_hist w @ es"
    by (auto simp: classify_set_def split: if_splits option.splits sum.splits)
  with E assms(1) have E': "E (w_hist w')" by (auto simp: lasting_def)
  have "scalable cluster g (w_hist w')" if "r = Inr (Some g)" for g
  proof -
    from run that have "\<exists>name n mc cfg. \<not> st_control_plane ms \<and> st_static ms \<and> st_allocation ms = Some (name, n) \<and>
        (GetClass name, Class mc) \<in> set (w_hist w') \<and> ParseMachineClassAutoscaleConfig (kc_annotations mc) = Inr (Some cfg) \<and>
        g = group_of ms now name n cfg"
      by (auto simp: classify_set_def scale_answers split: if_splits option.splits sum.splits; blast)
    then obtain name n mc cfg where c: "\<not> st_control_plane ms" "st_static ms" "st_allocation ms = Some (name, n)"
      "(GetClass name, Class mc) \<in> set (w_hist w')" "ParseMachineClassAutoscaleConfig (kc_annotations mc) = Inr (Some cfg)"
      "g = group_of ms now name n cfg" by blast
    then show ?thesis
      using assms(2) [OF E'] group_of_fields [of ms now name n cfg] unfolding scalable_def by simp blast
  qed
  with E' show "guarded anything (w_hist w') \<and> E (w_hist w') \<and> (\<forall>g. r = Inr (Some g) \<longrightarrow> scalable cluster g (w_hist w'))"
    by (simp add: guarded_def)
qed

lemma emits_classify_sets: "(\<And>n r. P (GetClass n) r) \<Longrightarrow> emits P (classify_sets env now sets)"
proof (induction sets)
  case (Cons ms sets)
  then show ?case by (auto simp: classify_set_def intro!: emits_intros split: option.split)
qed (simp add: emits_intros)

lemma safe_classify_sets:
  assumes "lasting E" and "\<And>h. E h \<Longrightarrow> \<exists>all. (ListClusterSets cluster, ClusterSets all) \<in> set h \<and> set sets \<subseteq> set all"
  shows "safe anything E (classify_sets env now sets) (\<lambda>gs h. \<forall>g \<in> set gs. scalable cluster g h)"
  using assms
proof (induction sets arbitrary: E)
  case (Cons ms sets)
  let ?F = "\<lambda>r h. E h \<and> (\<forall>g. r = Inr (Some g) \<longrightarrow> scalable cluster g h)"
  have last: "lasting (?F r)" for r
    using Cons.prems(1) by (cases "\<exists>g. r = Inr (Some g)") (auto simp: lasting_conj)
  show ?case
    unfolding classify_sets.simps
  proof (rule safe_bind [where R = ?F])
    show "safe anything E (classify_set env ms now) ?F"
      by (rule safe_classify_set [OF Cons.prems(1)]) (use Cons.prems(2) in fastforce)
  next
    fix r
    have "safe anything (?F r) (classify_sets env now sets) (\<lambda>gs h. \<forall>g \<in> set gs. scalable cluster g h)"
      by (rule Cons.IH [OF last]) (use Cons.prems(2) in fastforce)
    from safe_keep [OF this last emits_classify_sets]
    have "safe anything (?F r) (classify_sets env now sets) (\<lambda>gs h. ?F r h \<and> (\<forall>g \<in> set gs. scalable cluster g h))" by simp
    then show "safe anything (?F r)
        (classify_sets env now sets \<bind> (\<lambda>gs. ret (case r of Inr (Some x) \<Rightarrow> x # gs | _ \<Rightarrow> gs)))
        (\<lambda>gs h. \<forall>g \<in> set gs. scalable cluster g h)"
      by (rule safe_bind) (auto intro!: safe_ret split: option.splits sum.splits)
  qed
qed (simp add: safe_ret)

lemma safe_DiscoverGroups:
  "safe anything (\<lambda>h. True) (DiscoverGroups env cluster) (\<lambda>r h. \<forall>gs. r = Inr gs \<longrightarrow> (\<forall>g \<in> set gs. scalable cluster g h))"
proof -
  have call: "safe anything E (ask env q) (\<lambda>a h. E h \<and> (q, a) \<in> set h)" if "lasting E" for E q
    using that by (intro safeI) (auto simp: lasting_def guarded_def)
  show ?thesis
    unfolding DiscoverGroups_def
  proof (intro safe_bind safe_case_sum)
    show "safe anything (\<lambda>h. True) (ask env (ListClusterSets cluster)) (\<lambda>a h. True \<and> (ListClusterSets cluster, a) \<in> set h)"
      by (rule call) simp
  next
    fix a sets
    assume a: "answer_cluster_sets a = Inr sets"
    let ?E = "\<lambda>h. True \<and> (ListClusterSets cluster, a) \<in> set h"
    show "safe anything ?E (ask env ScaleClock) (\<lambda>_. ?E)" by (rule safe_conseq [OF call [of ?E]]) auto
    fix t
    show "safe anything ?E (classify_sets env (answer_scale_time t) sets) (\<lambda>gs h. \<forall>g \<in> set gs. scalable cluster g h)"
      by (rule safe_classify_sets) (use a in \<open>auto simp: scale_answers\<close>)
  qed (auto intro!: safe_ret)
qed

text \<open>The answers that an open gate has seen.\<close>

definition gate_passed :: "scale_server \<Rightarrow> autoscale_config \<Rightarrow> string \<Rightarrow> (scale_op \<times> scale_answer) list \<Rightarrow> bool" where
  "gate_passed s cfg pool h \<longleftrightarrow>
     (ss_gate s \<longrightarrow>
        (0 < ac_pool_free cfg \<longrightarrow> (\<exists>a. (FreePool pool, a) \<in> set h \<and> answered (answer_bytes a) \<and>
           (ac_gate cfg = CapacityGateSoft \<or> enough (ac_pool_free cfg) (answer_bytes a)))) \<and>
        (0 < ac_host_mem cfg \<longrightarrow> (\<exists>a. (FreeMemory, a) \<in> set h \<and> answered (answer_bytes a) \<and>
           (ac_gate cfg = CapacityGateSoft \<or> enough (ac_host_mem cfg) (answer_bytes a)))))"

lemma lasting_gate_passed [simp, intro]: "lasting (gate_passed s cfg pool)"
  by (auto simp: lasting_def gate_passed_def)

definition pool_of :: "scale_server \<Rightarrow> node_group \<Rightarrow> string" where
  "pool_of s g = (if ng_pool g = [] then ss_default_pool s else ng_pool g)"

lemma safe_gate:
  "safe anything (\<lambda>h. True) (evaluateCapacityGate env s g cfg) (\<lambda>r h. r = Inr () \<longrightarrow> gate_passed s cfg (pool_of s g) h)"
proof (rule safeI)
  fix w r w'
  assume run: "run_state (evaluateCapacityGate env s g cfg) w = (r, w')"
  have "gate_passed s cfg (pool_of s g) (w_hist w')" if r: "r = Inr ()"
  proof (cases "ss_gate s")
    case True
    let ?m = "CheckCapacity (free_pool env) (free_memory env) (\<lambda>e. e) cfg (pool_of s g)"
    obtain d w1 where d: "run_state ?m w = (d, w1)" by fastforce
    with run True r have al: "Allowed d" "w' = w1"
      by (auto simp: evaluateCapacityGate_def pool_of_def Allowed_def record_and_fail_def recordScaleUpResult_def
          split: outcome.splits)
    have hist: "w_hist w1 =
        w_hist (snd (if 0 < ac_host_mem cfg then run_state (free_memory env) w2 else (Inr 0, w2)))"
      if "w2 = snd (if 0 < ac_pool_free cfg then run_state (free_pool env (pool_of s g)) w else (Inr 0, w))" for w2
      using d al(1) that
      by (auto simp: CheckCapacity_def run_gate_pool run_gate_host Allowed_def split: prod.splits sum.splits if_splits)
    show ?thesis
      using gate_decision [of cfg "free_pool env" "pool_of s g" w "free_memory env" "\<lambda>e. e"] d al hist [OF refl]
      by (auto simp: gate_passed_def free_pool_def free_memory_def split: prod.splits if_splits)
  qed (simp add: gate_passed_def)
  then show "guarded anything (w_hist w') \<and> (r = Inr () \<longrightarrow> gate_passed s cfg (pool_of s g) (w_hist w'))"
    by (simp add: guarded_def)
qed

text \<open>
  When a scale-up is allowed: the set was listed as a static worker set of the cluster, its class
  has opted in, the step stays within the bound of the class, and the gate was open.
\<close>

definition scale_allowed :: "string \<Rightarrow> scale_server \<Rightarrow> string \<Rightarrow> int \<Rightarrow> (scale_op \<times> scale_answer) list \<Rightarrow> int \<Rightarrow> bool" where
  "scale_allowed cluster s i delta h hi \<longleftrightarrow> 0 < delta \<and>
     (\<exists>sets ms mc cfg name n pool. (ListClusterSets cluster, ClusterSets sets) \<in> set h \<and> ms \<in> set sets \<and> st_id ms = i \<and>
        \<not> st_control_plane ms \<and> st_static ms \<and> st_allocation ms = Some (name, n) \<and>
        (GetClass name, Class mc) \<in> set h \<and> ParseMachineClassAutoscaleConfig (kc_annotations mc) = Inr (Some cfg) \<and>
        hi = ac_max cfg \<and> n + delta \<le> hi \<and> gate_passed s cfg pool h)"

lemma scale_allowedI:
  assumes "scalable cluster g h" and "ng_id g = i" and "ng_config g = Some cfg" and "ng_size g + delta \<le> ac_max cfg" and "0 < delta"
    and "gate_passed s cfg pool h"
  shows "scale_allowed cluster s i delta h (ac_max cfg)"
proof -
  from assms(1,3) obtain sets ms mc cfg' where f: "(ListClusterSets cluster, ClusterSets sets) \<in> set h" "ms \<in> set sets" "st_id ms = ng_id g"
    "\<not> st_control_plane ms" "st_static ms" "st_allocation ms = Some (ng_class g, ng_size g)"
    "(GetClass (ng_class g), Class mc) \<in> set h" "ParseMachineClassAutoscaleConfig (kc_annotations mc) = Inr (Some cfg')"
    "cfg \<in> {cfg', cfg'\<lparr>ac_min := ng_size g, ac_max := ng_size g\<rparr>}"
    unfolding scalable_def by auto
  from f(9) assms(4,5) have c: "cfg = cfg'" by auto
  show ?thesis
    unfolding scale_allowed_def
    by (intro conjI exI [of _ sets] exI [of _ ms] exI [of _ mc] exI [of _ cfg] exI [of _ "ng_class g"] exI [of _ "ng_size g"]
        exI [of _ pool]) (use f c assms in simp_all)
qed

abbreviation scale_guard :: "string \<Rightarrow> scale_server \<Rightarrow> string \<Rightarrow> int \<Rightarrow> (scale_op \<times> scale_answer) list \<Rightarrow> scale_op \<Rightarrow> bool" where
  "scale_guard cluster s i delta h q \<equiv>
     \<forall>j hi d. q = UpdateCount j hi d \<longrightarrow> j = i \<and> d = delta \<and> scale_allowed cluster s i delta h hi"

lemma safe_increase_group:
  assumes "ng_id g = i" and "0 < delta"
  shows "safe (scale_guard cluster s i delta) (scalable cluster g) (increase_group env s g delta) (\<lambda>_ h. True)"
  unfolding increase_group_def
proof (rule safe_bindE)
  let ?gate = "case ng_config g of None \<Rightarrow> ret (Inr ()) | Some cfg \<Rightarrow> evaluateCapacityGate env s g cfg"
  let ?Q = "\<lambda>r h. r = Inr () \<longrightarrow> (\<forall>cfg. ng_config g = Some cfg \<longrightarrow> gate_passed s cfg (pool_of s g) h)"
  have em: "emits (\<lambda>q r. \<forall>h. scale_guard cluster s i delta h q) ?gate"
    unfolding evaluateCapacityGate_def record_and_fail_def recordScaleUpResult_def
    by (auto intro!: emits_intros emits_mono [OF source.gate_harmless] simp: capacity_read_def split: option.split outcome.split)
  have "safe anything (\<lambda>h. True) ?gate ?Q"
    by (cases "ng_config g") (auto intro!: safe_ret safe_conseq [OF safe_gate])
  then have "safe (scale_guard cluster s i delta) (\<lambda>h. True) ?gate ?Q"
    by (rule safe_strengthen) (use em in \<open>simp_all add: emits_def\<close>)
  then have "safe (scale_guard cluster s i delta) (scalable cluster g) ?gate ?Q" by (rule safe_conseq) auto
  from safe_keep [OF this lasting_scalable emits_mono [OF em]]
  show "safe (scale_guard cluster s i delta) (scalable cluster g) ?gate
      (\<lambda>r h. case r of Inl e \<Rightarrow> True | Inr u \<Rightarrow> scalable cluster g h \<and> (\<forall>cfg. ng_config g = Some cfg \<longrightarrow> gate_passed s cfg (pool_of s g) h))"
    by (rule safe_conseq) (auto split: sum.splits)
next
  fix u
  have inc: "safe (scale_guard cluster s i delta)
      (\<lambda>h. scalable cluster g h \<and> (\<forall>cfg. ng_config g = Some cfg \<longrightarrow> gate_passed s cfg (pool_of s g) h))
      (IncreaseMachineCount env g delta) (\<lambda>_ h. True)"
    unfolding IncreaseMachineCount_def
    by (intro safe_if safe_case_option safe_ret safe_bind [OF safe_ask [where Q = "\<lambda>_ _. True"]])
      (use assms in \<open>auto intro: scale_allowedI\<close>)
  show "safe (scale_guard cluster s i delta)
      (\<lambda>h. scalable cluster g h \<and> (\<forall>cfg. ng_config g = Some cfg \<longrightarrow> gate_passed s cfg (pool_of s g) h))
      (IncreaseMachineCount env g delta \<bind> (\<lambda>r. case r of
         Inl e \<Rightarrow> record_and_fail (fst (mapWriterError e)) (snd (mapWriterError e))
       | Inr n \<Rightarrow> recordScaleUpResult ResultSucceeded \<bind> (\<lambda>_. ret (Inr ())))) (\<lambda>_ h. True)"
    by (rule safe_bind [OF inc])
      (auto simp: record_and_fail_def recordScaleUpResult_def intro!: safe_bind safe_modify_proc safe_ret split: sum.split)
qed

lemma emits_DiscoverGroups:
  "(\<And>q r. (\<exists>c n. q \<in> {ListClusterSets c, ScaleClock, GetClass n}) \<Longrightarrow> P q r) \<Longrightarrow> emits P (DiscoverGroups env cluster)"
  unfolding DiscoverGroups_def by (intro emits_intros emits_classify_sets) blast+


text \<open>
  A committed scale-up adds the delta to the live count, at or below the bound of the class
  and never across the 32-bit range, and only while no rotation lock is active; a request on the
  live set fails otherwise and leaves it as it is.
\<close>

theorem scale_update_spec:
  assumes "st_allocation ms = Some (name, n)" and "0 \<le> n" and "0 < delta" and "hi < 2 ^ 32"
  shows "scale_update hi delta now ms =
    (if \<exists>raw. st_annotations ms rotationLockAnnotation = Some raw \<and> isRotationLockActive raw now rotationLockTTL
     then Inl ErrRotationLockHeld
     else if hi < n + delta then Inl ErrAtOrAboveMax
     else Inr (ms\<lparr>st_allocation := Some (name, n + delta)\<rparr>))"
  using assms by (auto simp: scale_update_def u32_id split: option.splits)

text \<open>
  Replicas do not exclude each other: whatever number of replicas decided on the same view,
  the update of each applies its delta to the count that the others left, up to the bound.
\<close>

theorem replicas_add_up:
  assumes "st_allocation ms = Some (name, n)" and "0 \<le> n" and "\<forall>d \<in> set deltas. 0 < d" and "n + sum_list deltas \<le> hi" and "hi < 2 ^ 32"
    and "st_annotations ms rotationLockAnnotation = None"
  shows "foldl (\<lambda>r d. case r of Inl e \<Rightarrow> Inl e | Inr m \<Rightarrow> scale_update hi d now m) (Inr ms) deltas =
    Inr (ms\<lparr>st_allocation := Some (name, n + sum_list deltas)\<rparr>)"
  using assms
proof (induction deltas arbitrary: ms n)
  case (Cons d ds)
  have "0 \<le> sum_list ds" using Cons.prems(3) by (intro sum_list_nonneg) auto
  then have "scale_update hi d now ms = Inr (ms\<lparr>st_allocation := Some (name, n + d)\<rparr>)"
    using Cons.prems by (simp add: scale_update_def u32_id)
  with Cons.IH [of "ms\<lparr>st_allocation := Some (name, n + d)\<rparr>" "n + d"] Cons.prems show ?case by (simp add: add.assoc)
qed simp

text \<open>A rejected or paused group makes no write request at all.\<close>

lemma labels_classify_set: "keeps (\<lambda>ls. ls) (classify_set env ms now)"
  unfolding classify_set_def by (auto intro!: keeps_intros split: option.split)

lemma labels_DiscoverGroups: "keeps (\<lambda>ls. ls) (DiscoverGroups env cluster)"
proof -
  have "keeps (\<lambda>ls. ls) (classify_sets env now sets)" for now sets
    by (induction sets) (auto intro!: keeps_intros labels_classify_set)
  then show ?thesis unfolding DiscoverGroups_def by (auto intro!: keeps_intros)
qed

lemma labels_gate_source: "keeps (\<lambda>ls. ls) (CheckCapacity (free_pool env) (free_memory env) msg cfg pool)"
  unfolding CheckCapacity_def gate_half_def checkPool_def checkHostMem_def free_pool_def free_memory_def
  by (auto intro!: keeps_intros)

text \<open>A program that adds one label, the label of a success exactly when it succeeds.\<close>

definition one_label :: "(code + unit) scaling \<Rightarrow> bool" where
  "one_label m \<longleftrightarrow> (\<forall>w. \<exists>l. w_proc (snd (run_state m w)) = w_proc w @ [l] \<and> (l = ResultSucceeded \<longleftrightarrow> fst (run_state m w) = Inr ()))"

lemma one_label_fail: "r \<noteq> ResultSucceeded \<Longrightarrow> one_label (record_and_fail r c)"
  by (simp add: one_label_def record_and_fail_def recordScaleUpResult_def)

lemma one_label_bind: "keeps (\<lambda>ls. ls) m \<Longrightarrow> (\<And>a. one_label (f a)) \<Longrightarrow> one_label (m \<bind> f)"
  unfolding one_label_def by (auto simp: case_prod_beta keeps_def) metis

lemmas result_labels = ResultSucceeded_def ResultDeniedCapacity_def ResultRejectedBounds_def ResultRejectedInvalid_def
  ResultRejectedNotFound_def ResultDeferredRotation_def ResultErroredInternal_def

lemma label_ne: "ResultDeniedCapacity \<noteq> ResultSucceeded" "ResultErroredInternal \<noteq> ResultSucceeded"
  "ResultRejectedBounds \<noteq> ResultSucceeded" "ResultRejectedInvalid \<noteq> ResultSucceeded"
  "ResultRejectedNotFound \<noteq> ResultSucceeded" "ResultDeferredRotation \<noteq> ResultSucceeded"
  by (simp_all add: result_labels)

lemma one_label_increase_group: "one_label (increase_group env s g delta)"
proof -
  have inc: "keeps (\<lambda>ls. ls) (IncreaseMachineCount env g delta)"
    unfolding IncreaseMachineCount_def by (auto intro!: keeps_intros split: option.split)
  have err: "fst (mapWriterError e) \<noteq> ResultSucceeded" for e
    by (simp add: mapWriterError_def label_ne split: scale_error.split)
  have rest: "one_label (IncreaseMachineCount env g delta \<bind> (\<lambda>r. case r of
         Inl e \<Rightarrow> record_and_fail (fst (mapWriterError e)) (snd (mapWriterError e))
       | Inr n \<Rightarrow> recordScaleUpResult ResultSucceeded \<bind> (\<lambda>_. ret (Inr ()))))"
    by (rule one_label_bind [OF inc])
      (auto simp: one_label_fail [OF err] split: sum.split, simp add: one_label_def recordScaleUpResult_def)
  have gate: "(\<exists>l c. run_state (evaluateCapacityGate env s g cfg) w = (Inl c, w') \<and> l \<noteq> ResultSucceeded \<and> w_proc w' = w_proc w @ [l]) \<or>
      run_state (evaluateCapacityGate env s g cfg) w = (Inr (), w') \<and> w_proc w' = w_proc w"
    if w': "w' = snd (run_state (evaluateCapacityGate env s g cfg) w)" for w w' cfg
  proof (cases "ss_gate s")
    case True
    let ?m = "CheckCapacity (free_pool env) (free_memory env) (\<lambda>e. e) cfg (if ng_pool g = [] then ss_default_pool s else ng_pool g)"
    obtain d w1 where d: "run_state ?m w = (d, w1)" by fastforce
    have k: "w_proc w1 = w_proc w" by (rule keepsD [OF labels_gate_source d])
    show ?thesis
      using True d k w' label_ne
      by (cases "cy_outcome d") (simp_all add: evaluateCapacityGate_def record_and_fail_def recordScaleUpResult_def)
  qed (simp add: evaluateCapacityGate_def w')
  show ?thesis
    unfolding one_label_def increase_group_def
  proof (intro allI)
    fix w
    let ?gate = "case ng_config g of None \<Rightarrow> ret (Inr ()) | Some cfg \<Rightarrow> evaluateCapacityGate env s g cfg"
    let ?m = "bindE ?gate (\<lambda>_. IncreaseMachineCount env g delta \<bind> (\<lambda>r. case r of
         Inl e \<Rightarrow> record_and_fail (fst (mapWriterError e)) (snd (mapWriterError e))
       | Inr n \<Rightarrow> recordScaleUpResult ResultSucceeded \<bind> (\<lambda>_. ret (Inr ()))))"
    obtain r w' where r: "run_state ?gate w = (r, w')" by fastforce
    have "(\<exists>l c. r = Inl c \<and> l \<noteq> ResultSucceeded \<and> w_proc w' = w_proc w @ [l]) \<or> r = Inr () \<and> w_proc w' = w_proc w"
    proof (cases "ng_config g")
      case None
      with r show ?thesis by simp
    next
      case (Some cfg)
      with r have e: "run_state (evaluateCapacityGate env s g cfg) w = (r, w')" by simp
      from gate [of w' cfg w] show ?thesis unfolding e by auto
    qed
    then show "\<exists>l. w_proc (snd (run_state ?m w)) = w_proc w @ [l] \<and> (l = ResultSucceeded \<longleftrightarrow> fst (run_state ?m w) = Inr ())"
    proof (rule disjE)
      assume "r = Inr () \<and> w_proc w' = w_proc w"
      then show ?thesis using rest [unfolded one_label_def, rule_format, of w'] by (simp add: run_bindE r)
    qed (auto simp: run_bindE r)
  qed
qed

text \<open>
  Every scale-up request adds exactly one label to the counter of results, and it is the
  one for success exactly when the request succeeds.
\<close>

theorem scale_up_counted_once:
  "\<exists>l. w_proc (snd (run_state (NodeGroupIncreaseSize env s i delta) w)) = w_proc w @ [l] \<and>
     (l = ResultSucceeded \<longleftrightarrow> fst (run_state (NodeGroupIncreaseSize env s i delta) w) = Inr ())"
proof -
  have "one_label (NodeGroupIncreaseSize env s i delta)"
    unfolding NodeGroupIncreaseSize_def
    by (auto intro!: one_label_fail one_label_bind [OF labels_DiscoverGroups] one_label_increase_group
        simp: label_ne split: option.split sum.split)
  then show ?thesis by (simp add: one_label_def)
qed

section \<open>The autoscaler and the rotation engine\<close>

text \<open>
  C32: from the moment the rotation engine commits a lock or a surge step on a set, and for the
  five minutes of the lock, the autoscaler's write on that set is rejected, and a group that it
  discovers meanwhile is paused: a scale-up of it ends before any request.
\<close>

theorem engine_pauses_autoscaler:
  assumes "apply_set_update u ms = Inr ms'" and "u = SetLock gen t \<or> u = SurgeStep gen t ph step"
    and "CHR '':'' \<notin> set gen" and "0 \<le> time_to_unix t" and "time_sub now (time_unix (time_to_unix t)) < rotationLockTTL"
    and "st_allocation ms' = Some (name, n)" and "0 < delta"
  shows "scale_update hi delta now ms' = Inl ErrRotationLockHeld \<and>
    run_state (IncreaseMachineCount env (group_of ms' now name n cfg) delta) w = (Inl ErrAtOrAboveMax, w)"
proof -
  have keys: "AnnotationRotationState = rotationLockAnnotation" "AnnotationSurgePhase \<noteq> rotationLockAnnotation"
    by (simp_all add: AnnotationRotationState_def AnnotationSurgePhase_def rotationLockAnnotation_def)
  have "st_annotations ms' rotationLockAnnotation = Some (formatRotationStateAnnotation (gen, t))"
    using assms(1,2) keys by (auto simp: annotate_def lock_set_def split: option.splits if_splits)
  then show ?thesis
    using assms written_lock_active [OF assms(3-5)]
    by (simp add: scale_update_def group_of_def IncreaseMachineCount_def)
qed

section \<open>Examples\<close>

definition scaled_set :: machine_set where
  "scaled_set = \<lparr>st_id = ''ms'', st_annotations = Map.empty, st_control_plane = False, st_static = True,
     st_allocation = Some (''workers'', 2)\<rparr>"

theorem engine_pauses_witness:
  "scale_update 5 1 (time_unix 399) (lock_set ''g'' (time_unix 100) scaled_set) = Inl ErrRotationLockHeld"
proof -
  have u: "time_to_unix (time_unix 100) = 100" by (rule time_to_unix_unix) simp_all
  have t: "time_sub (time_unix 399) (time_unix 100) < rotationLockTTL"
    by (simp add: time_sub_def rotationLockTTL_def second_def time_unix_def i64_def unix_to_internal_def)
  have "st_allocation (lock_set ''g'' (time_unix 100) scaled_set) = Some (''workers'', 2)"
    by (simp add: scaled_set_def lock_set_def annotate_def)
  then show ?thesis
    using engine_pauses_autoscaler [of "SetLock ''g'' (time_unix 100)" scaled_set _ "''g''" "time_unix 100"] t
    by (simp add: u)
qed

definition scaled_env :: scale_env where
  "scaled_env h q =
     (case q of
        ListClusterSets c \<Rightarrow> ClusterSets [scaled_set]
      | GetClass n \<Rightarrow> Class \<lparr>kc_id = ''workers'', kc_annotations = scaled_annotations, kc_auto_provision = None\<rparr>
      | UpdateCount i hi d \<Rightarrow> CountTries [(time_unix 100, scaled_set)] None
      | ScaleClock \<Rightarrow> ScaleTime (time_unix 100)
      | FreePool p \<Rightarrow> Bytes 1
      | FreeMemory \<Rightarrow> Bytes (2 ^ 40))"


theorem scale_update_witness:
  "scale_update 5 1 (time_unix 100) scaled_set = Inr (scaled_set\<lparr>st_allocation := Some (''workers'', 3)\<rparr>)"
  using scale_update_spec [of scaled_set "''workers''" 2 1 5 "time_unix 100"] by (simp add: scaled_set_def)

theorem replicas_witness:
  "foldl (\<lambda>r d. case r of Inl e \<Rightarrow> Inl e | Inr m \<Rightarrow> scale_update 5 d (time_unix 100) m) (Inr scaled_set) [1, 1] =
     Inr (scaled_set\<lparr>st_allocation := Some (''workers'', 4)\<rparr>)"
  using replicas_add_up [of scaled_set "''workers''" 2 "[1, 1]" 5 "time_unix 100"] by (simp add: scaled_set_def)

end
