(* ===== verification/Hosts.thy ===== *)
theory Hosts
  imports GoLib
begin

text \<open>
  The host validator that the TrueNAS client and the key-role checker share
  (internal/truenasrpc/host.go), with the part of Go's \<open>net/url\<close> that it rests on: the
  parse of the authority of an \<open>https\<close> URL, and the redaction of secrets
  (internal/client/secret.go). Strings are bytes, and every rune beyond ASCII
  fails the validator's last test as its bytes do.
\<close>

section \<open>The authority of a URL (net/url)\<close>

definition is_alnum :: "char \<Rightarrow> bool" where
  "is_alnum c \<longleftrightarrow> (let k = (of_char c :: nat)
                  in (97 \<le> k \<and> k \<le> 122) \<or> (65 \<le> k \<and> k \<le> 90) \<or> (48 \<le> k \<and> k \<le> 57))"

definition is_digit_char :: "char \<Rightarrow> bool" where
  "is_digit_char c \<longleftrightarrow> (let k = (of_char c :: nat) in 48 \<le> k \<and> k \<le> 57)"

text \<open>\<open>validOptionalPort\<close>: nothing, or a colon and any number of digits.\<close>

fun valid_optional_port :: "string \<Rightarrow> bool" where
  "valid_optional_port [] \<longleftrightarrow> True"
| "valid_optional_port (c # ds) \<longleftrightarrow> c = CHR '':'' \<and> list_all is_digit_char ds"

text \<open>\<open>shouldEscape(c, encodeHost)\<close> of an ASCII byte.\<close>

definition escaped_in_host :: "char \<Rightarrow> bool" where
  "escaped_in_host c \<longleftrightarrow> (of_char c :: nat) < 128 \<and> \<not> is_alnum c \<and>
     c \<notin> set ''-_.~!$&()*+,;=:[]<>'' \<and> (of_char c :: nat) \<noteq> 34 \<and> (of_char c :: nat) \<noteq> 39"

definition hex_value :: "char \<Rightarrow> nat" where
  "hex_value c = (let k = (of_char c :: nat) in if k \<le> 57 then k - 48 else if k \<le> 70 then k - 55 else k - 87)"

text \<open>\<open>unescape\<close> in the modes for a host (\<open>False\<close>) and for the zone of an address (\<open>True\<close>).\<close>

fun unescape :: "bool \<Rightarrow> string \<Rightarrow> string option" where
  "unescape zone [] = Some []"
| "unescape zone (c # s) =
     (if c = CHR ''%'' then
        (case s of
           a # b # r \<Rightarrow>
             if is_hex_digit a \<and> is_hex_digit b then
               (let v = char_of (16 * hex_value a + hex_value b); quoted = (a = CHR ''2'' \<and> b = CHR ''5'')
                in if \<not> quoted \<and> (if zone then (of_char v :: nat) \<noteq> 32 \<and> escaped_in_host v else hex_value a < 8)
                   then None
                   else map_option (Cons v) (unescape zone r))
             else None
         | _ \<Rightarrow> None)
      else if escaped_in_host c then None
      else map_option (Cons c) (unescape zone s))"

definition cut_last :: "char \<Rightarrow> string \<Rightarrow> (string \<times> string) option" where
  "cut_last c s = map_option (\<lambda>(a, b). (rev b, rev a)) (cut_char c (rev s))"

text \<open>An address between brackets: its zone, after \<open>%25\<close>, is decoded apart, and must not be empty.\<close>

fun cut_zone :: "string \<Rightarrow> string \<times> string" where
  "cut_zone [] = ([], [])"
| "cut_zone (c # s) =
     (if has_prefix (c # s) ''%25'' then ([], c # s) else (let (a, z) = cut_zone s in (c # a, z)))"

definition valid_address :: "string \<Rightarrow> bool" where
  "valid_address s = (case cut_char (CHR ''%'') s of None \<Rightarrow> valid_ipv6 s | Some (a, z) \<Rightarrow> valid_ipv6 a \<and> z \<noteq> [])"

definition parse_bracketed :: "string \<Rightarrow> string option" where
  "parse_bracketed s =
     (case cut_last (CHR '']'') s of
        None \<Rightarrow> None
      | Some (inner, port) \<Rightarrow>
          if \<not> valid_optional_port port then None
          else (case cut_zone inner of (a, z) \<Rightarrow>
                 (case (unescape False a, unescape True z) of
                    (Some a', Some z') \<Rightarrow>
                      if valid_address (a' @ z') then Some (CHR ''['' # (a' @ z') @ CHR '']'' # port) else None
                  | _ \<Rightarrow> None)))"

text \<open>
  \<open>url.Parse("https://" + h)\<close> for an \<open>h\<close> without a slash, a question mark, a hash or an
  at sign: the host of the URL, which has nothing else. A bracket must come first; without one
  there is at most one colon.
\<close>

definition url_host :: "string \<Rightarrow> string option" where
  "url_host h =
     (if list_ex (\<lambda>c. (of_char c :: nat) < 32 \<or> (of_char c :: nat) = 127) h then None
      else if CHR ''['' \<in> set h then
        (if hd h = CHR ''['' \<and> CHR ''['' \<notin> set (tl h) then parse_bracketed (tl h) else None)
      else case cut_char (CHR '':'') h of
        None \<Rightarrow> unescape False h
      | Some (name, port) \<Rightarrow>
          if CHR '':'' \<in> set port \<or> \<not> valid_optional_port (CHR '':'' # port) then None
          else unescape False h)"

text \<open>\<open>URL.Hostname\<close>.\<close>

definition url_hostname :: "string \<Rightarrow> string" where
  "url_hostname h =
     (let name = (case cut_last (CHR '':'') h of
                    None \<Rightarrow> h
                  | Some (a, p) \<Rightarrow> if valid_optional_port (CHR '':'' # p) then a else h)
      in if has_prefix name ''['' \<and> has_suffix name '']'' then butlast (tl name) else name)"

section \<open>The validator (host.go)\<close>

datatype host_error = HostEmpty | HostNotBare | HostUnparsable | HostNormalized string | NoHostname | HostInvalidChar char

definition forbidden_in_host :: "char \<Rightarrow> bool" where
  "forbidden_in_host c \<longleftrightarrow> c \<in> set ''/?#@ '' \<or> (of_char c :: nat) \<in> {9, 10, 13}"

definition dns_char :: "char \<Rightarrow> bool" where
  "dns_char c \<longleftrightarrow> is_alnum c \<or> c = CHR ''-'' \<or> c = CHR ''.''"

definition ValidateHost :: "string \<Rightarrow> host_error + unit" where
  "ValidateHost host =
     (if host = [] then Inl HostEmpty
      else if list_ex forbidden_in_host host then Inl HostNotBare
      else case url_host host of
        None \<Rightarrow> Inl HostUnparsable
      | Some h \<Rightarrow>
          if h \<noteq> host then Inl (HostNormalized h)
          else let hostname = url_hostname host
               in if hostname = [] then Inl NoHostname
                  else if parse_ipv4 hostname \<noteq> None \<or> valid_ipv6 hostname then Inr ()
                  else (case List.find (\<lambda>c. \<not> dns_char c) hostname of
                          Some c \<Rightarrow> Inl (HostInvalidChar c)
                        | None \<Rightarrow> Inr ()))"

text \<open>The dynamic types of parameters that \<open>NormalizeParams\<close> tells apart.\<close>

datatype params =
    NilParams
  | AnySlice "json list"
  | MapSlice "json list"
  | StringSlice "string list"
  | IntSlice "int list"
  | OtherParams json

fun NormalizeParams :: "params \<Rightarrow> json list" where
  "NormalizeParams NilParams = []"
| "NormalizeParams (AnySlice xs) = xs"
| "NormalizeParams (MapSlice xs) = xs"
| "NormalizeParams (StringSlice xs) = map JStr xs"
| "NormalizeParams (IntSlice xs) = map JInt xs"
| "NormalizeParams (OtherParams x) = [x]"

section \<open>What the validator accepts\<close>

text \<open>
  The specification: a name of letters, digits, hyphens and dots, or an IPv6 address in brackets,
  with an optional port.
\<close>

definition valid_host :: "string \<Rightarrow> bool" where
  "valid_host h \<longleftrightarrow> (\<exists>name port. h = name @ port \<and> valid_optional_port port \<and>
     (name \<noteq> [] \<and> list_all dns_char name \<or> (\<exists>a. name = CHR ''['' # a @ '']'' \<and> valid_ipv6 a)))"

lemma unescape_length: "unescape zone s = Some t \<Longrightarrow> length t \<le> length s"
  by (induction zone s arbitrary: t rule: unescape.induct)
    (fastforce simp: Let_def split: if_splits list.splits option.splits)+

lemma unescape_same:
  "unescape zone s = Some s \<longleftrightarrow> CHR ''%'' \<notin> set s \<and> \<not> list_ex escaped_in_host s"
proof (induction s)
  case (Cons c s)
  show ?case
  proof (cases "c = CHR ''%''")
    case True
    have "unescape zone (c # s) \<noteq> Some (c # s)"
    proof
      assume u: "unescape zone (c # s) = Some (c # s)"
      with True obtain a b r v where "s = a # b # r" "map_option (Cons v) (unescape zone r) = Some (c # s)"
        by (auto simp: Let_def split: list.splits if_splits)
      then show False using unescape_length [of zone r s] by auto
    qed
    with True show ?thesis by simp
  next
    case False
    then show ?thesis using Cons by auto
  qed
qed simp

lemma cut_last_Some: "cut_last c s = Some (a, b) \<longleftrightarrow> s = a @ c # b \<and> c \<notin> set b"
proof -
  have "cut_char c (rev s) = Some (rev b, rev a) \<longleftrightarrow> s = a @ c # b \<and> c \<notin> set b"
    by (simp add: cut_char_Some) (metis rev.simps(2) rev_append rev_rev_ident append_Cons append_assoc self_append_conv2)
  moreover have "cut_last c s = Some (a, b) \<longleftrightarrow> cut_char c (rev s) = Some (rev b, rev a)"
    by (auto simp: cut_last_def)
  ultimately show ?thesis by simp
qed

lemma cut_last_None: "cut_last c s = None \<longleftrightarrow> c \<notin> set s"
  by (simp add: cut_last_def cut_char_None)

lemma cut_zone_append: "cut_zone s = (a, z) \<Longrightarrow> s = a @ z"
  by (induction s arbitrary: a z) (auto split: if_splits prod.splits)

lemma cut_zone_none: "CHR ''%'' \<notin> set s \<Longrightarrow> cut_zone s = (s, [])"
  by (induction s) (auto simp: has_prefix_def)

lemma is_group_chars: "is_group g \<Longrightarrow> c \<in> set g \<Longrightarrow> is_hex_digit c"
  by (simp add: is_group_def)

lemma digits_val_chars: "digits_val n s = Some k \<Longrightarrow> c \<in> set s \<Longrightarrow> is_digit_char c"
  by (induction s arbitrary: n) (auto simp: digit_val_def is_digit_char_def Let_def split: option.splits if_splits)

lemma parse_octet_chars: "parse_octet s = Some k \<Longrightarrow> c \<in> set s \<Longrightarrow> is_digit_char c"
  by (auto simp: parse_octet_def split: if_splits option.splits dest: digits_val_chars)

lemma in_split_all: "c \<in> set s \<Longrightarrow> c = d \<or> (\<exists>t \<in> set (split_all d s). c \<in> set t)"
proof (induction s)
  case (Cons x s)
  obtain t ts where "split_all d s = t # ts" by (cases "split_all d s") simp_all
  with Cons show ?case by auto
qed simp

lemma parse_ipv4_chars:
  assumes "parse_ipv4 s = Some k" and "c \<in> set s"
  shows "is_digit_char c \<or> c = CHR ''.''"
proof -
  from assms(1) obtain w x y z where "map parse_octet (split_all (CHR ''.'') s) = [Some w, Some x, Some y, Some z]"
    by (auto simp: parse_ipv4_def split: list.splits option.splits)
  then have "\<exists>k. parse_octet t = Some k" if "t \<in> set (split_all (CHR ''.'') s)" for t
    using that by auto
  with in_split_all [OF assms(2), of "CHR ''.''"] show ?thesis using parse_octet_chars by blast
qed

definition ipv6_char :: "char \<Rightarrow> bool" where
  "ipv6_char c \<longleftrightarrow> is_hex_digit c \<or> c = CHR '':'' \<or> c = CHR ''.''"

lemma digit_is_hex: "is_digit_char c \<Longrightarrow> is_hex_digit c"
  by (simp add: is_digit_char_def is_hex_digit_def Let_def)

lemma count_groups_chars:
  "count_groups v gs = Some n \<Longrightarrow> g \<in> set gs \<Longrightarrow> c \<in> set g \<Longrightarrow> ipv6_char c"
proof (induction v gs arbitrary: n rule: count_groups.induct)
  case (2 v h gs)
  then show ?case
    using is_group_chars parse_ipv4_chars digit_is_hex
    by (auto simp: ipv6_char_def split: if_splits) blast+
qed simp

lemma cut_double_colon_Some: "cut_double_colon s = Some (a, b) \<Longrightarrow> s = a @ '':'' @ '':'' @ b"
  by (induction s arbitrary: a rule: cut_double_colon.induct) (auto split: if_splits)

lemma fields_chars:
  "count_groups v (colon_fields s) = Some n \<Longrightarrow> c \<in> set s \<Longrightarrow> ipv6_char c"
  using in_split_all [of c s "CHR '':''"] count_groups_chars [of v "colon_fields s" n]
  by (auto simp: colon_fields_def ipv6_char_def split: if_splits)

lemma valid_ipv6_chars:
  assumes "valid_ipv6 s" and "c \<in> set s"
  shows "ipv6_char c"
proof (cases "cut_double_colon s")
  case None
  with assms(1) have "count_groups True (split_all (CHR '':'') s) = Some 8" by (simp add: valid_ipv6_def)
  moreover have "ipv6_char (CHR '':'')" by (simp add: ipv6_char_def)
  ultimately show ?thesis using in_split_all [OF assms(2), of "CHR '':''"] count_groups_chars by blast
next
  case (Some ab)
  then obtain a b where ab: "cut_double_colon s = Some (a, b)" by (cases ab) simp
  with assms(1) obtain m n where "count_groups False (colon_fields a) = Some m" "count_groups True (colon_fields b) = Some n"
    by (auto simp: valid_ipv6_def split: option.splits)
  moreover have "c \<in> set a \<or> c = CHR '':'' \<or> c \<in> set b" using cut_double_colon_Some [OF ab] assms(2) by auto
  ultimately show ?thesis using fields_chars by (auto simp: ipv6_char_def)
qed

lemma no_double_colon: "CHR '':'' \<notin> set s \<Longrightarrow> cut_double_colon s = None"
  by (induction s rule: cut_double_colon.induct) auto

lemma split_none: "c \<notin> set s \<Longrightarrow> split_all c s = [s]"
  by (induction s) auto

lemma valid_ipv6_colon: "valid_ipv6 s \<Longrightarrow> CHR '':'' \<in> set s"
  by (rule ccontr) (auto simp: valid_ipv6_def no_double_colon split_none split: if_splits)

lemma valid_ipv6_nonempty: "\<not> valid_ipv6 []"
  using valid_ipv6_colon [of "[]"] by auto

lemma dns_char_plain:
  assumes "dns_char c"
  shows "\<not> forbidden_in_host c" "\<not> escaped_in_host c" "c \<notin> set ''%[]:''" "\<not> ((of_char c :: nat) < 32 \<or> (of_char c :: nat) = 127)"
  using assms by (auto simp: dns_char_def forbidden_in_host_def escaped_in_host_def is_alnum_def Let_def)

lemma ipv6_char_plain:
  assumes "ipv6_char c"
  shows "\<not> forbidden_in_host c" "\<not> escaped_in_host c" "c \<notin> set ''%[]''" "\<not> ((of_char c :: nat) < 32 \<or> (of_char c :: nat) = 127)"
  using assms by (auto simp: ipv6_char_def is_hex_digit_def forbidden_in_host_def escaped_in_host_def is_alnum_def Let_def)

lemma port_char_plain:
  assumes "valid_optional_port p" and "c \<in> set p"
  shows "c = CHR '':'' \<or> is_digit_char c"
  using assms by (cases p) (auto simp: list_all_iff)

lemma digit_char_plain:
  assumes "is_digit_char c"
  shows "dns_char c" "c \<noteq> CHR '']''"
  using assms by (auto simp: dns_char_def is_alnum_def is_digit_char_def Let_def)

lemma colon_plain:
  "\<not> forbidden_in_host (CHR '':'')" "\<not> escaped_in_host (CHR '':'')"
  "\<not> forbidden_in_host (CHR ''['')" "\<not> escaped_in_host (CHR ''['')"
  "\<not> forbidden_in_host (CHR '']'')" "\<not> escaped_in_host (CHR '']'')"
  by (simp_all add: forbidden_in_host_def escaped_in_host_def)

text \<open>The characters of an accepted host.\<close>

definition host_char :: "char \<Rightarrow> bool" where
  "host_char c \<longleftrightarrow> dns_char c \<or> c = CHR '':'' \<or> c = CHR ''['' \<or> c = CHR '']''"

lemma hex_is_dns: "is_hex_digit c \<Longrightarrow> dns_char c"
  by (auto simp: is_hex_digit_def dns_char_def is_alnum_def Let_def)

lemma valid_host_chars: "valid_host h \<Longrightarrow> c \<in> set h \<Longrightarrow> host_char c"
  using port_char_plain digit_char_plain valid_ipv6_chars hex_is_dns
  by (fastforce simp: valid_host_def host_char_def ipv6_char_def list_all_iff dns_char_def)

lemma host_char_plain:
  assumes "host_char c"
  shows "\<not> forbidden_in_host c" "\<not> escaped_in_host c" "c \<noteq> CHR ''%''" "\<not> ((of_char c :: nat) < 32 \<or> (of_char c :: nat) = 127)"
  using assms dns_char_plain [of c] colon_plain by (auto simp: host_char_def)

lemma port_no_bracket: "valid_optional_port p \<Longrightarrow> CHR '']'' \<notin> set p \<and> CHR ''['' \<notin> set p"
  using port_char_plain [of p "CHR '']''"] port_char_plain [of p "CHR ''[''"] by (auto simp: is_digit_char_def)

lemma unescape_id: "(\<And>c. c \<in> set s \<Longrightarrow> host_char c) \<Longrightarrow> unescape zone s = Some s"
  using host_char_plain by (auto simp: unescape_same list_ex_iff)

lemma accepts_name:
  assumes "name \<noteq> []" and "list_all dns_char name" and "valid_optional_port port"
  shows "ValidateHost (name @ port) = Inr ()"
proof -
  let ?h = "name @ port"
  have v: "valid_host ?h" using assms by (auto simp: valid_host_def)
  note chars = valid_host_chars [OF v]
  have plain: "\<not> list_ex forbidden_in_host ?h" "\<not> list_ex (\<lambda>c. (of_char c :: nat) < 32 \<or> (of_char c :: nat) = 127) ?h"
    using chars host_char_plain by (auto simp: list_ex_iff)
  have nocolon: "CHR '':'' \<notin> set name" and nobr: "CHR ''['' \<notin> set ?h"
    using assms dns_char_plain(3) port_no_bracket by (fastforce simp: list_all_iff)+
  have u: "unescape False ?h = Some ?h" by (rule unescape_id [OF chars])
  have "url_host ?h = Some ?h \<and> url_hostname ?h = name"
  proof (cases port)
    case Nil
    with nocolon have "cut_char (CHR '':'') ?h = None" "cut_last (CHR '':'') ?h = None"
      by (simp_all add: cut_char_None cut_last_None)
    moreover have "\<not> has_prefix name ''[''" using nobr by (cases name) (auto simp: has_prefix_def)
    ultimately show ?thesis using Nil plain nobr u by (simp add: url_host_def url_hostname_def)
  next
    case (Cons c ds)
    with assms(3) have c: "c = CHR '':''" and d: "list_all is_digit_char ds" by auto
    then have nd: "CHR '':'' \<notin> set ds" by (auto simp: list_all_iff is_digit_char_def)
    with Cons c nocolon have "cut_char (CHR '':'') ?h = Some (name, ds)" "cut_last (CHR '':'') ?h = Some (name, ds)"
      by (simp_all add: cut_char_Some cut_last_Some)
    moreover have "\<not> has_prefix name ''[''" using nobr assms(1) by (cases name) (auto simp: has_prefix_def)
    ultimately show ?thesis using plain nobr u nd d by (simp add: url_host_def url_hostname_def)
  qed
  moreover have "List.find (\<lambda>c. \<not> dns_char c) name = None" using assms(2) by (simp add: find_None_iff list_all_iff)
  ultimately show ?thesis using plain assms(1) by (simp add: ValidateHost_def)
qed

lemma accepts_address:
  assumes "valid_ipv6 a" and "valid_optional_port port"
  shows "ValidateHost (CHR ''['' # a @ CHR '']'' # port) = Inr ()"
proof -
  let ?h = "CHR ''['' # a @ CHR '']'' # port"
  have v: "valid_host ?h" using assms unfolding valid_host_def by (intro exI [of _ "CHR ''['' # a @ '']''"] exI [of _ port]) auto
  note chars = valid_host_chars [OF v]
  have plain: "\<not> list_ex forbidden_in_host ?h" "\<not> list_ex (\<lambda>c. (of_char c :: nat) < 32 \<or> (of_char c :: nat) = 127) ?h"
    using chars host_char_plain unfolding list_ex_iff by blast+
  have a: "CHR ''%'' \<notin> set a" "CHR ''['' \<notin> set a" "a \<noteq> []"
    using assms(1) valid_ipv6_chars ipv6_char_plain(3) valid_ipv6_nonempty by fastforce+
  have p: "CHR '']'' \<notin> set port" "CHR ''['' \<notin> set port" using port_no_bracket [OF assms(2)] by auto
  have "cut_last (CHR '']'') (a @ CHR '']'' # port) = Some (a, port)" using p by (simp add: cut_last_Some)
  moreover have "unescape False a = Some a" using chars by (intro unescape_id) auto
  moreover have "valid_address a" using a assms(1) by (simp add: valid_address_def cut_char_None [THEN iffD2])
  ultimately have "url_host ?h = Some ?h"
    using plain a p assms(2) by (auto simp: url_host_def parse_bracketed_def cut_zone_none)
  moreover have "url_hostname ?h = a"
  proof (cases port)
    case Nil
    obtain x y where xy: "cut_last (CHR '':'') ?h = Some (x, y @ '']'')"
    proof -
      obtain x y where "cut_last (CHR '':'') a = Some (x, y)"
        using valid_ipv6_colon [OF assms(1)] by (cases "cut_last (CHR '':'') a") (auto simp: cut_last_None)
      then have "cut_last (CHR '':'') ?h = Some (CHR ''['' # x, y @ '']'')" using Nil by (simp add: cut_last_Some)
      then show ?thesis by (rule that)
    qed
    have "\<not> is_digit_char (CHR '']'')" by (simp add: is_digit_char_def)
    with xy Nil show ?thesis by (simp add: url_hostname_def has_prefix_def has_suffix_def butlast_append)
  next
    case (Cons c ds)
    with assms(2) have "c = CHR '':''" "list_all is_digit_char ds" by auto
    moreover from this have "CHR '':'' \<notin> set ds" by (auto simp: list_all_iff is_digit_char_def)
    ultimately have "cut_last (CHR '':'') ?h = Some (CHR ''['' # a @ '']'', ds)" using Cons by (simp add: cut_last_Some)
    with \<open>list_all is_digit_char ds\<close> show ?thesis
      by (simp add: url_hostname_def has_prefix_def has_suffix_def butlast_append)
  qed
  ultimately show ?thesis using plain a assms(1) by (simp add: ValidateHost_def)
qed

lemma cut_first_last:
  assumes "cut_char c h = Some (a, p)" and "c \<notin> set p"
  shows "cut_last c h = Some (a, p)"
  using assms by (simp add: cut_char_Some cut_last_Some)

lemma accepted_name:
  assumes "ValidateHost h = Inr ()" and "CHR ''['' \<notin> set h"
  shows "valid_host h"
proof -
  from assms have u: "url_host h = Some h" and ne: "url_hostname h \<noteq> []"
    and ok: "parse_ipv4 (url_hostname h) \<noteq> None \<or> valid_ipv6 (url_hostname h) \<or> list_all dns_char (url_hostname h)"
    by (auto simp: ValidateHost_def Let_def list_all_iff find_None_iff split: if_splits option.splits)
  have nobr: "\<not> has_prefix x ''[''" if "set x \<subseteq> set h" for x
    using that assms(2) by (cases x) (auto simp: has_prefix_def)
  obtain port where h: "h = url_hostname h @ port" and p: "valid_optional_port port" and c: "CHR '':'' \<notin> set (url_hostname h)"
  proof (cases "cut_char (CHR '':'') h")
    case None
    then have "CHR '':'' \<notin> set h" "url_hostname h = h"
      using nobr [of h] by (simp_all add: cut_char_None url_hostname_def cut_last_None [THEN iffD2])
    then show ?thesis using that [of "[]"] by simp
  next
    case (Some np)
    then obtain n q where nq: "cut_char (CHR '':'') h = Some (n, q)" by (cases np) simp
    with u assms(2) have q: "CHR '':'' \<notin> set q" "valid_optional_port (CHR '':'' # q)"
      by (auto simp: url_host_def split: if_splits)
    from nq have h: "h = n @ CHR '':'' # q" "CHR '':'' \<notin> set n" by (auto simp: cut_char_Some)
    have "\<not> has_prefix n ''[''" using h by (intro nobr) auto
    then have "url_hostname h = n"
      using cut_first_last [OF nq q(1)] q(2) by (simp add: url_hostname_def)
    then show ?thesis using that [of "CHR '':'' # q"] h q by simp
  qed
  have "list_all dns_char (url_hostname h)"
    using ok c parse_ipv4_chars valid_ipv6_colon digit_char_plain(1)
    by (fastforce simp: list_all_iff dns_char_def)
  with h p ne show ?thesis unfolding valid_host_def by blast
qed

lemma accepted_address:
  assumes "ValidateHost h = Inr ()" and "CHR ''['' \<in> set h"
  shows "valid_host h"
proof -
  from assms(1) have "url_host h = Some h"
    by (auto simp: ValidateHost_def Let_def split: if_splits option.splits)
  with assms(2) obtain t where h: "h = CHR ''['' # t" and b: "parse_bracketed t = Some h"
    by (cases h) (auto simp: url_host_def split: if_splits)
  from b obtain inner port a z a' z' where
    cut: "cut_last (CHR '']'') t = Some (inner, port)" and p: "valid_optional_port port"
    and az: "cut_zone inner = (a, z)" and a': "unescape False a = Some a'" and z': "unescape True z = Some z'"
    and v: "valid_address (a' @ z')" and eq: "CHR ''['' # (a' @ z') @ CHR '']'' # port = h"
    by (auto simp: parse_bracketed_def split: option.splits if_splits prod.splits)
  have t: "t = inner @ CHR '']'' # port" and np: "CHR '']'' \<notin> set port" using cut by (auto simp: cut_last_Some)
  with eq h have e: "a' @ z' = inner" by simp
  moreover have inner: "inner = a @ z" by (rule cut_zone_append [OF az])
  moreover have "length (a' @ z') = length (a @ z)" by (simp only: e inner)
  then have "length a' = length a" using unescape_length [OF a'] unescape_length [OF z'] by simp
  ultimately have "a' = a" "z' = z" by (simp_all add: append_eq_append_conv)
  with a' z' have "CHR ''%'' \<notin> set (a' @ z')" by (simp add: unescape_same)
  with v e have "valid_ipv6 inner" by (simp add: valid_address_def cut_char_None [THEN iffD2])
  with h t p show ?thesis unfolding valid_host_def
    by (intro exI [of _ "CHR ''['' # inner @ '']''"] exI [of _ port]) auto
qed

text \<open>
  C28: the validator accepts exactly the hosts of the specification: nothing in an accepted host
  can end the authority of a URL built around it or name another host.
\<close>

theorem ValidateHost_iff: "ValidateHost h = Inr () \<longleftrightarrow> valid_host h"
proof
  assume "ValidateHost h = Inr ()"
  then show "valid_host h" using accepted_name accepted_address by blast
next
  assume "valid_host h"
  then show "ValidateHost h = Inr ()"
    using accepts_name accepts_address by (auto simp: valid_host_def)
qed

section \<open>Redaction (internal/client/secret.go)\<close>

definition secret_char :: "char \<Rightarrow> bool" where
  "secret_char c \<longleftrightarrow> is_alnum c \<or> c = CHR ''_'' \<or> c = CHR ''-''"

text \<open>\<open>likelySecretRe\<close>, matched against a whole text.\<close>

definition likelySecretRe :: "string \<Rightarrow> bool" where
  "likelySecretRe s \<longleftrightarrow> s \<noteq> [] \<and> is_alnum (hd s) \<and> 20 \<le> length s \<and> list_all secret_char s"

lemma drop_run_shorter: "secret_char c \<Longrightarrow> length (dropWhile secret_char (c # s)) < Suc (length s)"
  by (simp add: length_dropWhile_le le_imp_less_Suc)

text \<open>\<open>ReplaceAllString\<close>: the leftmost match, as long as possible, then the rest.\<close>

function redactLikelySecrets :: "string \<Rightarrow> string" where
  "redactLikelySecrets [] = []"
| "redactLikelySecrets (c # s) =
     (if is_alnum c \<and> 20 \<le> length (takeWhile secret_char (c # s))
      then ''[REDACTED]'' @ redactLikelySecrets (dropWhile secret_char (c # s))
      else c # redactLikelySecrets s)"
  by pat_completeness auto
termination
  by (relation "measure length") (auto simp: secret_char_def length_dropWhile_le le_imp_less_Suc)

lemma redacted_run:
  "length (takeWhile secret_char (redactLikelySecrets s)) \<le> length (takeWhile secret_char s)"
  by (induction s rule: redactLikelySecrets.induct) (auto simp: secret_char_def is_alnum_def)

fun has_secret :: "string \<Rightarrow> bool" where
  "has_secret [] \<longleftrightarrow> False"
| "has_secret (c # s) \<longleftrightarrow> is_alnum c \<and> 20 \<le> length (takeWhile secret_char (c # s)) \<or> has_secret s"

lemma secret_prefix:
  assumes "likelySecretRe k" and "has_prefix s k"
  shows "has_secret s"
proof -
  from assms obtain c r where s: "s = c # r" "is_alnum c"
    by (cases s; cases k) (auto simp: likelySecretRe_def has_prefix_def)
  have "length k \<le> length (takeWhile secret_char s)"
  proof -
    have "k = take (length k) s" using assms(2) by (simp add: has_prefix_def)
    then obtain t where "s = k @ t" by (metis append_take_drop_id)
    with assms(1) have "takeWhile secret_char s = k @ takeWhile secret_char t"
      by (simp add: likelySecretRe_def list_all_iff)
    then show ?thesis by simp
  qed
  with assms(1) s show ?thesis by (simp add: likelySecretRe_def)
qed

lemma contains_secret: "likelySecretRe k \<Longrightarrow> contains s k \<Longrightarrow> has_secret s"
proof (induction s)
  case Nil
  then show ?case by (simp add: likelySecretRe_def)
next
  case (Cons c s)
  then show ?case using secret_prefix [of k "c # s"] by (cases "has_prefix (c # s) k") auto
qed

lemma has_secret_marker: "has_secret (''[REDACTED]'' @ s) = has_secret s"
  by (simp add: secret_char_def is_alnum_def)

lemma redacted_clean: "\<not> has_secret (redactLikelySecrets s)"
proof (induction s rule: redactLikelySecrets.induct)
  case (2 c s)
  show ?case
  proof (cases "is_alnum c \<and> 20 \<le> length (takeWhile secret_char (c # s))")
    case True
    then have "redactLikelySecrets (c # s) = ''[REDACTED]'' @ redactLikelySecrets (dropWhile secret_char (c # s))" by simp
    then show ?thesis using 2(1) [OF True] by (simp only: has_secret_marker not_False_eq_True)
  next
    case False
    have "length (takeWhile secret_char (c # redactLikelySecrets s)) \<le> length (takeWhile secret_char (c # s))"
      using redacted_run [of s] by simp
    with False 2(2) [OF False] show ?thesis by auto
  qed
qed simp

lemma redact_clean_id: "\<not> has_secret s \<Longrightarrow> redactLikelySecrets s = s"
  by (induction s) auto



end
