(* ===== verification/Transport.thy ===== *)
theory Transport
  imports Hosts
begin

text \<open>
  One goroutine's view of the WebSocket transport (internal/client/ws.go): dialling, the
  handshake, calls with their reconnect and retry, and uploads. What other goroutines do shows in
  the answers of the environment: the state of the transport under its lock, the counter of
  request ids, and what wakes a waiting call. Theory \<open>Multiplex\<close> has the goroutines together.
\<close>

section \<open>Messages and requests\<close>

record ws_config =
  wc_host :: string
  wc_key :: string
  wc_insecure :: bool

text \<open>The fields of the transport that its lock guards. The generation is a \<open>uint64\<close>.\<close>

record transport =
  tp_closed :: bool
  tp_authed :: bool
  tp_gen :: int
  tp_last :: go_time

record ws_response =
  wr_msg :: string
  wr_id :: string
  wr_result :: "json option"
  wr_error :: "(int \<times> string) option"

datatype scheme = WSS | WS

text \<open>
  \<open>Dial s host verify\<close> opens \<open>s://host/websocket\<close>. \<open>LockShared\<close> and \<open>Lock\<close>
  read the state under the lock, \<open>Unlock t\<close> leaves it as \<open>t\<close>. \<open>Await id b\<close> is the
  select of a waiting call; the default timeout is armed when \<open>b\<close> is false. The shutdown
  signals the sleepers, waits for the calls and closes the connection, the last two under a timeout.
\<close>

datatype ws_op =
    Dial scheme string bool
  | SendConnect
  | SendAuth string
  | ReadReply
  | CloseConn
  | StartReader
  | LockShared
  | Lock
  | Unlock transport
  | PauseFor int
  | ReadClock
  | CtxErr
  | CtxDeadline
  | NextRequestID
  | Register string
  | Unregister string
  | AcquireWrite
  | ReleaseWrite
  | SendRequest string string "json list" go_time
  | Await string bool
  | PostUpload string string json
  | SignalClose
  | DrainCalls
  | FinalClose

datatype ws_answer =
    Dialled "int option"
  | DialError "int option"
  | Written
  | WriteError string
  | Frame ws_response
  | ReadError string
  | Locked transport
  | SleepClosed
  | Cancelled
  | Instant go_time
  | DeadlineAt "go_time option"
  | Counter int
  | ConnLost string
  | TimedOut
  | ReaderDone "string option"
  | HttpResponse int string
  | HttpError
  | Ack

type_synonym ws_env = "(ws_op, ws_answer) env"
type_synonym 'a ws_prog = "(ws_op, ws_answer, unit, 'a) prog"

datatype ws_failure =
    ErrTransportClosed
  | ContextError
  | ApiFailure int string
  | ConnectionLost string
  | CallTimedOut
  | NotAuthenticated
  | SendFailed string
  | UnmarshalFailed
  | BadHost host_error
  | DialFailed "int option"
  | UnexpectedStatus int
  | ConnectSend string | ConnectRead string | ConnectReply string
  | AuthSend string | AuthRead string | AuthError string | AuthRejected
  | AttemptsFailed "ws_failure option"
  | CallAndReconnect ws_failure ws_failure
  | UploadFailed
  | UploadStatus int string
  | CloseFailed string | CloseTimedOut

text \<open>\<open>errors.As\<close> to an \<open>APIError\<close>, through wrapped and joined errors.\<close>

fun isAPIError :: "ws_failure \<Rightarrow> (int \<times> string) option" where
  "isAPIError (ApiFailure code msg) = Some (code, msg)"
| "isAPIError (AttemptsFailed (Some e)) = isAPIError e"
| "isAPIError (CallAndReconnect e f) = (case isAPIError e of None \<Rightarrow> isAPIError f | Some r \<Rightarrow> Some r)"
| "isAPIError _ = None"

section \<open>Dialling\<close>

fun dialled :: "ws_answer \<Rightarrow> int option + int option" where
  "dialled (Dialled s) = Inr s"
| "dialled (DialError s) = Inl s"
| "dialled _ = Inl None"

fun write_error :: "ws_answer \<Rightarrow> string option" where
  "write_error (WriteError e) = Some e"
| "write_error _ = None"

fun read_reply :: "ws_answer \<Rightarrow> string + ws_response" where
  "read_reply (Frame f) = Inr f"
| "read_reply (ReadError e) = Inl e"
| "read_reply _ = Inl []"

definition check_status :: "ws_env \<Rightarrow> int option \<Rightarrow> (ws_failure + unit) ws_prog" where
  "check_status env s =
     (case s of
        None \<Rightarrow> ret (Inr ())
      | Some code \<Rightarrow>
          if code \<noteq> 101 then do { a \<leftarrow> ask env CloseConn; ret (Inl (UnexpectedStatus code)) }
          else ret (Inr ()))"

definition dialWebSocket :: "ws_env \<Rightarrow> ws_config \<Rightarrow> (ws_failure + unit) ws_prog" where
  "dialWebSocket env cfg =
     (case ValidateHost (wc_host cfg) of
        Inl e \<Rightarrow> ret (Inl (BadHost e))
      | Inr u \<Rightarrow> do {
          a \<leftarrow> ask env (Dial WSS (wc_host cfg) (\<not> wc_insecure cfg));
          case dialled a of
            Inr s \<Rightarrow> check_status env s
          | Inl s \<Rightarrow>
              if \<not> wc_insecure cfg then ret (Inl (DialFailed s))
              else do {
                b \<leftarrow> ask env (Dial WS (wc_host cfg) (\<not> wc_insecure cfg));
                case dialled b of
                  Inl s \<Rightarrow> ret (Inl (DialFailed s))
                | Inr s \<Rightarrow> check_status env s } })"

definition ws_connect :: "ws_env \<Rightarrow> (ws_failure + unit) ws_prog" where
  "ws_connect env = do {
     a \<leftarrow> ask env SendConnect;
     case write_error a of
       Some e \<Rightarrow> ret (Inl (ConnectSend e))
     | None \<Rightarrow> do {
         b \<leftarrow> ask env ReadReply;
         ret (case read_reply b of
                Inl e \<Rightarrow> Inl (ConnectRead e)
              | Inr f \<Rightarrow> if wr_msg f \<noteq> ''connected'' then Inl (ConnectReply (wr_msg f)) else Inr ()) } }"

definition authenticate :: "ws_env \<Rightarrow> ws_config \<Rightarrow> (ws_failure + unit) ws_prog" where
  "authenticate env cfg = do {
     a \<leftarrow> ask env (SendAuth (wc_key cfg));
     case write_error a of
       Some e \<Rightarrow> ret (Inl (AuthSend e))
     | None \<Rightarrow> do {
         b \<leftarrow> ask env ReadReply;
         ret (case read_reply b of
                Inl e \<Rightarrow> Inl (AuthRead e)
              | Inr f \<Rightarrow>
                  (case wr_error f of
                     Some (code, reason) \<Rightarrow> Inl (AuthError (redactLikelySecrets reason))
                   | None \<Rightarrow> if wr_result f \<noteq> Some (JBool True) then Inl AuthRejected else Inr ())) } }"

definition handshakeAndAuth :: "ws_env \<Rightarrow> ws_config \<Rightarrow> (ws_failure + unit) ws_prog" where
  "handshakeAndAuth env cfg = bindE (ws_connect env) (\<lambda>_. authenticate env cfg)"

definition newWSTransport :: "ws_env \<Rightarrow> ws_config \<Rightarrow> (ws_failure + transport) ws_prog" where
  "newWSTransport env cfg =
     bindE (dialWebSocket env cfg) (\<lambda>_. do {
       h \<leftarrow> handshakeAndAuth env cfg;
       case h of
         Inl e \<Rightarrow> do { a \<leftarrow> ask env CloseConn; ret (Inl e) }
       | Inr u \<Rightarrow> do {
           a \<leftarrow> ask env StartReader;
           ret (Inr \<lparr>tp_closed = False, tp_authed = True, tp_gen = 0, tp_last = time_zero\<rparr>) } })"

section \<open>Reconnecting\<close>

definition maxReconnectAttempts :: nat where "maxReconnectAttempts = 3"
definition initialBackoff :: int where "initialBackoff = second"
definition maxBackoff :: int where "maxBackoff = 30 * second"
definition reconnectCooldown :: int where "reconnectCooldown = 30 * second"

definition sleepInterruptible :: "ws_env \<Rightarrow> int \<Rightarrow> (ws_failure + unit) ws_prog" where
  "sleepInterruptible env d = do {
     a \<leftarrow> ask env (PauseFor d);
     ret (case a of
            SleepClosed \<Rightarrow> Inl ErrTransportClosed
          | Cancelled \<Rightarrow> Inl ContextError
          | _ \<Rightarrow> Inr ()) }"

fun locked :: "ws_answer \<Rightarrow> transport" where
  "locked (Locked t) = t"
| "locked _ = \<lparr>tp_closed = True, tp_authed = False, tp_gen = 0, tp_last = time_zero\<rparr>"

fun instant :: "ws_answer \<Rightarrow> go_time" where
  "instant (Instant t) = t"
| "instant _ = time_zero"

text \<open>The attempts that are left; every attempt but the first waits.\<close>

fun dial_attempts ::
  "ws_env \<Rightarrow> ws_config \<Rightarrow> nat \<Rightarrow> bool \<Rightarrow> int \<Rightarrow> ws_failure option \<Rightarrow> transport \<Rightarrow>
   ((ws_failure + unit) \<times> transport) ws_prog" where
  "dial_attempts env cfg 0 pause backoff err t = ret (Inl (AttemptsFailed err), t)"
| "dial_attempts env cfg (Suc n) pause backoff err t = do {
     s \<leftarrow> (if pause then sleepInterruptible env backoff else ret (Inr ()));
     case s of
       Inl e \<Rightarrow> ret (Inl e, t)
     | Inr u \<Rightarrow> do {
         let next = (if pause then min (2 * backoff) maxBackoff else backoff);
         d \<leftarrow> dialWebSocket env cfg;
         case d of
           Inl e \<Rightarrow> dial_attempts env cfg n True next (Some e) t
         | Inr v \<Rightarrow> do {
             h \<leftarrow> handshakeAndAuth env cfg;
             case h of
               Inl e \<Rightarrow> do { a \<leftarrow> ask env CloseConn; dial_attempts env cfg n True next (Some e) t }
             | Inr x \<Rightarrow> do {
                 a \<leftarrow> ask env StartReader;
                 ret (Inr (), t\<lparr>tp_authed := True, tp_gen := (tp_gen t + 1) mod 2 ^ 64\<rparr>) } } } }"

definition replace_connection :: "ws_env \<Rightarrow> ws_config \<Rightarrow> transport \<Rightarrow> ((ws_failure + unit) \<times> transport) ws_prog" where
  "replace_connection env cfg t = do {
     now \<leftarrow> ask env ReadClock;
     let since = time_sub (instant now) (tp_last t);
     s \<leftarrow> (if since < reconnectCooldown then sleepInterruptible env (reconnectCooldown - since) else ret (Inr ()));
     case s of
       Inl e \<Rightarrow> ret (Inl e, t)
     | Inr u \<Rightarrow> do {
         now' \<leftarrow> ask env ReadClock;
         a \<leftarrow> ask env CloseConn;
         dial_attempts env cfg maxReconnectAttempts False initialBackoff None
           (t\<lparr>tp_last := instant now', tp_authed := False\<rparr>) } }"

definition reconnect :: "ws_env \<Rightarrow> ws_config \<Rightarrow> int \<Rightarrow> (ws_failure + unit) ws_prog" where
  "reconnect env cfg observedGen = do {
     a \<leftarrow> ask env Lock;
     let t = locked a;
     rt \<leftarrow> (if tp_closed t then ret (Inl ErrTransportClosed, t)
            else if tp_gen t \<noteq> observedGen then ret (Inr (), t)
            else replace_connection env cfg t);
     u \<leftarrow> ask env (Unlock (snd rt));
     ret (fst rt) }"

section \<open>Calls\<close>

text \<open>The decoding of the result is the caller's; \<open>None\<close> when it wants none.\<close>

definition handleResponse :: "(json \<Rightarrow> bool) option \<Rightarrow> ws_response \<Rightarrow> ws_failure + json option" where
  "handleResponse want f =
     (case wr_error f of
        Some (code, reason) \<Rightarrow> Inl (ApiFailure code reason)
      | None \<Rightarrow>
          (case (want, wr_result f) of
             (Some decodes, Some v) \<Rightarrow> if decodes v then Inr (Some v) else Inl UnmarshalFailed
           | _ \<Rightarrow> Inr None))"

fun deadline_of :: "ws_answer \<Rightarrow> go_time option" where
  "deadline_of (DeadlineAt d) = d"
| "deadline_of _ = None"

fun counter_of :: "ws_answer \<Rightarrow> int" where
  "counter_of (Counter n) = n"
| "counter_of _ = 0"

definition add_duration :: "go_time \<Rightarrow> int \<Rightarrow> go_time" where
  "add_duration t d =
     (let n = t_ns t + d mod second
      in \<lparr>t_sec = i64 (t_sec t + d div second + n div second), t_ns = n mod second\<rparr>)"

definition write_deadline :: "go_time \<Rightarrow> go_time option \<Rightarrow> go_time" where
  "write_deadline now d =
     (let limit = add_duration now (30 * second)
      in case d of None \<Rightarrow> limit | Some t \<Rightarrow> if time_before t limit then t else limit)"

definition writeRequest :: "ws_env \<Rightarrow> string \<Rightarrow> string \<Rightarrow> json list \<Rightarrow> (ws_failure + unit) ws_prog" where
  "writeRequest env reqID method params = do {
     a \<leftarrow> ask env AcquireWrite;
     if a = Cancelled then ret (Inl ContextError)
     else do {
       b \<leftarrow> ask env LockShared;
       r \<leftarrow> (if \<not> tp_authed (locked b) then ret (Inl NotAuthenticated)
             else do {
               now \<leftarrow> ask env ReadClock;
               d \<leftarrow> ask env CtxDeadline;
               w \<leftarrow> ask env (SendRequest reqID method params (write_deadline (instant now) (deadline_of d)));
               ret (case write_error w of Some e \<Rightarrow> Inl (SendFailed e) | None \<Rightarrow> Inr ()) });
       u \<leftarrow> ask env ReleaseWrite;
       ret r } }"

fun await_result :: "(json \<Rightarrow> bool) option \<Rightarrow> ws_answer \<Rightarrow> ws_failure + json option" where
  "await_result want (Frame f) = handleResponse want f"
| "await_result want (ConnLost reason) = Inl (ConnectionLost reason)"
| "await_result want Cancelled = Inl ContextError"
| "await_result want TimedOut = Inl CallTimedOut"
| "await_result want (ReaderDone r) = Inl (ConnectionLost (case r of None \<Rightarrow> [] | Some e \<Rightarrow> e))"
| "await_result want _ = Inl (ConnectionLost [])"

definition doCall ::
  "ws_env \<Rightarrow> string \<Rightarrow> params \<Rightarrow> (json \<Rightarrow> bool) option \<Rightarrow> (ws_failure + json option) ws_prog" where
  "doCall env method params want = do {
     c \<leftarrow> ask env NextRequestID;
     let reqID = format_int (counter_of c);
     g \<leftarrow> ask env (Register reqID);
     r \<leftarrow> bindE (writeRequest env reqID method (NormalizeParams params)) (\<lambda>_. do {
            d \<leftarrow> ask env CtxDeadline;
            s \<leftarrow> ask env LockShared;
            a \<leftarrow> ask env (Await reqID (deadline_of d \<noteq> None));
            ret (await_result want a) });
     u \<leftarrow> ask env (Unregister reqID);
     ret r }"

definition Call ::
  "ws_env \<Rightarrow> ws_config \<Rightarrow> string \<Rightarrow> params \<Rightarrow> (json \<Rightarrow> bool) option \<Rightarrow> (ws_failure + json option) ws_prog" where
  "Call env cfg method params want = do {
     a \<leftarrow> ask env LockShared;
     if tp_closed (locked a) then ret (Inl ErrTransportClosed)
     else do {
       r \<leftarrow> doCall env method params want;
       case r of
         Inr v \<Rightarrow> ret (Inr v)
       | Inl e \<Rightarrow>
           if isAPIError e \<noteq> None then ret (Inl e)
           else do {
             c \<leftarrow> ask env CtxErr;
             if c = Cancelled then ret (Inl e)
             else do {
               rr \<leftarrow> reconnect env cfg (tp_gen (locked a));
               case rr of
                 Inl f \<Rightarrow> ret (Inl (CallAndReconnect e f))
               | Inr u \<Rightarrow> doCall env method params want } } } }"

section \<open>Uploads\<close>

text \<open>\<open>URL.String\<close> of an \<open>https\<close> URL of a host and a plain path: the host is escaped byte by byte.\<close>

definition hex_digit :: "nat \<Rightarrow> char" where
  "hex_digit n = (if n < 10 then char_of (48 + n) else char_of (55 + n))"

definition escape_host :: "string \<Rightarrow> string" where
  "escape_host h = concat (map (\<lambda>c. if escaped_in_host c \<or> 128 \<le> (of_char c :: nat)
     then [CHR ''%'', hex_digit (of_char c div 16), hex_digit (of_char c mod 16)] else [c]) h)"

definition upload_url :: "string \<Rightarrow> string" where
  "upload_url host = ''https://'' @ escape_host host @ ''/_upload/''"

definition writeUploadMultipart :: "string \<Rightarrow> json" where
  "writeUploadMultipart destPath =
     JObj [(''method'', JStr ''filesystem.put''), (''params'', JArr [JStr destPath, JObj [(''mode'', JInt 493)]])]"

definition UploadFile_ws :: "ws_env \<Rightarrow> ws_config \<Rightarrow> string \<Rightarrow> (ws_failure + unit) ws_prog" where
  "UploadFile_ws env cfg destPath = do {
     a \<leftarrow> ask env LockShared;
     if tp_closed (locked a) then ret (Inl ErrTransportClosed)
     else do {
       r \<leftarrow> ask env (PostUpload (upload_url (wc_host cfg)) (wc_key cfg) (writeUploadMultipart destPath));
       ret (case r of
              HttpResponse status body \<Rightarrow>
                if status < 200 \<or> 300 \<le> status then Inl (UploadStatus status body) else Inr ()
            | _ \<Rightarrow> Inl UploadFailed) } }"

section \<open>The shutdown\<close>

text \<open>The wait for the calls may time out; the connection is closed all the same.\<close>

definition Close_ws :: "ws_env \<Rightarrow> (ws_failure + unit) ws_prog" where
  "Close_ws env = do {
     s \<leftarrow> ask env SignalClose;
     a \<leftarrow> ask env Lock;
     let t = locked a;
     u \<leftarrow> ask env (Unlock (if tp_closed t then t else t\<lparr>tp_closed := True\<rparr>));
     if tp_closed t then ret (Inr ())
     else do {
       d \<leftarrow> ask env DrainCalls;
       c \<leftarrow> ask env FinalClose;
       ret (case c of
              WriteError e \<Rightarrow> Inl (CloseFailed e)
            | TimedOut \<Rightarrow> Inl CloseTimedOut
            | _ \<Rightarrow> Inr ()) } }"

section \<open>The client\<close>

definition defaultMaxConcurrentCalls :: int where "defaultMaxConcurrentCalls = 8"

datatype client_error = HostRequired | KeyRequired | ConnectFailed ws_failure

text \<open>\<open>New\<close>: the transport and the number of slots of the semaphore.\<close>

definition newClient :: "transport \<Rightarrow> int \<Rightarrow> transport \<times> int" where
  "newClient t maxConcurrent = (t, if maxConcurrent \<le> 0 then defaultMaxConcurrentCalls else maxConcurrent)"

definition NewClient :: "ws_env \<Rightarrow> ws_config \<Rightarrow> int \<Rightarrow> (client_error + transport \<times> int) ws_prog" where
  "NewClient env cfg maxConcurrent =
     (if wc_host cfg = [] then ret (Inl HostRequired)
      else if wc_key cfg = [] then ret (Inl KeyRequired)
      else do {
        r \<leftarrow> newWSTransport env cfg;
        ret (case r of Inl e \<Rightarrow> Inl (ConnectFailed e) | Inr t \<Rightarrow> Inr (newClient t maxConcurrent)) })"

section \<open>Where the API key goes\<close>

text \<open>A session: a new transport, and then calls, uploads and shutdowns in any order.\<close>

datatype ws_action = CallAction string params "(json \<Rightarrow> bool) option" | UploadAction string | CloseAction

fun ws_act :: "ws_env \<Rightarrow> ws_config \<Rightarrow> ws_action \<Rightarrow> unit ws_prog" where
  "ws_act env cfg (CallAction m ps want) = do { r \<leftarrow> Call env cfg m ps want; ret () }"
| "ws_act env cfg (UploadAction d) = do { r \<leftarrow> UploadFile_ws env cfg d; ret () }"
| "ws_act env cfg CloseAction = do { r \<leftarrow> Close_ws env; ret () }"

definition ws_session :: "ws_env \<Rightarrow> ws_config \<Rightarrow> ws_action list \<Rightarrow> (ws_failure + unit) ws_prog" where
  "ws_session env cfg acts =
     bindE (newWSTransport env cfg) (\<lambda>_. do { u \<leftarrow> for_all (ws_act env cfg) acts; ret (Inr ()) })"

type_synonym ws_history = "(ws_op \<times> ws_answer) list"

fun transport_guard :: "ws_config \<Rightarrow> ws_history \<Rightarrow> ws_op \<Rightarrow> bool" where
  "transport_guard cfg h (Dial s host verify) \<longleftrightarrow>
     host = wc_host cfg \<and> valid_host host \<and> (verify \<or> wc_insecure cfg) \<and>
     (s = WS \<longrightarrow> wc_insecure cfg \<and> (\<exists>pre a e. h = pre @ [(Dial WSS host False, a)] \<and> dialled a = Inl e))"
| "transport_guard cfg h (SendAuth key) \<longleftrightarrow>
     key = wc_key cfg \<and>
     (\<exists>pre s v st a f. h = pre @ [(Dial s (wc_host cfg) v, Dialled st), (SendConnect, a), (ReadReply, Frame f)] \<and>
        wr_msg f = ''connected'')"
| "transport_guard cfg h (PostUpload url key body) \<longleftrightarrow>
     url = ''https://'' @ wc_host cfg @ ''/_upload/'' \<and> valid_host (wc_host cfg) \<and> key = wc_key cfg"
| "transport_guard cfg h q \<longleftrightarrow> True"

definition fresh_dial :: "ws_config \<Rightarrow> ws_history \<Rightarrow> bool" where
  "fresh_dial cfg h \<longleftrightarrow> (\<exists>pre s v st. h = pre @ [(Dial s (wc_host cfg) v, Dialled st)])"

lemma dialled_Inr: "dialled a = Inr s \<longleftrightarrow> a = Dialled s"
  by (cases a) auto

lemma read_reply_Inr: "read_reply a = Inr f \<longleftrightarrow> a = Frame f"
  by (cases a) auto

lemma safe_check_status:
  "(\<And>h. E h \<Longrightarrow> fresh_dial cfg h) \<Longrightarrow>
   safe (transport_guard cfg) E (check_status env s) (\<lambda>r h. r = Inr () \<longrightarrow> fresh_dial cfg h)"
  by (auto simp: check_status_def intro!: safe_ret safe_case_option safe_if safe_bind safe_ask)

lemma safe_dial:
  "safe (transport_guard cfg) (\<lambda>h. True) (dialWebSocket env cfg)
     (\<lambda>r h. r = Inr () \<longrightarrow> valid_host (wc_host cfg) \<and> fresh_dial cfg h)"
proof (cases "ValidateHost (wc_host cfg)")
  case (Inl e)
  then show ?thesis by (simp add: dialWebSocket_def safe_ret)
next
  case (Inr u)
  then have v: "valid_host (wc_host cfg)" by (simp add: ValidateHost_iff [symmetric])
  let ?h = "wc_host cfg" and ?v = "\<not> wc_insecure cfg"
  let ?dialled = "\<lambda>s a h. \<exists>pre. h = pre @ [(Dial s ?h ?v, a)]"
  have first: "safe (transport_guard cfg) (\<lambda>h. True) (ask env (Dial WSS ?h ?v)) (?dialled WSS)"
    by (rule safe_ask) (use v in auto)
  have again: "safe (transport_guard cfg) (?dialled WSS a) (ask env (Dial WS ?h ?v)) (?dialled WS)"
    if "dialled a = Inl e" "wc_insecure cfg" for a e
    by (rule safe_ask) (use v that in auto)
  have status: "safe (transport_guard cfg) (?dialled s a) (check_status env st)
      (\<lambda>r h. r = Inr () \<longrightarrow> valid_host ?h \<and> fresh_dial cfg h)" if "dialled a = Inr st" for s a st
    by (rule safe_conseq [OF safe_check_status [where E = "?dialled s a"]])
      (use that v in \<open>auto simp: dialled_Inr fresh_dial_def\<close>)
  show ?thesis
    unfolding dialWebSocket_def Inr sum.case
    by (rule safe_bind [OF first])
      (auto intro!: safe_case_sum safe_if safe_ret status safe_bind [OF again])
qed

definition greeted :: "ws_config \<Rightarrow> ws_answer \<Rightarrow> ws_history \<Rightarrow> bool" where
  "greeted cfg b h \<longleftrightarrow>
     (\<exists>pre s v st a. h = pre @ [(Dial s (wc_host cfg) v, Dialled st), (SendConnect, a), (ReadReply, b)])"

lemma safe_connect:
  "safe (transport_guard cfg) (fresh_dial cfg) (ws_connect env)
     (\<lambda>r h. r = Inr () \<longrightarrow> (\<exists>f. greeted cfg (Frame f) h \<and> wr_msg f = ''connected''))"
proof -
  let ?sent = "\<lambda>a h. \<exists>pre s v st. h = pre @ [(Dial s (wc_host cfg) v, Dialled st), (SendConnect, a)]"
  have send: "safe (transport_guard cfg) (fresh_dial cfg) (ask env SendConnect) ?sent"
    by (rule safe_ask) (auto simp: fresh_dial_def)
  have read: "safe (transport_guard cfg) (?sent a) (ask env ReadReply) (greeted cfg)" for a
    by (rule safe_ask) (auto simp: greeted_def)
  show ?thesis
    unfolding ws_connect_def
    by (rule safe_bind [OF send])
      (auto simp: read_reply_Inr intro!: safe_case_option safe_ret safe_bind [OF read] split: sum.splits if_splits)
qed

lemma safe_handshake:
  "safe (transport_guard cfg) (fresh_dial cfg) (handshakeAndAuth env cfg) (\<lambda>_ _. True)"
proof -
  let ?ok = "\<lambda>u h. \<exists>f. greeted cfg (Frame f) h \<and> wr_msg f = ''connected''"
  have auth: "safe (transport_guard cfg) (?ok u) (ask env (SendAuth (wc_key cfg))) (\<lambda>_ _. True)" for u :: unit
    by (rule safe_ask) (auto simp: greeted_def)
  show ?thesis
    unfolding handshakeAndAuth_def
  proof (rule safe_bindE [where R = ?ok])
    show "safe (transport_guard cfg) (fresh_dial cfg) (ws_connect env) (\<lambda>r h. case r of Inl e \<Rightarrow> True | Inr u \<Rightarrow> ?ok u h)"
      by (rule safe_conseq [OF safe_connect]) (auto split: sum.splits)
    show "safe (transport_guard cfg) (?ok u) (authenticate env cfg) (\<lambda>_ _. True)" for u
      unfolding authenticate_def
      by (rule safe_bind [OF auth])
        (auto intro!: safe_case_option safe_ret safe_bind [where R = "\<lambda>_ _. True"] safe_ask)
  qed
qed

text \<open>The requests that the guard always allows.\<close>

lemma safe_plain:
  "(\<And>h. transport_guard cfg h q) \<Longrightarrow> safe (transport_guard cfg) E (ask env q) (\<lambda>_ _. True)"
  by (rule safe_ask) auto

lemma safe_dialled:
  "safe (transport_guard cfg) E (dialWebSocket env cfg) (\<lambda>r h. r = Inr () \<longrightarrow> valid_host (wc_host cfg) \<and> fresh_dial cfg h)"
  by (rule safe_conseq [OF safe_dial]) auto

lemma safe_new:
  "safe (transport_guard cfg) (\<lambda>_. True) (newWSTransport env cfg) (\<lambda>r _. case r of Inl e \<Rightarrow> True | Inr t \<Rightarrow> valid_host (wc_host cfg))"
proof -
  let ?R = "\<lambda>_ h. valid_host (wc_host cfg) \<and> fresh_dial cfg h"
  have hs: "safe (transport_guard cfg) (?R u) (handshakeAndAuth env cfg) (\<lambda>_ _. valid_host (wc_host cfg))" for u :: unit
  proof (cases "valid_host (wc_host cfg)")
    case True
    then show ?thesis by (intro safe_conseq [OF safe_handshake]) auto
  next
    case False
    then show ?thesis by (intro safeI) auto
  qed
  show ?thesis
    unfolding newWSTransport_def
    by (rule safe_bindE [where R = ?R], rule safe_conseq [OF safe_dial])
      (auto split: sum.splits intro!: safe_bind [OF hs] safe_case_sum safe_ret safe_bind [where R = "\<lambda>_ _. valid_host (wc_host cfg)"] safe_ask)
qed

lemma safe_attempts:
  "safe (transport_guard cfg) E (dial_attempts env cfg n pause backoff err t) (\<lambda>_ _. True)"
proof (induction n arbitrary: E pause backoff err)
  case (Suc n)
  have sleep: "safe (transport_guard cfg) E' (if pause then sleepInterruptible env backoff else ret (Inr ())) (\<lambda>_ _. True)" for E'
    by (auto simp: sleepInterruptible_def intro!: safe_if safe_ret safe_bind [OF safe_plain])
  have hs: "safe (transport_guard cfg) (\<lambda>h. a = Inr () \<longrightarrow> valid_host (wc_host cfg) \<and> fresh_dial cfg h)
      (handshakeAndAuth env cfg) (\<lambda>_ _. True)" if "a = Inr v" for a :: "ws_failure + unit" and v
    by (rule safe_conseq [OF safe_handshake]) (use that in auto)
  have plain: "safe (transport_guard cfg) (\<lambda>_. True) (ask env q) (\<lambda>_ _. True)" if "q \<in> {CloseConn, StartReader}" for q
    by (rule safe_plain) (use that in auto)
  show ?case
    unfolding dial_attempts.simps
    apply (rule safe_bind [OF sleep], rule safe_case_sum, rule safe_ret, rule TrueI)
    apply (rule safe_let, rule safe_bind [OF safe_dialled], rule safe_case_sum, rule Suc.IH)
    apply (rule safe_bind [OF hs], assumption, rule safe_case_sum)
     apply (rule safe_bind [OF plain], simp, rule Suc.IH)
    by (rule safe_bind [OF plain], simp, rule safe_ret, rule TrueI)
qed (simp add: safe_ret)

lemma safe_reconnect:
  "safe (transport_guard cfg) E (reconnect env cfg g) (\<lambda>_ _. True)"
proof -
  have plain: "safe (transport_guard cfg) E (ask env q) (\<lambda>_ _. True)"
    if "q \<in> {Lock, CloseConn, ReadClock} \<or> (\<exists>t. q = Unlock t) \<or> (\<exists>d. q = PauseFor d)" for E q
    by (rule safe_plain) (use that in auto)
  have sleep: "safe (transport_guard cfg) E (sleepInterruptible env d) (\<lambda>_ _. True)" for E d
    unfolding sleepInterruptible_def by (rule safe_bind [OF plain]) (auto intro: safe_ret)
  have replace: "safe (transport_guard cfg) E (replace_connection env cfg t) (\<lambda>_ _. True)" for E t
    unfolding replace_connection_def
    by (intro safe_bind [OF plain] safe_let safe_bind [where R = "\<lambda>_ _. True"] safe_if sleep safe_ret safe_case_sum safe_attempts)
      simp_all
  show ?thesis
    unfolding reconnect_def
    by (intro safe_bind [OF plain] safe_let safe_bind [where R = "\<lambda>_ _. True"] safe_if replace safe_ret) simp_all
qed

lemma emits_doCall: "emits (\<lambda>q r. \<forall>h. transport_guard cfg h q) (doCall env method ps want)"
  unfolding doCall_def writeRequest_def Let_def by (intro emits_intros) simp_all

lemma safe_doCall: "safe (transport_guard cfg) E (doCall env method ps want) (\<lambda>_ _. True)"
  by (rule safe_conseq [OF safe_emits [where E = "\<lambda>_. True", OF emits_mono [OF emits_doCall]]]) auto

lemma safe_Call: "safe (transport_guard cfg) E (Call env cfg method ps want) (\<lambda>_ _. True)"
proof -
  have plain: "safe (transport_guard cfg) E (ask env q) (\<lambda>_ _. True)" if "q \<in> {LockShared, CtxErr}" for E q
    by (rule safe_plain) (use that in auto)
  show ?thesis
    unfolding Call_def
    by (intro safe_bind [OF plain] safe_if safe_ret safe_bind [OF safe_doCall] safe_case_sum safe_bind [OF safe_reconnect] safe_doCall)
      simp_all
qed

lemma escape_valid: "valid_host h \<Longrightarrow> escape_host h = h"
proof -
  assume v: "valid_host h"
  have "\<not> escaped_in_host c \<and> \<not> 128 \<le> (of_char c :: nat)" if "c \<in> set h" for c
    using valid_host_chars [OF v that] host_char_plain(2) [of c]
    by (auto simp: host_char_def dns_char_def is_alnum_def Let_def)
  then show ?thesis by (induction h) (auto simp: escape_host_def)
qed

lemma safe_Upload:
  assumes "valid_host (wc_host cfg)"
  shows "safe (transport_guard cfg) E (UploadFile_ws env cfg d) (\<lambda>_ _. True)"
proof -
  have "safe (transport_guard cfg) E (ask env q) (\<lambda>_ _. True)"
    if "q \<in> {LockShared, PostUpload (upload_url (wc_host cfg)) (wc_key cfg) b}" for E q b
    by (rule safe_ask) (use that assms in \<open>auto simp: upload_url_def escape_valid\<close>)
  then show ?thesis
    unfolding UploadFile_ws_def
    by (intro safe_bind [where R = "\<lambda>_ _. True"] safe_if safe_ret) (auto intro: safe_ret)
qed

lemma safe_Close: "safe (transport_guard cfg) E (Close_ws env) (\<lambda>_ _. True)"
proof -
  have "emits (\<lambda>q r. \<forall>h. transport_guard cfg h q) (Close_ws env)"
    unfolding Close_ws_def Let_def by (intro emits_intros) simp_all
  then show ?thesis
    by (intro safe_conseq [OF safe_emits [where E = "\<lambda>_. True", OF emits_mono]]) auto
qed


section \<open>What a reconnect costs\<close>

fun pause_of :: "ws_op \<Rightarrow> int" where
  "pause_of (PauseFor d) = d"
| "pause_of _ = 0"

fun tls_dial :: "ws_op \<Rightarrow> nat" where
  "tls_dial (Dial WSS h v) = 1"
| "tls_dial _ = 0"

definition pauses :: "ws_history \<Rightarrow> int" where
  "pauses es = (\<Sum>e\<leftarrow>es. pause_of (fst e))"

definition tls_dials :: "ws_history \<Rightarrow> nat" where
  "tls_dials es = (\<Sum>e\<leftarrow>es. tls_dial (fst e))"

text \<open>\<open>spends m n s\<close>: at most \<open>n\<close> dials with TLS and \<open>s\<close> nanoseconds of pauses.\<close>

definition spends :: "'a ws_prog \<Rightarrow> nat \<Rightarrow> int \<Rightarrow> bool" where
  "spends m n s \<longleftrightarrow> (\<forall>w. \<exists>es. w_hist (snd (run_state m w)) = w_hist w @ es \<and> tls_dials es \<le> n \<and> pauses es \<le> s)"

named_theorems spends_intros

lemma spends_ret [spends_intros]: "spends (ret a) 0 0"
  by (simp add: spends_def tls_dials_def pauses_def)

lemma spends_ask: "spends (ask env q) (tls_dial q) (pause_of q)"
  by (simp add: spends_def tls_dials_def pauses_def)

lemma spends_bind:
  assumes "spends m n s" and "\<And>a. spends (f a) n' s'"
  shows "spends (m \<bind> f) (n + n') (s + s')"
  unfolding spends_def
proof
  fix w
  obtain a w1 where r: "run_state m w = (a, w1)" by (cases "run_state m w")
  from assms(1) r obtain es where es: "w_hist w1 = w_hist w @ es" "tls_dials es \<le> n" "pauses es \<le> s"
    unfolding spends_def by (metis snd_conv)
  from assms(2) obtain fs where fs: "w_hist (snd (run_state (f a) w1)) = w_hist w1 @ fs" "tls_dials fs \<le> n'" "pauses fs \<le> s'"
    unfolding spends_def by metis
  show "\<exists>es. w_hist (snd (run_state (m \<bind> f) w)) = w_hist w @ es \<and> tls_dials es \<le> n + n' \<and> pauses es \<le> s + s'"
    by (rule exI [of _ "es @ fs"]) (use r es fs in \<open>auto simp: tls_dials_def pauses_def\<close>)
qed

lemma spends_mono: "spends m n s \<Longrightarrow> n \<le> n' \<Longrightarrow> s \<le> s' \<Longrightarrow> spends m n' s'"
  unfolding spends_def by (meson order_trans)

lemma spends_case_sum:
  "(\<And>e. x = Inl e \<Longrightarrow> spends (f e) n s) \<Longrightarrow> (\<And>a. x = Inr a \<Longrightarrow> spends (g a) n s) \<Longrightarrow>
   spends (case x of Inl e \<Rightarrow> f e | Inr a \<Rightarrow> g a) n s"
  by (cases x) auto

text \<open>Programs that neither dial nor pause are free.\<close>

lemma spends_free:
  assumes "emits (\<lambda>q r. tls_dial q = 0 \<and> pause_of q = 0) m"
  shows "spends m 0 0"
  unfolding spends_def
proof
  fix w
  obtain a w1 where r: "run_state m w = (a, w1)" by (cases "run_state m w")
  from emitsD [OF assms r] obtain es where es: "w_hist w1 = w_hist w @ es"
    and free: "\<And>q x. (q, x) \<in> set es \<Longrightarrow> tls_dial q = 0 \<and> pause_of q = 0" by blast
  have "\<forall>e \<in> set es. tls_dial (fst e) = 0 \<and> pause_of (fst e) = 0" using free by auto
  then have "tls_dials es = 0 \<and> pauses es = 0"
    unfolding tls_dials_def pauses_def by (induction es) auto
  with r es show "\<exists>es. w_hist (snd (run_state m w)) = w_hist w @ es \<and> tls_dials es \<le> 0 \<and> pauses es \<le> 0" by auto
qed

lemma spends_free_bind: "emits (\<lambda>q r. tls_dial q = 0 \<and> pause_of q = 0) m \<Longrightarrow> (\<And>a. spends (f a) n s) \<Longrightarrow> spends (m \<bind> f) n s"
  using spends_bind [OF spends_free] by fastforce

lemma spends_pause_bind: "spends m 0 s \<Longrightarrow> (\<And>a. spends (f a) n s') \<Longrightarrow> spends (m \<bind> f) n (s + s')"
  using spends_bind [of m 0 s f n s'] by simp

lemma spends_dial: "spends (dialWebSocket env cfg) 1 0"
proof (cases "ValidateHost (wc_host cfg)")
  case (Inl e)
  have "spends (ret (Inl (BadHost e)) :: (ws_failure + unit) ws_prog) 1 0" by (rule spends_mono [OF spends_ret]) auto
  with Inl show ?thesis by (simp add: dialWebSocket_def)
next
  case (Inr u)
  have status: "emits (\<lambda>q r. tls_dial q = 0 \<and> pause_of q = 0) (check_status env s)" for s
    unfolding check_status_def by (intro emits_intros) simp_all
  have first: "spends (ask env (Dial WSS h v) \<bind> f) 1 0"
    if "\<And>a. emits (\<lambda>q r. tls_dial q = 0 \<and> pause_of q = 0) (f a)" for h v and f :: "ws_answer \<Rightarrow> (ws_failure + unit) ws_prog"
    using spends_bind [OF spends_ask [of env "Dial WSS h v"] spends_free [OF that]] by simp
  show ?thesis
    unfolding dialWebSocket_def Inr sum.case by (rule first, intro emits_intros status) simp_all
qed

lemma free_handshake: "emits (\<lambda>q r. tls_dial q = 0 \<and> pause_of q = 0) (handshakeAndAuth env cfg)"
  unfolding handshakeAndAuth_def ws_connect_def authenticate_def by (intro emits_intros) simp_all

lemma spends_sleep: "spends (sleepInterruptible env d) 0 d"
  using spends_bind [OF spends_ask [of env "PauseFor d"] spends_ret] by (simp add: sleepInterruptible_def)

text \<open>The pauses before the attempts that are left.\<close>

fun backoffs :: "nat \<Rightarrow> bool \<Rightarrow> int \<Rightarrow> int" where
  "backoffs 0 pause backoff = 0"
| "backoffs (Suc n) pause backoff =
     (if pause then backoff + backoffs n True (min (2 * backoff) maxBackoff) else backoffs n True backoff)"

lemma backoffs_nonneg: "0 \<le> backoff \<Longrightarrow> 0 \<le> backoffs n pause backoff"
  by (induction n arbitrary: pause backoff) (auto simp: maxBackoff_def second_def)

lemma spends_attempts:
  "0 \<le> backoff \<Longrightarrow> spends (dial_attempts env cfg n pause backoff err t) n (backoffs n pause backoff)"
proof (induction n arbitrary: pause backoff err)
  case 0
  show ?case by (simp add: spends_ret)
next
  case (Suc n)
  let ?later = "if pause then min (2 * backoff) maxBackoff else backoff"
  let ?rest = "backoffs n True ?later"
  have pos: "0 \<le> ?later" using Suc.prems by (auto simp: maxBackoff_def second_def)
  have rest: "0 \<le> ?rest" by (rule backoffs_nonneg [OF pos])
  have free: "spends (ret x) m ?rest" for m and x :: "(ws_failure + unit) \<times> transport"
    by (rule spends_mono [OF spends_ret]) (use rest in auto)
  have ask: "emits (\<lambda>q r. tls_dial q = 0 \<and> pause_of q = 0) (ask env q)" if "q \<in> {CloseConn, StartReader}" for q
    using that by (intro emits_intros) auto
  have after: "spends (do {
         d \<leftarrow> dialWebSocket env cfg;
         case d of
           Inl e \<Rightarrow> dial_attempts env cfg n True ?later (Some e) t
         | Inr v \<Rightarrow> do {
             h \<leftarrow> handshakeAndAuth env cfg;
             case h of
               Inl e \<Rightarrow> do { a \<leftarrow> ask env CloseConn; dial_attempts env cfg n True ?later (Some e) t }
             | Inr x \<Rightarrow> do {
                 a \<leftarrow> ask env StartReader;
                 ret (Inr (), t\<lparr>tp_authed := True, tp_gen := (tp_gen t + 1) mod 2 ^ 64\<rparr>) } } }) (Suc n) ?rest"
  proof -
    have "spends (case d of
           Inl e \<Rightarrow> dial_attempts env cfg n True ?later (Some e) t
         | Inr v \<Rightarrow> do {
             h \<leftarrow> handshakeAndAuth env cfg;
             case h of
               Inl e \<Rightarrow> do { a \<leftarrow> ask env CloseConn; dial_attempts env cfg n True ?later (Some e) t }
             | Inr x \<Rightarrow> do {
                 a \<leftarrow> ask env StartReader;
                 ret (Inr (), t\<lparr>tp_authed := True, tp_gen := (tp_gen t + 1) mod 2 ^ 64\<rparr>) } }) n ?rest" for d
      by (intro spends_case_sum Suc.IH [OF pos] spends_free_bind [OF free_handshake] spends_free_bind [OF ask] free) simp_all
    from spends_bind [OF spends_dial this] show ?thesis by (simp only: plus_1_eq_Suc add_0_left)
  qed
  show ?case
  proof (cases pause)
    case True
    show ?thesis
      unfolding dial_attempts.simps backoffs.simps Let_def eqTrueI [OF True] if_True
      by (rule spends_pause_bind [OF spends_sleep], rule spends_case_sum, rule free [unfolded eqTrueI [OF True] if_True])
        (rule after [unfolded eqTrueI [OF True] if_True])
  next
    case False
    then have np: "pause = False" by simp
    show ?thesis
      unfolding dial_attempts.simps backoffs.simps Let_def np if_False State_Monad.bind_left_identity sum.case
      by (rule after [unfolded np if_False])
  qed
qed

lemma attempts_outcome:
  assumes "run_state (dial_attempts env cfg n pause backoff err t) w = ((r, t'), w')"
  shows "r = Inr () \<and> t' = t\<lparr>tp_authed := True, tp_gen := (tp_gen t + 1) mod 2 ^ 64\<rparr> \<or> (\<exists>e. r = Inl e \<and> t' = t)"
  using assms
proof (induction n arbitrary: pause backoff err w)
  case (Suc n)
  then show ?case
    by (auto simp: Let_def split: prod.splits sum.splits if_splits)
qed auto

lemma three_backoffs: "backoffs maxReconnectAttempts False initialBackoff = 3 * second"
  by (simp add: maxReconnectAttempts_def initialBackoff_def maxBackoff_def second_def numeral_3_eq_3)

text \<open>The rest of \<open>replace_connection\<close> once the clock is read.\<close>

definition after_clock :: "ws_env \<Rightarrow> ws_config \<Rightarrow> transport \<Rightarrow> int \<Rightarrow> ((ws_failure + unit) \<times> transport) ws_prog" where
  "after_clock env cfg t since = do {
     s \<leftarrow> (if since < reconnectCooldown then sleepInterruptible env (reconnectCooldown - since) else ret (Inr ()));
     case s of
       Inl e \<Rightarrow> ret (Inl e, t)
     | Inr u \<Rightarrow> do {
         now' \<leftarrow> ask env ReadClock;
         a \<leftarrow> ask env CloseConn;
         dial_attempts env cfg maxReconnectAttempts False initialBackoff None
           (t\<lparr>tp_last := instant now', tp_authed := False\<rparr>) } }"

lemma replace_after_clock:
  "run_state (replace_connection env cfg t) w =
   run_state (after_clock env cfg t (time_sub (instant (env (w_hist w) ReadClock)) (tp_last t)))
     (w\<lparr>w_hist := w_hist w @ [(ReadClock, env (w_hist w) ReadClock)]\<rparr>)"
  by (simp add: replace_connection_def after_clock_def Let_def)

lemma spends_after_clock:
  assumes "0 \<le> since"
  shows "spends (after_clock env cfg t since) 3 (33 * second)"
proof -
  have free: "emits (\<lambda>q r. tls_dial q = 0 \<and> pause_of q = 0) (ask env q)" if "q \<in> {ReadClock, CloseConn}" for q
    using that by (intro emits_intros) auto
  have dial: "spends (dial_attempts env cfg maxReconnectAttempts False initialBackoff None u) 3 (3 * second)" for u
    using spends_attempts [of initialBackoff env cfg maxReconnectAttempts False None u] three_backoffs
    by (simp add: initialBackoff_def second_def maxReconnectAttempts_def)
  have rest: "spends (case s of
       Inl e \<Rightarrow> ret (Inl e, t)
     | Inr u \<Rightarrow> do {
         now' \<leftarrow> ask env ReadClock;
         a \<leftarrow> ask env CloseConn;
         dial_attempts env cfg maxReconnectAttempts False initialBackoff None
           (t\<lparr>tp_last := instant now', tp_authed := False\<rparr>) }) 3 (3 * second)" for s :: "ws_failure + unit"
  proof (rule spends_case_sum)
    show "spends (ret (Inl e, t) :: ((ws_failure + unit) \<times> transport) ws_prog) 3 (3 * second)" for e
      by (rule spends_mono [OF spends_ret]) (simp_all add: second_def)
  qed (intro spends_free_bind [OF free] dial, simp_all)
  have "spends (if since < reconnectCooldown then sleepInterruptible env (reconnectCooldown - since) else ret (Inr ())) 0 (30 * second)"
    using assms by (auto simp: reconnectCooldown_def second_def intro!: spends_mono [OF spends_sleep] spends_mono [OF spends_ret])
  from spends_bind [OF this rest] show ?thesis by (simp add: after_clock_def)
qed

lemma after_clock_outcome:
  assumes "run_state (after_clock env cfg t since) w = ((r, t'), w')"
  shows "(if r = Inr () then tp_authed t' \<and> tp_gen t' = (tp_gen t + 1) mod 2 ^ 64 else tp_gen t' = tp_gen t)"
  using assms
  by (auto simp: after_clock_def dest!: attempts_outcome split: prod.splits sum.splits)


text \<open>A network that is down.\<close>

definition dead_env :: ws_env where
  "dead_env h q =
     (case q of
        Lock \<Rightarrow> Locked \<lparr>tp_closed = False, tp_authed = True, tp_gen = 4, tp_last = time_zero\<rparr>
      | ReadClock \<Rightarrow> Instant \<lparr>t_sec = 10, t_ns = 0\<rparr>
      | Dial s host v \<Rightarrow> DialError None
      | _ \<Rightarrow> Ack)"


section \<open>Retries\<close>

fun noisy :: "ws_op \<Rightarrow> bool" where
  "noisy (SendRequest i m ps d) \<longleftrightarrow> True"
| "noisy (Await i b) \<longleftrightarrow> True"
| "noisy (PostUpload url key body) \<longleftrightarrow> True"
| "noisy q \<longleftrightarrow> False"

fun is_send :: "ws_op \<Rightarrow> bool" where
  "is_send (SendRequest i m ps d) \<longleftrightarrow> True"
| "is_send q \<longleftrightarrow> False"

definition sends :: "ws_history \<Rightarrow> nat" where
  "sends h = length (filter (\<lambda>e. is_send (fst e)) h)"

text \<open>
  No wait has ended with something the code takes for an answer: a result that decodes, or an
  error of the server. A result that does not decode is not one.
\<close>

definition unanswered :: "(json \<Rightarrow> bool) option \<Rightarrow> ws_history \<Rightarrow> bool" where
  "unanswered want h \<longleftrightarrow>
     (\<forall>i b a. (Await i b, a) \<in> set h \<longrightarrow> (\<exists>e. await_result want a = Inl e \<and> isAPIError e = None))"

fun resend_guard :: "string \<Rightarrow> params \<Rightarrow> (json \<Rightarrow> bool) option \<Rightarrow> ws_history \<Rightarrow> ws_op \<Rightarrow> bool" where
  "resend_guard m ps want h (SendRequest i method params d) \<longleftrightarrow>
     method = m \<and> params = NormalizeParams ps \<and> sends h \<le> 1 \<and> unanswered want h"
| "resend_guard m ps want h q \<longleftrightarrow> True"

lemma resend_guard_quiet: "\<not> is_send q \<Longrightarrow> resend_guard m ps want h q"
  by (cases q) auto

lemma sends_simps [simp]: "sends [] = 0" "sends (h @ h') = sends h + sends h'" "sends (e # h) = (if is_send (fst e) then 1 else 0) + sends h"
  by (simp_all add: sends_def)

lemma unanswered_simps [simp]:
  "unanswered want []" "unanswered want (h @ h') \<longleftrightarrow> unanswered want h \<and> unanswered want h'"
  unfolding unanswered_def by auto

lemma unanswered_quiet: "\<not> noisy (fst e) \<Longrightarrow> unanswered want [e]"
  by (cases e) (auto simp: unanswered_def)

text \<open>What is known of a call that may still be sent \<open>k\<close> times more.\<close>

definition pending_sends :: "(json \<Rightarrow> bool) option \<Rightarrow> nat \<Rightarrow> ws_history \<Rightarrow> bool" where
  "pending_sends want k h \<longleftrightarrow> sends h + k \<le> 2 \<and> unanswered want h"

lemma pending_quiet:
  "pending_sends want k h \<Longrightarrow> \<forall>e \<in> set es. \<not> noisy (fst e) \<Longrightarrow> pending_sends want k (h @ es)"
proof (induction es arbitrary: h)
  case (Cons e es)
  then have "\<not> noisy (fst e)" by simp
  then have "\<not> is_send (fst e)" by (cases "fst e") auto
  with \<open>\<not> noisy (fst e)\<close> Cons.prems(1) have "pending_sends want k (h @ [e])"
    using unanswered_quiet [of e want] by (simp add: pending_sends_def)
  from Cons.IH [OF this] Cons.prems(2) show ?case by simp
qed simp

lemma safe_quiet:
  assumes "emits (\<lambda>q r. \<not> noisy q) m"
  shows "safe (resend_guard n ps want) (pending_sends want k) m (\<lambda>_. pending_sends want k)"
proof (rule safeI)
  fix w a w'
  assume g: "guarded (resend_guard n ps want) (w_hist w)" and E: "pending_sends want k (w_hist w)" and run: "run_state m w = (a, w')"
  from emitsD [OF assms run] obtain es where es: "w_hist w' = w_hist w @ es" "\<And>q r. (q, r) \<in> set es \<Longrightarrow> \<not> noisy q" by blast
  have "resend_guard n ps want pre q" if "(q, r) \<in> set es" for q r pre
    using es(2) [OF that] by (cases q) auto
  with g es(1) have "guarded (resend_guard n ps want) (w_hist w')" by (auto intro: guarded_append)
  moreover have "pending_sends want k (w_hist w')" using pending_quiet [OF E] es by fastforce
  ultimately show "guarded (resend_guard n ps want) (w_hist w') \<and> pending_sends want k (w_hist w')" by blast
qed

lemma safe_quiet_ask:
  "\<not> noisy q \<Longrightarrow> safe (resend_guard n ps want) (pending_sends want k) (ask env q) (\<lambda>_. pending_sends want k)"
  by (rule safe_quiet) (auto intro: emits_intros)

lemma safe_writeRequest:
  "safe (resend_guard m ps want) (pending_sends want (Suc k)) (writeRequest env i m (NormalizeParams ps)) (\<lambda>_. pending_sends want k)"
proof -
  let ?G = "resend_guard m ps want"
  have weaken: "pending_sends want (Suc k) h \<Longrightarrow> pending_sends want k h" for h by (simp add: pending_sends_def)
  have send: "safe ?G (pending_sends want (Suc k)) (ask env (SendRequest i m (NormalizeParams ps) d)) (\<lambda>_. pending_sends want k)" for d
    by (rule safe_ask) (auto simp: pending_sends_def unanswered_def)
  show ?thesis
    unfolding writeRequest_def Let_def
    by (intro safe_bind [OF safe_quiet_ask] safe_if safe_ret safe_bind [OF send] safe_bind [where R = "\<lambda>_. pending_sends want k"])
      (auto intro: safe_ret weaken safe_quiet_ask)
qed

lemma safe_doCall_sends:
  "safe (resend_guard m ps want) (pending_sends want (Suc k)) (doCall env m ps want)
     (\<lambda>r h. \<forall>e. r = Inl e \<and> isAPIError e = None \<longrightarrow> pending_sends want k h)"
proof -
  let ?G = "resend_guard m ps want"
  let ?Q = "\<lambda>r h. \<forall>e. r = Inl e \<and> isAPIError e = None \<longrightarrow> pending_sends want k h"
  have await: "safe ?G (pending_sends want k) (do { a \<leftarrow> ask env (Await i b); ret (await_result want a) }) ?Q" for i b
    by (rule safeI) (auto simp: pending_sends_def unanswered_def)
  have unregister: "safe ?G (?Q r) (do { u \<leftarrow> ask env (Unregister i); ret r }) ?Q" for r :: "ws_failure + json option" and i
  proof (cases "\<exists>e. r = Inl e \<and> isAPIError e = None")
    case True
    then have "?Q r = pending_sends want k" by auto
    then show ?thesis by (auto intro!: safe_bind [OF safe_quiet_ask] safe_ret)
  next
    case False
    then show ?thesis by (intro safeI) auto
  qed
  have after: "safe ?G (pending_sends want k) (do {
            d \<leftarrow> ask env CtxDeadline;
            s \<leftarrow> ask env LockShared;
            a \<leftarrow> ask env (Await i (deadline_of d \<noteq> None));
            ret (await_result want a) }) ?Q" for i
    by (intro safe_bind [OF safe_quiet_ask] await) simp_all
  have body: "safe ?G (pending_sends want (Suc k)) (bindE (writeRequest env i m (NormalizeParams ps)) (\<lambda>_. do {
            d \<leftarrow> ask env CtxDeadline;
            s \<leftarrow> ask env LockShared;
            a \<leftarrow> ask env (Await i (deadline_of d \<noteq> None));
            ret (await_result want a) })) ?Q" for i
    by (rule safe_bindE [OF safe_conseq [OF safe_writeRequest] after]) (auto split: sum.splits)
  show ?thesis
    unfolding doCall_def Let_def
    by (intro safe_bind [OF safe_quiet_ask] safe_bind [OF body] unregister) simp_all
qed

lemma quiet_reconnect: "emits (\<lambda>q r. \<not> noisy q) (reconnect env cfg g)"
proof -
  have sleep: "emits (\<lambda>q r. \<not> noisy q) (sleepInterruptible env d)" for d
    unfolding sleepInterruptible_def by (intro emits_intros) simp_all
  have dial: "emits (\<lambda>q r. \<not> noisy q) (dialWebSocket env cfg)" "emits (\<lambda>q r. \<not> noisy q) (handshakeAndAuth env cfg)"
    unfolding dialWebSocket_def check_status_def handshakeAndAuth_def ws_connect_def authenticate_def by (intro emits_intros; simp)+
  have attempts: "emits (\<lambda>q r. \<not> noisy q) (dial_attempts env cfg n pause backoff err t)" for n pause backoff err t
    by (induction n arbitrary: pause backoff err) (auto simp: Let_def intro!: emits_intros sleep dial)
  show ?thesis
    unfolding reconnect_def replace_connection_def Let_def by (intro emits_intros sleep attempts) simp_all
qed

text \<open>
  A call sends its request, with the method and the parameters it was given, at most twice,
  and a second time only when the first was not answered: no error of the server and no result
  that could be decoded had come for it. (Not being answered does not mean not being executed: a
  lost or late answer, or one that does not decode, is not an answer.)
\<close>

theorem call_sent_twice_at_most:
  "guarded (resend_guard method ps want) (w_hist (snd (run_state (Call env cfg method ps want) \<lparr>w_hist = [], w_proc = p\<rparr>)))"
proof -
  let ?G = "resend_guard method ps want"
  let ?R = "\<lambda>k r h. \<forall>e. r = Inl e \<and> isAPIError e = None \<longrightarrow> pending_sends want k h"
  have retry: "safe ?G (pending_sends want 1) (do {
               rr \<leftarrow> reconnect env cfg g;
               case rr of
                 Inl f \<Rightarrow> ret (Inl (CallAndReconnect e f))
               | Inr u \<Rightarrow> doCall env method ps want }) (\<lambda>_ _. True)" for g e
  proof (rule safe_bind [OF safe_quiet [OF quiet_reconnect]])
    have again: "safe ?G (pending_sends want 1) (doCall env method ps want) (\<lambda>_ _. True)"
      by (rule safe_conseq [OF safe_doCall_sends [where k = 0]]) auto
    show "safe ?G (pending_sends want 1)
        (case rr of Inl f \<Rightarrow> ret (Inl (CallAndReconnect e f)) | Inr u \<Rightarrow> doCall env method ps want) (\<lambda>_ _. True)" for rr :: "ws_failure + unit"
      by (intro safe_case_sum safe_ret again) simp_all
  qed
  have rest: "safe ?G (?R 1 r) (case r of
         Inr v \<Rightarrow> ret (Inr v)
       | Inl e \<Rightarrow>
           if isAPIError e \<noteq> None then ret (Inl e)
           else do {
             c \<leftarrow> ask env CtxErr;
             if c = Cancelled then ret (Inl e)
             else do {
               rr \<leftarrow> reconnect env cfg g;
               case rr of
                 Inl f \<Rightarrow> ret (Inl (CallAndReconnect e f))
               | Inr u \<Rightarrow> doCall env method ps want } }) (\<lambda>_ _. True)" for r g
  proof (cases "\<exists>e. r = Inl e \<and> isAPIError e = None")
    case True
    then obtain e where e: "r = Inl e" "isAPIError e = None" by blast
    then have "?R 1 r = pending_sends want 1" by auto
    with e show ?thesis
      by (auto intro!: safe_bind [OF safe_quiet_ask] safe_if safe_ret retry [unfolded One_nat_def])
  next
    case False
    then show ?thesis by (auto split: sum.splits intro!: safe_ret)
  qed
  have "safe ?G (pending_sends want 2) (Call env cfg method ps want) (\<lambda>_ _. True)"
    unfolding Call_def
    by (intro safe_bind [OF safe_quiet_ask] safe_if safe_ret safe_bind [OF safe_doCall_sends [where k = 1, folded numeral_2_eq_2 [unfolded One_nat_def [symmetric]]]] rest)
      (simp_all add: numeral_2_eq_2)
  then have "safe ?G (\<lambda>h. pending_sends want 2 h) (Call env cfg method ps want) (\<lambda>_ _. True)" by simp
  from safeD [OF this, of "\<lparr>w_hist = [], w_proc = p\<rparr>"] show ?thesis
    by (cases "run_state (Call env cfg method ps want) \<lparr>w_hist = [], w_proc = p\<rparr>") (simp add: pending_sends_def)
qed

end
