(* ===== verification/Multiplex.thy ===== *)
theory Multiplex
  imports Transport
begin

text \<open>
  The goroutines of the WebSocket transport together (internal/client/ws.go): calls, uploads, the
  reader that hands responses to the calls, reconnects and the shutdown, as steps on the shared
  state. A step is what one goroutine does between two points at which others can run; the
  exclusive lock makes a reconnect one step.
\<close>

section \<open>The shared state\<close>

text \<open>What the channel of a pending call holds: a response, or the notice that the connection is lost.\<close>

datatype delivery = Real ws_response | Lost

datatype call_outcome = Got ws_response | Uploaded | Failed ws_failure

text \<open>
  Where a goroutine is, with the generation it saw on entry, whether it is in its first or second
  attempt, and the number of its request: admitted, registered, written, waiting (with the
  connection whose reader it watches), back from a failed attempt, returned; or uploading.
\<close>

datatype pc =
    Entered nat nat
  | Registered nat nat nat
  | Sent nat nat nat
  | Waiting nat nat nat nat
  | Broken nat nat ws_failure
  | Uploading
  | Returned call_outcome

text \<open>
  The channel of a call is made when it registers and read by that call alone, so the map of
  pending calls holds its one-slot buffer. \<open>mx_reader\<close> tells whether the reader of the
  current connection runs. \<open>mx_wire\<close> records what was written: on which connection, by which
  goroutine, with which request number.
\<close>

record mux =
  mx_closed :: bool
  mx_gen :: nat
  mx_authed :: bool
  mx_conn :: nat
  mx_reader :: bool
  mx_counter :: nat
  mx_pending :: "string \<rightharpoonup> delivery option"
  mx_wg :: nat
  mx_calls :: "nat \<rightharpoonup> pc"
  mx_wire :: "(nat \<times> nat \<times> nat) list"

definition mux_init :: mux where
  "mux_init = \<lparr>mx_closed = False, mx_gen = 0, mx_authed = True, mx_conn = 0, mx_reader = True, mx_counter = 0,
     mx_pending = Map.empty, mx_wg = 0, mx_calls = Map.empty, mx_wire = []\<rparr>"

text \<open>\<open>nextWSRequestID\<close>: the number in decimal.\<close>

definition request_text :: "nat \<Rightarrow> string" where
  "request_text k = format_int (int k)"

text \<open>The head of \<open>Call\<close> and \<open>UploadFile\<close>, under the shared lock.\<close>

definition admit :: "mux \<Rightarrow> mux option" where
  "admit s = (if mx_closed s then None else Some (s\<lparr>mx_wg := mx_wg s + 1\<rparr>))"

definition registerPending :: "mux \<Rightarrow> mux" where
  "registerPending s =
     s\<lparr>mx_counter := Suc (mx_counter s),
       mx_pending := (mx_pending s)(request_text (Suc (mx_counter s)) \<mapsto> None)\<rparr>"

definition unregister :: "nat \<Rightarrow> mux \<Rightarrow> mux" where
  "unregister k s = s\<lparr>mx_pending := (mx_pending s)(request_text k := None)\<rparr>"

text \<open>The body of \<open>readLoop\<close> for a message, and for the error that ends it.\<close>

definition deliver :: "ws_response \<Rightarrow> mux \<Rightarrow> mux" where
  "deliver f s =
     (case mx_pending s (wr_id f) of
        Some None \<Rightarrow> s\<lparr>mx_pending := (mx_pending s)(wr_id f \<mapsto> Some (Real f))\<rparr>
      | _ \<Rightarrow> s)"

definition fan_out :: "mux \<Rightarrow> mux" where
  "fan_out s =
     s\<lparr>mx_reader := False,
       mx_pending := (\<lambda>i. map_option (\<lambda>b. case b of None \<Rightarrow> Some Lost | Some d \<Rightarrow> Some d) (mx_pending s i))\<rparr>"

text \<open>A reconnect closes the connection and waits for its reader, if that still runs, to end.\<close>

definition drain :: "mux \<Rightarrow> mux" where
  "drain s = (if mx_reader s then fan_out s else s)"

definition new_connection :: "mux \<Rightarrow> mux" where
  "new_connection s =
     (drain s)\<lparr>mx_conn := Suc (mx_conn s), mx_gen := Suc (mx_gen s), mx_authed := True, mx_reader := True\<rparr>"

definition drop_connection :: "mux \<Rightarrow> mux" where
  "drop_connection s = (drain s)\<lparr>mx_authed := False\<rparr>"

definition set_pc :: "nat \<Rightarrow> pc \<Rightarrow> mux \<Rightarrow> mux" where
  "set_pc i p s = s\<lparr>mx_calls := (mx_calls s)(i \<mapsto> p)\<rparr>"

definition finish :: "nat \<Rightarrow> call_outcome \<Rightarrow> mux \<Rightarrow> mux" where
  "finish i r s = set_pc i (Returned r) (s\<lparr>mx_wg := mx_wg s - 1\<rparr>)"

lemmas mux_ops = registerPending_def unregister_def deliver_def fan_out_def drain_def new_connection_def
  drop_connection_def set_pc_def finish_def

section \<open>The steps\<close>

inductive mux_step :: "mux \<Rightarrow> mux \<Rightarrow> bool" where
  enter: "mx_calls s i = None \<Longrightarrow> admit s = Some s' \<Longrightarrow> mux_step s (set_pc i (Entered (mx_gen s) 0) s')"
| enter_upload: "mx_calls s i = None \<Longrightarrow> admit s = Some s' \<Longrightarrow> mux_step s (set_pc i Uploading s')"
| refuse: "mx_calls s i = None \<Longrightarrow> admit s = None \<Longrightarrow> mux_step s (set_pc i (Returned (Failed ErrTransportClosed)) s)"
| upload_done: "mx_calls s i = Some Uploading \<Longrightarrow> r \<in> {Uploaded, Failed e} \<Longrightarrow> mux_step s (finish i r s)"
| register: "mx_calls s i = Some (Entered g n) \<Longrightarrow>
    mux_step s (set_pc i (Registered g n (Suc (mx_counter s))) (registerPending s))"
| written: "mx_calls s i = Some (Registered g n k) \<Longrightarrow> mx_authed s \<Longrightarrow>
    mux_step s (set_pc i (Sent g n k) (s\<lparr>mx_wire := mx_wire s @ [(mx_conn s, i, k)]\<rparr>))"
| write_failed: "mx_calls s i = Some (Registered g n k) \<Longrightarrow> e = NotAuthenticated \<and> \<not> mx_authed s \<or> e = SendFailed m \<Longrightarrow>
    mux_step s (set_pc i (Broken g n e) (unregister k s))"
| watch: "mx_calls s i = Some (Sent g n k) \<Longrightarrow> mux_step s (set_pc i (Waiting g n k (mx_conn s)) s)"
| read: "mx_reader s \<Longrightarrow> mux_step s (deliver f s)"
| read_failed: "mx_reader s \<Longrightarrow> mux_step s (fan_out s)"
| receive: "mx_calls s i = Some (Waiting g n k c) \<Longrightarrow> mx_pending s (request_text k) = Some (Some (Real f)) \<Longrightarrow>
    handleResponse want f = Inr v \<Longrightarrow> mux_step s (finish i (Got f) (unregister k s))"
| receive_error: "mx_calls s i = Some (Waiting g n k c) \<Longrightarrow> mx_pending s (request_text k) = Some (Some (Real f)) \<Longrightarrow>
    handleResponse want f = Inl e \<Longrightarrow> isAPIError e \<noteq> None \<Longrightarrow> mux_step s (finish i (Failed e) (unregister k s))"
| receive_bad: "mx_calls s i = Some (Waiting g n k c) \<Longrightarrow> mx_pending s (request_text k) = Some (Some (Real f)) \<Longrightarrow>
    handleResponse want f = Inl e \<Longrightarrow> isAPIError e = None \<Longrightarrow> mux_step s (set_pc i (Broken g n e) (unregister k s))"
| receive_lost: "mx_calls s i = Some (Waiting g n k c) \<Longrightarrow> mx_pending s (request_text k) = Some (Some Lost) \<Longrightarrow>
    mux_step s (set_pc i (Broken g n (ConnectionLost m)) (unregister k s))"
| reader_done: "mx_calls s i = Some (Waiting g n k c) \<Longrightarrow> c \<noteq> mx_conn s \<or> \<not> mx_reader s \<Longrightarrow>
    mux_step s (set_pc i (Broken g n (ConnectionLost m)) (unregister k s))"
| timeout: "mx_calls s i = Some (Waiting g n k c) \<Longrightarrow> mux_step s (set_pc i (Broken g n CallTimedOut) (unregister k s))"
| cancel: "mx_calls s i \<in> {Some (Registered g n k), Some (Waiting g n k c)} \<Longrightarrow>
    mux_step s (finish i (Failed ContextError) (unregister k s))"
| cancelled_after: "mx_calls s i = Some (Broken g n e) \<Longrightarrow> mux_step s (finish i (Failed e) s)"
| closed_after: "mx_calls s i = Some (Broken g 0 e) \<Longrightarrow> mx_closed s \<Longrightarrow>
    mux_step s (finish i (Failed (CallAndReconnect e ErrTransportClosed)) s)"
| replaced: "mx_calls s i = Some (Broken g 0 e) \<Longrightarrow> \<not> mx_closed s \<Longrightarrow> mx_gen s \<noteq> g \<Longrightarrow> mux_step s (set_pc i (Entered g 1) s)"
| reconnected: "mx_calls s i = Some (Broken g 0 e) \<Longrightarrow> \<not> mx_closed s \<Longrightarrow> mx_gen s = g \<Longrightarrow>
    mux_step s (set_pc i (Entered g 1) (new_connection s))"
| not_reconnected: "mx_calls s i = Some (Broken g 0 e) \<Longrightarrow> \<not> mx_closed s \<Longrightarrow> mx_gen s = g \<Longrightarrow>
    mux_step s (finish i (Failed (CallAndReconnect e f)) (drop_connection s))"
| interrupted: "mx_calls s i = Some (Broken g 0 e) \<Longrightarrow> \<not> mx_closed s \<Longrightarrow> mx_gen s = g \<Longrightarrow>
    mux_step s (finish i (Failed (CallAndReconnect e f)) s)"
| close: "mux_step s (s\<lparr>mx_closed := True\<rparr>)"

text \<open>The request number a goroutine holds.\<close>

fun pc_number :: "pc option \<Rightarrow> nat option" where
  "pc_number (Some (Registered g n k)) = Some k"
| "pc_number (Some (Sent g n k)) = Some k"
| "pc_number (Some (Waiting g n k c)) = Some k"
| "pc_number _ = None"

fun pc_written :: "pc option \<Rightarrow> nat option" where
  "pc_written (Some (Sent g n k)) = Some k"
| "pc_written (Some (Waiting g n k c)) = Some k"
| "pc_written _ = None"

lemma request_text_inj: "request_text k = request_text k' \<longleftrightarrow> k = k'"
proof
  assume "request_text k = request_text k'"
  then have "digits_val 0 (show_nat k) = digits_val 0 (show_nat k')" by (simp add: request_text_def format_int_def)
  then show "k = k'" by (simp add: digits_val_show_nat)
qed simp

section \<open>Every call gets its own response\<close>

definition numbered :: "mux \<Rightarrow> bool" where
  "numbered s \<longleftrightarrow>
     (\<forall>i k. pc_number (mx_calls s i) = Some k \<longrightarrow> k \<le> mx_counter s) \<and>
     (\<forall>i j k. pc_number (mx_calls s i) = Some k \<longrightarrow> pc_number (mx_calls s j) = Some k \<longrightarrow> i = j) \<and>
     (\<forall>c i k. (c, i, k) \<in> set (mx_wire s) \<longrightarrow> k \<le> mx_counter s) \<and>
     (\<forall>c i j k. (c, i, k) \<in> set (mx_wire s) \<longrightarrow> pc_number (mx_calls s j) = Some k \<longrightarrow> pc_written (mx_calls s j) = Some k \<and> i = j) \<and>
     (\<forall>c i c' j k. (c, i, k) \<in> set (mx_wire s) \<longrightarrow> (c', j, k) \<in> set (mx_wire s) \<longrightarrow> c = c' \<and> i = j)"

definition answered_own :: "mux \<Rightarrow> bool" where
  "answered_own s \<longleftrightarrow>
     (\<forall>id f. mx_pending s id = Some (Some (Real f)) \<longrightarrow> wr_id f = id) \<and>
     (\<forall>i k. pc_written (mx_calls s i) = Some k \<longrightarrow> (\<exists>c. (c, i, k) \<in> set (mx_wire s))) \<and>
     (\<forall>i f. mx_calls s i = Some (Returned (Got f)) \<longrightarrow> (\<exists>c k. (c, i, k) \<in> set (mx_wire s) \<and> wr_id f = request_text k))"

lemma numbered_keep:
  assumes "numbered s" and "mx_counter s' = mx_counter s" and "mx_wire s' = mx_wire s"
    and "\<And>j. pc_number (mx_calls s' j) = None \<or>
      pc_number (mx_calls s' j) = pc_number (mx_calls s j) \<and> pc_written (mx_calls s' j) = pc_written (mx_calls s j)"
  shows "numbered s'"
proof -
  have n: "pc_number (mx_calls s j) = Some k" "pc_written (mx_calls s' j) = pc_written (mx_calls s j)"
    if "pc_number (mx_calls s' j) = Some k" for j k
    using assms(4) [of j] that by auto
  show ?thesis
    unfolding numbered_def assms(2,3)
  proof (intro conjI allI impI)
    fix i k assume "pc_number (mx_calls s' i) = Some k"
    from n(1) [OF this] assms(1) show "k \<le> mx_counter s" unfolding numbered_def by blast
  next
    fix i j k assume "pc_number (mx_calls s' i) = Some k" "pc_number (mx_calls s' j) = Some k"
    from this [THEN n(1)] assms(1) show "i = j" unfolding numbered_def by blast
  next
    fix c i j k assume w: "(c, i, k) \<in> set (mx_wire s)" and p: "pc_number (mx_calls s' j) = Some k"
    from w n(1) [OF p] assms(1) have "pc_written (mx_calls s j) = Some k \<and> i = j" unfolding numbered_def by blast
    then show "pc_written (mx_calls s' j) = Some k" "i = j" using n(2) [OF p] by simp_all
  qed (use assms(1) in \<open>unfold numbered_def, blast+\<close>)
qed

lemma mux_frame [simp]:
  "mx_calls (unregister k s) = mx_calls s" "mx_wire (unregister k s) = mx_wire s" "mx_counter (unregister k s) = mx_counter s"
  "mx_calls (deliver f s) = mx_calls s" "mx_wire (deliver f s) = mx_wire s" "mx_counter (deliver f s) = mx_counter s"
  "mx_calls (fan_out s) = mx_calls s" "mx_wire (fan_out s) = mx_wire s" "mx_counter (fan_out s) = mx_counter s"
  "mx_calls (new_connection s) = mx_calls s" "mx_wire (new_connection s) = mx_wire s" "mx_counter (new_connection s) = mx_counter s"
  "mx_calls (drop_connection s) = mx_calls s" "mx_wire (drop_connection s) = mx_wire s" "mx_counter (drop_connection s) = mx_counter s"
  "mx_calls (set_pc i p s) = (mx_calls s)(i \<mapsto> p)" "mx_wire (set_pc i p s) = mx_wire s" "mx_counter (set_pc i p s) = mx_counter s"
  "mx_calls (finish i r s) = (mx_calls s)(i \<mapsto> Returned r)" "mx_wire (finish i r s) = mx_wire s" "mx_counter (finish i r s) = mx_counter s"
  "mx_calls (registerPending s) = mx_calls s" "mx_wire (registerPending s) = mx_wire s"
  "mx_counter (registerPending s) = Suc (mx_counter s)"
  by (simp_all add: mux_ops split: option.splits)

lemma admit_Some: "admit s = Some s' \<longleftrightarrow> \<not> mx_closed s \<and> s' = s\<lparr>mx_wg := mx_wg s + 1\<rparr>"
  by (auto simp: admit_def)

lemma numberedD:
  assumes "numbered s"
  shows "pc_number (mx_calls s i) = Some k \<Longrightarrow> k \<le> mx_counter s"
    and "pc_number (mx_calls s i) = Some k \<Longrightarrow> pc_number (mx_calls s j) = Some k \<Longrightarrow> i = j"
    and "(c, i, k) \<in> set (mx_wire s) \<Longrightarrow> k \<le> mx_counter s"
    and "(c, i, k) \<in> set (mx_wire s) \<Longrightarrow> pc_number (mx_calls s j) = Some k \<Longrightarrow> pc_written (mx_calls s j) = Some k \<and> i = j"
    and "(c, i, k) \<in> set (mx_wire s) \<Longrightarrow> (c', j, k) \<in> set (mx_wire s) \<Longrightarrow> c = c' \<and> i = j"
  using assms unfolding numbered_def by blast+

lemma numbered_step: "mux_step s s' \<Longrightarrow> numbered s \<Longrightarrow> numbered s'"
proof (induction rule: mux_step.induct)
  case (register s i g n)
  let ?s = "set_pc i (Registered g n (Suc (mx_counter s))) (registerPending s)"
  note d = numberedD [OF register.prems]
  have pc: "j = i \<and> k = Suc (mx_counter s) \<or> j \<noteq> i \<and> pc_number (mx_calls s j) = Some k \<and> k \<le> mx_counter s"
    if "pc_number (mx_calls ?s j) = Some k" for j k
    using that d(1) [of j k] by (cases "j = i") auto
  show ?case
    unfolding numbered_def
  proof (intro conjI allI impI)
    fix a j k assume "pc_number (mx_calls ?s a) = Some k" "pc_number (mx_calls ?s j) = Some k"
    from this [THEN pc] show "a = j" using d(2) by auto
  next
    fix c a j k assume w: "(c, a, k) \<in> set (mx_wire ?s)" and p: "pc_number (mx_calls ?s j) = Some k"
    from w have "(c, a, k) \<in> set (mx_wire s)" by simp
    with pc [OF p] d(3) [of c a k] d(4) [of c a k j] show "pc_written (mx_calls ?s j) = Some k" "a = j" by auto
  qed (use pc d(3,5) in \<open>fastforce+\<close>)
next
  case (written s i g n k)
  let ?s = "set_pc i (Sent g n k) (s\<lparr>mx_wire := mx_wire s @ [(mx_conn s, i, k)]\<rparr>)"
  note d = numberedD [OF written.prems]
  have number: "pc_number (mx_calls ?s j) = pc_number (mx_calls s j)" for j using written.hyps by simp
  have new: "(c, j, k) \<notin> set (mx_wire s)" for c j
    using d(4) [of c j k i] written.hyps by auto
  have own: "j = i" if "pc_number (mx_calls s j) = Some k" for j
    using d(2) [OF that, of i] written.hyps by simp
  show ?case
    unfolding numbered_def number
  proof (intro conjI allI impI)
    fix c a j k' assume w: "(c, a, k') \<in> set (mx_wire ?s)" and p: "pc_number (mx_calls s j) = Some k'"
    have "pc_written (mx_calls ?s j) = Some k' \<and> a = j"
    proof (cases "(c, a, k') \<in> set (mx_wire s)")
      case True
      from d(4) [OF True p] have "pc_written (mx_calls s j) = Some k'" "a = j" by simp_all
      moreover from this written.hyps have "j \<noteq> i" by auto
      ultimately show ?thesis by simp
    next
      case False
      with w have "a = i" "k' = k" by auto
      with own [of j] p show ?thesis by simp
    qed
    then show "pc_written (mx_calls ?s j) = Some k'" "a = j" by blast+
  next
    fix a l assume "pc_number (mx_calls s a) = Some l"
    then show "l \<le> mx_counter ?s" using d(1) by simp
  next
    fix a j l assume "pc_number (mx_calls s a) = Some l" "pc_number (mx_calls s j) = Some l"
    then show "a = j" by (rule d(2))
  next
    fix c a l assume "(c, a, l) \<in> set (mx_wire ?s)"
    then show "l \<le> mx_counter ?s" using d(1) [of i k] d(3) [of c a l] written.hyps by auto
  next
    fix c a c' j l assume "(c, a, l) \<in> set (mx_wire ?s)" "(c', j, l) \<in> set (mx_wire ?s)"
    then have "c = c' \<and> a = j" using d(5) [of c a l c' j] new by auto
    then show "c = c'" "a = j" by blast+
  qed
next
  case (watch s i g n k)
  then show ?case by (intro numbered_keep [OF watch.prems]) auto
qed (erule numbered_keep; auto simp: admit_Some split: if_splits)+

lemma pending_frame:
  "mx_pending (unregister k s) d = Some (Some (Real f)) \<Longrightarrow> mx_pending s d = Some (Some (Real f))"
  "mx_pending (registerPending s) d = Some (Some (Real f)) \<Longrightarrow> mx_pending s d = Some (Some (Real f))"
  "mx_pending (fan_out s) d = Some (Some (Real f)) \<Longrightarrow> mx_pending s d = Some (Some (Real f))"
  "mx_pending (new_connection s) d = Some (Some (Real f)) \<Longrightarrow> mx_pending s d = Some (Some (Real f))"
  "mx_pending (drop_connection s) d = Some (Some (Real f)) \<Longrightarrow> mx_pending s d = Some (Some (Real f))"
  "mx_pending (deliver r s) d = Some (Some (Real f)) \<Longrightarrow> mx_pending s d = Some (Some (Real f)) \<or> wr_id f = d"
  by (auto simp: mux_ops split: option.splits if_splits)

lemma pending_same [simp]:
  "mx_pending (set_pc i p s) = mx_pending s" "mx_pending (finish i r s) = mx_pending s"
  by (simp_all add: mux_ops)

lemma answered_keep:
  assumes "answered_own s"
    and "\<And>d f. mx_pending s' d = Some (Some (Real f)) \<Longrightarrow> mx_pending s d = Some (Some (Real f)) \<or> wr_id f = d"
    and "\<And>j k. pc_written (mx_calls s' j) = Some k \<Longrightarrow> pc_written (mx_calls s j) = Some k \<or> (\<exists>c. (c, j, k) \<in> set (mx_wire s'))"
    and "\<And>j f. mx_calls s' j = Some (Returned (Got f)) \<Longrightarrow>
      mx_calls s j = Some (Returned (Got f)) \<or> (\<exists>k. pc_written (mx_calls s j) = Some k \<and> wr_id f = request_text k)"
    and "set (mx_wire s) \<subseteq> set (mx_wire s')"
  shows "answered_own s'"
proof -
  have own: "\<exists>c. (c, j, k) \<in> set (mx_wire s')" if "pc_written (mx_calls s j) = Some k" for j k
    using assms(1,5) that unfolding answered_own_def by blast
  have got: "\<exists>c k. (c, j, k) \<in> set (mx_wire s') \<and> wr_id f = request_text k" if "mx_calls s j = Some (Returned (Got f))" for j f
    using assms(1,5) that unfolding answered_own_def by blast
  show ?thesis
    unfolding answered_own_def
  proof (intro conjI allI impI)
    show "wr_id f = d" if "mx_pending s' d = Some (Some (Real f))" for d f
      using assms(1,2) that unfolding answered_own_def by blast
    show "\<exists>c. (c, j, k) \<in> set (mx_wire s')" if "pc_written (mx_calls s' j) = Some k" for j k
      using assms(3) [OF that] own by blast
    show "\<exists>c k. (c, j, k) \<in> set (mx_wire s') \<and> wr_id f = request_text k" if "mx_calls s' j = Some (Returned (Got f))" for j f
      using assms(4) [OF that] own got by blast
  qed
qed

lemma answered_step: "mux_step s s' \<Longrightarrow> answered_own s \<Longrightarrow> answered_own s'"
proof (induction rule: mux_step.induct)
  case (receive s i g n k c f want v)
  then have "wr_id f = request_text k" unfolding answered_own_def by blast
  with receive.hyps show ?case
    by (intro answered_keep [OF receive.prems]) (auto dest: pending_frame split: if_splits)
qed (erule answered_keep; auto simp: admit_Some dest: pending_frame split: if_splits)+

section \<open>The shutdown waits for every call\<close>

fun in_flight :: "pc option \<Rightarrow> bool" where
  "in_flight None \<longleftrightarrow> False"
| "in_flight (Some (Returned r)) \<longleftrightarrow> False"
| "in_flight (Some p) \<longleftrightarrow> True"

definition flights :: "mux \<Rightarrow> nat set" where
  "flights s = {i. in_flight (mx_calls s i)}"

definition counted :: "mux \<Rightarrow> bool" where
  "counted s \<longleftrightarrow> finite (flights s) \<and> mx_wg s = card (flights s)"

lemma flights_set_pc:
  "flights (set_pc i p s) = (if in_flight (Some p) then insert i (flights s) else flights s - {i})"
  by (auto simp: flights_def split: if_splits)

lemma flights_same: "mx_calls s' = mx_calls s \<Longrightarrow> flights s' = flights s"
  by (simp add: flights_def)

lemma counted_keep: "counted s \<Longrightarrow> flights s' = flights s \<Longrightarrow> mx_wg s' = mx_wg s \<Longrightarrow> counted s'"
  by (simp add: counted_def)

lemma wg_frame [simp]:
  "mx_wg (unregister k s) = mx_wg s" "mx_wg (registerPending s) = mx_wg s" "mx_wg (deliver f s) = mx_wg s"
  "mx_wg (fan_out s) = mx_wg s" "mx_wg (new_connection s) = mx_wg s" "mx_wg (drop_connection s) = mx_wg s"
  "mx_wg (set_pc i p s) = mx_wg s" "mx_wg (finish i r s) = mx_wg s - 1"
  by (simp_all add: mux_ops split: option.splits)

lemma counted_move:
  assumes "counted s" and "in_flight (mx_calls s i)" and "in_flight (Some p)" and "mx_calls t = mx_calls s" and "mx_wg t = mx_wg s"
  shows "counted (set_pc i p t)"
proof (rule counted_keep [OF assms(1)])
  have "flights t = flights s" using assms(4) by (simp add: flights_def)
  moreover have "i \<in> flights s" using assms(2) by (simp add: flights_def)
  ultimately show "flights (set_pc i p t) = flights s" using assms(3) by (simp add: flights_set_pc insert_absorb)
qed (use assms(5) in simp)

lemma counted_finish:
  assumes "counted s" and "in_flight (mx_calls s i)" and "mx_calls t = mx_calls s" and "mx_wg t = mx_wg s"
  shows "counted (finish i r t)"
proof -
  have "flights (finish i r t) = flights s - {i}" and "i \<in> flights s"
    using assms(2,3) by (auto simp: flights_def)
  with assms show ?thesis by (simp add: counted_def)
qed

lemma counted_start:
  assumes "counted s" and "mx_calls s i = None" and "admit s = Some s'" and "in_flight (Some p)"
  shows "counted (set_pc i p s')"
proof -
  have "flights (set_pc i p s') = insert i (flights s)" "i \<notin> flights s"
    using assms(2-4) by (auto simp: flights_set_pc flights_def admit_Some)
  with assms(1,3) show ?thesis by (simp add: counted_def admit_Some)
qed

lemma counted_step: "mux_step s s' \<Longrightarrow> counted s \<Longrightarrow> counted s'"
proof (induction rule: mux_step.induct)
  case (refuse s i)
  then show ?case by (intro counted_keep [OF refuse.prems]) (auto simp: flights_def)
next
  case (cancel s i g n k c)
  then show ?case by (intro counted_finish [OF cancel.prems]) auto
next
  case (close s)
  then show ?case by (intro counted_keep [OF close.prems]) (auto simp: flights_def)
next
  case (read s f)
  then show ?case by (intro counted_keep [OF read.prems]) (simp_all add: flights_def)
next
  case (read_failed s)
  then show ?case by (intro counted_keep [OF read_failed.prems]) (simp_all add: flights_def)
qed (erule counted_start counted_finish counted_move; simp)+

definition mux_inv :: "mux \<Rightarrow> bool" where
  "mux_inv s \<longleftrightarrow> numbered s \<and> answered_own s \<and> counted s"

interpretation multiplex: inductive_invariant mux_init mux_step "\<lambda>_. True" mux_inv
proof
  show "mux_inv mux_init"
    by (simp add: mux_inv_def numbered_def answered_own_def counted_def flights_def mux_init_def)
  show "mux_inv s \<Longrightarrow> True \<Longrightarrow> mux_step s s' \<Longrightarrow> mux_inv s'" for s s'
    using numbered_step answered_step counted_step by (auto simp: mux_inv_def)
qed


text \<open>
  C12: A call that returns a response returns its own. In every reachable state, when goroutine
  \<open>i\<close> has returned a frame, it wrote a request with that frame's number itself, and
  nobody wrote that number a second time, on any connection: a late answer to a cancelled call,
  an answer to the first attempt of a retried call or a duplicated answer goes to no other call.
  (The counter is modelled without the wrap-around of an \<open>int64\<close>.)
\<close>

theorem response_is_own:
  assumes "reaches mux_init mux_step (\<lambda>_. True) s" and "mx_calls s i = Some (Returned (Got f))"
  shows "\<exists>c k. (c, i, k) \<in> set (mx_wire s) \<and> wr_id f = request_text k \<and>
    (\<forall>c' j k'. (c', j, k') \<in> set (mx_wire s) \<longrightarrow> wr_id f = request_text k' \<longrightarrow> c' = c \<and> j = i)"
proof -
  have inv: "numbered s" "answered_own s" using multiplex.always [OF assms(1)] by (simp_all add: mux_inv_def)
  from inv(2) assms(2) obtain c k where w: "(c, i, k) \<in> set (mx_wire s)" "wr_id f = request_text k"
    unfolding answered_own_def by blast
  show ?thesis using w numberedD(5) [OF inv(1) _ w(1)] by (metis request_text_inj)
qed

lemma reaches_next:
  "reaches mux_init mux_step (\<lambda>_. True) s \<Longrightarrow> mux_step s t \<Longrightarrow> t = u \<Longrightarrow> reaches mux_init mux_step (\<lambda>_. True) u"
  by (auto intro: reaches_step)


definition pong :: ws_response where
  "pong = \<lparr>wr_msg = ''result'', wr_id = request_text 1, wr_result = None, wr_error = None\<rparr>"

text \<open>One call whose answer arrives.\<close>

definition waiting_call :: mux where
  "waiting_call =
     \<lparr>mx_closed = False, mx_gen = 0, mx_authed = True, mx_conn = 0, mx_reader = True, mx_counter = 1,
      mx_pending = [request_text 1 \<mapsto> None], mx_wg = 1, mx_calls = [0 \<mapsto> Waiting 0 0 1 0], mx_wire = [(0, 0, 1)]\<rparr>"

definition answered_call :: mux where
  "answered_call = finish 0 (Got pong) (unregister 1 (deliver pong waiting_call))"

lemmas run_simps = waiting_call_def answered_call_def mux_init_def pong_def mux_ops admit_def

lemma waiting_reached: "reaches mux_init mux_step (\<lambda>_. True) waiting_call"
proof -
  let ?s1 = "set_pc 0 (Entered 0 0) (mux_init\<lparr>mx_wg := 1\<rparr>)"
  let ?s2 = "set_pc 0 (Registered 0 0 1) (registerPending ?s1)"
  let ?s3 = "set_pc 0 (Sent 0 0 1) (?s2\<lparr>mx_wire := [(0, 0, 1)]\<rparr>)"
  have "reaches mux_init mux_step (\<lambda>_. True) ?s1"
    by (rule reaches_next [OF reaches_start mux_step.enter [where i = 0 and s' = "mux_init\<lparr>mx_wg := 1\<rparr>"]]) (simp_all add: run_simps)
  then have "reaches mux_init mux_step (\<lambda>_. True) ?s2"
    by (rule reaches_next [OF _ mux_step.register [where i = 0 and g = 0 and n = 0]]) (simp_all add: run_simps)
  then have "reaches mux_init mux_step (\<lambda>_. True) ?s3"
    by (rule reaches_next [OF _ mux_step.written [where i = 0 and g = 0 and n = 0 and k = 1]]) (simp_all add: run_simps)
  then show ?thesis
    by (rule reaches_next [OF _ mux_step.watch [where i = 0 and g = 0 and n = 0 and k = 1]]) (simp_all add: run_simps)
qed

lemma answered_reached: "reaches mux_init mux_step (\<lambda>_. True) answered_call"
proof -
  have "reaches mux_init mux_step (\<lambda>_. True) (deliver pong waiting_call)"
    by (rule reaches_next [OF waiting_reached mux_step.read [where f = pong]]) (simp_all add: run_simps)
  then show ?thesis
    by (rule reaches_next [OF _ mux_step.receive [where i = 0 and g = 0 and n = 0 and k = 1 and c = 0 and f = pong and want = None]])
      (simp_all add: run_simps handleResponse_def)
qed

theorem own_response_witness:
  "\<exists>c k. (c, 0, k) \<in> set (mx_wire answered_call) \<and> wr_id pong = request_text k \<and>
    (\<forall>c' j k'. (c', j, k') \<in> set (mx_wire answered_call) \<longrightarrow> wr_id pong = request_text k' \<longrightarrow> c' = c \<and> j = 0)"
  by (rule response_is_own [OF answered_reached]) (simp add: run_simps)

section \<open>The shutdown\<close>

definition at_rest :: "mux \<Rightarrow> mux \<Rightarrow> bool" where
  "at_rest s0 s \<longleftrightarrow> mx_closed s \<and> flights s = {} \<and> mx_wg s = 0 \<and> mx_wire s = mx_wire s0 \<and> mx_gen s = mx_gen s0 \<and> mx_conn s = mx_conn s0"

lemma closed_frame [simp]:
  "mx_closed (unregister k s) = mx_closed s" "mx_closed (registerPending s) = mx_closed s" "mx_closed (deliver f s) = mx_closed s"
  "mx_closed (fan_out s) = mx_closed s" "mx_closed (set_pc i p s) = mx_closed s" "mx_closed (finish i r s) = mx_closed s"
  by (simp_all add: mux_ops split: option.splits)

lemma conn_frame [simp]:
  "mx_gen (deliver f s) = mx_gen s" "mx_gen (fan_out s) = mx_gen s" "mx_gen (set_pc i p s) = mx_gen s"
  "mx_conn (deliver f s) = mx_conn s" "mx_conn (fan_out s) = mx_conn s" "mx_conn (set_pc i p s) = mx_conn s"
  by (simp_all add: mux_ops split: option.splits)

lemma rest_no_call: "mx_calls s i = Some p \<Longrightarrow> at_rest s0 s \<Longrightarrow> in_flight (Some p) \<Longrightarrow> P"
  by (metis at_rest_def flights_def empty_Collect_eq)

lemma at_rest_step: "mux_step s s' \<Longrightarrow> at_rest s0 s \<Longrightarrow> at_rest s0 s'"
proof (induction rule: mux_step.induct)
  case (refuse s i)
  then show ?case by (auto simp: at_rest_def flights_def)
next
  case (cancel s i g n k c)
  then obtain p where "mx_calls s i = Some p" "in_flight (Some p)" by auto
  then show ?case using cancel.prems rest_no_call by blast
next
  case (enter s i s' )
  then show ?case by (simp add: admit_Some at_rest_def)
next
  case (enter_upload s i s')
  then show ?case by (simp add: admit_Some at_rest_def)
next
  case (read s f)
  then show ?case by (simp add: at_rest_def flights_def)
next
  case (read_failed s)
  then show ?case by (simp add: at_rest_def flights_def)
next
  case (close s)
  then show ?case by (simp add: at_rest_def flights_def)
qed (erule (1) rest_no_call; simp)+

text \<open>
  C16: \<open>Close\<close> may trust its wait group. In every reachable state in which the transport is
  marked closed and the group's counter is zero, whatever happens next, no call or upload is in
  flight any more, nothing is written, and no connection replaces the one that \<open>Close\<close> closes:
  the counter is exact, and marking the transport closed before waiting leaves no way in.
\<close>

theorem closed_drained:
  assumes "reaches mux_init mux_step (\<lambda>_. True) s" and "mx_closed s" and "mx_wg s = 0"
    and "reaches s mux_step (\<lambda>_. True) s'"
  shows "flights s' = {} \<and> mx_wg s' = 0 \<and> mx_wire s' = mx_wire s \<and> mx_gen s' = mx_gen s \<and> mx_conn s' = mx_conn s"
proof -
  have "counted s" using multiplex.always [OF assms(1)] by (simp add: mux_inv_def)
  with assms(2,3) have "at_rest s s" by (auto simp: at_rest_def counted_def)
  with assms(4) have "at_rest s s'" by (induction rule: reaches.induct) (auto dest: at_rest_step)
  then show ?thesis by (simp add: at_rest_def)
qed

text \<open>A call that comes after the shutdown.\<close>

definition shut_down :: mux where "shut_down = answered_call\<lparr>mx_closed := True\<rparr>"

definition late_call :: mux where "late_call = set_pc 1 (Returned (Failed ErrTransportClosed)) shut_down"

theorem drained_witness:
  "flights late_call = {} \<and> mx_wg late_call = 0 \<and> mx_wire late_call = mx_wire shut_down \<and>
     mx_gen late_call = mx_gen shut_down \<and> mx_conn late_call = mx_conn shut_down"
proof (rule closed_drained)
  show "reaches mux_init mux_step (\<lambda>_. True) shut_down"
    by (rule reaches_next [OF answered_reached mux_step.close]) (simp add: shut_down_def)
  show "reaches shut_down mux_step (\<lambda>_. True) late_call"
    unfolding late_call_def
    by (rule reaches_step [where s = shut_down], rule reaches_start, rule TrueI, rule mux_step.refuse) (simp_all add: shut_down_def run_simps)
qed (simp_all add: shut_down_def run_simps)

section \<open>A reconnect during a call\<close>

text \<open>
  Goroutine 0 has registered and not written yet when goroutine 1, whose write failed, replaces
  the connection: the old reader tells 0 as well that the connection is lost. Then 0 writes its
  request on the new connection, reads the old notice and calls again.
\<close>

definition resent :: mux where
  "resent =
     \<lparr>mx_closed = False, mx_gen = 1, mx_authed = True, mx_conn = 1, mx_reader = True, mx_counter = 3,
      mx_pending = [request_text 3 \<mapsto> None], mx_wg = 2,
      mx_calls = [0 \<mapsto> Sent 0 1 3, 1 \<mapsto> Entered 0 1], mx_wire = [(1, 0, 1), (1, 0, 3)]\<rparr>"

lemma resent_reached: "reaches mux_init mux_step (\<lambda>_. True) resent"
proof -
  let ?R = "reaches mux_init mux_step (\<lambda>_. True)"
  note simps = run_simps resent_def request_text_inj numeral_2_eq_2 numeral_3_eq_3
  let ?s1 = "set_pc 0 (Entered 0 0) (mux_init\<lparr>mx_wg := 1\<rparr>)"
  let ?s2 = "set_pc 0 (Registered 0 0 1) (registerPending ?s1)"
  let ?s3 = "set_pc 1 (Entered 0 0) (?s2\<lparr>mx_wg := 2\<rparr>)"
  let ?s4 = "set_pc 1 (Registered 0 0 2) (registerPending ?s3)"
  let ?s5 = "set_pc 1 (Broken 0 0 (SendFailed [])) (unregister 2 ?s4)"
  let ?s6 = "set_pc 1 (Entered 0 1) (new_connection ?s5)"
  let ?s7 = "set_pc 0 (Sent 0 0 1) (?s6\<lparr>mx_wire := [(1, 0, 1)]\<rparr>)"
  let ?s8 = "set_pc 0 (Waiting 0 0 1 1) ?s7"
  let ?s9 = "set_pc 0 (Broken 0 0 (ConnectionLost [])) (unregister 1 ?s8)"
  let ?s10 = "set_pc 0 (Entered 0 1) ?s9"
  let ?s11 = "set_pc 0 (Registered 0 1 3) (registerPending ?s10)"
  have "?R ?s1"
    by (rule reaches_next [OF reaches_start mux_step.enter [where i = 0 and s' = "mux_init\<lparr>mx_wg := 1\<rparr>"]]) (simp_all add: simps)
  then have "?R ?s2"
    by (rule reaches_next [OF _ mux_step.register [where i = 0 and g = 0 and n = 0]]) (simp_all add: simps)
  then have "?R ?s3"
    by (rule reaches_next [OF _ mux_step.enter [where i = 1 and s' = "?s2\<lparr>mx_wg := 2\<rparr>"]]) (simp_all add: simps)
  then have "?R ?s4"
    by (rule reaches_next [OF _ mux_step.register [where i = 1 and g = 0 and n = 0]]) (simp_all add: simps)
  then have "?R ?s5"
    by (rule reaches_next [OF _ mux_step.write_failed [where i = 1 and g = 0 and n = 0 and k = 2 and m = "[]"]]) (simp_all add: simps)
  then have "?R ?s6"
    by (rule reaches_next [OF _ mux_step.reconnected [where i = 1 and g = 0]]) (simp_all add: simps)
  then have "?R ?s7"
    by (rule reaches_next [OF _ mux_step.written [where i = 0 and g = 0 and n = 0 and k = 1]]) (simp_all add: simps)
  then have "?R ?s8"
    by (rule reaches_next [OF _ mux_step.watch [where i = 0 and g = 0 and n = 0 and k = 1]]) (simp_all add: simps)
  then have "?R ?s9"
    by (rule reaches_next [OF _ mux_step.receive_lost [where i = 0 and g = 0 and n = 0 and k = 1 and c = 1 and m = "[]"]]) (simp_all add: simps)
  then have "?R ?s10"
    by (rule reaches_next [OF _ mux_step.replaced [where i = 0 and g = 0]]) (simp_all add: simps)
  then have "?R ?s11"
    by (rule reaches_next [OF _ mux_step.register [where i = 0 and g = 0 and n = 1]]) (simp_all add: simps)
  then show ?thesis
    by (rule reaches_next [OF _ mux_step.written [where i = 0 and g = 0 and n = 1 and k = 3]]) (simp_all add: simps fun_eq_iff)
qed

text \<open>
  A reconnect by one call can make another call run twice on a healthy connection. A state
  is reachable in which one call has been written twice on the current connection, whose reader
  runs and whose requests have all been sent after it was set up: the call had registered before
  the reconnect and was told of the loss of a connection it had not used.
\<close>

theorem call_duplicated:
  "\<exists>s i k k'. reaches mux_init mux_step (\<lambda>_. True) s \<and> k \<noteq> k' \<and> mx_wire s = [(mx_conn s, i, k), (mx_conn s, i, k')] \<and>
     mx_reader s \<and> mx_authed s \<and> \<not> mx_closed s"
proof (intro exI conjI)
  show "reaches mux_init mux_step (\<lambda>_. True) resent" by (rule resent_reached)
  show "(1::nat) \<noteq> 3" by simp
qed (simp_all add: resent_def)

end
