(* ===== verification/Limiter.thy ===== *)
theory Limiter
  imports Multiplex
begin

text \<open>
  The slots of the TrueNAS client (internal/client/truenas.go, \<open>call\<close>) on top of the shared
  connection: a call takes a slot of a buffered channel before it enters the transport and gives it
  back when it returns. Uploads take no slot.
\<close>

section \<open>The client and its connection\<close>

text \<open>
  \<open>li_slots\<close> is the length of the channel, \<open>li_holders\<close> are the goroutines between their
  \<open>select\<close> and the deferred receive, and \<open>li_gone\<close> those whose context ended before.
\<close>

record limited =
  li_cap :: nat
  li_slots :: nat
  li_holders :: "nat set"
  li_gone :: "nat set"
  li_mux :: mux

definition limited_start :: "transport \<Rightarrow> int \<Rightarrow> limited" where
  "limited_start t maxConcurrent =
     \<lparr>li_cap = nat (snd (newClient t maxConcurrent)), li_slots = 0, li_holders = {}, li_gone = {}, li_mux = mux_init\<rparr>"

definition take_slot :: "nat \<Rightarrow> limited \<Rightarrow> limited" where
  "take_slot i s = s\<lparr>li_slots := li_slots s + 1, li_holders := insert i (li_holders s)\<rparr>"

definition give_slot :: "nat \<Rightarrow> limited \<Rightarrow> limited" where
  "give_slot i s = s\<lparr>li_slots := li_slots s - 1, li_holders := li_holders s - {i}\<rparr>"

text \<open>Only a goroutine with a slot enters \<open>Call\<close>; whatever else happens on the connection is free.\<close>

definition enters :: "nat \<Rightarrow> mux \<Rightarrow> mux \<Rightarrow> bool" where
  "enters i m m' \<longleftrightarrow> mx_calls m i = None \<and> (\<exists>g n. mx_calls m' i = Some (Entered g n))"

inductive limited_step :: "limited \<Rightarrow> limited \<Rightarrow> bool" where
  acquire: "i \<notin> li_holders s \<union> li_gone s \<Longrightarrow> mx_calls (li_mux s) i = None \<Longrightarrow> li_slots s < li_cap s \<Longrightarrow> limited_step s (take_slot i s)"
| abandon: "i \<notin> li_holders s \<Longrightarrow> mx_calls (li_mux s) i = None \<Longrightarrow> limited_step s (s\<lparr>li_gone := insert i (li_gone s)\<rparr>)"
| transport: "mux_step (li_mux s) m \<Longrightarrow> (\<And>i. enters i (li_mux s) m \<Longrightarrow> i \<in> li_holders s) \<Longrightarrow> limited_step s (s\<lparr>li_mux := m\<rparr>)"
| release: "i \<in> li_holders s \<Longrightarrow> mx_calls (li_mux s) i = Some (Returned r) \<Longrightarrow> limited_step s (give_slot i s)"

text \<open>The calls on the connection: neither uploads nor returned.\<close>

definition in_call :: "mux \<Rightarrow> nat set" where
  "in_call m = {i. \<exists>p. mx_calls m i = Some p \<and> p \<noteq> Uploading \<and> (\<forall>r. p \<noteq> Returned r)}"

section \<open>Bounds\<close>

lemma in_call_step: "mux_step m m' \<Longrightarrow> i \<in> in_call m' \<Longrightarrow> i \<in> in_call m \<or> enters i m m'"
  by (induction rule: mux_step.induct) (auto simp: in_call_def enters_def admit_Some split: if_splits)

text \<open>Every entry of the map of pending calls belongs to a call that has registered.\<close>

definition owned :: "mux \<Rightarrow> bool" where
  "owned m \<longleftrightarrow> (\<forall>d \<in> dom (mx_pending m). \<exists>i k. d = request_text k \<and> pc_number (mx_calls m i) = Some k)"

lemma dom_frame:
  "dom (mx_pending (unregister k s)) = dom (mx_pending s) - {request_text k}"
  "dom (mx_pending (registerPending s)) = insert (request_text (Suc (mx_counter s))) (dom (mx_pending s))"
  "dom (mx_pending (fan_out s)) = dom (mx_pending s)"
  "dom (mx_pending (new_connection s)) = dom (mx_pending s)"
  "dom (mx_pending (drop_connection s)) = dom (mx_pending s)"
  "dom (mx_pending (deliver r s)) = dom (mx_pending s)"
  by (auto simp: mux_ops split: option.splits if_splits)

lemma owned_keep:
  assumes "owned s" and "dom (mx_pending s') \<subseteq> dom (mx_pending s) - X"
    and "\<And>i k. pc_number (mx_calls s i) = Some k \<Longrightarrow> request_text k \<in> X \<or> pc_number (mx_calls s' i) = Some k"
  shows "owned s'"
  using assms unfolding owned_def by (metis Diff_iff subsetD)

lemma owned_drop:
  assumes "owned s" and "pc_number (mx_calls s i) = Some k"
  shows "pc_number (Some p) = None \<Longrightarrow> owned (set_pc i p (unregister k s))" and "owned (finish i r (unregister k s))"
  by (rule owned_keep [OF assms(1), where X = "{request_text k}"], use assms(2) in \<open>auto simp: dom_frame\<close>)+

lemma owned_step: "mux_step m m' \<Longrightarrow> owned m \<Longrightarrow> owned m'"
proof (induction rule: mux_step.induct)
  case (register s i g n)
  show ?case
    unfolding owned_def
  proof
    fix d assume "d \<in> dom (mx_pending (set_pc i (Registered g n (Suc (mx_counter s))) (registerPending s)))"
    then consider "d = request_text (Suc (mx_counter s))" | "d \<in> dom (mx_pending s)" by (auto simp: dom_frame)
    then show "\<exists>j k. d = request_text k \<and> pc_number (mx_calls (set_pc i (Registered g n (Suc (mx_counter s))) (registerPending s)) j) = Some k"
    proof cases
      case 1
      then show ?thesis by (intro exI [of _ i] exI [of _ "Suc (mx_counter s)"]) simp
    next
      case 2
      with register.prems obtain j k where "d = request_text k" "pc_number (mx_calls s j) = Some k" unfolding owned_def by blast
      with register.hyps show ?thesis by (intro exI [of _ j] exI [of _ k]) auto
    qed
  qed
next
  case (cancel s i g n k c)
  then show ?case by (intro owned_drop) auto
qed ((rule owned_drop; simp; fail) | (rule owned_keep [where X = "{}"]; auto simp: dom_frame admit_Some split: if_splits; fail))+

definition limited_inv :: "limited \<Rightarrow> bool" where
  "limited_inv s \<longleftrightarrow> finite (li_holders s) \<and> li_slots s = card (li_holders s) \<and> li_slots s \<le> li_cap s \<and>
     in_call (li_mux s) \<subseteq> li_holders s \<and> owned (li_mux s)"

lemma limited_inv_step: "limited_step s s' \<Longrightarrow> limited_inv s \<Longrightarrow> limited_inv s'"
proof (induction rule: limited_step.induct)
  case (transport s m)
  then show ?case using in_call_step [OF transport.hyps(1)] owned_step [OF transport.hyps(1)] by (auto simp: limited_inv_def)
next
  case (release i s r)
  then have "i \<notin> in_call (li_mux s)" by (simp add: in_call_def)
  with release show ?case by (auto simp: limited_inv_def give_slot_def card_Diff_singleton)
qed (auto simp: limited_inv_def take_slot_def)

interpretation limiter: inductive_invariant "limited_start t n" limited_step "\<lambda>_. True" limited_inv for t n
proof
  show "limited_inv (limited_start t n)"
    by (simp add: limited_inv_def limited_start_def in_call_def owned_def mux_init_def)
qed (rule limited_inv_step)

lemma cap_constant: "reaches s limited_step (\<lambda>_. True) s' \<Longrightarrow> li_cap s' = li_cap s"
proof (induction rule: reaches.induct)
  case (reaches_step s' s'')
  from reaches_step(3,4) show ?case by (cases rule: limited_step.cases) (simp_all add: take_slot_def give_slot_def)
qed simp

lemma pending_bounded:
  assumes "owned m" and "finite (in_call m)"
  shows "finite (dom (mx_pending m)) \<and> card (dom (mx_pending m)) \<le> card (in_call m)"
proof -
  have "i \<in> in_call m" if "pc_number (mx_calls m i) = Some k" for i k
    using that by (cases "mx_calls m i" rule: pc_number.cases) (auto simp: in_call_def)
  then have sub: "dom (mx_pending m) \<subseteq> (\<lambda>i. request_text (the (pc_number (mx_calls m i)))) ` in_call m"
    using assms(1) unfolding owned_def by force
  then show ?thesis
    using assms(2) by (meson card_image_le card_mono finite_imageI finite_subset le_trans)
qed

text \<open>
  C17: in every interleaving of calls, uploads, reconnects, cancellations and the shutdown, at most
  as many calls are on the connection, and at most as many requests wait in its map of pending
  calls, as the client was configured to allow, eight without a setting. The channel holds exactly
  one slot for each goroutine between its select and its return: none is lost and none is given
  back twice.
\<close>

theorem calls_limited:
  assumes "reaches (limited_start t n) limited_step (\<lambda>_. True) s"
  shows "finite (in_call (li_mux s)) \<and> finite (li_holders s) \<and> li_slots s = card (li_holders s) \<and>
    int (li_slots s) \<le> (if n \<le> 0 then 8 else n) \<and>
    int (card (in_call (li_mux s))) \<le> (if n \<le> 0 then 8 else n) \<and>
    int (card (dom (mx_pending (li_mux s)))) \<le> (if n \<le> 0 then 8 else n)"
proof -
  have inv: "limited_inv s" by (rule limiter.always [OF assms])
  have cap: "int (li_cap s) = (if n \<le> 0 then 8 else n)"
    using cap_constant [OF assms] by (simp add: limited_start_def newClient_def defaultMaxConcurrentCalls_def)
  from inv have f: "finite (in_call (li_mux s))" "card (in_call (li_mux s)) \<le> li_slots s"
    by (auto simp: limited_inv_def intro: finite_subset card_mono)
  from inv have "owned (li_mux s)" by (simp add: limited_inv_def)
  from pending_bounded [OF this f(1)] f inv cap show ?thesis by (simp add: limited_inv_def)
qed

text \<open>One slot, taken by a call that has entered.\<close>

definition one_call :: limited where
  "one_call = (take_slot 0 (limited_start \<lparr>tp_closed = False, tp_authed = True, tp_gen = 0, tp_last = time_zero\<rparr> 1))
     \<lparr>li_mux := set_pc 0 (Entered 0 0) (mux_init\<lparr>mx_wg := 1\<rparr>)\<rparr>"

theorem limited_witness:
  "finite (in_call (li_mux one_call)) \<and> finite (li_holders one_call) \<and> li_slots one_call = card (li_holders one_call) \<and>
    int (li_slots one_call) \<le> (if (1::int) \<le> 0 then 8 else 1) \<and>
    int (card (in_call (li_mux one_call))) \<le> (if (1::int) \<le> 0 then 8 else 1) \<and>
    int (card (dom (mx_pending (li_mux one_call)))) \<le> (if (1::int) \<le> 0 then 8 else 1)"
proof (rule calls_limited)
  let ?t = "\<lparr>tp_closed = False, tp_authed = True, tp_gen = 0, tp_last = time_zero\<rparr>"
  let ?m = "set_pc 0 (Entered 0 0) (mux_init\<lparr>mx_wg := 1\<rparr>)"
  have first: "limited_step (limited_start ?t 1) (take_slot 0 (limited_start ?t 1))"
    by (rule limited_step.acquire) (simp_all add: limited_start_def mux_init_def newClient_def)
  have "mux_step mux_init ?m"
    using mux_step.enter [of mux_init 0 "mux_init\<lparr>mx_wg := 1\<rparr>"] by (simp add: mux_init_def admit_def)
  then have second: "limited_step (take_slot 0 (limited_start ?t 1)) one_call"
    unfolding one_call_def
    by (intro limited_step.transport) (auto simp: limited_start_def take_slot_def enters_def mux_init_def split: if_splits)
  show "reaches (limited_start ?t 1) limited_step (\<lambda>_. True) one_call"
    by (rule reaches_step [where ok = "\<lambda>_. True" and step = limited_step, OF _ TrueI second], rule reaches_step [where ok = "\<lambda>_. True" and step = limited_step, OF _ TrueI first], rule reaches_start)
qed

end
