(* ===== verification/Monitor.thy ===== *)
theory Monitor
  imports Client
begin

text \<open>
  The host monitor and the pool selector (internal/monitor/monitor.go). The state of the process
  is the list of samples that its gauges recorded, oldest first.
\<close>

section \<open>Gauges\<close>

datatype gauge =
    HostCPUCores
  | HostMemoryTotal
  | HostPoolFreeBytes string
  | HostPoolUsedBytes string
  | HostPoolHealthy string
  | HostDisksTotal
  | HostVMsRunning

type_synonym samples = "(gauge \<times> int) list"

text \<open>A gauge is nil unless telemetry has set it up: \<open>on\<close> tells which ones are there.\<close>

definition record_sample :: "(gauge \<Rightarrow> bool) \<Rightarrow> gauge \<Rightarrow> int \<Rightarrow> (samples, unit) client" where
  "record_sample on g v = (if on g then modify_proc (\<lambda>s. s @ [(g, v)]) else ret ())"

section \<open>The monitor\<close>

definition collectHostInfo :: "server \<Rightarrow> (gauge \<Rightarrow> bool) \<Rightarrow> (samples, unit) client" where
  "collectHostInfo srv on = do {
     r \<leftarrow> GetHostInfo srv;
     case r of
       Inl e \<Rightarrow> ret ()
     | Inr info \<Rightarrow> do {
         record_sample on HostCPUCores (hi_cores info);
         record_sample on HostMemoryTotal (hi_physmem info) } }"

definition record_pool :: "(gauge \<Rightarrow> bool) \<Rightarrow> pool_info \<Rightarrow> (samples, unit) client" where
  "record_pool on p = do {
     record_sample on (HostPoolFreeBytes (pi_name p)) (pi_free p);
     record_sample on (HostPoolUsedBytes (pi_name p)) (pi_used p);
     record_sample on (HostPoolHealthy (pi_name p)) (if pi_healthy p then 1 else 0) }"

definition collectPoolInfo :: "server \<Rightarrow> (gauge \<Rightarrow> bool) \<Rightarrow> (samples, unit) client" where
  "collectPoolInfo srv on = do {
     r \<leftarrow> ListPools srv;
     case r of Inl e \<Rightarrow> ret () | Inr pools \<Rightarrow> for_all (record_pool on) pools }"

definition collectDiskInfo :: "server \<Rightarrow> (gauge \<Rightarrow> bool) \<Rightarrow> (samples, unit) client" where
  "collectDiskInfo srv on = do {
     r \<leftarrow> ListDisks srv;
     case r of Inl e \<Rightarrow> ret () | Inr disks \<Rightarrow> record_sample on HostDisksTotal (int (length disks)) }"

definition count_running :: "vm list \<Rightarrow> int" where
  "count_running vms = fold (\<lambda>v running. if vm_state v = ''RUNNING'' then running + 1 else running) vms 0"

definition collectVMInfo :: "server \<Rightarrow> (gauge \<Rightarrow> bool) \<Rightarrow> (samples, unit) client" where
  "collectVMInfo srv on = do {
     r \<leftarrow> ListVMs srv;
     case r of Inl e \<Rightarrow> ret () | Inr vms \<Rightarrow> record_sample on HostVMsRunning (count_running vms) }"

definition collect :: "server \<Rightarrow> (gauge \<Rightarrow> bool) \<Rightarrow> (samples, unit) client" where
  "collect srv on = do {
     collectHostInfo srv on;
     collectPoolInfo srv on;
     collectDiskInfo srv on;
     collectVMInfo srv on }"

definition monitor_interval :: "int \<Rightarrow> int" where
  "monitor_interval interval = (if interval = 0 then 30 * second else interval)"

text \<open>\<open>Run\<close>, with a bound on the number of ticks: an error of the wait is the end of the context.\<close>

fun monitor_ticks :: "server \<Rightarrow> (gauge \<Rightarrow> bool) \<Rightarrow> int \<Rightarrow> nat \<Rightarrow> (samples, unit) client" where
  "monitor_ticks srv on interval 0 = ret ()"
| "monitor_ticks srv on interval (Suc n) = do {
     r \<leftarrow> ask srv (Wait interval);
     case dec_unit r of
       Inl e \<Rightarrow> ret ()
     | Inr u \<Rightarrow> do { collect srv on; monitor_ticks srv on interval n } }"

definition RunMonitor :: "server \<Rightarrow> (gauge \<Rightarrow> bool) \<Rightarrow> int \<Rightarrow> nat \<Rightarrow> (samples, unit) client" where
  "RunMonitor srv on interval n = do { collect srv on; monitor_ticks srv on (monitor_interval interval) n }"

section \<open>The pool selector\<close>

text \<open>The loop of \<open>SelectPool\<close>: strictly more free space replaces the best pool so far.\<close>

fun best_pool :: "pool_info option \<Rightarrow> pool_info list \<Rightarrow> pool_info option" where
  "best_pool best [] = best"
| "best_pool best (p # ps) =
     (if \<not> pi_healthy p then best_pool best ps
      else case best of
        None \<Rightarrow> best_pool (Some p) ps
      | Some b \<Rightarrow> best_pool (Some (if pi_free b < pi_free p then p else b)) ps)"

definition SelectPool :: "server \<Rightarrow> string \<Rightarrow> ('p, go_error + string) client" where
  "SelectPool srv explicitPool =
     (if explicitPool \<noteq> [] then ret (Inr explicitPool)
      else do {
        r \<leftarrow> ListPools srv;
        ret (case r of
               Inl e \<Rightarrow> Inl e
             | Inr pools \<Rightarrow>
                 (case best_pool None pools of
                    None \<Rightarrow> Inl (Errorf ''no healthy pools available'')
                  | Some p \<Rightarrow> Inr (pi_name p))) })"

section \<open>What a collection does\<close>

text \<open>The samples of one collection, from the four results it reads.\<close>

definition pool_samples :: "pool_info \<Rightarrow> samples" where
  "pool_samples p =
     [(HostPoolFreeBytes (pi_name p), pi_free p), (HostPoolUsedBytes (pi_name p), pi_used p),
      (HostPoolHealthy (pi_name p), if pi_healthy p then 1 else 0)]"

definition right :: "'e + 'a \<Rightarrow> 'a list" where
  "right r = (case r of Inl e \<Rightarrow> [] | Inr x \<Rightarrow> [x])"

definition samples_of :: "go_error + host_info \<Rightarrow> go_error + pool_info list \<Rightarrow> go_error + disk_info list \<Rightarrow> go_error + vm list \<Rightarrow> samples" where
  "samples_of host pools disks vms =
     concat (map (\<lambda>i. [(HostCPUCores, hi_cores i), (HostMemoryTotal, hi_physmem i)]) (right host)) @
     concat (map (\<lambda>ps. concat (map pool_samples ps)) (right pools)) @
     map (\<lambda>ds. (HostDisksTotal, int (length ds))) (right disks) @
     map (\<lambda>vs. (HostVMsRunning, int (length (filter (\<lambda>v. vm_state v = ''RUNNING'') vs)))) (right vms)"

lemma count_running: "count_running vs = int (length (filter (\<lambda>v. vm_state v = ''RUNNING'') vs))"
proof -
  have "fold (\<lambda>v running. if vm_state v = ''RUNNING'' then running + 1 else running) vs n =
      n + int (length (filter (\<lambda>v. vm_state v = ''RUNNING'') vs))" for n
    by (induction vs arbitrary: n) auto
  then show ?thesis by (simp add: count_running_def)
qed

lemma run_record_sample [simp]:
  "run_state (record_sample on g v) w = ((), w\<lparr>w_proc := w_proc w @ (if on g then [(g, v)] else [])\<rparr>)"
  by (simp add: record_sample_def)

lemma run_record_pools:
  "run_state (for_all (record_pool on) ps) w =
   ((), w\<lparr>w_proc := w_proc w @ filter (on \<circ> fst) (concat (map pool_samples ps))\<rparr>)"
  by (induction ps arbitrary: w) (simp_all add: record_pool_def pool_samples_def)

text \<open>A query neither reads nor changes the samples.\<close>

definition detached :: "('p, 'a) client \<Rightarrow> bool" where
  "detached m \<longleftrightarrow> (\<forall>w p. run_state m (w\<lparr>w_proc := p\<rparr>) = (fst (run_state m w), (snd (run_state m w))\<lparr>w_proc := p\<rparr>))"

lemma detached_ret: "detached (ret a)"
  by (simp add: detached_def)

lemma detached_ask: "detached (ask srv q)"
  by (simp add: detached_def)

lemma detached_bind:
  assumes "detached m" and "\<And>a. detached (f a)"
  shows "detached (m \<bind> f)"
  using assms by (simp add: detached_def split_beta)

lemma detached_pools: "detached (pools_of_raw srv rps)"
  by (induction rps) (auto simp: getRootDatasetSpace_def intro!: detached_ret detached_bind detached_ask)

lemma detached_queries:
  "detached (GetHostInfo srv)" "detached (ListPools srv)" "detached (ListDisks srv)" "detached (ListVMs srv)"
  by (auto simp: GetHostInfo_def ListPools_def ListDisks_def ListVMs_def
      intro!: detached_ret detached_bind detached_ask detached_pools split: sum.splits)

text \<open>A query followed by what is made of its result.\<close>

lemma run_query_then:
  assumes "detached m" and "\<And>a w. run_state (f a) w = ((), w\<lparr>w_proc := w_proc w @ g a\<rparr>)"
  shows "run_state (m \<bind> f) (w\<lparr>w_proc := p\<rparr>) = ((), (snd (run_state m w))\<lparr>w_proc := p @ g (fst (run_state m w))\<rparr>)"
proof -
  have "run_state m (w\<lparr>w_proc := p\<rparr>) = (fst (run_state m w), (snd (run_state m w))\<lparr>w_proc := p\<rparr>)"
    using assms(1) unfolding detached_def by blast
  then show ?thesis by (simp add: assms(2))
qed

text \<open>The four results, as the requests of one collection find them.\<close>

definition readings ::
  "server \<Rightarrow> history \<Rightarrow> (go_error + host_info) \<times> (go_error + pool_info list) \<times> (go_error + disk_info list) \<times> (go_error + vm list)" where
  "readings srv h =
     fst (run_state (do { a \<leftarrow> GetHostInfo srv; b \<leftarrow> ListPools srv; c \<leftarrow> ListDisks srv; d \<leftarrow> ListVMs srv; ret (a, b, c, d) })
            \<lparr>w_hist = h, w_proc = [] :: samples\<rparr>)"

lemmas run_collect_part =
  run_query_then [OF detached_queries(1), where g = "\<lambda>r. filter (on \<circ> fst) (concat (map (\<lambda>i. [(HostCPUCores, hi_cores i), (HostMemoryTotal, hi_physmem i)]) (right r)))"]
  run_query_then [OF detached_queries(2), where g = "\<lambda>r. filter (on \<circ> fst) (concat (map (\<lambda>ps. concat (map pool_samples ps)) (right r)))"]
  run_query_then [OF detached_queries(3), where g = "\<lambda>r. filter (on \<circ> fst) (map (\<lambda>ds. (HostDisksTotal, int (length ds))) (right r))"]
  run_query_then [OF detached_queries(4), where g = "\<lambda>r. filter (on \<circ> fst) (map (\<lambda>vs. (HostVMsRunning, int (length (filter (\<lambda>v. vm_state v = ''RUNNING'') vs)))) (right r))"]
  for on

lemma run_collect:
  "run_state (collectHostInfo srv on) (w\<lparr>w_proc := p\<rparr>) =
     ((), (snd (run_state (GetHostInfo srv) w))\<lparr>w_proc := p @ filter (on \<circ> fst)
        (concat (map (\<lambda>i. [(HostCPUCores, hi_cores i), (HostMemoryTotal, hi_physmem i)]) (right (fst (run_state (GetHostInfo srv) w)))))\<rparr>)"
  "run_state (collectPoolInfo srv on) (w\<lparr>w_proc := p\<rparr>) =
     ((), (snd (run_state (ListPools srv) w))\<lparr>w_proc := p @ filter (on \<circ> fst)
        (concat (map (\<lambda>ps. concat (map pool_samples ps)) (right (fst (run_state (ListPools srv) w)))))\<rparr>)"
  "run_state (collectDiskInfo srv on) (w\<lparr>w_proc := p\<rparr>) =
     ((), (snd (run_state (ListDisks srv) w))\<lparr>w_proc := p @ filter (on \<circ> fst)
        (map (\<lambda>ds. (HostDisksTotal, int (length ds))) (right (fst (run_state (ListDisks srv) w))))\<rparr>)"
  "run_state (collectVMInfo srv on) (w\<lparr>w_proc := p\<rparr>) =
     ((), (snd (run_state (ListVMs srv) w))\<lparr>w_proc := p @ filter (on \<circ> fst)
        (map (\<lambda>vs. (HostVMsRunning, int (length (filter (\<lambda>v. vm_state v = ''RUNNING'') vs)))) (right (fst (run_state (ListVMs srv) w))))\<rparr>)"
  unfolding collectHostInfo_def collectPoolInfo_def collectDiskInfo_def collectVMInfo_def
  by (rule run_collect_part, simp add: right_def run_record_pools count_running split: sum.splits)+

text \<open>
  A collection of the monitor only reads, and it records exactly the values of the readings
  that succeeded, on the gauges that are there: a failed reading loses its own samples alone.
\<close>

theorem collect_reports:
  "emits (\<lambda>q r. \<not> is_write q) (collect srv on) \<and>
   w_proc (snd (run_state (collect srv on) \<lparr>w_hist = h, w_proc = s\<rparr>)) =
     s @ filter (on \<circ> fst) (case readings srv h of (host, pools, disks, vms) \<Rightarrow> samples_of host pools disks vms)"
proof
  have pools: "emits (\<lambda>q r. \<not> is_write q) (pools_of_raw srv rps)" for rps
    by (induction rps) (auto simp: getRootDatasetSpace_def is_write_def intro!: emits_intros)
  have sample: "emits (\<lambda>q r. \<not> is_write q) (record_sample on g v)" for g v
    unfolding record_sample_def by (intro emits_intros)
  show "emits (\<lambda>q r. \<not> is_write q) (collect srv on)"
    unfolding collect_def collectHostInfo_def collectPoolInfo_def collectDiskInfo_def collectVMInfo_def record_pool_def
      GetHostInfo_def ListPools_def ListDisks_def ListVMs_def
    by (intro emits_intros pools sample) (simp_all add: is_write_def)
  show "w_proc (snd (run_state (collect srv on) \<lparr>w_hist = h, w_proc = s\<rparr>)) =
     s @ filter (on \<circ> fst) (case readings srv h of (host, pools, disks, vms) \<Rightarrow> samples_of host pools disks vms)"
    using run_collect [where w = "\<lparr>w_hist = h, w_proc = []\<rparr>" and p = s]
    by (simp add: collect_def readings_def run_collect samples_of_def split_beta)
qed

section \<open>The selected pool\<close>

lemma best_pool_some:
  "best_pool (Some b) ps =
     (case best_pool None ps of None \<Rightarrow> Some b | Some c \<Rightarrow> Some (if pi_free b < pi_free c then c else b))"
  by (induction ps arbitrary: b) (auto split: option.splits)

lemma best_pool_first_max:
  "case best_pool None ps of
     None \<Rightarrow> filter pi_healthy ps = []
   | Some b \<Rightarrow> \<exists>before after. ps = before @ b # after \<and> pi_healthy b \<and>
       list_all (\<lambda>p. pi_free p < pi_free b) (filter pi_healthy before) \<and>
       list_all (\<lambda>p. pi_free p \<le> pi_free b) (filter pi_healthy after)"
proof (induction ps)
  case (Cons p ps)
  show ?case
  proof (cases "best_pool None ps")
    case None
    show ?thesis
    proof (cases "pi_healthy p")
      case True
      with None Cons show ?thesis by (simp add: best_pool_some) (rule exI [of _ "[]"], auto simp: filter_empty_conv)
    qed (use None Cons in simp)
  next
    case (Some b)
    with Cons obtain xs ys where b: "ps = xs @ b # ys" "pi_healthy b"
      "list_all (\<lambda>p. pi_free p < pi_free b) (filter pi_healthy xs)"
      "list_all (\<lambda>p. pi_free p \<le> pi_free b) (filter pi_healthy ys)" by auto
    show ?thesis
    proof (cases "pi_healthy p \<and> pi_free b \<le> pi_free p")
      case True
      with b Some show ?thesis
        by (simp add: best_pool_some) (rule exI [of _ "[]"], auto simp: list_all_iff)
    next
      case False
      then have "best_pool None (p # ps) = Some b" using Some by (auto simp: best_pool_some)
      moreover have "p # ps = (p # xs) @ b # ys" using b(1) by simp
      moreover have "list_all (\<lambda>p. pi_free p < pi_free b) (filter pi_healthy (p # xs))" using b(3) False by (auto simp: not_le)
      ultimately show ?thesis using b(2,4) by (simp only: option.case) blast
    qed
  qed
qed simp

text \<open>
  The selector returns an explicit pool as it is, without any request. Otherwise it returns
  the name of the first healthy pool of the listing that has the most free space of the healthy
  ones, and an error exactly when the listing fails or holds no healthy pool.
\<close>

theorem SelectPool_most_free:
  "if pool \<noteq> [] then run_state (SelectPool srv pool) w = (Inr pool, w)
   else case fst (run_state (ListPools srv) w) of
     Inl e \<Rightarrow> fst (run_state (SelectPool srv pool) w) = Inl e
   | Inr ps \<Rightarrow>
       if list_ex pi_healthy ps
       then \<exists>before b after. ps = before @ b # after \<and> fst (run_state (SelectPool srv pool) w) = Inr (pi_name b) \<and> pi_healthy b \<and>
         list_all (\<lambda>p. pi_free p < pi_free b) (filter pi_healthy before) \<and>
         list_all (\<lambda>p. pi_free p \<le> pi_free b) (filter pi_healthy after)
       else fst (run_state (SelectPool srv pool) w) = Inl (Errorf ''no healthy pools available'')"
proof -
  have "(if list_ex pi_healthy ps
       then \<exists>before b after. ps = before @ b # after \<and> (case best_pool None ps of None \<Rightarrow> Inl e | Some p \<Rightarrow> Inr (pi_name p)) = Inr (pi_name b) \<and> pi_healthy b \<and>
         list_all (\<lambda>p. pi_free p < pi_free b) (filter pi_healthy before) \<and>
         list_all (\<lambda>p. pi_free p \<le> pi_free b) (filter pi_healthy after)
       else (case best_pool None ps of None \<Rightarrow> Inl e | Some p \<Rightarrow> Inr (pi_name p)) = Inl e)" for ps and e :: go_error
    using best_pool_first_max [of ps] by (fastforce simp: list_ex_iff filter_empty_conv split: option.splits)
  then show ?thesis by (simp add: SelectPool_def split_beta split: sum.splits)
qed

end
