(* ===== verification/Health.thy ===== *)
theory Health
  imports Client Reconciler
begin

text \<open>
  The health endpoint (internal/health/health.go) and the checks that it and the start of the
  provider run (newHealthCheck, runStartupChecks in cmd/omni-infra-provider-truenas/main.go,
  reconcilerHealthCheck in noderotation.go).
\<close>

section \<open>The server's state\<close>

text \<open>\<open>None\<close> as the time is the zero \<open>time.Time\<close>, which no clock shows.\<close>

record ('e, 't) health =
  hs_lastOK :: "'t option"
  hs_lastErr :: "'e option"

definition defaultRefreshInterval :: int where "defaultRefreshInterval = 2 * second"
definition defaultCheckerTimeout :: int where "defaultCheckerTimeout = 10 * second"

definition health_start :: "('e, 't) health" where
  "health_start = \<lparr>hs_lastOK = None, hs_lastErr = None\<rparr>"

text \<open>What \<open>refresh\<close> stores under the lock, given the checker's error and the time it reads.\<close>

definition store_verdict :: "'e option \<Rightarrow> 't \<Rightarrow> ('e, 't) health \<Rightarrow> ('e, 't) health" where
  "store_verdict err now s =
     (let s' = s\<lparr>hs_lastErr := err\<rparr> in if err = None then s'\<lparr>hs_lastOK := Some now\<rparr> else s')"

text \<open>
  The answer to a probe: the status code, whether the content type is set in time, and the body.
  \<open>WriteHeader\<close> sends the headers, so a type set after it is lost. The body keeps the
  instant of the last success; the code prints it as RFC 3339.
\<close>

record 't health_response =
  hr_code :: int
  hr_json_type :: bool
  hr_status :: string
  hr_error :: string
  hr_last_ok :: "'t option"

definition handleHealthz :: "('e, 't) health \<Rightarrow> 't health_response" where
  "handleHealthz s =
     (case hs_lastErr s of
        None \<Rightarrow> \<lparr>hr_code = 200, hr_json_type = True, hr_status = ''ok'', hr_error = [], hr_last_ok = hs_lastOK s\<rparr>
      | Some e \<Rightarrow>
          \<lparr>hr_code = 503, hr_json_type = False, hr_status = ''error'',
           hr_error = ''check failed (see provider logs)'', hr_last_ok = hs_lastOK s\<rparr>)"

text \<open>One refresh over a checker, on a process whose state is the server's.\<close>

definition refresh_health :: "server \<Rightarrow> ((go_error, int) health, go_error + unit) client \<Rightarrow> ((go_error, int) health, unit) client" where
  "refresh_health srv checker = do {
     r \<leftarrow> checker;
     case r of
       Inl e \<Rightarrow> modify_proc (store_verdict (Some e) 0)
     | Inr u \<Rightarrow> do { t \<leftarrow> ask srv Now; modify_proc (store_verdict None (dec_time t)) } }"

text \<open>
  \<open>Run\<close>: a refresh before the listener starts, then refreshes at the ticks and probes in
  between. The checker runs without the lock, so refreshes and probes are single steps.
\<close>

datatype ('e, 't) health_event = Refreshed "'e option" 't | Probed

fun serve :: "('e, 't) health \<Rightarrow> ('e, 't) health_event list \<Rightarrow> 't health_response list" where
  "serve s [] = []"
| "serve s (Refreshed err now # es) = serve (store_verdict err now s) es"
| "serve s (Probed # es) = handleHealthz s # serve s es"

text \<open>
  \<open>refreshLoop\<close>, with a bound on the number of ticks: an error of the wait is the end of the
  context. \<open>Run\<close> refreshes once before it starts the loop and the listener.
\<close>

fun refreshLoop :: "server \<Rightarrow> ((go_error, int) health, go_error + unit) client \<Rightarrow> int \<Rightarrow> nat \<Rightarrow> ((go_error, int) health, unit) client" where
  "refreshLoop srv checker interval 0 = ret ()"
| "refreshLoop srv checker interval (Suc n) = do {
     r \<leftarrow> ask srv (Wait interval);
     case dec_unit r of
       Inl e \<Rightarrow> ret ()
     | Inr u \<Rightarrow> do { refresh_health srv checker; refreshLoop srv checker interval n } }"

definition RunHealth :: "server \<Rightarrow> ((go_error, int) health, go_error + unit) client \<Rightarrow> int \<Rightarrow> nat \<Rightarrow> ((go_error, int) health, unit) client" where
  "RunHealth srv checker interval n = do { refresh_health srv checker; refreshLoop srv checker interval n }"

section \<open>The checks\<close>

definition Ping :: "server \<Rightarrow> ('p, go_error + unit) client" where
  "Ping srv = do { r \<leftarrow> ask srv SystemInfo; ret (dec_unit r) }"

definition newHealthCheck :: "server \<Rightarrow> string \<Rightarrow> string \<Rightarrow> ('p, go_error + unit) client" where
  "newHealthCheck srv pool networkInterface =
     bindE (mapE (Wrapped ''TrueNAS API unreachable: '') (Ping srv)) (\<lambda>_.
     bindE (mapE (Wrapped ''failed to check pool: '') (PoolExists srv pool)) (\<lambda>exists.
       if \<not> exists then ret (Inl (Errorf ''pool not found on TrueNAS''))
       else if networkInterface \<noteq> [] then
         bindE (mapE (Wrapped ''failed to validate network interface: '') (NetworkInterfaceValid srv networkInterface)) (\<lambda>valid.
           ret (if \<not> valid then Inl (Errorf ''network interface not found on TrueNAS'') else Inr ()))
       else ret (Inr ())))"

text \<open>
  The first part between dashes that starts with a digit and whose text before a dot is a number
  decides; a version without one passes.
\<close>

fun supported_parts :: "string list \<Rightarrow> bool" where
  "supported_parts [] = True"
| "supported_parts (part # parts) =
     (if part \<noteq> [] \<and> digit_val (hd part) \<noteq> None then
        (case parse_int64 (hd (split_all (CHR ''.'') part)) of
           Some major \<Rightarrow> 25 \<le> major
         | None \<Rightarrow> supported_parts parts)
      else supported_parts parts)"

definition isSupportedTrueNASVersion :: "string \<Rightarrow> bool" where
  "isSupportedTrueNASVersion ver = supported_parts (split_all (CHR ''-'') ver)"

text \<open>The second half of the startup checks, and the whole of them.\<close>

definition check_resources :: "server \<Rightarrow> string \<Rightarrow> string \<Rightarrow> ('p, go_error + unit) client" where
  "check_resources srv pool networkInterface =
     bindE (mapE (Wrapped ''startup check failed - cannot verify pool: '') (PoolExists srv pool)) (\<lambda>exists.
       if \<not> exists then ret (Inl (Errorf ''startup check failed - pool not found on TrueNAS''))
       else if networkInterface \<noteq> [] then
         bindE (mapE (Wrapped ''startup check failed - cannot verify network interface: '')
                 (NetworkInterfaceValid srv networkInterface)) (\<lambda>valid.
           if \<not> valid then do {
             choices \<leftarrow> NetworkInterfaceChoices srv;
             ret (Inl (Errorf ''startup check failed - network interface not found on TrueNAS'')) }
           else ret (Inr ()))
       else ret (Inr ()))"

definition runStartupChecks :: "server \<Rightarrow> string \<Rightarrow> string \<Rightarrow> ('p, go_error + unit) client" where
  "runStartupChecks srv pool networkInterface =
     bindE (mapE (Wrapped ''startup check failed - TrueNAS API unreachable: '') (Ping srv)) (\<lambda>_. do {
       v \<leftarrow> GetSystemVersion srv;
       if (case v of Inl e \<Rightarrow> False | Inr ver \<Rightarrow> \<not> isSupportedTrueNASVersion ver) then
         ret (Inl (Errorf ''startup check failed - TrueNAS SCALE 25.04+ (Fangtooth) required''))
       else check_resources srv pool networkInterface })"

text \<open>The probe of the node-rotation reconciler: the last pass, in nanoseconds of Unix time.\<close>

definition time_unix_nano :: "int \<Rightarrow> go_time" where
  "time_unix_nano n = \<lparr>t_sec = i64 (n div second + unix_to_internal), t_ns = n mod second\<rparr>"

definition LastTickAt :: "int \<Rightarrow> go_time" where
  "LastTickAt v = (if v = 0 then time_zero else time_unix_nano v)"

definition reconcilerHealthCheck :: "reconciler \<Rightarrow> int \<Rightarrow> go_time \<Rightarrow> string + unit" where
  "reconcilerHealthCheck r v now =
     (let last = LastTickAt v in
      if time_equal last time_zero then Inr ()
      else let max = i64 (3 * rn_interval r)
           in if max < time_sub now last then Inl ''no successful tick'' else Inr ())"

section \<open>What a probe learns\<close>

definition erase :: "('e, 't) health \<Rightarrow> (unit, 't) health" where
  "erase s = \<lparr>hs_lastOK = hs_lastOK s, hs_lastErr = map_option (\<lambda>_. ()) (hs_lastErr s)\<rparr>"

fun erase_event :: "('e, 't) health_event \<Rightarrow> (unit, 't) health_event" where
  "erase_event (Refreshed err now) = Refreshed (map_option (\<lambda>_. ()) err) now"
| "erase_event Probed = Probed"

lemma erase_store: "erase (store_verdict err now s) = store_verdict (map_option (\<lambda>_. ()) err) now (erase s)"
  by (cases err) (simp_all add: store_verdict_def erase_def)

lemma erase_handle: "handleHealthz (erase s) = handleHealthz s"
  by (simp add: handleHealthz_def erase_def split: option.splits)

text \<open>The last refresh before a probe decides it, and the last good one gives its time.\<close>

fun last_refresh :: "('e, 't) health_event list \<Rightarrow> 'e option option" where
  "last_refresh [] = None"
| "last_refresh (Refreshed err now # es) = (case last_refresh es of None \<Rightarrow> Some err | Some r \<Rightarrow> Some r)"
| "last_refresh (Probed # es) = last_refresh es"

fun last_success :: "('e, 't) health_event list \<Rightarrow> 't option" where
  "last_success [] = None"
| "last_success (Refreshed err now # es) =
     (case last_success es of None \<Rightarrow> (if err = None then Some now else None) | Some t \<Rightarrow> Some t)"
| "last_success (Probed # es) = last_success es"

lemma serve_append: "serve s (es @ fs) = serve s es @ serve (fold (\<lambda>e s. case e of Refreshed err now \<Rightarrow> store_verdict err now s | Probed \<Rightarrow> s) es s) fs"
  by (induction s es rule: serve.induct) simp_all

lemma fold_verdicts:
  "fold (\<lambda>e s. case e of Refreshed err now \<Rightarrow> store_verdict err now s | Probed \<Rightarrow> s) es s =
   \<lparr>hs_lastOK = (case last_success es of None \<Rightarrow> hs_lastOK s | Some t \<Rightarrow> Some t),
    hs_lastErr = (case last_refresh es of None \<Rightarrow> hs_lastErr s | Some e \<Rightarrow> e)\<rparr>"
  by (induction es arbitrary: s rule: last_refresh.induct) (auto simp: store_verdict_def Let_def split: option.splits)

text \<open>
  A probe is answered from the last refresh: with status 200 and \<open>ok\<close> exactly when the last
  check before it passed, else with 503, and with the time of the last check that passed. And it
  learns nothing else: the answers to all probes are those of a server whose checks fail at the
  same times but carry no error at all, so no text of an error reaches an unauthenticated caller.
\<close>

theorem probes_learn_only_the_verdict:
  "serve s (es @ [Probed]) = serve s es @
     [(case last_refresh es of
         Some (Some e) \<Rightarrow>
           \<lparr>hr_code = 503, hr_json_type = False, hr_status = ''error'', hr_error = ''check failed (see provider logs)'',
            hr_last_ok = (case last_success es of None \<Rightarrow> hs_lastOK s | Some t \<Rightarrow> Some t)\<rparr>
       | Some None \<Rightarrow> \<lparr>hr_code = 200, hr_json_type = True, hr_status = ''ok'', hr_error = [],
            hr_last_ok = (case last_success es of None \<Rightarrow> hs_lastOK s | Some t \<Rightarrow> Some t)\<rparr>
       | None \<Rightarrow> handleHealthz (s\<lparr>hs_lastOK := (case last_success es of None \<Rightarrow> hs_lastOK s | Some t \<Rightarrow> Some t)\<rparr>))] \<and>
   serve (erase s) (map erase_event es) = serve s es"
proof
  show "serve (erase s) (map erase_event es) = serve s es"
    by (induction s es rule: serve.induct) (simp_all add: erase_store [symmetric] erase_handle)
qed (auto simp: serve_append fold_verdicts handleHealthz_def split: option.splits)

text \<open>
  The loop changes the state by refreshes alone, at least one of them, if the checker does not
  touch it: what the probes see is the server of the events above.
\<close>

abbreviation refreshed :: "('e option \<times> 't) list \<Rightarrow> ('e, 't) health \<Rightarrow> ('e, 't) health" where
  "refreshed vs \<equiv> fold (\<lambda>(err, now). store_verdict err now) vs"

lemma refresh_verdict:
  assumes "\<And>w. w_proc (snd (run_state checker w)) = w_proc w"
  shows "\<exists>v. w_proc (snd (run_state (refresh_health srv checker) w)) = refreshed [v] (w_proc w)"
proof -
  obtain r w1 where c: "run_state checker w = (r, w1)" by (metis surj_pair)
  then have p: "w_proc w1 = w_proc w" using assms [of w] by simp
  show ?thesis
  proof (cases r)
    case (Inl e)
    with c p show ?thesis by (intro exI [of _ "(Some e, 0)"]) (simp add: refresh_health_def)
  next
    case (Inr u)
    with c p show ?thesis
      by (intro exI [of _ "(None, dec_time (srv (w_hist w1) Now))"]) (simp add: refresh_health_def)
  qed
qed

lemma loop_verdicts:
  assumes "\<And>w. w_proc (snd (run_state checker w)) = w_proc w"
  shows "\<exists>vs. length vs \<le> n \<and> w_proc (snd (run_state (refreshLoop srv checker interval n) w)) = refreshed vs (w_proc w)"
proof (induction n arbitrary: w)
  case (Suc n)
  let ?r = "srv (w_hist w) (Wait interval)"
  let ?w = "w\<lparr>w_hist := w_hist w @ [(Wait interval, ?r)]\<rparr>"
  obtain a w1 where f: "run_state (refresh_health srv checker) ?w = (a, w1)" by (metis surj_pair)
  with refresh_verdict [OF assms, of srv ?w] obtain v where v: "w_proc w1 = refreshed [v] (w_proc w)" by auto
  obtain vs where "length vs \<le> n" "w_proc (snd (run_state (refreshLoop srv checker interval n) w1)) = refreshed vs (w_proc w1)"
    using Suc by blast
  with v f show ?case
    by (cases "dec_unit ?r") (auto intro: exI [of _ "[]"] exI [of _ "v # vs"])
qed simp

lemma health_run_refreshes:
  assumes "\<And>w. w_proc (snd (run_state checker w)) = w_proc w"
  shows "\<exists>v vs. length vs \<le> n \<and> w_proc (snd (run_state (RunHealth srv checker interval n) w)) = refreshed (v # vs) (w_proc w)"
proof -
  obtain a w1 where f: "run_state (refresh_health srv checker) w = (a, w1)" by (metis surj_pair)
  with refresh_verdict [OF assms, of srv w] obtain v where "w_proc w1 = refreshed [v] (w_proc w)" by auto
  with loop_verdicts [OF assms, of n srv interval w1] f show ?thesis by (cases v) (auto simp: RunHealth_def)
qed

section \<open>The version gate\<close>

lemma split_all_prefix:
  "c \<notin> set a \<Longrightarrow> split_all c (a @ b) = (a @ hd (split_all c b)) # tl (split_all c b)"
  by (induction a) (auto split: list.splits)

lemma supported_skip:
  "list_all (\<lambda>p. p = [] \<or> digit_val (hd p) = None) ws \<Longrightarrow> supported_parts (ws @ ps) = supported_parts ps"
  by (induction ws) auto

lemma split_all_words:
  "list_all (\<lambda>p. c \<notin> set p) ws \<Longrightarrow> split_all c (concat (map (\<lambda>p. p @ [c]) ws) @ b) = ws @ split_all c b"
  by (induction ws) (auto simp: split_all_prefix)

text \<open>
  A version that is words, each followed by a dash and none starting with a digit, then a
  number, a dot and anything, is supported exactly if the number is at least 25.
\<close>

theorem version_gate:
  assumes "list_all (\<lambda>p. CHR ''-'' \<notin> set p \<and> (p = [] \<or> digit_val (hd p) = None)) ws" and "n < 2 ^ 63"
  shows "isSupportedTrueNASVersion (concat (map (\<lambda>p. p @ ''-'') ws) @ show_nat n @ CHR ''.'' # rest) \<longleftrightarrow> 25 \<le> n"
proof -
  have digits: "digit_val c \<noteq> None" if "c \<in> set (show_nat n)" for c
    using show_nat_digits [OF that] by auto
  then have plain: "CHR ''-'' \<notin> set (show_nat n)" "CHR ''.'' \<notin> set (show_nat n)"
    by (force simp: digit_val_def)+
  obtain m ps where "split_all (CHR ''-'') rest = m # ps" by (cases "split_all (CHR ''-'') rest") simp_all
  then have m: "split_all (CHR ''-'') (show_nat n @ CHR ''.'' # rest) = (show_nat n @ CHR ''.'' # m) # ps"
    using plain by (simp add: split_all_prefix)
  have "digit_val (hd (show_nat n @ CHR ''.'' # m)) \<noteq> None"
    using digits show_nat_nonempty [of n] by (cases "show_nat n") auto
  moreover have "hd (split_all (CHR ''.'') (show_nat n @ CHR ''.'' # m)) = show_nat n"
    using plain by (simp add: split_all_prefix)
  moreover have "parse_int64 (show_nat n) = Some (int n)"
    using parse_format_int64 [of "int n"] assms(2) by (simp add: format_int_def)
  ultimately show ?thesis
    using assms(1) m
    by (simp add: isSupportedTrueNASVersion_def split_all_words supported_skip list_all_iff list.pred_map)
qed

section \<open>What the checks establish\<close>

lemma dec_simps [simp]:
  "dec_unit r = Inr u \<longleftrightarrow> (\<exists>x. r = Inr x)"
  "dec_pools r = Inr ps \<longleftrightarrow> r = Inr (RPools ps) \<or> r = Inr RNull \<and> ps = []"
  "dec_strings r = Inr cs \<longleftrightarrow> r = Inr (RStrings cs) \<or> r = Inr RNull \<and> cs = []"
  by (cases r rule: dec_unit.cases; auto; fail | cases r rule: dec_pools.cases; auto; fail | cases r rule: dec_strings.cases; auto; fail)+

lemma check_resources_run:
  assumes "run_state (check_resources srv pool nic) w = (Inr (), w')"
  shows "\<exists>new. w_hist w' = w_hist w @ new \<and> list_all (\<lambda>(q, r). q \<in> {PoolFind pool, NicChoices}) new \<and>
    (\<exists>ps. ps \<noteq> [] \<and> (PoolFind pool, Inr (RPools ps)) \<in> set new) \<and>
    (nic = [] \<or> (\<exists>cs. nic \<in> set cs \<and> (NicChoices, Inr (RStrings cs)) \<in> set new))"
proof -
  note defs = check_resources_def PoolExists_def NetworkInterfaceValid_def NetworkInterfaceChoices_def run_bindE run_mapE
  obtain ps where p: "dec_pools (srv (w_hist w) (PoolFind pool)) = Inr ps" "ps \<noteq> []"
    using assms by (cases "dec_pools (srv (w_hist w) (PoolFind pool))") (auto simp: defs split: if_splits)
  let ?h = "w_hist w @ [(PoolFind pool, srv (w_hist w) (PoolFind pool))]"
  show ?thesis
  proof (cases "nic = []")
    case True
    with assms p show ?thesis by (auto simp: defs)
  next
    case False
    then obtain cs where c: "dec_strings (srv ?h NicChoices) = Inr cs" "nic \<in> set cs"
      using assms p by (cases "dec_strings (srv ?h NicChoices)") (auto simp: defs split: if_splits)
    have "w_hist w' = ?h @ [(NicChoices, srv ?h NicChoices)]"
      using assms p c False by (auto simp: defs)
    with p c show ?thesis by auto
  qed
qed

text \<open>
  The provider starts only if TrueNAS answered, its version, where it could be read, is not
  older than 25, the default pool was listed, and the default network interface, if one is set,
  is one of the choices; and the checks change nothing.
\<close>

theorem startup_checks_sound:
  assumes "run_state (runStartupChecks srv pool nic) w = (Inr (), w')"
  shows "\<exists>new. w_hist w' = w_hist w @ new \<and> list_all (\<lambda>(q, r). \<not> is_write q) new \<and>
    (\<exists>r. (SystemInfo, Inr r) \<in> set new) \<and>
    (\<forall>v. (SystemVersion, Inr (RStr v)) \<in> set new \<longrightarrow> isSupportedTrueNASVersion v) \<and>
    (\<exists>ps. ps \<noteq> [] \<and> (PoolFind pool, Inr (RPools ps)) \<in> set new) \<and>
    (nic = [] \<or> (\<exists>cs. nic \<in> set cs \<and> (NicChoices, Inr (RStrings cs)) \<in> set new))"
proof -
  note defs = runStartupChecks_def Ping_def GetSystemVersion_def run_bindE run_mapE
  obtain a where a: "srv (w_hist w) SystemInfo = Inr a"
    using assms by (cases "srv (w_hist w) SystemInfo") (auto simp: defs)
  define v where "v = srv (w_hist w @ [(SystemInfo, Inr a)]) SystemVersion"
  have ver: "isSupportedTrueNASVersion x" if "dec_str v = Inr x" for x
    using assms a that by (auto simp: defs v_def split: if_splits)
  define u where "u = w\<lparr>w_hist := w_hist w @ [(SystemInfo, Inr a), (SystemVersion, v)]\<rparr>"
  have "run_state (check_resources srv pool nic) u = (Inr (), w')"
    using assms a ver by (cases "dec_str v") (auto simp: defs v_def u_def split: if_splits)
  from check_resources_run [OF this] obtain new where n: "w_hist w' = w_hist u @ new"
    "list_all (\<lambda>(q, r). q \<in> {PoolFind pool, NicChoices}) new"
    "\<exists>ps. ps \<noteq> [] \<and> (PoolFind pool, Inr (RPools ps)) \<in> set new"
    "nic = [] \<or> (\<exists>cs. nic \<in> set cs \<and> (NicChoices, Inr (RStrings cs)) \<in> set new)" by blast
  show ?thesis
  proof (intro exI [of _ "[(SystemInfo, Inr a), (SystemVersion, v)] @ new"] conjI)
    show "w_hist w' = w_hist w @ [(SystemInfo, Inr a), (SystemVersion, v)] @ new" using n(1) by (simp add: u_def)
    show "list_all (\<lambda>(q, r). \<not> is_write q) ([(SystemInfo, Inr a), (SystemVersion, v)] @ new)"
      using n(2) by (auto simp: list_all_iff is_write_def)
    show "\<forall>x. (SystemVersion, Inr (RStr x)) \<in> set ([(SystemInfo, Inr a), (SystemVersion, v)] @ new) \<longrightarrow> isSupportedTrueNASVersion x"
      using n(2) ver by (auto simp: list_all_iff)
  qed (use n(3,4) in auto)
qed

text \<open>A host that is ready, by a server whose answers do not depend on the past.\<close>

definition ready_server :: server where
  "ready_server h q =
     (case q of
        SystemVersion \<Rightarrow> Inr (RStr ''TrueNAS-SCALE-25.04.1'')
      | PoolFind p \<Rightarrow> Inr (RPools [\<lparr>rp_id = 1, rp_name = p, rp_healthy = True, rp_status = ''ONLINE'', rp_size = 100\<rparr>])
      | NicChoices \<Rightarrow> Inr (RStrings [''br0''])
      | _ \<Rightarrow> Inr RNull)"

theorem startup_checks_witness:
  "\<exists>new. w_hist (snd (run_state (runStartupChecks ready_server ''tank'' ''br0'') \<lparr>w_hist = [], w_proc = ()\<rparr>)) = [] @ new \<and>
     list_all (\<lambda>(q, r). \<not> is_write q) new \<and> (\<exists>ps. ps \<noteq> [] \<and> (PoolFind ''tank'', Inr (RPools ps)) \<in> set new)"
proof -
  let ?w = "\<lparr>w_hist = [], w_proc = ()\<rparr>"
  have "split_all (CHR ''-'') ''TrueNAS-SCALE-25.04.1'' = [''TrueNAS'', ''SCALE'', ''25.04.1'']"
    "hd (split_all (CHR ''.'') ''25.04.1'') = ''25''" by code_simp+
  then have version: "isSupportedTrueNASVersion ''TrueNAS-SCALE-25.04.1''"
    by (simp add: isSupportedTrueNASVersion_def parse_int64_def parse_uint64_def digit_val_def)
  have "fst (run_state (runStartupChecks ready_server ''tank'' ''br0'') ?w) = Inr ()"
    by (simp add: runStartupChecks_def check_resources_def Ping_def GetSystemVersion_def PoolExists_def NetworkInterfaceValid_def
        NetworkInterfaceChoices_def run_bindE run_mapE ready_server_def version)
  then have "run_state (runStartupChecks ready_server ''tank'' ''br0'') ?w =
      (Inr (), snd (run_state (runStartupChecks ready_server ''tank'' ''br0'') ?w))"
    by (simp add: prod_eq_iff)
  from startup_checks_sound [OF this] show ?thesis by simp
qed

section \<open>The reconciler's probe\<close>

lemma second_pos: "0 < second"
  by (simp add: second_def)

lemma last_tick_at:
  assumes "clock_time t" and "\<bar>(t_sec t - unix_to_internal) * second + t_ns t\<bar> < 2 ^ 63" and "unix_nano t \<noteq> 0"
  shows "LastTickAt (unix_nano t) = t"
proof -
  let ?n = "(t_sec t - unix_to_internal) * second + t_ns t"
  have ns: "0 \<le> t_ns t" "t_ns t < second" using assms(1) by (simp_all add: clock_time_def)
  have n: "unix_nano t = ?n" using assms(2) unfolding unix_nano_def by (intro i64_id) auto
  have "?n div second = t_sec t - unix_to_internal" "?n mod second = t_ns t"
    using ns second_pos by (simp_all add: div_mult_self3 mod_mult_self3 div_pos_pos_trivial mod_pos_pos_trivial)
  moreover have "i64 (t_sec t) = t_sec t" using assms(1) by (intro i64_id) (simp_all add: clock_time_def)
  ultimately show ?thesis using assms(3) n by (simp add: LastTickAt_def time_unix_nano_def)
qed

lemma tick_failed:
  assumes "fst (run_state (Discover env (rn_digest r) (rn_disc r)) w) = Inl e"
  shows "w_proc (snd (run_state (tick env r) w)) =
    unix_nano (answer_clock (env (w_hist (snd (run_state (Discover env (rn_digest r) (rn_disc r)) w))) ReadClock))"
  using assms by (simp add: tick_def stamp_tick_def now_read_def split_beta)

text \<open>
  The probe of the reconciler does not see that its passes fail. After a pass whose discovery
  failed, the probe passes exactly as long as after any other pass: until three refresh intervals
  after the time that the failed pass recorded. (The hypotheses put the clock between the years
  1678 and 2262 and off the instant zero, and bound the interval by 97 years.)
\<close>

theorem failed_passes_look_healthy:
  assumes "fst (run_state (Discover env (rn_digest r) (rn_disc r)) w) = Inl e"
    and "t = answer_clock (env (w_hist (snd (run_state (Discover env (rn_digest r) (rn_disc r)) w))) ReadClock)"
    and "clock_time t" and "\<bar>(t_sec t - unix_to_internal) * second + t_ns t\<bar> < 2 ^ 63" and "unix_nano t \<noteq> 0"
    and "0 \<le> rn_interval r" and "3 * rn_interval r < 2 ^ 63" and "t_sec t \<noteq> 0"
  shows "reconcilerHealthCheck r (w_proc (snd (run_state (tick env r) w))) now = Inr () \<longleftrightarrow> time_sub now t \<le> 3 * rn_interval r"
proof -
  have "LastTickAt (w_proc (snd (run_state (tick env r) w))) = t"
    using tick_failed [OF assms(1)] last_tick_at [OF assms(3-5)] assms(2) by simp
  moreover have "i64 (3 * rn_interval r) = 3 * rn_interval r" using assms(6,7) by (intro i64_id) auto
  ultimately show ?thesis using assms(8) by (auto simp: reconcilerHealthCheck_def time_equal_def time_zero_def Let_def)
qed

text \<open>A state service that is down.\<close>

definition dead_state :: rotation_env where
  "dead_state h q = (case q of ReadClock \<Rightarrow> Clock (time_unix 100) | _ \<Rightarrow> Err ''unavailable'')"

theorem failed_passes_witness:
  "reconcilerHealthCheck example_reconciler
     (w_proc (snd (run_state (tick dead_state example_reconciler) \<lparr>w_hist = [], w_proc = 0\<rparr>)))
     (time_unix 190) = Inr ()"
proof -
  have "time_sub (time_unix 190) (time_unix 100) \<le> 3 * rn_interval example_reconciler"
    by (simp add: example_reconciler_def NewReconciler_def RotationRefreshInterval_def time_sub_def time_unix_def unix_to_internal_def i64_def second_def)
  then show ?thesis
    by (subst failed_passes_look_healthy [where t = "time_unix 100" and e = "''unavailable''"])
      (simp_all add: Discover_def dead_state_def example_reconciler_def NewReconciler_def RotationRefreshInterval_def clock_time_def time_unix_def
        unix_nano_def unix_to_internal_def i64_def second_def)
qed

end
