(* ===== verification/Settings.thy ===== *)
theory Settings
  imports Hosts "HOL-Library.Log_Nat"
begin

text \<open>
  What the programs read from their environment variables: the helpers of
  cmd/omni-infra-provider-truenas/main.go, the autoscaler's internal/autoscaler/config.go, and
  \<open>time.ParseDuration\<close>, \<open>strconv.ParseBool\<close> and \<open>url.Parse\<close> below them. The variables are a
  function from names to values; an unset variable is empty, as \<open>os.Getenv\<close> has it.
\<close>

type_synonym variables = "string \<Rightarrow> string"

section \<open>Durations (time.ParseDuration)\<close>

text \<open>\<open>leadingInt\<close>: the digits in front, unless they exceed \<open>2 ^ 63\<close>.\<close>

fun leading_int :: "nat \<Rightarrow> string \<Rightarrow> (nat \<times> string) option" where
  "leading_int x [] = Some (x, [])"
| "leading_int x (c # s) =
     (case digit_val c of
        None \<Rightarrow> Some (x, c # s)
      | Some d \<Rightarrow>
          if 2 ^ 63 div 10 < x then None
          else if 2 ^ 63 < x * 10 + d then None
          else leading_int (x * 10 + d) s)"

text \<open>\<open>leadingFraction\<close>: digits that no longer fit are skipped. The scale is \<open>10 ^ k\<close>.\<close>

fun leading_fraction :: "nat \<Rightarrow> nat \<Rightarrow> bool \<Rightarrow> string \<Rightarrow> nat \<times> nat \<times> string" where
  "leading_fraction x k over [] = (x, k, [])"
| "leading_fraction x k over (c # s) =
     (case digit_val c of
        None \<Rightarrow> (x, k, c # s)
      | Some d \<Rightarrow>
          if over \<or> (2 ^ 63 - 1) div 10 < x \<or> 2 ^ 63 < x * 10 + d then leading_fraction x k True s
          else leading_fraction (x * 10 + d) (Suc k) False s)"

text \<open>
  A positive \<open>float64\<close>, as a rational: 53 significant bits, to nearest, ties to even. The
  numbers here are far from the ends of the range of exponents.
\<close>

definition binary_exponent :: "rat \<Rightarrow> int" where
  "binary_exponent x =
     (case quotient_of x of (a, b) \<Rightarrow>
        let e = bitlen a - bitlen b in if (2::rat) powi e \<le> x then e else e - 1)"

definition round_half_even :: "rat \<Rightarrow> int" where
  "round_half_even x =
     (let n = \<lfloor>x\<rfloor>; d = x - of_int n
      in if d < 1 / 2 \<or> (d = 1 / 2 \<and> even n) then n else n + 1)"

definition float64 :: "rat \<Rightarrow> rat" where
  "float64 x =
     (if x \<le> 0 then 0
      else let e = binary_exponent x - 52 in of_int (round_half_even (x / 2 powi e)) * 2 powi e)"

text \<open>\<open>uint64(float64(f) * (float64(unit) / scale))\<close>.\<close>

definition fraction_nanos :: "nat \<Rightarrow> nat \<Rightarrow> nat \<Rightarrow> nat" where
  "fraction_nanos f unit k =
     nat \<lfloor>float64 (float64 (of_nat f) * float64 (float64 (of_nat unit) / 10 ^ k))\<rfloor>"

definition is_micro :: "string \<Rightarrow> bool" where
  "is_micro u \<longleftrightarrow> map of_char u \<in> {[117, 115], [194, 181, 115], [206, 188, 115 :: nat]}"

text \<open>\<open>unitMap\<close>; the two micro signs are two bytes each.\<close>

definition unit_nanos :: "string \<Rightarrow> nat option" where
  "unit_nanos u =
     (if u = ''ns'' then Some 1
      else if is_micro u then Some 1000
      else if u = ''ms'' then Some 1000000
      else if u = ''s'' then Some 1000000000
      else if u = ''m'' then Some 60000000000
      else if u = ''h'' then Some 3600000000000
      else None)"

definition number_char :: "char \<Rightarrow> bool" where
  "number_char c \<longleftrightarrow> c = CHR ''.'' \<or> digit_val c \<noteq> None"

text \<open>One number with its unit: the nanoseconds and the rest.\<close>

definition duration_part :: "string \<Rightarrow> (nat \<times> string) option" where
  "duration_part s =
     (if s = [] \<or> \<not> number_char (hd s) then None
      else case leading_int 0 s of
        None \<Rightarrow> None
      | Some (v, t) \<Rightarrow>
          (let (f, k, r) = (if t \<noteq> [] \<and> hd t = CHR ''.'' then leading_fraction 0 0 False (tl t) else (0, 0, t));
               pre = length t \<noteq> length s;
               post = t \<noteq> [] \<and> hd t = CHR ''.'' \<and> length r \<noteq> length (tl t);
               u = takeWhile (\<lambda>c. \<not> number_char c) r
           in if \<not> pre \<and> \<not> post then None
              else if u = [] then None
              else case unit_nanos u of
                None \<Rightarrow> None
              | Some unit \<Rightarrow>
                  if 2 ^ 63 div unit < v then None
                  else let n = v * unit + (if 0 < f then fraction_nanos f unit k else 0)
                       in if 0 < f \<and> 2 ^ 63 < n then None
                          else Some (n, dropWhile (\<lambda>c. \<not> number_char c) r)))"

lemma leading_int_length: "leading_int x s = Some (v, t) \<Longrightarrow> length t \<le> length s"
  by (induction x s rule: leading_int.induct) (auto split: option.splits if_splits)

lemma leading_fraction_length: "leading_fraction x k b s = (f, j, t) \<Longrightarrow> length t \<le> length s"
  by (induction x k b s rule: leading_fraction.induct) (auto split: option.splits if_splits)

lemma duration_part_shorter:
  assumes "duration_part s = Some (n, r)"
  shows "length r < length s"
proof -
  obtain v t where t: "leading_int 0 s = Some (v, t)"
    using assms by (auto simp: duration_part_def split: if_splits option.splits)
  define x where "x = (if t \<noteq> [] \<and> hd t = CHR ''.'' then leading_fraction 0 0 False (tl t) else (0, 0, t))"
  obtain f k q where q: "x = (f, k, q)" by (cases x)
  have "length q \<le> length t"
    using q leading_fraction_length [of 0 0 False "tl t" f k q] by (auto simp: x_def split: if_splits)
  also have "length t \<le> length s" by (rule leading_int_length [OF t])
  finally have "length q \<le> length s" .
  moreover have "takeWhile (\<lambda>c. \<not> number_char c) q \<noteq> []" and r: "r = dropWhile (\<lambda>c. \<not> number_char c) q"
    using assms t q unfolding duration_part_def x_def by (auto simp: Let_def split: if_splits option.splits)
  moreover have "length q = length (takeWhile (\<lambda>c. \<not> number_char c) q) + length r"
    unfolding r by (metis length_append takeWhile_dropWhile_id)
  ultimately show ?thesis by (cases "takeWhile (\<lambda>c. \<not> number_char c) q") simp_all
qed

text \<open>The sum is a \<open>uint64\<close>, and wraps around.\<close>

function duration_parts :: "nat \<Rightarrow> string \<Rightarrow> nat option" where
  "duration_parts d s =
     (if s = [] then Some d
      else case duration_part s of
        None \<Rightarrow> None
      | Some (n, r) \<Rightarrow>
          let d' = (d + n) mod 2 ^ 64 in if 2 ^ 63 < d' then None else duration_parts d' r)"
  by pat_completeness auto
termination
  by (relation "measure (length \<circ> snd)") (auto dest: duration_part_shorter)

declare duration_parts.simps [simp del]

text \<open>\<open>None\<close> is a returned error. The sign is applied to the \<open>int64\<close>.\<close>

definition ParseDuration :: "string \<Rightarrow> int option" where
  "ParseDuration s =
     (let neg = (s \<noteq> [] \<and> hd s = CHR ''-'');
          t = (if s \<noteq> [] \<and> (hd s = CHR ''-'' \<or> hd s = CHR ''+'') then tl s else s)
      in if t = ''0'' then Some 0
         else if t = [] then None
         else case duration_parts 0 t of
           None \<Rightarrow> None
         | Some d \<Rightarrow> if neg then Some (- int d) else if 2 ^ 63 - 1 < d then None else Some (int d))"

section \<open>Variables\<close>

definition ParseBool :: "string \<Rightarrow> bool option" where
  "ParseBool s =
     (if s \<in> {''1'', ''t'', ''T'', ''true'', ''TRUE'', ''True''} then Some True
      else if s \<in> {''0'', ''f'', ''F'', ''false'', ''FALSE'', ''False''} then Some False
      else None)"

definition envString :: "variables \<Rightarrow> string \<Rightarrow> string \<Rightarrow> string" where
  "envString vars key defaultVal = (if vars key \<noteq> [] then vars key else defaultVal)"

definition envBool :: "variables \<Rightarrow> string \<Rightarrow> bool \<Rightarrow> bool" where
  "envBool vars key defaultVal =
     (if vars key = [] then defaultVal else case ParseBool (vars key) of None \<Rightarrow> defaultVal | Some b \<Rightarrow> b)"

definition envInt :: "variables \<Rightarrow> string \<Rightarrow> int \<Rightarrow> int" where
  "envInt vars key defaultVal =
     (if vars key = [] then defaultVal else case parse_int64 (vars key) of None \<Rightarrow> defaultVal | Some i \<Rightarrow> i)"

definition envDuration :: "variables \<Rightarrow> string \<Rightarrow> int \<Rightarrow> int" where
  "envDuration vars key defaultVal =
     (if vars key = [] then defaultVal else case ParseDuration (vars key) of None \<Rightarrow> defaultVal | Some d \<Rightarrow> d)"

text \<open>\<open>consumeSecretEnv\<close>: the value, and the variables without it.\<close>

definition consumeSecretEnv :: "string \<Rightarrow> variables \<Rightarrow> string \<times> variables" where
  "consumeSecretEnv key vars = (vars key, vars(key := []))"

text \<open>\<open>key=value,key2=value2\<close>; a later pair wins. \<open>None\<close> is the nil map.\<close>

definition parseHeaders :: "string \<Rightarrow> (string \<rightharpoonup> string) option" where
  "parseHeaders raw =
     (if raw = [] then None
      else let headers = fold (\<lambda>pair m.
                 case cut_char (CHR ''='') pair of
                   Some (k, v) \<Rightarrow> if k \<noteq> [] then m(trim_space k \<mapsto> trim_space v) else m
                 | None \<Rightarrow> m) (split_all (CHR '','') raw) Map.empty
           in if list_ex (\<lambda>pair. case cut_char (CHR ''='') pair of Some (k, v) \<Rightarrow> k \<noteq> [] | None \<Rightarrow> False) (split_all (CHR '','') raw)
              then Some headers else None)"

section \<open>The autoscaler's configuration (config.go)\<close>

definition EnvClusterName :: string where "EnvClusterName = ''OMNI_CLUSTER_NAME''"
definition EnvListenAddress :: string where "EnvListenAddress = ''AUTOSCALER_LISTEN_ADDRESS''"
definition EnvRefreshInterval :: string where "EnvRefreshInterval = ''AUTOSCALER_REFRESH_INTERVAL''"
definition DefaultListenAddress :: string where "DefaultListenAddress = '':8086''"
definition AutoscalerRefreshInterval :: int where "AutoscalerRefreshInterval = 60 * second"

record subcommand_config =
  su_cluster :: string
  su_listen :: string
  su_refresh :: int

datatype config_error = ClusterNameRequired | BadDuration string string | NotPositive string string

definition parseOptionalDuration :: "variables \<Rightarrow> string \<Rightarrow> int \<Rightarrow> config_error + int" where
  "parseOptionalDuration vars envVar fallback =
     (let raw = trim_space (vars envVar)
      in if raw = [] then Inr fallback
         else case ParseDuration raw of
           None \<Rightarrow> Inl (BadDuration envVar raw)
         | Some d \<Rightarrow> if d \<le> 0 then Inl (NotPositive envVar raw) else Inr d)"

definition LoadSubcommandConfig :: "variables \<Rightarrow> config_error + subcommand_config" where
  "LoadSubcommandConfig vars =
     (let cluster = trim_space (vars EnvClusterName)
      in if cluster = [] then Inl ClusterNameRequired
         else let listen = (if vars EnvListenAddress = [] then DefaultListenAddress else vars EnvListenAddress)
              in case parseOptionalDuration vars EnvRefreshInterval AutoscalerRefreshInterval of
                   Inl e \<Rightarrow> Inl e
                 | Inr refresh \<Rightarrow> Inr \<lparr>su_cluster = cluster, su_listen = listen, su_refresh = refresh\<rparr>)"

section \<open>What a duration means\<close>

text \<open>A duration as people write it: numbers with units, such as \<open>1h30m\<close>.\<close>

fun print_duration :: "(nat \<times> string) list \<Rightarrow> string" where
  "print_duration [] = []"
| "print_duration ((n, u) # ps) = show_nat n @ u @ print_duration ps"

fun total_nanos :: "(nat \<times> string) list \<Rightarrow> nat" where
  "total_nanos [] = 0"
| "total_nanos ((n, u) # ps) = (case unit_nanos u of None \<Rightarrow> 0 | Some k \<Rightarrow> n * k) + total_nanos ps"

definition plain_units :: "string list" where
  "plain_units = [''ns'', ''us'', ''ms'', ''s'', ''m'', ''h'']"

lemma digits_val_mono: "digits_val a s = Some n \<Longrightarrow> a \<le> n"
proof (induction a s rule: digits_val.induct)
  case (2 acc c cs)
  then obtain d where "digit_val c = Some d" "digits_val (10 * acc + d) cs = Some n" by (auto split: option.splits)
  then have "10 * acc + d \<le> n" using 2 by simp
  then show ?case by simp
qed simp

lemma leading_int_digits:
  "digits_val x ds = Some n \<Longrightarrow> n \<le> 2 ^ 63 \<Longrightarrow> leading_int x (ds @ r) = leading_int n r"
proof (induction x ds rule: digits_val.induct)
  case (2 x c cs)
  then obtain d where d: "digit_val c = Some d" "digits_val (10 * x + d) cs = Some n" by (auto split: option.splits)
  have "10 * x + d \<le> 2 ^ 63" using digits_val_mono [OF d(2)] 2(3) by simp
  then have "\<not> 2 ^ 63 div 10 < x" "\<not> 2 ^ 63 < x * 10 + d" by auto
  with d 2 show ?case by (simp add: mult.commute)
qed simp

lemma plain_unit_chars:
  assumes "u \<in> set plain_units"
  shows "u \<noteq> []" and "\<And>c. c \<in> set u \<Longrightarrow> \<not> number_char c" and "\<exists>k. unit_nanos u = Some k \<and> 0 < k \<and> k \<le> 3600000000000"
proof -
  have "list_all (\<lambda>u. u \<noteq> [] \<and> list_all (\<lambda>c. \<not> number_char c) u) plain_units" by code_simp
  then show "u \<noteq> []" and "\<And>c. c \<in> set u \<Longrightarrow> \<not> number_char c" using assms by (auto simp: list_all_iff)
  have "list_all (\<lambda>u. \<exists>k. unit_nanos u = Some k \<and> 0 < k \<and> k \<le> 3600000000000) plain_units"
    by (simp add: plain_units_def unit_nanos_def is_micro_def)
  then show "\<exists>k. unit_nanos u = Some k \<and> 0 < k \<and> k \<le> 3600000000000" using assms by (auto simp: list_all_iff)
qed

text \<open>What may follow a part: nothing, or the digits of the next one.\<close>

definition starts_number :: "string \<Rightarrow> bool" where
  "starts_number r \<longleftrightarrow> r = [] \<or> number_char (hd r)"

lemma part_of_print:
  assumes "u \<in> set plain_units" and "unit_nanos u = Some k" and "n * k < 2 ^ 63" and "starts_number r"
  shows "duration_part (show_nat n @ u @ r) = Some (n * k, r)"
proof -
  note u = plain_unit_chars [OF assms(1)]
  have k: "0 < k" using u(3) assms(2) by auto
  have "n \<le> n * k" using k by simp
  then have "n \<le> 2 ^ 63" by (rule less_imp_le [OF le_less_trans [OF _ assms(3)]])
  then have "leading_int 0 (show_nat n @ u @ r) = leading_int n (u @ r)"
    by (rule leading_int_digits [OF digits_val_show_nat])
  moreover have hd: "\<not> number_char (hd (u @ r))" using u(1,2) by (cases u) auto
  then have "leading_int n (u @ r) = Some (n, u @ r)"
    using u(1) by (cases u) (auto simp: number_char_def)
  moreover have "hd (show_nat n) \<in> set (show_nat n)" by simp
  then have "number_char (hd (show_nat n))" using show_nat_digits [of "hd (show_nat n)" n] by (auto simp: number_char_def)
  moreover have "takeWhile (\<lambda>c. \<not> number_char c) (u @ r) = u" "dropWhile (\<lambda>c. \<not> number_char c) (u @ r) = r"
    using u(2) assms(4) by (auto simp: starts_number_def takeWhile_append2 dropWhile_append2 takeWhile_eq_Nil_iff dropWhile_eq_self_iff)
  moreover have "\<not> 2 ^ 63 div k < n" using assms(3) k by (simp add: not_less less_eq_div_iff_mult_less_eq)
  moreover have "hd (u @ r) \<noteq> CHR ''.''" using hd by (auto simp: number_char_def)
  ultimately show ?thesis
    using u(1) assms(2) by (simp add: duration_part_def Let_def)
qed

lemma print_starts_number: "starts_number (print_duration ps)"
proof (cases ps)
  case (Cons p qs)
  obtain n u where p: "p = (n, u)" by (cases p)
  have "hd (show_nat n) \<in> set (show_nat n)" by simp
  then have "number_char (hd (show_nat n))" using show_nat_digits [of "hd (show_nat n)" n] by (auto simp: number_char_def)
  then show ?thesis by (simp add: Cons p starts_number_def)
qed (simp add: starts_number_def)

lemma parts_of_print:
  "list_all (\<lambda>(n, u). u \<in> set plain_units) ps \<Longrightarrow> d + total_nanos ps < 2 ^ 63 \<Longrightarrow>
   duration_parts d (print_duration ps) = Some (d + total_nanos ps)"
proof (induction ps arbitrary: d)
  case Nil
  then show ?case by (simp add: duration_parts.simps)
next
  case (Cons p ps)
  obtain n u where p: "p = (n, u)" by (cases p)
  with Cons.prems have u: "u \<in> set plain_units" by simp
  obtain k where k: "unit_nanos u = Some k" using plain_unit_chars(3) [OF u] by blast
  have "n * k < 2 ^ 63" "d + n * k < 2 ^ 63" using Cons.prems p k by simp_all
  moreover have "duration_part (print_duration (p # ps)) = Some (n * k, print_duration ps)"
    using part_of_print [OF u k \<open>n * k < 2 ^ 63\<close> print_starts_number] p by simp
  moreover have "duration_parts (d + n * k) (print_duration ps) = Some (d + n * k + total_nanos ps)"
    using Cons.prems p k by (intro Cons.IH) simp_all
  moreover have "print_duration (p # ps) \<noteq> []" using p by simp
  ultimately show ?case
    using p k by (subst duration_parts.simps) (simp add: Let_def)
qed

lemma show_nat_not_zero: "0 < n \<Longrightarrow> show_nat n \<noteq> ''0''"
proof
  assume "0 < n" "show_nat n = ''0''"
  moreover have "show_nat 0 = ''0''" by code_simp
  ultimately show False using digits_val_show_nat [of n] digits_val_show_nat [of 0] by simp
qed

lemma show_nat_sign: "hd (show_nat n @ s) \<noteq> CHR ''-''" "hd (show_nat n @ s) \<noteq> CHR ''+''"
  using show_nat_hd [of n] by simp_all

lemma bare_number: "0 < n \<Longrightarrow> ParseDuration (show_nat n) = None"
proof -
  assume n: "0 < n"
  have "duration_part (show_nat n) = None"
  proof (cases "leading_int 0 (show_nat n)")
    case (Some p)
    obtain v t where p: "p = (v, t)" by (cases p)
    have "leading_int 0 (show_nat n) = Some (v, t) \<Longrightarrow> t = []" for v t
    proof -
      have "list_all (\<lambda>c. digit_val c \<noteq> None) s \<Longrightarrow> leading_int x s = Some (v, t) \<Longrightarrow> t = []" for x s
        by (induction x s rule: leading_int.induct) (auto split: option.splits if_splits)
      moreover have "list_all (\<lambda>c. digit_val c \<noteq> None) (show_nat n)"
        using show_nat_digits [of _ n] by (force simp: list_all_iff)
      ultimately show "leading_int 0 (show_nat n) = Some (v, t) \<Longrightarrow> t = []" by blast
    qed
    with Some p show ?thesis by (simp add: duration_part_def)
  qed (simp add: duration_part_def)
  then show ?thesis
    using show_nat_not_zero [OF n] show_nat_hd [of n] by (simp add: ParseDuration_def duration_parts.simps)
qed

text \<open>
  What a duration setting means: the sum of its numbers times their units, when every number
  carries a unit and the sum fits an \<open>int64\<close>. A positive number without a unit is no
  duration, and the setting falls back to its default without an error.
\<close>

theorem duration_settings:
  assumes "vars key = print_duration ps" and "ps \<noteq> []" and "list_all (\<lambda>(n, u). u \<in> set plain_units) ps"
    and "total_nanos ps < 2 ^ 63" and "bare key' = show_nat n" and "0 < n"
  shows "envDuration vars key def = int (total_nanos ps) \<and> envDuration bare key' def = def"
proof
  obtain m u qs where ps: "ps = (m, u) # qs" using assms(2) by (cases ps) auto
  have start: "hd (print_duration ps) \<noteq> CHR ''-''" "hd (print_duration ps) \<noteq> CHR ''+''" "print_duration ps \<noteq> []"
    using show_nat_hd [of m] by (simp_all add: ps)
  have "print_duration ps \<noteq> ''0''"
  proof
    assume "print_duration ps = ''0''"
    then have "length (show_nat m) + length u \<le> 1" by (auto simp: ps dest: arg_cong [of _ _ length])
    moreover have "u \<noteq> []" using assms(3) ps plain_unit_chars(1) by simp
    ultimately show False using show_nat_nonempty [of m] by (cases "show_nat m"; cases u) auto
  qed
  with start parts_of_print [OF assms(3), of 0] assms(4) have "ParseDuration (print_duration ps) = Some (int (total_nanos ps))"
    by (simp add: ParseDuration_def)
  then show "envDuration vars key def = int (total_nanos ps)" using start by (simp add: envDuration_def assms(1))
  show "envDuration bare key' def = def" using bare_number [OF assms(6)] by (simp add: envDuration_def assms(5))
qed

theorem duration_settings_witness:
  "envDuration (\<lambda>_. ''1h5m'') ''KEY'' 7 = 3900000000000 \<and> envDuration (\<lambda>_. ''9'') ''KEY'' 7 = 7"
proof -
  let ?ps = "[(1, ''h''), (5, ''m'')]"
  have "print_duration ?ps = ''1h5m''" by code_simp
  moreover have "show_nat 9 = ''9''" by code_simp
  moreover have "total_nanos ?ps = 3900000000000" by (simp add: unit_nanos_def is_micro_def)
  moreover have "list_all (\<lambda>(n, u). u \<in> set plain_units) ?ps" by code_simp
  ultimately show ?thesis
    using duration_settings [where ps = ?ps and vars = "\<lambda>_. ''1h5m''" and bare = "\<lambda>_. ''9''" and n = 9 and key = "''KEY''" and key' = "''KEY''" and def = 7]
    by simp
qed

end
