(* ===== verification/Endpoint.thy ===== *)
theory Endpoint
  imports Hosts
begin

text \<open>
  Which endpoints count as local: isLocalOmniEndpoint of cmd/omni-infra-provider-truenas/main.go,
  over \<open>url.Parse\<close>, and IsLoopbackHost of internal/truenasrpc/host.go, over
  \<open>net.SplitHostPort\<close>; both end in \<open>net.ParseIP\<close> and \<open>IP.IsLoopback\<close>.
\<close>

section \<open>Loopback addresses\<close>

definition hex_group :: "string \<Rightarrow> nat" where
  "hex_group g = fold (\<lambda>c n. 16 * n + hex_value c) g 0"

text \<open>The 16-bit groups of an IPv6 address; a dotted quad is two of them.\<close>

fun group_values :: "string list \<Rightarrow> nat list" where
  "group_values [] = []"
| "group_values (g # gs) =
     (if is_group g then hex_group g # group_values gs
      else case parse_ipv4 g of None \<Rightarrow> [] | Some n \<Rightarrow> [n div 65536, n mod 65536])"

definition ipv6_groups :: "string \<Rightarrow> nat list" where
  "ipv6_groups s =
     (case cut_double_colon s of
        None \<Rightarrow> group_values (split_all (CHR '':'') s)
      | Some (a, b) \<Rightarrow>
          (let l = group_values (colon_fields a); r = group_values (colon_fields b)
           in l @ replicate (8 - length l - length r) 0 @ r))"

text \<open>\<open>ParseIP(s).IsLoopback()\<close>: 127/8, also mapped into IPv6, and \<open>::1\<close>.\<close>

definition loopback_ip :: "string \<Rightarrow> bool" where
  "loopback_ip s =
     (case parse_ipv4 s of
        Some n \<Rightarrow> n div 2 ^ 24 = 127
      | None \<Rightarrow>
          valid_ipv6 s \<and>
          (let g = ipv6_groups s
           in g = [0, 0, 0, 0, 0, 0, 0, 1] \<or> take 6 g = [0, 0, 0, 0, 0, 65535] \<and> (g ! 6) div 256 = 127))"

section \<open>net.SplitHostPort\<close>

definition split_host_port :: "string \<Rightarrow> (string \<times> string) option" where
  "split_host_port s =
     (case cut_last (CHR '':'') s of
        None \<Rightarrow> None
      | Some (front, port) \<Rightarrow>
          if s \<noteq> [] \<and> hd s = CHR ''['' then
            (case cut_char (CHR '']'') s of
               None \<Rightarrow> None
             | Some (a, b) \<Rightarrow>
                 if b \<noteq> CHR '':'' # port then None
                 else if CHR ''['' \<in> set (tl s) \<or> CHR '']'' \<in> set b then None
                 else Some (tl a, port))
          else if CHR '':'' \<in> set front \<or> CHR ''['' \<in> set s \<or> CHR '']'' \<in> set s then None
          else Some (front, port))"

definition IsLoopbackHost :: "string \<Rightarrow> bool" where
  "IsLoopbackHost host =
     (let hostname = (case split_host_port host of None \<Rightarrow> host | Some (h, p) \<Rightarrow> h)
      in hostname = ''localhost'' \<or> loopback_ip hostname)"

section \<open>url.Parse\<close>

definition is_letter :: "char \<Rightarrow> bool" where
  "is_letter c \<longleftrightarrow> is_alnum c \<and> \<not> is_digit_char c"

text \<open>\<open>getScheme\<close>: \<open>None\<close> is the error of a missing scheme, an empty scheme is none.\<close>

definition get_scheme :: "string \<Rightarrow> (string \<times> string) option" where
  "get_scheme s =
     (let p = takeWhile (\<lambda>c. is_alnum c \<or> c \<in> set ''+-.'') s; r = drop (length p) s
      in if p = [] then (if r \<noteq> [] \<and> hd r = CHR '':'' then None else Some ([], s))
         else if is_letter (hd p) \<and> r \<noteq> [] \<and> hd r = CHR '':'' then Some (p, tl r)
         else Some ([], s))"

text \<open>\<open>unescape\<close> of a path or a fragment fails only at a broken escape.\<close>

fun valid_escapes :: "string \<Rightarrow> bool" where
  "valid_escapes [] = True"
| "valid_escapes (c # s) =
     (if c = CHR ''%'' then
        (case s of a # b # r \<Rightarrow> is_hex_digit a \<and> is_hex_digit b \<and> valid_escapes r | _ \<Rightarrow> False)
      else valid_escapes s)"

definition before_char :: "char \<Rightarrow> string \<Rightarrow> string" where
  "before_char c s = takeWhile (\<lambda>x. x \<noteq> c) s"

definition control_char :: "char \<Rightarrow> bool" where
  "control_char c \<longleftrightarrow> (of_char c :: nat) < 32 \<or> (of_char c :: nat) = 127"

text \<open>
  \<open>parse\<close>, for a text without a fragment: whether the URL has user information, and its host
  (empty where there is none). \<open>parseAuthority\<close> looks for the last at sign; a user part that it
  rejects is reported here as one that is there, since no caller tells the two apart.
\<close>

definition parse_authority :: "string \<Rightarrow> (bool \<times> string) option" where
  "parse_authority a =
     (case cut_last (CHR ''@'') a of
        None \<Rightarrow> map_option (Pair False) (url_host a)
      | Some (user, h) \<Rightarrow> map_option (Pair True) (url_host h))"

definition url_parse :: "string \<Rightarrow> (bool \<times> string) option" where
  "url_parse s =
     (if list_ex control_char s then None
      else if s = ''*'' then Some (False, [])
      else case get_scheme s of
        None \<Rightarrow> None
      | Some (scheme, t) \<Rightarrow>
          (let rest = before_char (CHR ''?'') t
           in if \<not> has_prefix rest ''/'' \<and> scheme \<noteq> [] then Some (False, [])
              else if \<not> has_prefix rest ''/'' \<and> CHR '':'' \<in> set (before_char (CHR ''/'') rest) then None
              else if (scheme \<noteq> [] \<or> \<not> has_prefix rest ''///'') \<and> has_prefix rest ''//'' then
                (let authority = before_char (CHR ''/'') (drop 2 rest); path = drop (2 + length authority) rest
                 in case parse_authority authority of
                      None \<Rightarrow> None
                    | Some r \<Rightarrow> if valid_escapes path then Some r else None)
              else if valid_escapes rest then Some (False, []) else None))"

definition URL_Parse :: "string \<Rightarrow> (bool \<times> string) option" where
  "URL_Parse raw =
     (case cut_char (CHR ''#'') raw of
        None \<Rightarrow> url_parse raw
      | Some (u, frag) \<Rightarrow>
          (case url_parse u of None \<Rightarrow> None | Some r \<Rightarrow> if valid_escapes frag then Some r else None))"

section \<open>The predicate\<close>

definition is_bracket :: "char \<Rightarrow> bool" where
  "is_bracket c \<longleftrightarrow> c = CHR ''['' \<or> c = CHR '']''"

definition trim_brackets :: "string \<Rightarrow> string" where
  "trim_brackets s = rev (dropWhile is_bracket (rev (dropWhile is_bracket s)))"

definition isLocalOmniEndpoint :: "string \<Rightarrow> bool" where
  "isLocalOmniEndpoint endpoint =
     (if endpoint = [] then False
      else case URL_Parse endpoint of
        None \<Rightarrow> False
      | Some (user, h) \<Rightarrow>
          if user then False
          else let host = to_lower (url_hostname h)
               in if host = [] then False
                  else if host = ''localhost'' then True
                  else loopback_ip (trim_brackets host))"

section \<open>What a local endpoint is\<close>

lemma get_scheme_Some:
  assumes "get_scheme s = Some (scheme, t)"
  shows "\<exists>before. s = before @ t \<and> list_all (\<lambda>c. c \<notin> set ''/?#'') before"
proof -
  let ?p = "takeWhile (\<lambda>c. is_alnum c \<or> c \<in> set ''+-.'') s"
  have plain: "c \<notin> set ''/?#''" if "c \<in> set ?p" for c
    using set_takeWhileD [OF that] by (auto simp: is_alnum_def)
  show ?thesis
  proof (cases "scheme = []")
    case True
    then have "t = s"
      using assms unfolding get_scheme_def Let_def by (simp split: if_split_asm)
    then show ?thesis by (intro exI [of _ "[]"]) simp
  next
    case False
    let ?r = "drop (length ?p) s"
    have r: "?r \<noteq> [] \<and> hd ?r = CHR '':'' \<and> t = tl ?r"
      using assms False unfolding get_scheme_def Let_def by (auto split: if_split_asm)
    have "s = ?p @ ?r" by (simp add: dropWhile_eq_drop [symmetric])
    also have "?r = CHR '':'' # t" using r by (metis list.collapse)
    finally have "s = (?p @ '':'') @ t" by simp
    then show ?thesis using plain by (intro exI [of _ "?p @ '':''"]) (auto simp: list_all_iff)
  qed
qed

lemma before_char_split: "\<exists>after. s = before_char c s @ after \<and> (after = [] \<or> hd after = c)"
  unfolding before_char_def
  by (intro exI [of _ "dropWhile (\<lambda>x. x \<noteq> c) s"]) (use hd_dropWhile [of "\<lambda>x. x \<noteq> c" s] in auto)

lemma before_char_no: "c \<notin> set (before_char c s)"
  by (auto simp: before_char_def dest: set_takeWhileD)

lemma before_char_sub: "x \<in> set (before_char c s) \<Longrightarrow> x \<in> set s"
  by (auto simp: before_char_def dest: set_takeWhileD)

text \<open>The text has an authority: between two slashes and the end of the host part.\<close>

definition authority_of :: "string \<Rightarrow> string \<Rightarrow> bool" where
  "authority_of s auth \<longleftrightarrow> (\<exists>before after. s = before @ ''//'' @ auth @ after \<and>
     list_all (\<lambda>c. c \<notin> set ''/?#'') (before @ auth) \<and> (after = [] \<or> hd after \<in> set ''/?#''))"

lemma url_parse_authority:
  assumes "url_parse s = Some (False, h)" and "h \<noteq> []" and "CHR ''#'' \<notin> set s"
  shows "\<exists>auth. authority_of s auth \<and> CHR ''@'' \<notin> set auth \<and> url_host auth = Some h"
proof -
  obtain scheme t where t: "get_scheme s = Some (scheme, t)"
    using assms(1,2) by (auto simp: url_parse_def split: if_splits option.splits)
  let ?rest = "before_char (CHR ''?'') t"
  let ?auth = "before_char (CHR ''/'') (drop 2 ?rest)"
  have shape: "has_prefix ?rest ''//'' \<and> parse_authority ?auth = Some (False, h)"
    using assms(1,2) t unfolding url_parse_def Let_def
    by (simp split: if_split_asm option.split_asm)
  then have pre: "has_prefix ?rest ''//''" and parsed: "parse_authority ?auth = Some (False, h)" by blast+
  from get_scheme_Some [OF t] obtain before where b: "s = before @ t" "list_all (\<lambda>c. c \<notin> set ''/?#'') before" by blast
  have rest: "?rest = ''//'' @ drop 2 ?rest"
    using pre by (metis append_take_drop_id has_prefix_def length_Cons list.size(3) numeral_2_eq_2)
  obtain q where q: "t = ?rest @ q" "q = [] \<or> hd q = CHR ''?''" using before_char_split by blast
  obtain p where p: "drop 2 ?rest = ?auth @ p" "p = [] \<or> hd p = CHR ''/''" using before_char_split by blast
  have whole: "s = before @ ''//'' @ ?auth @ (p @ q)" using b(1) q(1) rest p(1) by (metis append.assoc)
  have plain: "c \<notin> set ''/?#''" if "c \<in> set ?auth" for c
  proof -
    have "c \<in> set ?rest" using before_char_sub [OF that] by (meson in_set_dropD)
    then have "c \<noteq> CHR ''?''" "c \<in> set s" using before_char_no [of "CHR ''?''" t] before_char_sub [of c] b(1) by auto
    then show ?thesis using that before_char_no [of "CHR ''/''"] assms(3) by auto
  qed
  note whole
  moreover have "list_all (\<lambda>c. c \<notin> set ''/?#'') (before @ ?auth)" using b(2) plain unfolding list_all_append list_all_iff set_append ball_Un by blast
  moreover have "p @ q = [] \<or> hd (p @ q) \<in> set ''/?#''" using p(2) q(2) by (cases p) auto
  ultimately have "authority_of s ?auth" unfolding authority_of_def by blast
  moreover have "cut_last (CHR ''@'') ?auth = None" "url_host ?auth = Some h"
    using parsed by (auto simp: parse_authority_def split: option.splits)
  ultimately show ?thesis using cut_last_None by blast
qed

lemma authority_fragment: "authority_of u auth \<Longrightarrow> authority_of (u @ CHR ''#'' # frag) auth"
  unfolding authority_of_def
proof (elim exE conjE)
  fix before after assume a: "u = before @ ''//'' @ auth @ after" "list_all (\<lambda>c. c \<notin> set ''/?#'') (before @ auth)"
    "after = [] \<or> hd after \<in> set ''/?#''"
  show "\<exists>before after. u @ CHR ''#'' # frag = before @ ''//'' @ auth @ after \<and>
     list_all (\<lambda>c. c \<notin> set ''/?#'') (before @ auth) \<and> (after = [] \<or> hd after \<in> set ''/?#'')"
    by (intro exI [of _ before] exI [of _ "after @ CHR ''#'' # frag"]) (use a in \<open>cases after; auto\<close>)
qed

text \<open>
  C29: Whatever the endpoint, it counts as local only if it has an authority, the authority holds
  no user information, so that nothing hides the host behind an at sign, and its host, as
  \<open>url.Parse\<close> reads it, is \<open>localhost\<close> or a loopback address; the text before an evil suffix or
  a user part never decides.
\<close>

theorem local_endpoint_confined:
  assumes "isLocalOmniEndpoint endpoint"
  shows "\<exists>auth h. authority_of endpoint auth \<and> CHR ''@'' \<notin> set auth \<and> url_host auth = Some h \<and>
    (to_lower (url_hostname h) = ''localhost'' \<or> loopback_ip (trim_brackets (to_lower (url_hostname h))))"
proof -
  obtain h where h: "URL_Parse endpoint = Some (False, h)" "to_lower (url_hostname h) \<noteq> []"
    "to_lower (url_hostname h) = ''localhost'' \<or> loopback_ip (trim_brackets (to_lower (url_hostname h)))"
    using assms by (auto simp: isLocalOmniEndpoint_def Let_def split: if_splits option.splits)
  have "h \<noteq> []"
  proof
    assume "h = []"
    moreover have "to_lower (url_hostname []) = []" by code_simp
    ultimately show False using h(2) by simp
  qed
  show ?thesis
  proof (cases "cut_char (CHR ''#'') endpoint")
    case None
    then have "url_parse endpoint = Some (False, h)" using h(1) by (simp add: URL_Parse_def)
    moreover have "CHR ''#'' \<notin> set endpoint" using None cut_char_None by blast
    ultimately show ?thesis using url_parse_authority [OF _ \<open>h \<noteq> []\<close>] h(3) by blast
  next
    case (Some x)
    then obtain u frag where x: "endpoint = u @ CHR ''#'' # frag" "CHR ''#'' \<notin> set u" "x = (u, frag)"
      by (cases x) (auto simp: cut_char_Some)
    then have "url_parse u = Some (False, h)"
      using h(1) Some by (auto simp: URL_Parse_def split: option.splits if_splits)
    from url_parse_authority [OF this \<open>h \<noteq> []\<close> x(2)] obtain auth where
      "authority_of u auth" "CHR ''@'' \<notin> set auth" "url_host auth = Some h" by blast
    then show ?thesis using h(3) authority_fragment [of u auth frag] x(1) by blast
  qed
qed

theorem local_endpoint_witness:
  "isLocalOmniEndpoint ''grpc://LOCALHOST:8080/x'' \<and> \<not> isLocalOmniEndpoint ''http://localhost@evil.com'' \<and>
   (\<exists>auth h. authority_of ''grpc://LOCALHOST:8080/x'' auth \<and> CHR ''@'' \<notin> set auth \<and> url_host auth = Some h \<and>
    (to_lower (url_hostname h) = ''localhost'' \<or> loopback_ip (trim_brackets (to_lower (url_hostname h)))))"
proof -
  have "isLocalOmniEndpoint ''grpc://LOCALHOST:8080/x''" by code_simp
  moreover have "\<not> isLocalOmniEndpoint ''http://localhost@evil.com''" by code_simp
  ultimately show ?thesis using local_endpoint_confined [of "''grpc://LOCALHOST:8080/x''"] by blast
qed

end
