(* ===== verification/Paths.thy ===== *)
theory Paths
  imports GoLib
begin

text \<open>
  Slash-separated paths as Go's \<open>path\<close> and \<open>filepath\<close> treat them: \<open>Base\<close>, \<open>Clean\<close>, \<open>Dir\<close> and
  \<open>Join\<close>.
\<close>

abbreviation slash :: char where "slash \<equiv> CHR ''/''"

definition path_base :: "string \<Rightarrow> string" where
  "path_base p =
     (if p = [] then ''.''
      else let q = rev (dropWhile (\<lambda>c. c = slash) (rev p)) in
        if q = [] then ''/'' else rev (takeWhile (\<lambda>c. c \<noteq> slash) (rev q)))"

fun clean_segments :: "bool \<Rightarrow> string list \<Rightarrow> string list \<Rightarrow> string list" where
  "clean_segments rooted out [] = rev out"
| "clean_segments rooted out (s # ss) =
     (if s = [] \<or> s = ''.'' then clean_segments rooted out ss
      else if s = ''..'' then
        (case out of
           t # ts \<Rightarrow> if t \<noteq> ''..'' then clean_segments rooted ts ss else clean_segments rooted (s # out) ss
         | [] \<Rightarrow> if rooted then clean_segments rooted [] ss else clean_segments rooted [s] ss)
      else clean_segments rooted (s # out) ss)"

definition path_clean :: "string \<Rightarrow> string" where
  "path_clean p =
     (let rooted = has_prefix p ''/''; body = join ''/'' (clean_segments rooted [] (split_all slash p))
      in if rooted then ''/'' @ body else if body = [] then ''.'' else body)"

definition path_dir :: "string \<Rightarrow> string" where
  "path_dir p = path_clean (rev (dropWhile (\<lambda>c. c \<noteq> slash) (rev p)))"

text \<open>\<open>Join\<close> of two elements, of which the second is not empty, and \<open>strings.TrimRight(p, "/")\<close>.\<close>

definition path_join :: "string \<Rightarrow> string \<Rightarrow> string" where
  "path_join a b = path_clean (if a = [] then b else a @ ''/'' @ b)"

definition trim_slashes :: "string \<Rightarrow> string" where
  "trim_slashes p = rev (dropWhile (\<lambda>c. c = slash) (rev p))"

section \<open>Plain paths\<close>

text \<open>An absolute path, or none, of names that are neither empty nor dots.\<close>

definition plain_name :: "string \<Rightarrow> bool" where
  "plain_name s \<longleftrightarrow> s \<noteq> [] \<and> s \<noteq> ''.'' \<and> s \<noteq> ''..'' \<and> slash \<notin> set s"

definition rooted_path :: "string list \<Rightarrow> string" where
  "rooted_path names = concat (map (\<lambda>s. slash # s) names)"

lemma split_all_plain: "slash \<notin> set s \<Longrightarrow> split_all slash (s @ slash # t) = s # split_all slash t"
  by (induction s) auto

lemma split_all_whole: "slash \<notin> set s \<Longrightarrow> split_all slash s = [s]"
  by (induction s) auto

lemma split_rooted: "list_all plain_name names \<Longrightarrow> split_all slash (rooted_path names) = [] # names"
proof (induction names rule: rev_induct)
  case (snoc n names)
  have "split_all slash (a @ slash # n) = split_all slash a @ [n]" for a
    using snoc.prems by (induction a) (auto simp: plain_name_def split_all_whole split: list.splits)
  with snoc show ?case by (simp add: rooted_path_def)
qed (simp add: rooted_path_def)

lemma clean_plain: "list_all plain_name names \<Longrightarrow> clean_segments rooted out names = rev out @ names"
  by (induction names arbitrary: out) (auto simp: plain_name_def)

lemma join_rooted: "names \<noteq> [] \<Longrightarrow> slash # join ''/'' names = rooted_path names"
  by (induction names rule: induct_list012) (auto simp: rooted_path_def)

lemma clean_rooted:
  assumes "list_all plain_name names" and "names \<noteq> []"
  shows "path_clean (rooted_path names) = rooted_path names"
proof -
  have "has_prefix (rooted_path names) ''/''"
    using assms(2) by (cases names) (simp_all add: rooted_path_def has_prefix_def)
  with assms show ?thesis
    by (simp add: path_clean_def Let_def split_rooted clean_plain join_rooted)
qed

lemma trim_rooted:
  assumes "list_all plain_name names"
  shows "trim_slashes (rooted_path names @ replicate k slash) = rooted_path names"
proof (cases names rule: rev_cases)
  case (snoc ns n)
  with assms have "rev n \<noteq> []" "slash \<notin> set (rev n)" by (simp_all add: plain_name_def)
  then have "dropWhile (\<lambda>c. c = slash) (rev n @ t) = rev n @ t" for t by (cases "rev n") auto
  moreover have "dropWhile (\<lambda>c. c = slash) (replicate k slash @ t) = dropWhile (\<lambda>c. c = slash) t" for t
    by (induction k) simp_all
  ultimately show ?thesis by (simp add: trim_slashes_def snoc rooted_path_def)
qed (simp add: trim_slashes_def rooted_path_def dropWhile_eq_Nil_conv)

text \<open>Names appended to a plain path, with or without slashes at its end.\<close>

lemma join_plain:
  assumes "list_all plain_name names" and "list_all plain_name added" and "added \<noteq> []"
  shows "path_join (trim_slashes (rooted_path names @ replicate k slash)) (rooted_path added) = rooted_path (names @ added)"
proof (cases "names = []")
  case True
  have "trim_slashes (rooted_path names @ replicate k slash) = []"
    unfolding trim_rooted [OF assms(1)] by (simp add: True rooted_path_def)
  with assms(2,3) True show ?thesis by (simp add: path_join_def clean_rooted)
next
  case False
  have "split_all slash (rooted_path names @ slash # rooted_path added) = [] # names @ [] # added"
  proof -
    obtain ns n where n: "names = ns @ [n]" using False by (cases names rule: rev_cases) auto
    have "split_all slash (a @ slash # b) = split_all slash a @ split_all slash b" for a b
      by (induction a) (auto split: list.splits)
    with assms show ?thesis by (simp add: split_rooted)
  qed
  moreover have "clean_segments True [] (names @ [] # added) = names @ added"
  proof -
    have "clean_segments True out (names @ ss) = clean_segments True (rev names @ out) ss" for out ss
      using assms(1) by (induction names arbitrary: out) (auto simp: plain_name_def)
    with assms(2) show ?thesis by (simp add: clean_plain)
  qed
  moreover have "has_prefix (rooted_path names @ t) ''/''" "rooted_path names \<noteq> []" for t
    using False by (cases names; simp add: rooted_path_def has_prefix_def)+
  ultimately show ?thesis
    using assms(1) False by (simp add: trim_rooted path_join_def path_clean_def Let_def join_rooted)
qed

end
