(* ===== verification/Telemetry.thy ===== *)
theory Telemetry
  imports Paths
begin

text \<open>
  The start and the end of telemetry (internal/telemetry/telemetry.go): which exporters and
  providers are made for a configuration, with which addresses, and what the shutdown function
  closes, also after a failed start.
\<close>

section \<open>Configuration and requests\<close>

text \<open>The Pyroscope settings are the URL, the user and the password.\<close>

record telemetry_config =
  tl_endpoint :: string
  tl_insecure :: bool
  tl_headers :: "(string \<rightharpoonup> string) option"
  tl_protocol :: string
  tl_console :: bool
  tl_pyroscope :: "(string \<times> string \<times> string) option"
  tl_service :: string

datatype signal = Traces | Metrics | Logs
datatype transport_kind = GRPC | HTTP

text \<open>
  The options of an OTLP exporter: its address (\<open>WithEndpoint\<close> or \<open>WithEndpointURL\<close>),
  \<open>WithInsecure\<close> and \<open>WithHeaders\<close>. \<open>Install s console\<close> makes the provider of a signal,
  with a second exporter to the console if \<open>console\<close>, and makes it the global one.
\<close>

record exporter_options =
  eo_address :: string
  eo_insecure :: bool
  eo_headers :: "(string \<rightharpoonup> string) option"

datatype closer = Provider signal | Profiler

datatype tel_op =
    NewResource string
  | NewExporter transport_kind signal exporter_options
  | NewConsole signal
  | Install signal bool
  | InitMetrics
  | StartProfiler string string string string
  | ProfileRates
  | Close closer

datatype tel_answer = Works | Fails string

type_synonym tel_env = "(tel_op, tel_answer) env"
type_synonym 'a tel = "(tel_op, tel_answer, unit, 'a) prog"

datatype tel_error =
    NoResource string
  | BadProtocol string
  | NoExporter signal string
  | NoConsole signal string
  | NoProfiler string

section \<open>Exporters\<close>

text \<open>
  \<open>url.Parse\<close> is an argument: it gives the host and the path of a URL, and the text of the URL
  with another path.
\<close>

type_synonym url_parser = "string \<Rightarrow> (string \<times> string \<times> (string \<Rightarrow> string)) option"

definition signalEndpoint :: "url_parser \<Rightarrow> string \<Rightarrow> string \<Rightarrow> string" where
  "signalEndpoint parse baseURL signalPath =
     (case parse baseURL of
        None \<Rightarrow> baseURL
      | Some (host, path, show) \<Rightarrow>
          if host = [] then baseURL else show (path_join (trim_slashes path) signalPath))"

fun signal_path :: "signal \<Rightarrow> string" where
  "signal_path Traces = ''/v1/traces''"
| "signal_path Metrics = ''/v1/metrics''"
| "signal_path Logs = ''/v1/logs''"

text \<open>Headers are passed on if there are any.\<close>

definition some_headers :: "telemetry_config \<Rightarrow> (string \<rightharpoonup> string) option" where
  "some_headers cfg = (case tl_headers cfg of Some m \<Rightarrow> if m = Map.empty then None else Some m | None \<Rightarrow> None)"

definition must :: "tel_env \<Rightarrow> tel_op \<Rightarrow> (string \<Rightarrow> tel_error) \<Rightarrow> (tel_error + unit) tel" where
  "must env q err = do { a \<leftarrow> ask env q; ret (case a of Works \<Rightarrow> Inr () | Fails e \<Rightarrow> Inl (err e)) }"

definition new_exporters :: "tel_env \<Rightarrow> transport_kind \<Rightarrow> (signal \<Rightarrow> string) \<Rightarrow> telemetry_config \<Rightarrow> (tel_error + unit) tel" where
  "new_exporters env kind address cfg =
     (let opts = \<lambda>s. \<lparr>eo_address = address s, eo_insecure = tl_insecure cfg, eo_headers = some_headers cfg\<rparr> in
      bindE (must env (NewExporter kind Traces (opts Traces)) (NoExporter Traces)) (\<lambda>_.
      bindE (must env (NewExporter kind Metrics (opts Metrics)) (NoExporter Metrics)) (\<lambda>_.
      must env (NewExporter kind Logs (opts Logs)) (NoExporter Logs))))"

definition buildGRPCExporters :: "tel_env \<Rightarrow> telemetry_config \<Rightarrow> (tel_error + unit) tel" where
  "buildGRPCExporters env cfg = new_exporters env GRPC (\<lambda>s. tl_endpoint cfg) cfg"

definition buildHTTPExporters :: "tel_env \<Rightarrow> url_parser \<Rightarrow> telemetry_config \<Rightarrow> (tel_error + unit) tel" where
  "buildHTTPExporters env parse cfg = new_exporters env HTTP (\<lambda>s. signalEndpoint parse (tl_endpoint cfg) (signal_path s)) cfg"

definition buildOTLPExporters :: "tel_env \<Rightarrow> url_parser \<Rightarrow> telemetry_config \<Rightarrow> (tel_error + unit) tel" where
  "buildOTLPExporters env parse cfg =
     (if tl_protocol cfg \<in> {[], ''grpc''} then buildGRPCExporters env cfg
      else if tl_protocol cfg \<in> {''http/protobuf'', ''http''} then buildHTTPExporters env parse cfg
      else ret (Inl (BadProtocol (tl_protocol cfg))))"

section \<open>Start and end\<close>

definition new_provider :: "tel_env \<Rightarrow> telemetry_config \<Rightarrow> signal \<Rightarrow> (tel_error + closer) tel" where
  "new_provider env cfg s =
     bindE (if tl_console cfg then must env (NewConsole s) (NoConsole s) else ret (Inr ())) (\<lambda>_. do {
       a \<leftarrow> ask env (Install s (tl_console cfg));
       ret (Inr (Provider s)) })"

definition initOTEL :: "tel_env \<Rightarrow> url_parser \<Rightarrow> telemetry_config \<Rightarrow> (tel_error + closer list) tel" where
  "initOTEL env parse cfg =
     bindE (buildOTLPExporters env parse cfg) (\<lambda>_.
     bindE (new_provider env cfg Traces) (\<lambda>t.
     bindE (new_provider env cfg Metrics) (\<lambda>m.
     bindE (new_provider env cfg Logs) (\<lambda>l. do {
       i \<leftarrow> ask env InitMetrics;
       ret (Inr [t, m, l]) }))))"

definition pyroscope_url :: "telemetry_config \<Rightarrow> string" where
  "pyroscope_url cfg = (case tl_pyroscope cfg of None \<Rightarrow> [] | Some (url, user, password) \<Rightarrow> url)"

definition initPyroscope :: "tel_env \<Rightarrow> telemetry_config \<Rightarrow> (tel_error + closer) tel" where
  "initPyroscope env cfg =
     (case tl_pyroscope cfg of
        None \<Rightarrow> ret (Inl (NoProfiler []))
      | Some (url, user, password) \<Rightarrow>
          bindE (must env (StartProfiler (tl_service cfg) url user password) NoProfiler) (\<lambda>_. do {
            r \<leftarrow> ask env ProfileRates;
            ret (Inr Profiler) }))"

text \<open>What the shutdown function will close, and the error.\<close>

definition Init_telemetry :: "tel_env \<Rightarrow> url_parser \<Rightarrow> telemetry_config \<Rightarrow> (closer list \<times> tel_error option) tel" where
  "Init_telemetry env parse cfg0 =
     (let cfg = (if tl_service cfg0 = [] then cfg0\<lparr>tl_service := ''omni-infra-provider-truenas''\<rparr> else cfg0) in
      if tl_endpoint cfg = [] \<and> pyroscope_url cfg = [] then ret ([], None)
      else do {
        res \<leftarrow> must env (NewResource (tl_service cfg)) NoResource;
        case res of
          Inl e \<Rightarrow> ret ([], Some e)
        | Inr u \<Rightarrow> do {
            fns \<leftarrow> (if tl_endpoint cfg \<noteq> [] then initOTEL env parse cfg else ret (Inr []));
            case fns of
              Inl e \<Rightarrow> ret ([], Some e)
            | Inr shutdownFuncs \<Rightarrow>
                if pyroscope_url cfg = [] then ret (shutdownFuncs, None)
                else do {
                  fn \<leftarrow> initPyroscope env cfg;
                  ret (case fn of
                         Inl e \<Rightarrow> (shutdownFuncs, Some e)
                       | Inr f \<Rightarrow> (shutdownFuncs @ [f], None)) } } })"

text \<open>The shutdown: every function is called, and the errors are joined.\<close>

fun shutdown_telemetry :: "tel_env \<Rightarrow> closer list \<Rightarrow> string list tel" where
  "shutdown_telemetry env [] = ret []"
| "shutdown_telemetry env (c # cs) = do {
     a \<leftarrow> ask env (Close c);
     errs \<leftarrow> shutdown_telemetry env cs;
     ret (case a of Works \<Rightarrow> errs | Fails e \<Rightarrow> e # errs) }"

section \<open>Where the exporters send to\<close>

fun signal_name :: "signal \<Rightarrow> string" where
  "signal_name Traces = ''traces''"
| "signal_name Metrics = ''metrics''"
| "signal_name Logs = ''logs''"

lemma signal_path_rooted: "signal_path s = rooted_path [''v1'', signal_name s]"
  by (cases s) (simp_all add: rooted_path_def)

lemma plain_signal: "list_all plain_name [''v1'', signal_name s]"
  by (cases s) (simp_all add: plain_name_def)

text \<open>The path of a base URL is kept, with or without slashes at its end, and the signal's is added.\<close>

lemma signalEndpoint_appends:
  assumes "parse base = Some (host, rooted_path names @ replicate k slash, show)" and "host \<noteq> []" and "list_all plain_name names"
  shows "signalEndpoint parse base (signal_path s) = show (rooted_path (names @ [''v1'', signal_name s]))"
  using join_plain [OF assms(3) plain_signal [of s], of k] assms by (simp add: signalEndpoint_def signal_path_rooted)

definition sends_as :: "url_parser \<Rightarrow> telemetry_config \<Rightarrow> tel_op \<Rightarrow> bool" where
  "sends_as parse cfg q \<longleftrightarrow>
     (\<forall>kind s opts. q = NewExporter kind s opts \<longrightarrow>
        eo_insecure opts = tl_insecure cfg \<and> eo_headers opts = some_headers cfg \<and>
        (case kind of
           GRPC \<Rightarrow> tl_protocol cfg \<in> {[], ''grpc''} \<and> eo_address opts = tl_endpoint cfg
         | HTTP \<Rightarrow> tl_protocol cfg \<in> {''http/protobuf'', ''http''} \<and>
                   eo_address opts = signalEndpoint parse (tl_endpoint cfg) (signal_path s)))"

lemma emits_must: "(\<And>a. P q a) \<Longrightarrow> emits P (must env q err)"
  unfolding must_def by (intro emits_intros)

text \<open>
  Every exporter has the protocol, the headers and the transport security of the configuration, and
  sends to the endpoint itself or, over HTTP, to its URL with the path of its own signal.
\<close>

lemma exporters_addressed: "emits (\<lambda>q a. sends_as parse cfg q) (Init_telemetry env parse cfg)"
proof -
  have exporters: "emits (\<lambda>q a. sends_as parse c q) (buildOTLPExporters env parse c)" for c
    unfolding buildOTLPExporters_def buildGRPCExporters_def buildHTTPExporters_def new_exporters_def Let_def
    by (intro emits_intros emits_must) (auto simp: sends_as_def)
  have otel: "emits (\<lambda>q a. sends_as parse c q) (initOTEL env parse c)" for c
    unfolding initOTEL_def new_provider_def
    by (intro emits_intros emits_must exporters) (auto simp: sends_as_def)
  have pyroscope: "emits (\<lambda>q a. sends_as parse c q) (initPyroscope env d)" for c d
    unfolding initPyroscope_def by (intro emits_intros emits_must) (auto simp: sends_as_def)
  have named: "sends_as parse (cfg\<lparr>tl_service := n\<rparr>) = sends_as parse cfg" for n
    by (rule ext) (simp add: sends_as_def some_headers_def split: transport_kind.splits)
  have otel': "emits (\<lambda>q a. sends_as parse cfg q) (initOTEL env parse (if b then cfg\<lparr>tl_service := n\<rparr> else cfg))" for b n
    using otel [of "cfg\<lparr>tl_service := n\<rparr>"] otel [of cfg] by (simp add: named)
  show ?thesis
    unfolding Init_telemetry_def Let_def
    by (intro emits_intros emits_must pyroscope otel') (auto simp: sends_as_def)
qed

section \<open>What is started and what is closed\<close>

type_synonym tel_history = "(tel_op \<times> tel_answer) list"

fun tel_opened :: "tel_op \<times> tel_answer \<Rightarrow> closer list" where
  "tel_opened (Install s console, a) = [Provider s]"
| "tel_opened (StartProfiler service url user password, Works) = [Profiler]"
| "tel_opened _ = []"

fun tel_closed :: "tel_op \<times> tel_answer \<Rightarrow> closer list" where
  "tel_closed (Close c, a) = [c]"
| "tel_closed _ = []"

abbreviation all_opened :: "tel_history \<Rightarrow> closer list" where
  "all_opened h \<equiv> concat (map tel_opened h)"

abbreviation all_closed :: "tel_history \<Rightarrow> closer list" where
  "all_closed h \<equiv> concat (map tel_closed h)"

text \<open>What a failed start leaves open: the providers before the one whose console exporter failed.\<close>

fun left_open :: "tel_error option \<Rightarrow> closer list" where
  "left_open (Some (NoConsole Metrics e)) = [Provider Traces]"
| "left_open (Some (NoConsole Logs e)) = [Provider Traces, Provider Metrics]"
| "left_open _ = []"

definition at_open :: "closer list \<Rightarrow> tel_history \<Rightarrow> bool" where
  "at_open cs h \<longleftrightarrow> all_opened h = cs \<and> all_closed h = []"

lemma safe_must:
  assumes "\<And>a. tel_opened (q, a) = []" and "\<And>a. tel_closed (q, a) = []"
  shows "safe anything (at_open cs) (must env q err) (\<lambda>r h. at_open cs h \<and> (\<forall>e. r = Inl e \<longrightarrow> (\<exists>m. e = err m)))"
  by (rule safeI) (use assms in \<open>auto simp: must_def at_open_def split: tel_answer.splits\<close>)

lemma safe_step:
  "(\<And>a. tel_opened (q, a) = []) \<Longrightarrow> (\<And>a. tel_closed (q, a) = []) \<Longrightarrow> (\<And>a. safe anything (at_open cs) (f a) Q) \<Longrightarrow>
   safe anything (at_open cs) (ask env q \<bind> f) Q"
  by (rule safe_bind [where R = "\<lambda>_. at_open cs"], rule safe_ask) (auto simp: at_open_def)

lemma safe_build:
  "safe anything (at_open cs) (buildOTLPExporters env parse cfg) (\<lambda>r h. at_open cs h \<and> (\<forall>e. r = Inl e \<longrightarrow> left_open (Some e) = []))"
proof -
  have exporters: "safe anything (at_open cs) (new_exporters env kind address cfg)
      (\<lambda>r h. at_open cs h \<and> (\<forall>e. r = Inl e \<longrightarrow> left_open (Some e) = []))" for kind address
    unfolding new_exporters_def Let_def
    by (intro safe_bindE [OF safe_conseq [OF safe_must]] safe_conseq [OF safe_must]) (auto split: sum.splits)
  then show ?thesis
    unfolding buildOTLPExporters_def buildGRPCExporters_def buildHTTPExporters_def
    by (intro safe_if safe_ret) auto
qed

lemma safe_provider:
  "safe anything (at_open cs) (new_provider env cfg s)
    (\<lambda>r h. case r of Inl e \<Rightarrow> (\<exists>m. e = NoConsole s m) \<and> at_open cs h | Inr c \<Rightarrow> c = Provider s \<and> at_open (cs @ [Provider s]) h)"
proof -
  have console: "safe anything (at_open cs) (if tl_console cfg then must env (NewConsole s) (NoConsole s) else ret (Inr ()))
      (\<lambda>r h. case r of Inl e \<Rightarrow> (\<exists>m. e = NoConsole s m) \<and> at_open cs h | Inr u \<Rightarrow> at_open cs h)"
    by (intro safe_if safe_ret safe_conseq [OF safe_must [where cs = cs]]) (auto split: sum.splits)
  have install: "safe anything (at_open cs) (do { a \<leftarrow> ask env (Install s c); ret (Inr (Provider s)) })
      (\<lambda>r h. case r of Inl e \<Rightarrow> (\<exists>m. e = NoConsole s m) \<and> at_open cs h | Inr c \<Rightarrow> c = Provider s \<and> at_open (cs @ [Provider s]) h)" for c
    by (rule safeI) (auto simp: at_open_def)
  show ?thesis
    unfolding new_provider_def
    by (rule safe_bindE [OF safe_conseq [OF console] install]) (auto split: sum.splits)
qed

lemma safe_given: "(P \<Longrightarrow> safe G E m Q) \<Longrightarrow> safe G (\<lambda>h. P \<and> E h) m Q"
  by (cases P) (auto intro: safeI)

lemma safe_next_provider:
  assumes "safe anything (at_open (cs @ [Provider s])) (f (Provider s)) Q"
    and "\<And>m h. at_open cs h \<Longrightarrow> Q (Inl (NoConsole s m)) h"
  shows "safe anything (at_open cs) (bindE (new_provider env cfg s) f) Q"
proof (rule safe_bindE)
  show "safe anything (at_open cs) (new_provider env cfg s)
      (\<lambda>r h. case r of Inl e \<Rightarrow> Q (Inl e) h | Inr c \<Rightarrow> c = Provider s \<and> at_open (cs @ [Provider s]) h)"
    by (rule safe_conseq [OF safe_provider]) (use assms(2) in \<open>auto split: sum.splits\<close>)
  show "safe anything (\<lambda>h. c = Provider s \<and> at_open (cs @ [Provider s]) h) (f c) Q" for c
    by (rule safe_given) (simp add: assms(1))
qed

lemma safe_initOTEL:
  "safe anything (at_open []) (initOTEL env parse cfg)
    (\<lambda>r h. case r of Inl e \<Rightarrow> at_open (left_open (Some e)) h | Inr cs \<Rightarrow> cs = map Provider [Traces, Metrics, Logs] \<and> at_open cs h)"
  unfolding initOTEL_def
  by (rule safe_bindE [where R = "\<lambda>_. at_open []"], rule safe_conseq [OF safe_build], simp, simp split: sum.splits,
      (rule safe_next_provider)+, rule safe_step, simp_all add: safe_ret)

lemma safe_initPyroscope:
  "safe anything (at_open cs) (initPyroscope env cfg)
    (\<lambda>r h. case r of Inl e \<Rightarrow> left_open (Some e) = [] \<and> at_open cs h | Inr c \<Rightarrow> c = Profiler \<and> at_open (cs @ [Profiler]) h)"
proof -
  have start: "safe anything (at_open cs) (must env (StartProfiler a b c d) NoProfiler)
      (\<lambda>r h. case r of Inl e \<Rightarrow> left_open (Some e) = [] \<and> at_open cs h | Inr u \<Rightarrow> at_open (cs @ [Profiler]) h)" for a b c d
    by (rule safeI) (auto simp: must_def at_open_def split: tel_answer.splits)
  have begun: "safe anything (at_open cs)
      (bindE (must env (StartProfiler a b c d) NoProfiler) (\<lambda>_. ask env ProfileRates \<bind> (\<lambda>r. ret (Inr Profiler))))
      (\<lambda>r h. case r of Inl e \<Rightarrow> left_open (Some e) = [] \<and> at_open cs h | Inr c \<Rightarrow> c = Profiler \<and> at_open (cs @ [Profiler]) h)" for a b c d
    by (rule safe_bindE [where R = "\<lambda>_. at_open (cs @ [Profiler])"], rule safe_conseq [OF start], assumption,
        simp split: sum.splits, rule safe_step) (simp_all add: safe_ret)
  show ?thesis
    unfolding initPyroscope_def by (intro safe_case_option safe_ret safe_case_prod begun) simp_all
qed

lemma safe_Init:
  "safe anything (at_open []) (Init_telemetry env parse cfg)
    (\<lambda>(fns, err) h. at_open (left_open err @ fns) h \<and> distinct (left_open err @ fns))"
proof -
  define Q :: "closer list \<times> tel_error option \<Rightarrow> tel_history \<Rightarrow> bool"
    where "Q = (\<lambda>(fns, err) h. at_open (left_open err @ fns) h \<and> distinct (left_open err @ fns))"
  have dist: "distinct (left_open err)" for err by (induction err rule: left_open.induct) auto
  have pyroscope: "safe anything (at_open cs) (do { fn \<leftarrow> initPyroscope env cfg;
      ret (case fn of Inl e \<Rightarrow> (cs, Some e) | Inr f \<Rightarrow> (cs @ [f], None)) }) Q" if "distinct (cs @ [Profiler])" for cs cfg
    by (rule safe_bind [OF safe_initPyroscope], rule safe_ret) (use that in \<open>auto simp: Q_def split: sum.splits\<close>)
  have rest: "safe anything (\<lambda>h. case r of Inl e \<Rightarrow> at_open (left_open (Some e)) h
        | Inr cs \<Rightarrow> (cs = [] \<or> cs = map Provider [Traces, Metrics, Logs]) \<and> at_open cs h)
      (case r of Inl e \<Rightarrow> ret ([], Some e)
       | Inr shutdownFuncs \<Rightarrow>
           if pyroscope_url cfg = [] then ret (shutdownFuncs, None)
           else do { fn \<leftarrow> initPyroscope env cfg;
                     ret (case fn of Inl e \<Rightarrow> (shutdownFuncs, Some e) | Inr f \<Rightarrow> (shutdownFuncs @ [f], None)) }) Q" for r cfg
  proof (cases r)
    case (Inl e)
    then show ?thesis by (simp add: safe_ret Q_def dist)
  next
    case (Inr cs)
    show ?thesis
      unfolding Inr sum.case by (rule safe_given, intro safe_if safe_ret pyroscope) (auto simp: Q_def)
  qed
  have otel: "safe anything (at_open []) (if tl_endpoint cfg \<noteq> [] then initOTEL env parse cfg else ret (Inr []))
      (\<lambda>r h. case r of Inl e \<Rightarrow> at_open (left_open (Some e)) h
        | Inr cs \<Rightarrow> (cs = [] \<or> cs = map Provider [Traces, Metrics, Logs]) \<and> at_open cs h)" for cfg
    by (intro safe_if safe_ret safe_conseq [OF safe_initOTEL]) (auto split: sum.splits)
  have main: "safe anything (at_open []) (do {
        res \<leftarrow> must env (NewResource service) NoResource;
        case res of
          Inl e \<Rightarrow> ret ([], Some e)
        | Inr u \<Rightarrow> do {
            fns \<leftarrow> (if tl_endpoint cfg \<noteq> [] then initOTEL env parse cfg else ret (Inr []));
            case fns of
              Inl e \<Rightarrow> ret ([], Some e)
            | Inr shutdownFuncs \<Rightarrow>
                if pyroscope_url cfg = [] then ret (shutdownFuncs, None)
                else do {
                  fn \<leftarrow> initPyroscope env cfg;
                  ret (case fn of Inl e \<Rightarrow> (shutdownFuncs, Some e) | Inr f \<Rightarrow> (shutdownFuncs @ [f], None)) } } }) Q" for service cfg
  proof (rule safe_bind)
    show "safe anything (at_open []) (must env (NewResource service) NoResource)
        (\<lambda>r h. at_open [] h \<and> (\<forall>e. r = Inl e \<longrightarrow> left_open (Some e) = []))"
      by (rule safe_conseq [OF safe_must]) auto
  qed (intro safe_case_sum safe_ret safe_conseq [OF safe_bind [OF otel rest]], auto simp: Q_def)
  show ?thesis
    unfolding Init_telemetry_def Let_def Q_def [symmetric] by (intro safe_if safe_ret main) (simp add: Q_def)
qed

lemma shutdown_closes:
  "run_state (shutdown_telemetry env cs) w = (errs, w') \<Longrightarrow>
   all_closed (w_hist w') = all_closed (w_hist w) @ cs \<and> all_opened (w_hist w') = all_opened (w_hist w)"
  by (induction cs arbitrary: w errs) (auto split: prod.splits)

text \<open>
  C39: whatever the exporters, the console and the profiler answer: a start of telemetry followed by
  its shutdown closes every provider and profiler that the start made, once each and in their order,
  except the providers that a failed start drops: those made before a failed console exporter.
  Without an OTLP endpoint and a Pyroscope URL nothing is asked at all.
\<close>

theorem telemetry_closes_what_it_opened:
  "case run_state (do { (fns, err) \<leftarrow> Init_telemetry env parse cfg; errs \<leftarrow> shutdown_telemetry env fns; ret err })
     \<lparr>w_hist = [], w_proc = ()\<rparr> of
     (err, w) \<Rightarrow> all_opened (w_hist w) = left_open err @ all_closed (w_hist w) \<and> distinct (all_opened (w_hist w)) \<and>
       (if tl_endpoint cfg = [] \<and> pyroscope_url cfg = [] then w_hist w = [] else True)"
proof -
  obtain fns err w where start: "run_state (Init_telemetry env parse cfg) \<lparr>w_hist = [], w_proc = ()\<rparr> = ((fns, err), w)"
    by (metis surj_pair)
  obtain errs w' where stop: "run_state (shutdown_telemetry env fns) w = (errs, w')"
    by (metis surj_pair)
  have "at_open (left_open err @ fns) (w_hist w) \<and> distinct (left_open err @ fns)"
    using safeD [OF safe_Init _ _ start] by (simp add: at_open_def)
  moreover have "w_hist w' = []" if "tl_endpoint cfg = []" "pyroscope_url cfg = []"
    using start stop that by (auto simp: Init_telemetry_def pyroscope_url_def Let_def split: if_splits)
  ultimately show ?thesis
    using shutdown_closes [OF stop] by (simp add: start stop at_open_def)
qed

end
