(* ===== verification/Boot.thy ===== *)
theory Boot
  imports Settings Endpoint Transport Lease RotationEngine Provisioner Telemetry
begin

text \<open>
  How the three programs of cmd/omni-infra-provider-truenas start: main.go (the provider),
  autoscaler.go and noderotation.go. A program is a sequence of requests to build, start and stop
  its parts, with their settings. The environment variables are passed on explicitly: only
  consumeSecretEnv changes them, and the requests that run a program carry what is left of them.
\<close>

section \<open>Parts and their settings\<close>

record omni_config =
  om_endpoint :: string
  om_provider :: string
  om_key :: string
  om_insecure :: bool

record rotation_settings =
  ro_disc :: discoverer
  ro_engine :: engine
  ro_interval :: int

text \<open>
  The settings of the provider's SDK: identity, texts and the number of workers, a \<open>uint\<close>.
  \<open>StartCleaner pool provider\<close> lists the live requests of that provider. The capacity gate of
  the autoscaler is the TrueNAS client and the default pool, if there is one.
\<close>

datatype boot_call =
    LoadDotEnv
  | BuildLogger string
  | InitTelemetry telemetry_config
  | ShutdownTelemetry
  | DialTrueNAS ws_config int
  | CloseTrueNAS
  | NewInfraProvider string string string provider_config
  | StartupChecks string string
  | StartMonitor
  | StartHealth string
  | DialOmni omni_config
  | CloseOmni
  | StartCleaner string string
  | FreshUUID
  | AcquireLease lease_config
  | WatchLease
  | ReleaseLease
  | RunInfra int variables
  | RunReconciler rotation_settings variables
  | ServeAutoscaler subcommand_config "string option" variables

datatype boot_answer =
    BootOk
  | BootErr string
  | BootCancelled
  | Variables variables
  | Token string

type_synonym boot_env = "(boot_call, boot_answer) env"
type_synonym 'a boot = "(boot_call, boot_answer, unit, 'a) prog"

datatype boot_error =
    Failed string string
  | Required string
  | Canceled
  | DarkLaunch
  | LeaseConfig string
  | NoDoubleOptOut

fun boot_done :: "string \<Rightarrow> boot_answer \<Rightarrow> boot_error + unit" where
  "boot_done what (BootErr e) = Inl (Failed what e)"
| "boot_done what BootCancelled = Inl Canceled"
| "boot_done what _ = Inr ()"

definition request :: "boot_env \<Rightarrow> string \<Rightarrow> boot_call \<Rightarrow> (boot_error + unit) boot" where
  "request env what q = do { a \<leftarrow> ask env q; ret (boot_done what a) }"

text \<open>A deferred call: \<open>q\<close> after \<open>m\<close>, whatever its outcome.\<close>

definition deferred :: "boot_env \<Rightarrow> boot_call \<Rightarrow> (boot_error + 'a) boot \<Rightarrow> (boot_error + 'a) boot" where
  "deferred env q m = do { r \<leftarrow> m; a \<leftarrow> ask env q; ret r }"

section \<open>Shared steps\<close>

definition defaultOTELProtocol :: string where "defaultOTELProtocol = ''grpc''"
definition DefaultProviderID :: string where "DefaultProviderID = ''truenas''"

definition telemetry_settings :: "variables \<Rightarrow> string \<Rightarrow> (string \<times> string \<times> string) option \<Rightarrow> string \<Rightarrow> telemetry_config" where
  "telemetry_settings v headers pyroscope service =
     \<lparr>tl_endpoint = v ''OTEL_EXPORTER_OTLP_ENDPOINT'',
      tl_insecure = envBool v ''OTEL_EXPORTER_OTLP_INSECURE'' True,
      tl_headers = parseHeaders headers,
      tl_protocol = envString v ''OTEL_EXPORTER_OTLP_PROTOCOL'' defaultOTELProtocol,
      tl_console = envBool v ''OTEL_CONSOLE_EXPORT'' False,
      tl_pyroscope = pyroscope,
      tl_service = envString v ''OTEL_SERVICE_NAME'' service\<rparr>"

text \<open>The provider id: the variable, or the default against a local endpoint alone.\<close>

definition provider_id :: "variables \<Rightarrow> boot_error + string" where
  "provider_id v =
     (if v ''PROVIDER_ID'' \<noteq> [] then Inr (v ''PROVIDER_ID'')
      else if \<not> isLocalOmniEndpoint (v ''OMNI_ENDPOINT'') then Inl (Required ''PROVIDER_ID'')
      else Inr DefaultProviderID)"

definition omni_settings :: "variables \<Rightarrow> string \<Rightarrow> string \<Rightarrow> omni_config" where
  "omni_settings v provider key =
     \<lparr>om_endpoint = v ''OMNI_ENDPOINT'', om_provider = provider, om_key = key,
      om_insecure = envBool v ''OMNI_INSECURE_SKIP_VERIFY'' False\<rparr>"

definition truenas_settings :: "variables \<Rightarrow> string \<Rightarrow> ws_config" where
  "truenas_settings v key =
     \<lparr>wc_host = v ''TRUENAS_HOST'', wc_key = key, wc_insecure = envBool v ''TRUENAS_INSECURE_SKIP_VERIFY'' False\<rparr>"

text \<open>\<open>singleton.New\<close> and \<open>Acquire\<close>, and then the goroutines that refresh and watch the lease.\<close>

definition take_lease :: "boot_env \<Rightarrow> string \<Rightarrow> int \<Rightarrow> int \<Rightarrow> (boot_error + unit) boot" where
  "take_lease env leaseID interval stale = do {
     u \<leftarrow> ask env FreshUUID;
     case NewLease \<lparr>lc_provider = leaseID, lc_instance = [], lc_refresh = interval, lc_stale = stale\<rparr>
            (case u of Token t \<Rightarrow> t | _ \<Rightarrow> []) of
       Inl e \<Rightarrow> ret (Inl (LeaseConfig e))
     | Inr cfg \<Rightarrow>
         bindE (request env ''acquire singleton lease'' (AcquireLease cfg)) (\<lambda>_. do {
           a \<leftarrow> ask env WatchLease;
           ret (Inr ()) }) }"

section \<open>The provider (main.go)\<close>

definition acquireProviderLease :: "boot_env \<Rightarrow> variables \<Rightarrow> string \<Rightarrow> (boot_error + bool) boot" where
  "acquireProviderLease env v provider =
     (if \<not> envBool v ''PROVIDER_SINGLETON_ENABLED'' True then ret (Inr False)
      else bindE (take_lease env provider
             (envDuration v ''PROVIDER_SINGLETON_REFRESH_INTERVAL'' Lease.DefaultRefreshInterval)
             (envDuration v ''PROVIDER_SINGLETON_STALE_AFTER'' DefaultStaleAfter)) (\<lambda>_. ret (Inr True)))"

definition provisioner_settings :: "variables \<Rightarrow> provider_config" where
  "provisioner_settings v =
     \<lparr>pc_default_pool = envString v ''DEFAULT_POOL'' ''default'',
      pc_default_network_interface = envString v ''DEFAULT_NETWORK_INTERFACE'' [],
      pc_default_boot_method = envString v ''DEFAULT_BOOT_METHOD'' ''UEFI'',
      pc_graceful_shutdown_timeout = i64 (envInt v ''GRACEFUL_SHUTDOWN_TIMEOUT'' 30 * second),
      pc_poll_interval = 0,
      pc_max_error_recoveries = envInt v ''MAX_ERROR_RECOVERIES'' 5,
      pc_max_start_oom_attempts = envInt v ''MAX_START_OOM_ATTEMPTS'' 5\<rparr>"

text \<open>From the Omni client to the end.\<close>

definition run_with_omni :: "boot_env \<Rightarrow> variables \<Rightarrow> string \<Rightarrow> string \<Rightarrow> (boot_error + unit) boot" where
  "run_with_omni env v provider key =
     bindE (request env ''create Omni client'' (DialOmni (omni_settings v provider key))) (\<lambda>_.
     deferred env CloseOmni (do {
       c \<leftarrow> ask env (StartCleaner (envString v ''DEFAULT_POOL'' ''default'') provider);
       bindE (acquireProviderLease env v provider) (\<lambda>held.
         let run = request env ''run'' (RunInfra (envInt v ''CONCURRENCY'' 4 mod 2 ^ 64) v)
         in if held then deferred env ReleaseLease run else run) }))"

text \<open>From the TrueNAS client on; \<open>v\<close> no longer has the API key.\<close>

definition run_with_truenas :: "boot_env \<Rightarrow> variables \<Rightarrow> string \<Rightarrow> string \<Rightarrow> (boot_error + unit) boot" where
  "run_with_truenas env v provider key =
     (let pool = envString v ''DEFAULT_POOL'' ''default''; nic = envString v ''DEFAULT_NETWORK_INTERFACE'' []
      in bindE (request env ''create infra provider'' (NewInfraProvider provider (envString v ''PROVIDER_NAME'' ''TrueNAS'')
             (envString v ''PROVIDER_DESCRIPTION'' ''TrueNAS SCALE infrastructure provider'') (NewProvisioner (provisioner_settings v)))) (\<lambda>_.
         bindE (request env ''startup check'' (StartupChecks pool nic)) (\<lambda>_. do {
           m \<leftarrow> ask env StartMonitor;
           h \<leftarrow> ask env (StartHealth (envString v ''HEALTH_LISTEN_ADDR'' '':8081''));
           run_with_omni env v provider key })))"

definition run_configured :: "boot_env \<Rightarrow> variables \<Rightarrow> (boot_error + unit) boot" where
  "run_configured env v =
     (if v ''OMNI_ENDPOINT'' = [] then ret (Inl (Required ''OMNI_ENDPOINT''))
      else let (key, v1) = consumeSecretEnv ''OMNI_SERVICE_ACCOUNT_KEY'' v
           in case provider_id v1 of
             Inl e \<Rightarrow> ret (Inl e)
           | Inr provider \<Rightarrow>
               let (apiKey, v2) = consumeSecretEnv ''TRUENAS_API_KEY'' v1
               in bindE (request env ''create TrueNAS client''
                    (DialTrueNAS (truenas_settings v2 apiKey) (envInt v2 ''TRUENAS_MAX_CONCURRENT_CALLS'' 8))) (\<lambda>_.
                    deferred env CloseTrueNAS (run_with_truenas env v2 provider key)))"

fun loaded :: "boot_answer \<Rightarrow> variables \<Rightarrow> variables" where
  "loaded (Variables v) _ = v"
| "loaded _ v = v"

definition run_provider :: "boot_env \<Rightarrow> variables \<Rightarrow> (boot_error + unit) boot" where
  "run_provider env v0 = do {
     a \<leftarrow> ask env LoadDotEnv;
     let v = loaded a v0;
     bindE (request env ''create logger'' (BuildLogger (v ''LOG_LEVEL''))) (\<lambda>_.
       let (headers, v1) = consumeSecretEnv ''OTEL_EXPORTER_OTLP_HEADERS'' v;
           (pass, v2) = consumeSecretEnv ''PYROSCOPE_BASIC_AUTH_PASSWORD'' v1
       in bindE (request env ''initialize telemetry'' (InitTelemetry (telemetry_settings v2 headers
              (Some (v2 ''PYROSCOPE_URL'', v2 ''PYROSCOPE_BASIC_AUTH_USER'', pass)) ''omni-infra-provider-truenas''))) (\<lambda>_.
            deferred env ShutdownTelemetry (run_configured env v2))) }"

section \<open>The subcommands (autoscaler.go, noderotation.go)\<close>

text \<open>\<open>newOmniClient\<close>; the service account key is taken before the provider id is checked.\<close>

definition newOmniClient :: "boot_env \<Rightarrow> variables \<Rightarrow> (variables \<Rightarrow> string \<Rightarrow> (boot_error + unit) boot) \<Rightarrow> (boot_error + unit) boot" where
  "newOmniClient env v rest =
     (if v ''OMNI_ENDPOINT'' = [] then ret (Inl (Required ''OMNI_ENDPOINT''))
      else let (key, v1) = consumeSecretEnv ''OMNI_SERVICE_ACCOUNT_KEY'' v
           in case provider_id v1 of
             Inl e \<Rightarrow> ret (Inl e)
           | Inr provider \<Rightarrow>
               bindE (request env ''new Omni client'' (DialOmni (omni_settings v1 provider key))) (\<lambda>_.
               deferred env CloseOmni (rest v1 provider)))"

definition subcommand_telemetry :: "boot_env \<Rightarrow> variables \<Rightarrow> string \<Rightarrow> (variables \<Rightarrow> (boot_error + unit) boot) \<Rightarrow> (boot_error + unit) boot" where
  "subcommand_telemetry env v service rest =
     bindE (request env ''build logger'' (BuildLogger [])) (\<lambda>_.
       let (headers, v1) = consumeSecretEnv ''OTEL_EXPORTER_OTLP_HEADERS'' v
       in bindE (request env ''initialize telemetry'' (InitTelemetry (telemetry_settings v1 headers None service))) (\<lambda>_.
            deferred env ShutdownTelemetry (rest v1)))"

text \<open>\<open>Right True\<close>: held; \<open>Right False\<close>: not wanted. A cancelled acquisition is a clean exit.\<close>

definition acquireAutoscalerLease :: "boot_env \<Rightarrow> variables \<Rightarrow> string \<Rightarrow> (boot_error + bool) boot" where
  "acquireAutoscalerLease env v clusterName =
     (if \<not> envBool v ''AUTOSCALER_SINGLETON_ENABLED'' True then ret (Inr False)
      else bindE (take_lease env (''autoscaler-'' @ clusterName)
             (envDuration v ''AUTOSCALER_SINGLETON_REFRESH_INTERVAL'' Lease.DefaultRefreshInterval)
             (envDuration v ''AUTOSCALER_SINGLETON_STALE_AFTER'' (45 * second))) (\<lambda>_. ret (Inr True)))"

text \<open>\<open>buildAutoscalerCapacityGate\<close>: no gate without a TrueNAS host.\<close>

definition buildAutoscalerCapacityGate ::
  "boot_env \<Rightarrow> variables \<Rightarrow> (variables \<Rightarrow> string option \<Rightarrow> (boot_error + unit) boot) \<Rightarrow> (boot_error + unit) boot" where
  "buildAutoscalerCapacityGate env v rest =
     (if v ''TRUENAS_HOST'' = [] then rest v None
      else let (apiKey, v1) = consumeSecretEnv ''TRUENAS_API_KEY'' v
           in bindE (request env ''build TrueNAS client''
                (DialTrueNAS (truenas_settings v1 apiKey) (envInt v1 ''TRUENAS_MAX_CONCURRENT_CALLS'' 4))) (\<lambda>_.
                deferred env CloseTrueNAS (rest v1 (Some (envString v1 ''DEFAULT_POOL'' ''default'')))))"

definition clean_exit :: "boot_error + unit \<Rightarrow> boot_error + unit" where
  "clean_exit r = (if r = Inl Canceled then Inr () else r)"

definition serve_autoscaler :: "boot_env \<Rightarrow> subcommand_config \<Rightarrow> string option \<Rightarrow> variables \<Rightarrow> (boot_error + unit) boot" where
  "serve_autoscaler env cfg gate v = do {
     l \<leftarrow> acquireAutoscalerLease env v (su_cluster cfg);
     case l of
       Inl e \<Rightarrow> ret (clean_exit (Inl e))
     | Inr held \<Rightarrow>
         let serve = do { r \<leftarrow> request env ''autoscaler gRPC server'' (ServeAutoscaler cfg gate v); ret (clean_exit r) }
         in if held then deferred env ReleaseLease serve else serve }"

definition runAutoscaler :: "boot_env \<Rightarrow> variables \<Rightarrow> (boot_error + unit) boot" where
  "runAutoscaler env v =
     subcommand_telemetry env v ''omni-infra-provider-truenas-autoscaler'' (\<lambda>v1.
       case LoadSubcommandConfig v1 of
         Inl e \<Rightarrow> ret (Inl (Required ''AUTOSCALER_CONFIG''))
       | Inr cfg \<Rightarrow>
           newOmniClient env v1 (\<lambda>v2 provider.
             buildAutoscalerCapacityGate env v2 (\<lambda>v3 gate. serve_autoscaler env cfg gate v3)))"

definition acquireNodeRotationLease :: "boot_env \<Rightarrow> variables \<Rightarrow> string \<Rightarrow> (boot_error + bool) boot" where
  "acquireNodeRotationLease env v clusterName =
     (if \<not> envBool v ''NODE_ROTATION_SINGLETON_ENABLED'' True then
        ret (if \<not> envBool v ''NODE_ROTATION_SINGLETON_FORCE_DISABLE'' False then Inl NoDoubleOptOut else Inr False)
      else bindE (take_lease env (''node-rotation-'' @ clusterName)
             (envDuration v ''NODE_ROTATION_SINGLETON_REFRESH_INTERVAL'' Lease.DefaultRefreshInterval)
             (envDuration v ''NODE_ROTATION_SINGLETON_STALE_AFTER'' (45 * second))) (\<lambda>_. ret (Inr True)))"

definition rotation_settings_of :: "variables \<Rightarrow> string \<Rightarrow> string \<Rightarrow> rotation_settings" where
  "rotation_settings_of v clusterName provider =
     (let raw = envDuration v ''NODE_ROTATION_LOCK_TTL'' DefaultLockTTL;
          lockTTL = (if raw < MinLockTTL then MinLockTTL else raw)
      in \<lparr>ro_disc = \<lparr>ds_cluster = clusterName, ds_provider = provider, ds_trust = envBool v ''NODE_ROTATION_TRUST_DECLARED_ROLE'' False\<rparr>,
          ro_engine = WithProviderID provider (WithLockTTL lockTTL NewEngine),
          ro_interval = envDuration v ''NODE_ROTATION_REFRESH_INTERVAL'' (30 * second)\<rparr>)"

definition run_rotation :: "boot_env \<Rightarrow> variables \<Rightarrow> string \<Rightarrow> string \<Rightarrow> (boot_error + unit) boot" where
  "run_rotation env v clusterName provider = do {
     l \<leftarrow> acquireNodeRotationLease env v clusterName;
     case l of
       Inl e \<Rightarrow> ret (clean_exit (Inl e))
     | Inr held \<Rightarrow>
         let run = do {
               h \<leftarrow> ask env (StartHealth (envString v ''NODE_ROTATION_HEALTH_LISTEN_ADDR'' '':8082''));
               r \<leftarrow> request env ''node-rotation reconciler'' (RunReconciler (rotation_settings_of v clusterName provider) v);
               ret (clean_exit r) }
         in if held then deferred env ReleaseLease run else run }"

definition runNodeRotation :: "boot_env \<Rightarrow> variables \<Rightarrow> (boot_error + unit) boot" where
  "runNodeRotation env v =
     (if \<not> envBool v ''NODE_ROTATION_DARK_LAUNCH'' False then ret (Inl DarkLaunch)
      else subcommand_telemetry env v ''omni-infra-provider-truenas-node-rotation'' (\<lambda>v1.
        let clusterName = trim_space (v1 ''NODE_ROTATION_CLUSTER'')
        in if clusterName = [] then ret (Inl (Required ''NODE_ROTATION_CLUSTER''))
           else newOmniClient env v1 (\<lambda>v2 provider. run_rotation env v2 clusterName provider)))"

text \<open>\<open>main\<close>: the exit code, by the first argument.\<close>

definition main_program :: "boot_env \<Rightarrow> variables \<Rightarrow> string list \<Rightarrow> int boot" where
  "main_program env v args =
     (let code = (\<lambda>r. case r of Inl e \<Rightarrow> 1 | Inr u \<Rightarrow> 0)
      in case args of
           arg # _ \<Rightarrow>
             if arg \<in> {''--version'', ''-v'', ''version''} then ret 0
             else if arg = ''autoscaler'' then do { r \<leftarrow> runAutoscaler env v; ret (code r) }
             else if arg = ''node-rotation'' then do { r \<leftarrow> runNodeRotation env v; ret (code r) }
             else do { r \<leftarrow> run_provider env v; ret (code r) }
         | [] \<Rightarrow> do { r \<leftarrow> run_provider env v; ret (code r) })"

section \<open>When a program runs\<close>

type_synonym boot_history = "(boot_call \<times> boot_answer) list"

definition accepted :: "boot_history \<Rightarrow> boot_call \<Rightarrow> bool" where
  "accepted h q \<longleftrightarrow> (\<exists>a. (q, a) \<in> set h \<and> boot_done [] a = Inr ())"

definition holds_lease :: "boot_history \<Rightarrow> string \<Rightarrow> bool" where
  "holds_lease h i \<longleftrightarrow>
     (\<exists>cfg. accepted h (AcquireLease cfg) \<and> lc_provider cfg = i \<and> i64 (2 * lc_refresh cfg) \<le> lc_stale cfg)"

definition cleared :: "variables \<Rightarrow> string list \<Rightarrow> bool" where
  "cleared v keys \<longleftrightarrow> list_all (\<lambda>k. v k = []) keys"

text \<open>The guards of the three requests that let a program do its work; every other one is free.\<close>

fun boot_guard :: "boot_history \<Rightarrow> boot_call \<Rightarrow> bool" where
  "boot_guard h (RunInfra workers v) \<longleftrightarrow>
     cleared v [''OTEL_EXPORTER_OTLP_HEADERS'', ''PYROSCOPE_BASIC_AUTH_PASSWORD'', ''OMNI_SERVICE_ACCOUNT_KEY'', ''TRUENAS_API_KEY''] \<and>
     accepted h (StartupChecks (envString v ''DEFAULT_POOL'' ''default'') (envString v ''DEFAULT_NETWORK_INTERFACE'' [])) \<and>
     (\<exists>provider. provider_id v = Inr provider \<and>
        (envBool v ''PROVIDER_SINGLETON_ENABLED'' True \<longrightarrow> holds_lease h provider))"
| "boot_guard h (RunReconciler s v) \<longleftrightarrow>
     cleared v [''OTEL_EXPORTER_OTLP_HEADERS'', ''OMNI_SERVICE_ACCOUNT_KEY''] \<and>
     envBool v ''NODE_ROTATION_DARK_LAUNCH'' False \<and> ds_cluster (ro_disc s) \<noteq> [] \<and>
     provider_id v = Inr (ds_provider (ro_disc s)) \<and> en_provider (ro_engine s) = ds_provider (ro_disc s) \<and>
     MinLockTTL \<le> en_lockTTL (ro_engine s) \<and>
     (holds_lease h (''node-rotation-'' @ ds_cluster (ro_disc s)) \<or>
      \<not> envBool v ''NODE_ROTATION_SINGLETON_ENABLED'' True \<and> envBool v ''NODE_ROTATION_SINGLETON_FORCE_DISABLE'' False)"
| "boot_guard h (ServeAutoscaler cfg gate v) \<longleftrightarrow>
     cleared v [''OTEL_EXPORTER_OTLP_HEADERS'', ''OMNI_SERVICE_ACCOUNT_KEY''] \<and>
     su_cluster cfg \<noteq> [] \<and> 0 < su_refresh cfg \<and> (\<exists>provider. provider_id v = Inr provider) \<and>
     (gate = None \<longleftrightarrow> v ''TRUENAS_HOST'' = []) \<and> (gate \<noteq> None \<longrightarrow> v ''TRUENAS_API_KEY'' = []) \<and>
     (envBool v ''AUTOSCALER_SINGLETON_ENABLED'' True \<longrightarrow> holds_lease h (''autoscaler-'' @ su_cluster cfg))"
| "boot_guard h q \<longleftrightarrow> True"

lemma boot_done_Inr: "boot_done what a = Inr () \<longleftrightarrow> boot_done what' a = Inr ()"
  by (cases a) auto

lemma accepted_append [simp]: "accepted (h @ es) q \<longleftrightarrow> accepted h q \<or> accepted es q"
  by (auto simp: accepted_def)

lemma holds_lease_append: "holds_lease h i \<Longrightarrow> holds_lease (h @ es) i"
  by (auto simp: holds_lease_def)

lemma lasting_accepted [simp, intro]: "lasting (\<lambda>h. accepted h q)"
  by (simp add: lasting_def)

lemma lasting_holds [simp, intro]: "lasting (\<lambda>h. holds_lease h i)"
  by (simp add: lasting_def holds_lease_append)

abbreviation boot_safe :: "(boot_history \<Rightarrow> bool) \<Rightarrow> 'a boot \<Rightarrow> ('a \<Rightarrow> boot_history \<Rightarrow> bool) \<Rightarrow> bool" where
  "boot_safe \<equiv> safe boot_guard"

lemma safe_request:
  assumes "lasting E" and "\<And>h. E h \<Longrightarrow> boot_guard h q"
  shows "boot_safe E (request env what q) (\<lambda>r h. E h \<and> (r = Inr () \<longrightarrow> accepted h q))"
  unfolding request_def
  by (rule safe_conseq [OF safe_call [where E = E and G = boot_guard, OF assms(1)]])
    (auto simp: accepted_def intro: assms(2) dest: boot_done_Inr [THEN iffD1])

lemma safe_request_bind:
  assumes "lasting E" and "\<And>h. E h \<Longrightarrow> boot_guard h q" and "\<And>u. boot_safe (\<lambda>h. E h \<and> accepted h q) (f u) (\<lambda>_ _. True)"
  shows "boot_safe E (bindE (request env what q) f) (\<lambda>_ _. True)"
proof (rule safe_bindE [where R = "\<lambda>_ h. E h \<and> accepted h q"])
  show "boot_safe E (request env what q) (\<lambda>r h. case r of Inl e \<Rightarrow> True | Inr u \<Rightarrow> E h \<and> accepted h q)"
    by (rule safe_conseq [OF safe_request [OF assms(1,2)]]) (auto split: sum.splits)
qed (rule assms(3))

lemma safe_request_last:
  assumes "\<And>h. E h \<Longrightarrow> boot_guard h q"
  shows "boot_safe E (request env what q) (\<lambda>_ _. True)"
  unfolding request_def by (rule safe_bind [where R = "\<lambda>_ _. True"], rule safe_ask) (auto intro: assms safe_ret)

lemma safe_deferred:
  assumes "boot_safe E m (\<lambda>_ _. True)" and "\<And>h. boot_guard h q"
  shows "boot_safe E (deferred env q m) (\<lambda>_ _. True)"
  unfolding deferred_def
  by (rule safe_bind [OF assms(1)], rule safe_bind [where R = "\<lambda>_ _. True"], rule safe_ask) (auto intro: assms(2) safe_ret)

lemma safe_free:
  assumes "lasting E" and "\<And>h. boot_guard h q" and "\<And>a. boot_safe E (f a) Q"
  shows "boot_safe E (ask env q \<bind> f) Q"
  by (rule safe_bind [where R = "\<lambda>_. E"], rule safe_ask) (auto intro: assms lastingD)

lemma NewLease_Inr:
  "NewLease cfg uuid = Inr c \<Longrightarrow> lc_provider c = lc_provider cfg \<and> i64 (2 * lc_refresh c) \<le> lc_stale c"
  by (auto simp: NewLease_def Let_def split: if_splits)

lemma safe_take_lease:
  assumes "lasting E"
  shows "boot_safe E (take_lease env i interval stale) (\<lambda>r h. E h \<and> (r = Inr () \<longrightarrow> holds_lease h i))"
  unfolding take_lease_def
proof (rule safe_free [OF assms])
  fix u
  let ?cfg = "NewLease \<lparr>lc_provider = i, lc_instance = [], lc_refresh = interval, lc_stale = stale\<rparr> (case u of Token t \<Rightarrow> t | _ \<Rightarrow> [])"
  show "boot_safe E (case ?cfg of Inl e \<Rightarrow> ret (Inl (LeaseConfig e))
     | Inr cfg \<Rightarrow> bindE (request env ''acquire singleton lease'' (AcquireLease cfg)) (\<lambda>_. do {
           a \<leftarrow> ask env WatchLease; ret (Inr ()) })) (\<lambda>r h. E h \<and> (r = Inr () \<longrightarrow> holds_lease h i))"
  proof (rule safe_case_sum)
    fix cfg assume c: "?cfg = Inr cfg"
    let ?R = "\<lambda>_ h. E h \<and> holds_lease h i"
    have last: "lasting (\<lambda>h. E h \<and> holds_lease h i)" by (rule lasting_conj [OF assms lasting_holds])
    show "boot_safe E (bindE (request env ''acquire singleton lease'' (AcquireLease cfg)) (\<lambda>_. do {
           a \<leftarrow> ask env WatchLease; ret (Inr ()) })) (\<lambda>r h. E h \<and> (r = Inr () \<longrightarrow> holds_lease h i))"
    proof (rule safe_bindE [where R = ?R])
      show "boot_safe E (request env ''acquire singleton lease'' (AcquireLease cfg))
          (\<lambda>r h. case r of Inl e \<Rightarrow> E h \<and> (Inl e = Inr () \<longrightarrow> holds_lease h i) | Inr u \<Rightarrow> E h \<and> holds_lease h i)"
        by (rule safe_conseq [OF safe_request [OF assms]])
          (use NewLease_Inr [OF c] in \<open>auto simp: holds_lease_def split: sum.splits\<close>)
      show "boot_safe (?R u) (do { a \<leftarrow> ask env WatchLease; ret (Inr ()) }) (\<lambda>r h. E h \<and> (r = Inr () \<longrightarrow> holds_lease h i))" for u :: unit
        by (rule safe_free [OF last]) (auto intro: safe_ret)
    qed
  qed (auto intro: safe_ret)
qed simp

lemma safe_lease:
  assumes "lasting E"
  shows "boot_safe E (bindE (take_lease env i interval stale) (\<lambda>_. ret (Inr True)))
    (\<lambda>r h. case r of Inl e \<Rightarrow> True | Inr b \<Rightarrow> b \<and> E h \<and> holds_lease h i)"
proof (rule safe_bindE [where R = "\<lambda>_ h. E h \<and> holds_lease h i"])
  show "boot_safe E (take_lease env i interval stale)
      (\<lambda>r h. case r of Inl e \<Rightarrow> (case Inl e of Inl e \<Rightarrow> True | Inr b \<Rightarrow> b \<and> E h \<and> holds_lease h i)
        | Inr u \<Rightarrow> E h \<and> holds_lease h i)"
    by (rule safe_conseq [OF safe_take_lease [OF assms]]) (auto split: sum.splits)
qed (simp add: safe_ret)

text \<open>A program that takes the lease \<open>i\<close> and goes on as \<open>f\<close>.\<close>

lemma safe_held:
  assumes "lasting E" and "\<And>e. boot_safe (\<lambda>_. True) (f (Inl e)) (\<lambda>_ _. True)"
    and "boot_safe (\<lambda>h. E h \<and> holds_lease h i) (f (Inr True)) (\<lambda>_ _. True)"
  shows "boot_safe E (bindE (take_lease env i interval stale) (\<lambda>_. ret (Inr True)) \<bind> f) (\<lambda>_ _. True)"
proof (rule safe_bind [OF safe_lease [OF assms(1)]])
  fix r :: "boot_error + bool"
  show "boot_safe (\<lambda>h. case r of Inl e \<Rightarrow> True | Inr b \<Rightarrow> b \<and> E h \<and> holds_lease h i) (f r) (\<lambda>_ _. True)"
  proof (cases r)
    case (Inr b)
    show ?thesis
    proof (cases b)
      case True
      with Inr show ?thesis using assms(3) by simp
    qed (use Inr in \<open>auto intro!: safeI\<close>)
  qed (simp add: assms(2))
qed

lemma cleared_upd: "cleared (v(k := [])) ks \<longleftrightarrow> list_all (\<lambda>j. j = k \<or> v j = []) ks"
  by (auto simp: cleared_def list_all_iff)

lemma safe_run_infra:
  assumes "cleared v [''OTEL_EXPORTER_OTLP_HEADERS'', ''PYROSCOPE_BASIC_AUTH_PASSWORD'', ''OMNI_SERVICE_ACCOUNT_KEY'', ''TRUENAS_API_KEY'']"
    and "provider_id v = Inr provider"
  shows "boot_safe (\<lambda>h. accepted h (StartupChecks (envString v ''DEFAULT_POOL'' ''default'') (envString v ''DEFAULT_NETWORK_INTERFACE'' [])))
    (run_with_omni env v provider key) (\<lambda>_ _. True)"
proof -
  let ?E = "\<lambda>h. accepted h (StartupChecks (envString v ''DEFAULT_POOL'' ''default'') (envString v ''DEFAULT_NETWORK_INTERFACE'' []))"
  let ?E' = "\<lambda>h. ?E h \<and> accepted h (DialOmni (omni_settings v provider key))"
  have last: "lasting ?E" "lasting ?E'" by (rule lasting_accepted, rule lasting_conj [OF lasting_accepted lasting_accepted])
  have held: "boot_safe (\<lambda>h. ?E' h \<and> holds_lease h provider) (request env what (RunInfra n v)) (\<lambda>_ _. True)" for what n
    by (rule safe_request_last) (use assms in auto)
  have free: "boot_safe ?E' (request env what (RunInfra n v)) (\<lambda>_ _. True)"
    if "\<not> envBool v ''PROVIDER_SINGLETON_ENABLED'' True" for what n
    by (rule safe_request_last) (use assms that in auto)
  have rest: "boot_safe ?E' (acquireProviderLease env v provider \<bind> f) (\<lambda>_ _. True)"
    if "\<And>e. boot_safe (\<lambda>_. True) (f (Inl e)) (\<lambda>_ _. True)"
      and "boot_safe (\<lambda>h. ?E' h \<and> holds_lease h provider) (f (Inr True)) (\<lambda>_ _. True)"
      and "\<not> envBool v ''PROVIDER_SINGLETON_ENABLED'' True \<Longrightarrow> boot_safe ?E' (f (Inr False)) (\<lambda>_ _. True)" for f :: "boot_error + bool \<Rightarrow> (boot_error + unit) boot"
  proof (cases "envBool v ''PROVIDER_SINGLETON_ENABLED'' True")
    case True
    then show ?thesis
      unfolding acquireProviderLease_def by (simp only: not_True_eq_False if_False) (rule safe_held [OF last(2) that(1,2)])
  next
    case False
    then show ?thesis
      unfolding acquireProviderLease_def by (simp only: not_False_eq_True if_True bind_left_identity) (rule that(3))
  qed
  show ?thesis
    unfolding run_with_omni_def Let_def bindE_def [of "acquireProviderLease env v provider"]
    by (rule safe_request_bind [OF last(1)], simp, rule safe_deferred, rule safe_free [OF last(2)], simp, rule rest)
      (simp add: safe_ret, simp only: sum.case if_True, rule safe_deferred [OF held], simp, simp only: sum.case if_False, erule free, simp)
qed

lemma safe_run_truenas:
  assumes "cleared v [''OTEL_EXPORTER_OTLP_HEADERS'', ''PYROSCOPE_BASIC_AUTH_PASSWORD'', ''OMNI_SERVICE_ACCOUNT_KEY'', ''TRUENAS_API_KEY'']"
    and "provider_id v = Inr provider"
  shows "boot_safe (\<lambda>h. True) (run_with_truenas env v provider key) (\<lambda>_ _. True)"
proof -
  let ?pool = "envString v ''DEFAULT_POOL'' ''default''" and ?nic = "envString v ''DEFAULT_NETWORK_INTERFACE'' []"
  have rest: "boot_safe (\<lambda>h. (True \<and> accepted h q) \<and> accepted h (StartupChecks ?pool ?nic))
      (do { m \<leftarrow> ask env StartMonitor; a \<leftarrow> ask env (StartHealth addr); run_with_omni env v provider key }) (\<lambda>_ _. True)" for q addr
    by (intro safe_free lasting_conj lasting_True lasting_accepted) (auto intro: safe_conseq [OF safe_run_infra [OF assms]])
  show ?thesis
    unfolding run_with_truenas_def Let_def
    by (rule safe_request_bind, simp, simp, rule safe_request_bind, simp, simp, rule rest)
qed

lemma provider_id_upd:
  "k \<noteq> ''PROVIDER_ID'' \<Longrightarrow> k \<noteq> ''OMNI_ENDPOINT'' \<Longrightarrow> provider_id (v(k := [])) = provider_id v"
  by (simp add: provider_id_def)

lemma safe_run_configured:
  assumes "cleared v [''OTEL_EXPORTER_OTLP_HEADERS'', ''PYROSCOPE_BASIC_AUTH_PASSWORD'']"
  shows "boot_safe E (run_configured env v) (\<lambda>_ _. True)"
proof -
  let ?v1 = "v(''OMNI_SERVICE_ACCOUNT_KEY'' := [])" and ?v2 = "v(''OMNI_SERVICE_ACCOUNT_KEY'' := [], ''TRUENAS_API_KEY'' := [])"
  have clear: "cleared ?v2 [''OTEL_EXPORTER_OTLP_HEADERS'', ''PYROSCOPE_BASIC_AUTH_PASSWORD'', ''OMNI_SERVICE_ACCOUNT_KEY'', ''TRUENAS_API_KEY'']"
    using assms by (simp add: cleared_def)
  have rest: "boot_safe (\<lambda>h. True \<and> accepted h q) (run_with_truenas env ?v2 provider key) (\<lambda>_ _. True)"
    if "provider_id ?v1 = Inr provider" for provider key q
    using that by (intro safe_conseq [OF safe_run_truenas [OF clear]]) (simp_all add: provider_id_upd)
  have "boot_safe (\<lambda>h. True) (run_configured env v) (\<lambda>_ _. True)"
    unfolding run_configured_def consumeSecretEnv_def Let_def prod.case
    by (intro safe_if safe_ret safe_case_sum safe_request_bind safe_deferred rest) simp_all
  then show ?thesis by (rule safe_conseq) simp_all
qed

lemma safe_run_provider: "boot_safe (\<lambda>h. True) (run_provider env v) (\<lambda>_ _. True)"
proof -
  have clear: "cleared (u(''OTEL_EXPORTER_OTLP_HEADERS'' := [], ''PYROSCOPE_BASIC_AUTH_PASSWORD'' := []))
      [''OTEL_EXPORTER_OTLP_HEADERS'', ''PYROSCOPE_BASIC_AUTH_PASSWORD'']" for u :: variables
    by (simp add: cleared_def)
  show ?thesis
    unfolding run_provider_def consumeSecretEnv_def Let_def prod.case
    by (intro safe_free safe_request_bind safe_deferred safe_run_configured clear lasting_conj lasting_True lasting_accepted) simp_all
qed

text \<open>The subcommands hand on variables in which the secrets they used are cleared.\<close>

lemma safe_newOmniClient:
  assumes "lasting E"
    and "\<And>provider q. provider_id v = Inr provider \<Longrightarrow>
      boot_safe (\<lambda>h. E h \<and> accepted h q) (rest (v(''OMNI_SERVICE_ACCOUNT_KEY'' := [])) provider) (\<lambda>_ _. True)"
  shows "boot_safe E (newOmniClient env v rest) (\<lambda>_ _. True)"
  unfolding newOmniClient_def consumeSecretEnv_def Let_def prod.case
  by (intro safe_if safe_ret safe_case_sum safe_request_bind safe_deferred assms) (simp_all add: provider_id_upd)

lemma safe_subcommand_telemetry:
  assumes "\<And>q q'. boot_safe (\<lambda>h. (True \<and> accepted h q) \<and> accepted h q') (rest (v(''OTEL_EXPORTER_OTLP_HEADERS'' := []))) (\<lambda>_ _. True)"
  shows "boot_safe (\<lambda>h. True) (subcommand_telemetry env v service rest) (\<lambda>_ _. True)"
  unfolding subcommand_telemetry_def consumeSecretEnv_def Let_def prod.case
  by (intro safe_request_bind safe_deferred assms lasting_conj lasting_True lasting_accepted) simp_all

lemma safe_run_rotation:
  assumes "lasting E" and "envBool v ''NODE_ROTATION_DARK_LAUNCH'' False" and "cluster \<noteq> []" and "provider_id v = Inr provider"
    and "cleared v [''OTEL_EXPORTER_OTLP_HEADERS'', ''OMNI_SERVICE_ACCOUNT_KEY'']"
  shows "boot_safe E (run_rotation env v cluster provider) (\<lambda>_ _. True)"
proof -
  let ?s = "rotation_settings_of v cluster provider"
  have settings: "ds_cluster (ro_disc ?s) = cluster" "ds_provider (ro_disc ?s) = provider" "en_provider (ro_engine ?s) = provider"
    "MinLockTTL \<le> en_lockTTL (ro_engine ?s)"
    by (simp_all add: rotation_settings_of_def Let_def WithProviderID_def WithLockTTL_def)
  have run: "boot_safe E' (do { h \<leftarrow> ask env (StartHealth a); r \<leftarrow> request env what (RunReconciler ?s v); ret (clean_exit r) }) (\<lambda>_ _. True)"
    if "lasting E'" and "\<And>h. E' h \<Longrightarrow> holds_lease h (''node-rotation-'' @ cluster) \<or>
        \<not> envBool v ''NODE_ROTATION_SINGLETON_ENABLED'' True \<and> envBool v ''NODE_ROTATION_SINGLETON_FORCE_DISABLE'' False" for E' a what
  proof (rule safe_free [OF that(1)], simp, rule safe_bind [OF safe_request_last])
    show "boot_guard h (RunReconciler ?s v)" if "E' h" for h
      using \<open>\<And>h. E' h \<Longrightarrow> _\<close> [OF that] assms(2-5) by (simp add: settings)
  qed (simp add: safe_ret)
  have failed: "boot_safe E' (ret (clean_exit (Inl e))) (\<lambda>_ _. True)" for E' e by (simp add: safe_ret)
  show ?thesis
  proof (cases "envBool v ''NODE_ROTATION_SINGLETON_ENABLED'' True")
    case True
    show ?thesis
      unfolding run_rotation_def acquireNodeRotationLease_def Let_def
      by (simp only: True not_True_eq_False if_False, rule safe_held [OF assms(1)], simp only: sum.case, rule failed,
          simp only: sum.case if_True, rule safe_deferred [OF run], rule lasting_conj [OF assms(1) lasting_holds]) simp_all
  next
    case False
    show ?thesis
    proof (cases "envBool v ''NODE_ROTATION_SINGLETON_FORCE_DISABLE'' False")
      case True
      with False show ?thesis
        unfolding run_rotation_def acquireNodeRotationLease_def Let_def
        by (simp only: not_False_eq_True not_True_eq_False if_True if_False bind_left_identity sum.case) (rule run [OF assms(1)], simp)
    qed (use False failed in \<open>simp add: run_rotation_def acquireNodeRotationLease_def\<close>)
  qed
qed

lemma safe_runNodeRotation: "boot_safe (\<lambda>h. True) (runNodeRotation env v) (\<lambda>_ _. True)"
proof -
  let ?v1 = "v(''OTEL_EXPORTER_OTLP_HEADERS'' := [])"
  let ?v2 = "?v1(''OMNI_SERVICE_ACCOUNT_KEY'' := [])"
  have clear: "cleared ?v2 [''OTEL_EXPORTER_OTLP_HEADERS'', ''OMNI_SERVICE_ACCOUNT_KEY'']"
    by (simp add: cleared_def)
  have same: "envBool ?v2 ''NODE_ROTATION_DARK_LAUNCH'' False = envBool v ''NODE_ROTATION_DARK_LAUNCH'' False"
    by (simp add: envBool_def)
  show ?thesis
  proof (cases "envBool v ''NODE_ROTATION_DARK_LAUNCH'' False")
    case True
    show ?thesis
      unfolding runNodeRotation_def Let_def
      by (simp only: True not_True_eq_False if_False)
        (intro safe_subcommand_telemetry safe_if safe_ret safe_newOmniClient safe_run_rotation clear lasting_conj lasting_True lasting_accepted,
          simp_all add: same True provider_id_upd)
  qed (simp add: runNodeRotation_def safe_ret)
qed

lemma safe_serve_autoscaler:
  assumes "lasting E" and "LoadSubcommandConfig u = Inr cfg" and "provider_id v = Inr provider"
    and "cleared v [''OTEL_EXPORTER_OTLP_HEADERS'', ''OMNI_SERVICE_ACCOUNT_KEY'']"
    and "gate = None \<longleftrightarrow> v ''TRUENAS_HOST'' = []" and "gate \<noteq> None \<Longrightarrow> v ''TRUENAS_API_KEY'' = []"
  shows "boot_safe E (serve_autoscaler env cfg gate v) (\<lambda>_ _. True)"
proof -
  have cfg: "su_cluster cfg \<noteq> []" "0 < su_refresh cfg"
    using assms(2) by (auto simp: LoadSubcommandConfig_def parseOptionalDuration_def AutoscalerRefreshInterval_def second_def Let_def
        split: if_splits option.splits sum.splits)
  have serve: "boot_safe E' (do { r \<leftarrow> request env what (ServeAutoscaler cfg gate v); ret (clean_exit r) }) (\<lambda>_ _. True)"
    if "\<And>h. E' h \<Longrightarrow> envBool v ''AUTOSCALER_SINGLETON_ENABLED'' True \<longrightarrow> holds_lease h (''autoscaler-'' @ su_cluster cfg)" for E' what
  proof (rule safe_bind [OF safe_request_last])
    show "boot_guard h (ServeAutoscaler cfg gate v)" if "E' h" for h
      using \<open>\<And>h. E' h \<Longrightarrow> _\<close> [OF that] assms(3-6) cfg by simp
  qed (simp add: safe_ret)
  have failed: "boot_safe E' (ret (clean_exit (Inl e))) (\<lambda>_ _. True)" for E' e by (simp add: safe_ret)
  show ?thesis
  proof (cases "envBool v ''AUTOSCALER_SINGLETON_ENABLED'' True")
    case True
    show ?thesis
      unfolding serve_autoscaler_def acquireAutoscalerLease_def Let_def
      by (simp only: True not_True_eq_False if_False, rule safe_held [OF assms(1)], simp only: sum.case, rule failed,
          simp only: sum.case if_True, rule safe_deferred [OF serve]) simp_all
  next
    case False
    then show ?thesis
      unfolding serve_autoscaler_def acquireAutoscalerLease_def Let_def
      by (simp only: not_False_eq_True if_True if_False bind_left_identity sum.case) (rule serve, simp)
  qed
qed

lemma safe_runAutoscaler: "boot_safe (\<lambda>h. True) (runAutoscaler env v) (\<lambda>_ _. True)"
proof -
  let ?v2 = "v(''OTEL_EXPORTER_OTLP_HEADERS'' := [], ''OMNI_SERVICE_ACCOUNT_KEY'' := [])"
  have clear: "cleared ?v2 [''OTEL_EXPORTER_OTLP_HEADERS'', ''OMNI_SERVICE_ACCOUNT_KEY'']"
    "cleared (?v2(''TRUENAS_API_KEY'' := [])) [''OTEL_EXPORTER_OTLP_HEADERS'', ''OMNI_SERVICE_ACCOUNT_KEY'']"
    by (simp_all add: cleared_def)
  have gate: "boot_safe E (buildAutoscalerCapacityGate env ?v2 (\<lambda>v3 gate. serve_autoscaler env cfg gate v3)) (\<lambda>_ _. True)"
    if "lasting E" "LoadSubcommandConfig u = Inr cfg" "provider_id ?v2 = Inr provider" for E u cfg provider
    unfolding buildAutoscalerCapacityGate_def consumeSecretEnv_def Let_def prod.case
    by (intro safe_if safe_request_bind safe_deferred safe_serve_autoscaler [OF _ that(2)] clear lasting_conj lasting_accepted that(1))
      (use that(3) in \<open>simp_all add: provider_id_upd\<close>)
  show ?thesis
    unfolding runAutoscaler_def
    by (intro safe_subcommand_telemetry safe_case_sum safe_ret safe_newOmniClient gate lasting_conj lasting_True lasting_accepted)
      (simp_all add: provider_id_upd)
qed

text \<open>
  C18: Whatever the arguments, the environment variables and the outcomes of the steps: the
  provider runs only after its startup checks passed for its default pool and interface, with a
  provider id that is set or defaulted against a local endpoint, holding the singleton lease of
  that id unless this is switched off; the node-rotation reconciler only behind its dark-launch
  switch, with a lock lifetime of at least thirty seconds, a provider id by the same rule, for
  discovery and engine alike, and the cluster's lease, unless two variables agree to go without;
  the autoscaler only with a valid configuration, with a capacity gate exactly if a TrueNAS host
  is set, and with its lease unless this is switched off. And the secrets a program has read are no
  longer in its environment when it runs.
\<close>

theorem boot_guarded:
  "guarded boot_guard (w_hist (snd (run_state (main_program env v args) \<lparr>w_hist = [], w_proc = ()\<rparr>)))"
proof (rule safe_run)
  have code: "boot_safe (\<lambda>h. True) (do { r \<leftarrow> m; ret (c r) }) (\<lambda>_ _. True)"
    if "boot_safe (\<lambda>h. True) m (\<lambda>_ _. True)" for m :: "(boot_error + unit) boot" and c :: "boot_error + unit \<Rightarrow> int"
    by (rule safe_bind [OF that]) (simp add: safe_ret)
  show "boot_safe (\<lambda>h. True) (main_program env v args) (\<lambda>_ _. True)"
    unfolding main_program_def Let_def
    by (cases args) (simp_all add: code safe_ret safe_run_provider safe_runAutoscaler safe_runNodeRotation)
qed

end
