(* ===== verification/Cassette.thy ===== *)
theory Cassette
  imports Hosts RotationConfig
begin

text \<open>
  The recorded sessions that stand in for TrueNAS in continuous integration: the recording and
  the replaying transport and the cassette file between them (recording_transport.go,
  replay_transport.go, cassette.go in internal/client), and what the recorder redacts.
\<close>

section \<open>JSON texts\<close>

text \<open>
  A JSON text as its grammar reads it: the members of an object in the order of the text, with
  their duplicates, and numbers as their texts.
\<close>

datatype doc =
    DNull
  | DBool bool
  | DNum string
  | DStr string
  | DArr "doc list"
  | DObj "(string \<times> doc) list"

fun doc_of :: "json \<Rightarrow> doc" where
  "doc_of JNull = DNull"
| "doc_of (JStr s) = DStr s"
| "doc_of (JInt n) = DNum (format_int n)"
| "doc_of (JBool b) = DBool b"
| "doc_of (JArr xs) = DArr (map doc_of xs)"
| "doc_of (JObj kvs) = DObj (map (\<lambda>(k, v). (k, doc_of v)) kvs)"

text \<open>
  \<open>Unmarshal\<close> into an \<open>any\<close> and \<open>Marshal\<close> of it: an object becomes a map, where
  the last of several members with one key stays, and is printed in the order of the keys. A
  number becomes a \<open>float64\<close>; \<open>rt\<close> is the text that is printed for the one it reads.
\<close>

type_synonym number_text = "string \<Rightarrow> string"

definition go_map :: "(string \<times> 'a) list \<Rightarrow> (string \<times> 'a) list" where
  "go_map kvs = map (\<lambda>k. (k, the (map_of (rev kvs) k))) (sort (remdups (map fst kvs)))"

fun via_any :: "number_text \<Rightarrow> doc \<Rightarrow> doc" where
  "via_any rt (DNum t) = DNum (rt t)"
| "via_any rt (DArr xs) = DArr (map (via_any rt) xs)"
| "via_any rt (DObj kvs) = DObj (go_map (map (\<lambda>(k, v). (k, via_any rt v)) kvs))"
| "via_any rt d = d"

section \<open>Redaction (recording_transport.go)\<close>

definition sensitiveFieldNames :: "string list" where
  "sensitiveFieldNames = [''passphrase'', ''password'', ''api_key'', ''apikey'', ''token'', ''secret'']"

definition isSensitiveFieldName :: "string \<Rightarrow> bool" where
  "isSensitiveFieldName name = list_ex (contains name) sensitiveFieldNames"

definition sensitiveMethods :: "string list" where
  "sensitiveMethods =
     [''auth.login_with_api_key'', ''auth.login'', ''auth.login_with_token'', ''auth.generate_token'',
      ''auth.twofactor.set_secret'']"

abbreviation redacted :: doc where "redacted \<equiv> DStr ''[REDACTED]''"

fun walkRedact :: "doc \<Rightarrow> doc" where
  "walkRedact (DObj kvs) = DObj (map (\<lambda>(k, v). (k, if isSensitiveFieldName k then redacted else walkRedact v)) kvs)"
| "walkRedact (DArr xs) = DArr (map walkRedact xs)"
| "walkRedact d = d"

definition redactSensitive :: "number_text \<Rightarrow> doc \<Rightarrow> doc" where
  "redactSensitive rt d = walkRedact (via_any rt d)"

definition redactMethodParams :: "number_text \<Rightarrow> string \<Rightarrow> doc \<Rightarrow> doc" where
  "redactMethodParams rt method params =
     (if method \<in> set sensitiveMethods then
        (case params of
           DArr xs \<Rightarrow> DArr (map (\<lambda>_. redacted) xs)
         | DNull \<Rightarrow> DNull
         | _ \<Rightarrow> DArr [redacted])
      else redactSensitive rt params)"

section \<open>Cassettes (cassette.go)\<close>

text \<open>\<open>None\<close> is an empty \<open>RawMessage\<close>. The time of the recording is its printed text.\<close>

record interaction =
  in_method :: string
  in_params :: "doc option"
  in_result :: "doc option"
  in_error :: "(int \<times> string) option"
  in_upload :: bool

record cassette =
  cs_version :: string
  cs_recorded :: string
  cs_interactions :: "interaction list"

definition error_doc :: "int \<times> string \<Rightarrow> doc" where
  "error_doc e = DObj [(''code'', DNum (format_int (fst e))), (''message'', DStr (snd e))]"

definition interaction_doc :: "interaction \<Rightarrow> doc" where
  "interaction_doc i = DObj (
     [(''method'', DStr (in_method i)), (''params'', case in_params i of None \<Rightarrow> DNull | Some d \<Rightarrow> d)] @
     (case in_result i of None \<Rightarrow> [] | Some d \<Rightarrow> [(''result'', d)]) @
     (case in_error i of None \<Rightarrow> [] | Some e \<Rightarrow> [(''error'', error_doc e)]) @
     (if in_upload i then [(''upload'', DBool True)] else []))"

text \<open>What \<open>SaveCassette\<close> writes; a nil slice of interactions is \<open>null\<close>.\<close>

definition SaveCassette :: "cassette \<Rightarrow> doc" where
  "SaveCassette c = DObj
     [(''truenas_version'', DStr (cs_version c)),
      (''recorded_at'', DStr (cs_recorded c)),
      (''interactions'', if cs_interactions c = [] then DNull else DArr (map interaction_doc (cs_interactions c)))]"

text \<open>
  \<open>Unmarshal\<close> into a struct: the last member whose name is the field's, without regard to
  case; \<open>null\<close> leaves a field as it is, but a \<open>RawMessage\<close> keeps it. A value of another
  type is an error. (Files with two members of one name are outside of the model: none is written.)
\<close>

definition member :: "string \<Rightarrow> (string \<times> doc) list \<Rightarrow> doc option" where
  "member name kvs = map_of (rev (map (\<lambda>(k, v). (to_lower k, v)) kvs)) name"

fun as_object :: "doc \<Rightarrow> (string \<times> doc) list option" where
  "as_object (DObj kvs) = Some kvs"
| "as_object DNull = Some []"
| "as_object _ = None"

fun as_string :: "doc option \<Rightarrow> string option" where
  "as_string (Some (DStr s)) = Some s"
| "as_string None = Some []"
| "as_string (Some DNull) = Some []"
| "as_string _ = None"

fun as_int :: "doc option \<Rightarrow> int option" where
  "as_int (Some (DNum t)) = parse_int64 t"
| "as_int None = Some 0"
| "as_int (Some DNull) = Some 0"
| "as_int _ = None"

fun as_bool :: "doc option \<Rightarrow> bool option" where
  "as_bool (Some (DBool b)) = Some b"
| "as_bool None = Some False"
| "as_bool (Some DNull) = Some False"
| "as_bool _ = None"

fun as_error :: "doc option \<Rightarrow> (int \<times> string) option option" where
  "as_error (Some (DObj kvs)) =
     (case (as_int (member ''code'' kvs), as_string (member ''message'' kvs)) of
        (Some c, Some m) \<Rightarrow> Some (Some (c, m))
      | _ \<Rightarrow> None)"
| "as_error None = Some None"
| "as_error (Some DNull) = Some None"
| "as_error _ = None"

definition as_interaction :: "doc \<Rightarrow> interaction option" where
  "as_interaction d =
     (case as_object d of
        None \<Rightarrow> None
      | Some kvs \<Rightarrow>
          (case (as_string (member ''method'' kvs), as_error (member ''error'' kvs), as_bool (member ''upload'' kvs)) of
             (Some m, Some e, Some u) \<Rightarrow>
               Some \<lparr>in_method = m, in_params = member ''params'' kvs, in_result = member ''result'' kvs, in_error = e, in_upload = u\<rparr>
           | _ \<Rightarrow> None))"

fun as_interactions :: "doc option \<Rightarrow> interaction list option" where
  "as_interactions (Some (DArr xs)) = those (map as_interaction xs)"
| "as_interactions None = Some []"
| "as_interactions (Some DNull) = Some []"
| "as_interactions _ = None"

definition LoadCassette :: "doc \<Rightarrow> cassette option" where
  "LoadCassette d =
     (case as_object d of
        None \<Rightarrow> None
      | Some kvs \<Rightarrow>
          (case (as_string (member ''truenas_version'' kvs), as_string (member ''recorded_at'' kvs), as_interactions (member ''interactions'' kvs)) of
             (Some v, Some t, Some is) \<Rightarrow> Some \<lparr>cs_version = v, cs_recorded = t, cs_interactions = is\<rparr>
           | _ \<Rightarrow> None))"

section \<open>Recording\<close>

text \<open>
  What the wrapped transport returns for a call: no error and, as JSON, the caller's result after
  it; an API error, possibly wrapped; or another error.
\<close>

datatype reply = Answered doc | ApiReply int string | OtherReply string

fun recorded_error :: "reply \<Rightarrow> (int \<times> string) option" where
  "recorded_error (Answered d) = None"
| "recorded_error (ApiReply code msg) = Some (code, msg)"
| "recorded_error (OtherReply text) = Some (-1, text)"

text \<open>\<open>wants\<close>: the caller passed a result.\<close>

definition recorded_result :: "number_text \<Rightarrow> bool \<Rightarrow> reply \<Rightarrow> doc option" where
  "recorded_result rt wants r =
     (case r of Answered d \<Rightarrow> if wants then Some (redactSensitive rt d) else None | _ \<Rightarrow> None)"

definition recorded_version :: "string \<Rightarrow> bool \<Rightarrow> reply \<Rightarrow> string \<Rightarrow> string" where
  "recorded_version method wants r v =
     (case r of
        Answered d \<Rightarrow>
          if method = ''system.version'' \<and> v = [] then (if wants then (case d of DStr s \<Rightarrow> s | _ \<Rightarrow> []) else []) else v
      | _ \<Rightarrow> v)"

definition wire_params :: "params \<Rightarrow> doc" where
  "wire_params params = DArr (map doc_of (NormalizeParams params))"

definition record_call :: "number_text \<Rightarrow> string \<Rightarrow> params \<Rightarrow> bool \<Rightarrow> reply \<Rightarrow> cassette \<Rightarrow> cassette" where
  "record_call rt method params wants r c =
     (let i = \<lparr>in_method = method,
               in_params = Some (redactMethodParams rt method (wire_params params)),
               in_result = recorded_result rt wants r,
               in_error = recorded_error r,
               in_upload = False\<rparr>
      in c\<lparr>cs_interactions := cs_interactions c @ [i], cs_version := recorded_version method wants r (cs_version c)\<rparr>)"

definition record_upload :: "string option \<Rightarrow> cassette \<Rightarrow> cassette" where
  "record_upload err c =
     (let i = \<lparr>in_method = ''filesystem.put'', in_params = None, in_result = None,
               in_error = map_option (\<lambda>text. (-1, text)) err, in_upload = True\<rparr>
      in c\<lparr>cs_interactions := cs_interactions c @ [i]\<rparr>)"

section \<open>Replaying\<close>

record replayer =
  rp_interactions :: "interaction list"
  rp_cursor :: nat
  rp_strict :: bool

text \<open>\<open>Fatalf\<close> ends the test that made the call.\<close>

datatype fatal = Exhausted | WrongMethod | ParamsMismatch | BadResult | NotAnUpload

definition jsonEqual :: "number_text \<Rightarrow> doc \<Rightarrow> doc \<Rightarrow> bool" where
  "jsonEqual rt a b \<longleftrightarrow> via_any rt a = via_any rt b"

text \<open>
  \<open>fits\<close>: the caller's result and the values that it can hold. What a call returns: the API
  error, or the recorded value it left in the result, if it did.
\<close>

definition replay_call ::
  "number_text \<Rightarrow> string \<Rightarrow> params \<Rightarrow> (doc \<Rightarrow> bool) option \<Rightarrow> replayer \<Rightarrow> (fatal + (int \<times> string) + doc option) \<times> replayer" where
  "replay_call rt method params fits s =
     (if length (rp_interactions s) \<le> rp_cursor s then (Inl Exhausted, s)
      else let i = rp_interactions s ! rp_cursor s; s' = s\<lparr>rp_cursor := rp_cursor s + 1\<rparr> in
        if in_method i \<noteq> method then (Inl WrongMethod, s')
        else if rp_strict s \<and> (case in_params i of None \<Rightarrow> False | Some d \<Rightarrow> \<not> jsonEqual rt (wire_params params) d)
        then (Inl ParamsMismatch, s')
        else (case in_error i of
          Some e \<Rightarrow> (Inr (Inl e), s')
        | None \<Rightarrow>
            (case (fits, in_result i) of
               (Some P, Some d) \<Rightarrow> if P d then (Inr (Inr (Some d)), s') else (Inl BadResult, s')
             | _ \<Rightarrow> (Inr (Inr None), s'))))"

definition replay_upload :: "replayer \<Rightarrow> (fatal + string option) \<times> replayer" where
  "replay_upload s =
     (if length (rp_interactions s) \<le> rp_cursor s then (Inl Exhausted, s)
      else let i = rp_interactions s ! rp_cursor s; s' = s\<lparr>rp_cursor := rp_cursor s + 1\<rparr> in
        if \<not> in_upload i then (Inl NotAnUpload, s') else (Inr (map_option snd (in_error i)), s'))"

text \<open>\<open>None\<close>: nothing to report.\<close>

definition AssertAllConsumed :: "replayer \<Rightarrow> (nat \<times> nat) option" where
  "AssertAllConsumed s =
     (if rp_cursor s < length (rp_interactions s) then Some (rp_cursor s, length (rp_interactions s)) else None)"

definition NewReplayTransport :: "cassette \<Rightarrow> replayer" where
  "NewReplayTransport c = \<lparr>rp_interactions = cs_interactions c, rp_cursor = 0, rp_strict = False\<rparr>"

definition SetStrictParams :: "bool \<Rightarrow> replayer \<Rightarrow> replayer" where
  "SetStrictParams b s = s\<lparr>rp_strict := b\<rparr>"


section \<open>Sessions\<close>

text \<open>A call with the caller's result and the transport's reply, and an upload with its error.\<close>

datatype event = EvCall string params "(doc \<Rightarrow> bool) option" reply | EvUpload "string option"

definition NewCassette :: "string \<Rightarrow> cassette" where
  "NewCassette now = \<lparr>cs_version = [], cs_recorded = now, cs_interactions = []\<rparr>"

fun record_event :: "number_text \<Rightarrow> event \<Rightarrow> cassette \<Rightarrow> cassette" where
  "record_event rt (EvCall method params fits r) = record_call rt method params (fits \<noteq> None) r"
| "record_event rt (EvUpload err) = record_upload err"

definition record_session :: "number_text \<Rightarrow> event list \<Rightarrow> cassette \<Rightarrow> cassette" where
  "record_session rt = fold (record_event rt)"

datatype seen = Returned "(int \<times> string) + doc option" | UploadReturned "string option"

fun replay_event :: "number_text \<Rightarrow> event \<Rightarrow> replayer \<Rightarrow> (fatal + seen) \<times> replayer" where
  "replay_event rt (EvCall method params fits r) s = map_prod (map_sum id Returned) id (replay_call rt method params fits s)"
| "replay_event rt (EvUpload err) s = map_prod (map_sum id UploadReturned) id (replay_upload s)"

fun replay_session :: "number_text \<Rightarrow> event list \<Rightarrow> replayer \<Rightarrow> (fatal + seen) list \<times> replayer" where
  "replay_session rt [] s = ([], s)"
| "replay_session rt (e # es) s =
     (case replay_event rt e s of
        (Inl f, s') \<Rightarrow> ([Inl f], s')
      | (Inr v, s') \<Rightarrow> (case replay_session rt es s' of (vs, s'') \<Rightarrow> (Inr v # vs, s'')))"

section \<open>Canonical forms\<close>

lemma map_of_map_keyed: "map_of (map (\<lambda>(k, v). (k, f k v)) kvs) k = map_option (f k) (map_of kvs k)"
  by (induction kvs) auto

lemma map_fst_keyed [simp]: "map fst (map (\<lambda>(k, v). (k, f k v)) kvs) = map fst kvs"
  by (induction kvs) auto

lemma map_of_rev_Some: "k \<in> set (map fst kvs) \<Longrightarrow> \<exists>v. map_of (rev kvs) k = Some v"
  by (metis map_of_eq_None_iff not_None_eq set_map set_rev)

lemma go_map_keyed:
  "go_map (map (\<lambda>(k, v). (k, f k v)) kvs) = map (\<lambda>(k, v). (k, f k v)) (go_map kvs)"
proof -
  have "map_of (rev (map (\<lambda>(k, v). (k, f k v)) kvs)) k = map_option (f k) (map_of (rev kvs) k)" for k
    by (subst rev_map) (rule map_of_map_keyed)
  then have "go_map (map (\<lambda>(k, v). (k, f k v)) kvs) =
      map (\<lambda>k. (k, the (map_option (f k) (map_of (rev kvs) k)))) (sort (remdups (map fst kvs)))"
    by (simp only: go_map_def map_fst_keyed)
  also have "\<dots> = map (\<lambda>k. (k, f k (the (map_of (rev kvs) k)))) (sort (remdups (map fst kvs)))"
  proof (rule map_cong [OF refl])
    fix k assume "k \<in> set (sort (remdups (map fst kvs)))"
    then have "k \<in> set (map fst kvs)" by simp
    then obtain v where "map_of (rev kvs) k = Some v" using map_of_rev_Some by metis
    then show "(k, the (map_option (f k) (map_of (rev kvs) k))) = (k, f k (the (map_of (rev kvs) k)))" by simp
  qed
  also have "\<dots> = map (\<lambda>(k, v). (k, f k v)) (go_map kvs)" by (simp add: go_map_def)
  finally show ?thesis .
qed

lemma map_of_self: "map_of (map (\<lambda>k. (k, g k)) ks) k = (if k \<in> set ks then Some (g k) else None)"
  by (induction ks) auto

lemma go_map_idem [simp]: "go_map (go_map kvs) = go_map kvs"
proof -
  define ks where "ks = sort (remdups (map fst kvs))"
  have ks: "distinct ks" "sorted ks" "map fst (go_map kvs) = ks" by (simp_all add: ks_def go_map_def comp_def)
  have "map_of (rev (go_map kvs)) k = map_of (go_map kvs) k" for k
    using ks(1,3) map_of_inject_set [of "rev (go_map kvs)" "go_map kvs"] by (simp add: rev_map [symmetric])
  then have "the (map_of (rev (go_map kvs)) k) = the (map_of (rev kvs) k)" if "k \<in> set ks" for k
    using that by (simp add: go_map_def map_of_self ks_def)
  moreover have "sort (remdups (map fst (go_map kvs))) = ks" using ks by (simp add: distinct_remdups_id sorted_sort_id)
  ultimately show ?thesis unfolding go_map_def [of "go_map kvs"] by (simp add: go_map_def [of kvs] ks_def)
qed

lemma via_any_redact: "via_any rt (walkRedact d) = walkRedact (via_any rt d)"
proof (induction d rule: walkRedact.induct)
  case (1 kvs)
  have eq: "map (\<lambda>(k, v). (k, via_any rt v)) (map (\<lambda>(k, v). (k, if isSensitiveFieldName k then redacted else walkRedact v)) kvs) =
      map (\<lambda>(k, v). (k, if isSensitiveFieldName k then redacted else walkRedact v)) (map (\<lambda>(k, v). (k, via_any rt v)) kvs)"
    using 1 by (auto intro!: map_cong)
  show ?case by (simp only: via_any.simps walkRedact.simps go_map_keyed [symmetric] eq)
qed simp_all

lemma via_any_idem:
  assumes "\<And>t. rt (rt t) = rt t"
  shows "via_any rt (via_any rt d) = via_any rt d"
  using assms
proof (induction rt d rule: via_any.induct)
  case (3 rt kvs)
  then have eq: "map (\<lambda>(k, v). (k, via_any rt v)) (map (\<lambda>(k, v). (k, via_any rt v)) kvs) = map (\<lambda>(k, v). (k, via_any rt v)) kvs"
    by (auto intro!: map_cong)
  show ?case by (simp only: via_any.simps go_map_keyed [symmetric] eq go_map_idem)
qed simp_all

text \<open>What the recorder writes prints as it is, and is the same as what the caller sends.\<close>

lemma redactSensitive_idem:
  assumes "\<And>t. rt (rt t) = rt t"
  shows "via_any rt (redactSensitive rt d) = redactSensitive rt d"
  by (simp add: redactSensitive_def via_any_redact via_any_idem [OF assms])

definition holds_secret :: "number_text \<Rightarrow> string \<Rightarrow> params \<Rightarrow> bool" where
  "holds_secret rt method params \<longleftrightarrow>
     redactMethodParams rt method (wire_params params) \<noteq> via_any rt (wire_params params)"

lemma jsonEqual_recorded:
  assumes "\<And>t. rt (rt t) = rt t"
  shows "jsonEqual rt (wire_params params) (redactMethodParams rt meth (wire_params params)) \<longleftrightarrow>
    \<not> holds_secret rt meth params"
  by (auto simp: jsonEqual_def holds_secret_def redactMethodParams_def wire_params_def redactSensitive_idem [OF assms] comp_def)

section \<open>The file\<close>

definition int_code :: "interaction \<Rightarrow> bool" where
  "int_code i \<longleftrightarrow> (case in_error i of None \<Rightarrow> True | Some (code, msg) \<Rightarrow> int64_value code)"

text \<open>What the file keeps: absent parameters are read back as \<open>null\<close>.\<close>

definition from_file :: "interaction \<Rightarrow> interaction" where
  "from_file i = i\<lparr>in_params := Some (case in_params i of None \<Rightarrow> DNull | Some d \<Rightarrow> d)\<rparr>"

lemma lower_names:
  "to_lower ''method'' = ''method''" "to_lower ''params'' = ''params''" "to_lower ''result'' = ''result''"
  "to_lower ''error'' = ''error''" "to_lower ''upload'' = ''upload''" "to_lower ''code'' = ''code''"
  "to_lower ''message'' = ''message''" "to_lower ''truenas_version'' = ''truenas_version''"
  "to_lower ''recorded_at'' = ''recorded_at''" "to_lower ''interactions'' = ''interactions''"
  by code_simp+

lemma as_error_doc: "int64_value (fst e) \<Longrightarrow> as_error (Some (error_doc e)) = Some (Some e)"
  by (cases e) (simp add: error_doc_def member_def lower_names parse_format_int64 int64_value_def)

lemma as_interaction_doc:
  assumes "int_code i"
  shows "as_interaction (interaction_doc i) = Some (from_file i)"
proof -
  have "as_error (map_option error_doc (in_error i)) = Some (in_error i)"
    using assms as_error_doc by (cases "in_error i") (auto simp: int_code_def)
  then show ?thesis
    by (cases "in_result i"; cases "in_error i"; cases "in_upload i"; cases "in_params i")
      (simp_all add: as_interaction_def interaction_doc_def member_def lower_names from_file_def)
qed

lemma LoadCassette_SaveCassette:
  assumes "list_all int_code (cs_interactions c)"
  shows "LoadCassette (SaveCassette c) = Some (c\<lparr>cs_interactions := map from_file (cs_interactions c)\<rparr>)"
proof -
  have "those (map as_interaction (map interaction_doc is)) = Some (map from_file is)" if "list_all int_code is" for "is"
    using that by (induction "is") (simp_all add: as_interaction_doc)
  then show ?thesis
    using assms by (cases c) (simp add: LoadCassette_def SaveCassette_def member_def lower_names)
qed

section \<open>Replaying a recorded session\<close>

text \<open>What the recorder stores of an event, and what a replay of it gives.\<close>

fun stored :: "number_text \<Rightarrow> event \<Rightarrow> interaction" where
  "stored rt (EvCall method params fits r) =
     \<lparr>in_method = method, in_params = Some (redactMethodParams rt method (wire_params params)),
      in_result = recorded_result rt (fits \<noteq> None) r, in_error = recorded_error r, in_upload = False\<rparr>"
| "stored rt (EvUpload err) =
     \<lparr>in_method = ''filesystem.put'', in_params = None, in_result = None,
      in_error = map_option (\<lambda>text. (-1, text)) err, in_upload = True\<rparr>"

lemma record_session_stored:
  "cs_interactions (record_session rt es c) = cs_interactions c @ map (stored rt) es"
proof (induction es arbitrary: c)
  case (Cons e es)
  have "cs_interactions (record_event rt e c) = cs_interactions c @ [stored rt e]"
    by (cases e) (simp_all add: record_call_def record_upload_def)
  with Cons show ?case by (simp add: record_session_def)
qed (simp add: record_session_def)

fun expected :: "number_text \<Rightarrow> bool \<Rightarrow> event \<Rightarrow> fatal + seen" where
  "expected rt strict (EvUpload err) = Inr (UploadReturned err)"
| "expected rt strict (EvCall method params fits r) =
     (if strict \<and> holds_secret rt method params then Inl ParamsMismatch
      else case r of
        ApiReply code msg \<Rightarrow> Inr (Returned (Inl (code, msg)))
      | OtherReply text \<Rightarrow> Inr (Returned (Inl (-1, text)))
      | Answered d \<Rightarrow>
          (case fits of
             None \<Rightarrow> Inr (Returned (Inr None))
           | Some P \<Rightarrow> if P (redactSensitive rt d) then Inr (Returned (Inr (Some (redactSensitive rt d)))) else Inl BadResult))"

text \<open>The outcomes up to the first that ends the test.\<close>

fun until_fatal :: "(fatal + 'a) list \<Rightarrow> (fatal + 'a) list" where
  "until_fatal [] = []"
| "until_fatal (Inl f # os) = [Inl f]"
| "until_fatal (Inr v # os) = Inr v # until_fatal os"

lemma replay_event_expected:
  assumes "\<And>t. rt (rt t) = rt t"
    and "rp_cursor s < length (rp_interactions s)" and "rp_interactions s ! rp_cursor s = from_file (stored rt e)"
  shows "replay_event rt e s = (expected rt (rp_strict s) e, s\<lparr>rp_cursor := rp_cursor s + 1\<rparr>)"
proof (cases e)
  case (EvUpload err)
  with assms(2,3) show ?thesis by (cases err) (simp_all add: replay_upload_def from_file_def)
next
  case (EvCall meth params fits r)
  with assms(2,3) jsonEqual_recorded [OF assms(1), where meth = meth and params = params] show ?thesis
    by (cases r; cases fits) (auto simp: replay_call_def from_file_def recorded_result_def Let_def)
qed

lemma replay_session_expected:
  assumes idem: "\<And>t. rt (rt t) = rt t"
    and "rp_cursor s \<le> length (rp_interactions s)" and "drop (rp_cursor s) (rp_interactions s) = map (from_file \<circ> stored rt) es"
  shows "fst (replay_session rt es s) = until_fatal (map (expected rt (rp_strict s)) es) \<and>
    rp_interactions (snd (replay_session rt es s)) = rp_interactions s \<and>
    rp_cursor (snd (replay_session rt es s)) = rp_cursor s + length (fst (replay_session rt es s))"
  using assms(2,3)
proof (induction es arbitrary: s)
  case (Cons e es)
  have at: "rp_cursor s < length (rp_interactions s)" using Cons.prems by (cases "rp_cursor s = length (rp_interactions s)") auto
  then have d: "rp_interactions s ! rp_cursor s = from_file (stored rt e)"
    "drop (Suc (rp_cursor s)) (rp_interactions s) = map (from_file \<circ> stored rt) es"
    using Cons.prems(2) by (simp_all add: Cons_nth_drop_Suc [OF at, symmetric])
  let ?s = "s\<lparr>rp_cursor := rp_cursor s + 1\<rparr>"
  have IH: "fst (replay_session rt es ?s) = until_fatal (map (expected rt (rp_strict s)) es) \<and>
    rp_interactions (snd (replay_session rt es ?s)) = rp_interactions s \<and>
    rp_cursor (snd (replay_session rt es ?s)) = rp_cursor s + 1 + length (fst (replay_session rt es ?s))"
    using Cons.IH [of ?s] d(2) at by simp
  show ?case
    using IH replay_event_expected [OF idem at d(1)]
    by (cases "expected rt (rp_strict s) e") (simp_all add: split_beta)
qed simp

fun event_code :: "event \<Rightarrow> bool" where
  "event_code (EvCall method params fits (ApiReply code msg)) \<longleftrightarrow> int64_value code"
| "event_code _ \<longleftrightarrow> True"

lemma stored_code: "event_code e \<Longrightarrow> int_code (stored rt e)"
  by (cases e rule: event_code.cases) (auto simp: int_code_def int64_value_def split: option.splits)

text \<open>
  C34: a session that was recorded, saved and loaded replays as it went, up to redaction: every
  call returns its recorded outcome, an API error with its code and message, any other error as
  an API error with code -1, a value with its sensitive fields redacted; every upload returns its
  error; and everything is consumed. With strict parameters the first call that sent a secret ends
  the test, and a redacted value that does not fit the caller's type does, strict or not. (The
  hypothesis on numbers: a number that was printed is printed again as it is.)
\<close>

theorem replay_of_recording:
  assumes "\<And>t. rt (rt t) = rt t" and "list_all event_code es"
  shows "\<exists>c. LoadCassette (SaveCassette (record_session rt es (NewCassette now))) = Some c \<and>
    (case replay_session rt es (SetStrictParams strict (NewReplayTransport c)) of (os, s) \<Rightarrow>
       os = until_fatal (map (expected rt strict) es) \<and>
       (AssertAllConsumed s = None \<longleftrightarrow> length os = length es))"
proof -
  let ?c = "record_session rt es (NewCassette now)"
  let ?f = "?c\<lparr>cs_interactions := map from_file (cs_interactions ?c)\<rparr>"
  let ?s = "SetStrictParams strict (NewReplayTransport ?f)"
  have i: "cs_interactions ?c = map (stored rt) es" by (simp add: record_session_stored NewCassette_def)
  have "LoadCassette (SaveCassette ?c) = Some ?f"
    by (rule LoadCassette_SaveCassette) (use assms(2) stored_code in \<open>auto simp: i list_all_iff\<close>)
  moreover
  have "rp_interactions ?s = map (from_file \<circ> stored rt) es" "rp_cursor ?s = 0" "rp_strict ?s = strict"
    by (simp_all add: SetStrictParams_def NewReplayTransport_def i)
  then have run: "fst (replay_session rt es ?s) = until_fatal (map (expected rt strict) es)"
    "rp_interactions (snd (replay_session rt es ?s)) = map (from_file \<circ> stored rt) es"
    "rp_cursor (snd (replay_session rt es ?s)) = length (fst (replay_session rt es ?s))"
    using replay_session_expected [OF assms(1), of ?s es] by simp_all
  have "length (until_fatal os) \<le> length os" for os :: "(fatal + seen) list"
    by (induction os rule: until_fatal.induct) auto
  from this [of "map (expected rt strict) es"]
  have "AssertAllConsumed (snd (replay_session rt es ?s)) = None \<longleftrightarrow> length (fst (replay_session rt es ?s)) = length es"
    unfolding AssertAllConsumed_def run by auto
  ultimately show ?thesis using run(1) by (intro exI [of _ ?f]) (simp only: split_beta simp_thms)
qed

text \<open>A session with a login, a version, an encrypted zvol, a missing VM and a failed upload.\<close>

definition trim_zero :: number_text where
  "trim_zero t = (if t = ''2.50'' then ''2.5'' else t)"

definition is_text :: "doc \<Rightarrow> bool" where
  "is_text d = (case d of DStr s \<Rightarrow> True | _ \<Rightarrow> False)"

definition demo_session :: "string \<Rightarrow> string \<Rightarrow> event list" where
  "demo_session key pass =
     [EvCall ''auth.login_with_api_key'' (StringSlice [key]) None (Answered (DBool True)),
      EvCall ''system.version'' NilParams (Some is_text) (Answered (DStr ''25.10'')),
      EvCall ''pool.dataset.create'' (OtherParams (JObj [(''name'', JStr ''z''), (''encryption_options'', JObj [(''passphrase'', JStr pass)])]))
        (Some (\<lambda>_. True)) (Answered (DObj [(''size'', DNum ''2.50''), (''org.omni:passphrase'', DStr pass), (''name'', DStr ''z'')])),
      EvCall ''vm.query'' NilParams (Some (\<lambda>_. True)) (ApiReply 2 ''not found''),
      EvUpload (Some ''broken pipe'')]"

lemma demo_names:
  "isSensitiveFieldName ''passphrase''" "isSensitiveFieldName ''org.omni:passphrase''"
  "\<not> isSensitiveFieldName ''name''" "\<not> isSensitiveFieldName ''size''" "\<not> isSensitiveFieldName ''encryption_options''"
  by code_simp+

lemma redact_string: "redactSensitive rt (DStr s) = DStr s"
  by (simp add: redactSensitive_def)

lemma demo_created:
  "redactSensitive trim_zero (DObj [(''size'', DNum ''2.50''), (''org.omni:passphrase'', DStr pass), (''name'', DStr ''z'')]) =
     DObj [(''name'', DStr ''z''), (''org.omni:passphrase'', redacted), (''size'', DNum ''2.5'')]"
  by (simp add: redactSensitive_def go_map_def demo_names trim_zero_def)

lemma demo_secrets:
  "holds_secret trim_zero ''pool.dataset.create''
     (OtherParams (JObj [(''name'', JStr ''z''), (''encryption_options'', JObj [(''passphrase'', JStr pass)])])) \<longleftrightarrow> pass \<noteq> ''[REDACTED]''"
  "\<not> holds_secret trim_zero ''system.version'' NilParams"
  by (auto simp: holds_secret_def redactMethodParams_def sensitiveMethods_def wire_params_def redactSensitive_def go_map_def demo_names)

lemma demo_expected:
  "until_fatal (map (expected trim_zero False) (demo_session ''k1'' ''p1'')) =
     [Inr (Returned (Inr None)), Inr (Returned (Inr (Some (DStr ''25.10'')))),
      Inr (Returned (Inr (Some (DObj [(''name'', DStr ''z''), (''org.omni:passphrase'', redacted), (''size'', DNum ''2.5'')])))),
      Inr (Returned (Inl (2, ''not found''))), Inr (UploadReturned (Some ''broken pipe''))]"
  "until_fatal (map (expected trim_zero True) (tl (demo_session ''k1'' ''p1''))) =
     [Inr (Returned (Inr (Some (DStr ''25.10'')))), Inl ParamsMismatch]"
  by (simp_all add: demo_session_def demo_created demo_secrets is_text_def redact_string)

theorem replay_witness:
  "\<exists>c. LoadCassette (SaveCassette (record_session trim_zero (demo_session ''k1'' ''p1'') (NewCassette ''2026-01-01T00:00:00Z''))) = Some c \<and>
    (case replay_session trim_zero (demo_session ''k1'' ''p1'') (SetStrictParams False (NewReplayTransport c)) of (os, s) \<Rightarrow>
       os = [Inr (Returned (Inr None)), Inr (Returned (Inr (Some (DStr ''25.10'')))),
         Inr (Returned (Inr (Some (DObj [(''name'', DStr ''z''), (''org.omni:passphrase'', redacted), (''size'', DNum ''2.5'')])))),
         Inr (Returned (Inl (2, ''not found''))), Inr (UploadReturned (Some ''broken pipe''))] \<and>
       AssertAllConsumed s = None)"
proof -
  have idem: "trim_zero (trim_zero t) = trim_zero t" for t by (simp add: trim_zero_def)
  have codes: "list_all event_code (demo_session ''k1'' ''p1'')" by (simp add: demo_session_def int64_value_def)
  have len: "length (demo_session ''k1'' ''p1'') = 5" by (simp add: demo_session_def)
  obtain c where c: "LoadCassette (SaveCassette (record_session trim_zero (demo_session ''k1'' ''p1'') (NewCassette ''2026-01-01T00:00:00Z''))) = Some c \<and>
    (case replay_session trim_zero (demo_session ''k1'' ''p1'') (SetStrictParams False (NewReplayTransport c)) of (os, s) \<Rightarrow>
       os = until_fatal (map (expected trim_zero False) (demo_session ''k1'' ''p1'')) \<and>
       (AssertAllConsumed s = None \<longleftrightarrow> length os = length (demo_session ''k1'' ''p1'')))"
    using replay_of_recording [where rt = trim_zero and strict = False, OF idem codes] by (rule exE)
  note c = conjunct1 [OF c] conjunct2 [OF c]
  obtain os s where run: "replay_session trim_zero (demo_session ''k1'' ''p1'') (SetStrictParams False (NewReplayTransport c)) = (os, s)"
    by (metis prod.exhaust)
  with c(2) have "os = until_fatal (map (expected trim_zero False) (demo_session ''k1'' ''p1''))" "AssertAllConsumed s = None \<longleftrightarrow> length os = 5"
    by (simp_all only: prod.case len)
  moreover from this(1) have "length os = 5" by (simp add: demo_expected)
  ultimately show ?thesis unfolding demo_expected using c(1) run by (intro exI [of _ c] conjI) (simp_all only: prod.case)
qed

section \<open>What a cassette tells of a secret\<close>

text \<open>Two texts that differ at most in the values of sensitive fields, at any depth.\<close>

inductive alike :: "doc \<Rightarrow> doc \<Rightarrow> bool" where
  same: "alike d d"
| array: "list_all2 alike xs ys \<Longrightarrow> alike (DArr xs) (DArr ys)"
| object: "list_all2 (\<lambda>p q. fst p = fst q \<and> (isSensitiveFieldName (fst p) \<or> alike (snd p) (snd q))) kvs kvs' \<Longrightarrow> alike (DObj kvs) (DObj kvs')"
  monos list_all2_mono

lemma alike_redact: "alike d e \<Longrightarrow> walkRedact d = walkRedact e"
proof (induction rule: alike.induct)
  case (array xs ys)
  then show ?case by (auto simp: list_all2_conv_all_nth intro!: nth_equalityI)
next
  case (object kvs kvs')
  then show ?case by (fastforce simp: list_all2_conv_all_nth split_beta intro!: nth_equalityI)
qed simp

lemma alike_redactSensitive: "alike d e \<Longrightarrow> redactSensitive rt d = redactSensitive rt e"
  using alike_redact [of d e] by (simp add: redactSensitive_def via_any_redact [symmetric])

lemma alike_string: "alike d e \<Longrightarrow> (\<exists>s. d = DStr s \<or> e = DStr s) \<Longrightarrow> d = e"
  by (induction rule: alike.induct) auto

text \<open>
  Two events that differ at most in secrets: any parameters of a method whose parameters are
  secret, the values of sensitive fields elsewhere, and results that the caller did not ask for.
\<close>

fun reply_alike :: "bool \<Rightarrow> reply \<Rightarrow> reply \<Rightarrow> bool" where
  "reply_alike wants (Answered d) (Answered e) \<longleftrightarrow> (wants \<longrightarrow> alike d e)"
| "reply_alike wants r r' \<longleftrightarrow> r = r'"

fun event_alike :: "event \<Rightarrow> event \<Rightarrow> bool" where
  "event_alike (EvCall method params fits r) (EvCall method' params' fits' r') \<longleftrightarrow>
     method = method' \<and> (fits = None \<longleftrightarrow> fits' = None) \<and>
     (if method \<in> set sensitiveMethods then length (NormalizeParams params) = length (NormalizeParams params')
      else alike (wire_params params) (wire_params params')) \<and>
     reply_alike (fits \<noteq> None) r r'"
| "event_alike (EvUpload err) (EvUpload err') \<longleftrightarrow> err = err'"
| "event_alike _ _ \<longleftrightarrow> False"

lemma record_event_alike:
  assumes "event_alike e f"
  shows "record_event rt e c = record_event rt f c"
proof (cases e)
  case (EvUpload err)
  with assms show ?thesis by (cases f) auto
next
  case (EvCall meth params fits r)
  with assms obtain params' fits' r' where f: "f = EvCall meth params' fits' r'" "fits = None \<longleftrightarrow> fits' = None"
    "reply_alike (fits \<noteq> None) r r'"
    and p: "if meth \<in> set sensitiveMethods then length (NormalizeParams params) = length (NormalizeParams params')
      else alike (wire_params params) (wire_params params')"
    by (cases f) auto
  have "redactMethodParams rt meth (wire_params params) = redactMethodParams rt meth (wire_params params')"
    using p by (auto simp: redactMethodParams_def wire_params_def comp_def map_replicate_const alike_redactSensitive split: if_splits)
  moreover have "recorded_result rt (fits \<noteq> None) r = recorded_result rt (fits' \<noteq> None) r'" "recorded_error r = recorded_error r'"
    using f(2,3) by (cases r; cases r'; auto simp: recorded_result_def alike_redactSensitive)+
  moreover have "recorded_version meth (fits \<noteq> None) r v = recorded_version meth (fits' \<noteq> None) r' v" for v
    using f(2,3) alike_string by (cases r; cases r') (auto simp: recorded_version_def split: doc.splits)
  ultimately show ?thesis unfolding EvCall f(1) by (simp add: record_call_def)
qed


text \<open>The result of \<open>auth.generate_token\<close> is a token, and is recorded as it is.\<close>

lemma generated_token_recorded:
  "in_result (stored rt (EvCall ''auth.generate_token'' params (Some P) (Answered (DStr token)))) = Some (DStr token)"
  by (simp add: recorded_result_def redactSensitive_def)


end
