(* ===== verification/Probe.thy ===== *)
theory Probe
  imports Settings Cassette
begin

text \<open>
  The role check (scripts/verify-api-key-roles/main.go): a program for operators that calls every
  API method the provider uses with a key, and reports which roles the key lacks. It creates a
  dataset and a virtual machine of its own and deletes them at its end.
\<close>

section \<open>Requests\<close>

record probe_result =
  pr_method :: string
  pr_role :: string
  pr_err :: "string option"

text \<open>
  \<open>Rpc\<close> writes a request with its number and reads the next frame, whatever its number is.
  \<open>PostFile\<close> posts a file to \<open>https://host/_upload/\<close>; its client follows no redirects.
  \<open>PickNIC\<close> is the first key of a range over a map. A report has its rows and the missing
  roles.
\<close>

type_synonym printed_row = "string \<times> string \<times> string \<times> string"

datatype probe_op =
    OpenSocket string string bool
  | CloseSocket
  | Rpc nat string "json list"
  | PostFile string string json bool
  | UnixNow
  | PickNIC "string list"
  | PrintReport "printed_row list" "string list"

datatype probe_answer =
    Opened
  | Replied doc
  | Errored string
  | HttpStatus int string
  | Stamp int
  | Picked nat
  | Printed

type_synonym probe_env = "(probe_op, probe_answer) env"
type_synonym 'a probe = "(probe_op, probe_answer, nat, 'a) prog"

fun rpc_result :: "probe_answer \<Rightarrow> string + doc" where
  "rpc_result (Replied d) = Inr d"
| "rpc_result (Errored e) = Inl e"
| "rpc_result _ = Inl []"

text \<open>The process keeps the number of the last request.\<close>

definition probe_call :: "probe_env \<Rightarrow> string \<Rightarrow> params \<Rightarrow> (string + doc) probe" where
  "probe_call env method params = do {
     modify_proc Suc;
     n \<leftarrow> get_proc;
     a \<leftarrow> ask env (Rpc n method (NormalizeParams params));
     ret (rpc_result a) }"

text \<open>The \<open>id\<close> of a created object, 0 without one. Ids are integers.\<close>

definition id_of :: "doc \<Rightarrow> int" where
  "id_of d =
     (case as_object d of
        None \<Rightarrow> 0
      | Some kvs \<Rightarrow> (case member ''id'' kvs of Some (DNum t) \<Rightarrow> (case parse_int64 t of Some n \<Rightarrow> n | None \<Rightarrow> 0) | _ \<Rightarrow> 0))"

section \<open>Verdicts\<close>

definition isAuthError :: "string \<Rightarrow> bool" where
  "isAuthError err =
     list_ex (contains (to_lower err))
       [''not authorized'', ''not allowed'', ''permission'', ''forbidden'', ''unauthorized'', ''missing role'', ''access denied'']"

definition probe_status :: "probe_result \<Rightarrow> string" where
  "probe_status r =
     (case pr_err r of None \<Rightarrow> ''PASS'' | Some e \<Rightarrow> if isAuthError e then ''DENIED'' else ''FAIL'')"

definition truncate_text :: "string \<Rightarrow> nat \<Rightarrow> string" where
  "truncate_text s n = (if length s \<le> n then s else take n s @ ''...'')"

definition report_row :: "probe_result \<Rightarrow> printed_row" where
  "report_row r =
     (pr_method r, pr_role r, probe_status r, case pr_err r of None \<Rightarrow> [] | Some e \<Rightarrow> truncate_text e 50)"

text \<open>With no missing role the report says that all 13 required roles are present.\<close>

definition printReport :: "probe_env \<Rightarrow> probe_result list \<Rightarrow> probe_answer probe" where
  "printReport env results =
     ask env (PrintReport (map report_row results)
       (remdups (map pr_role (filter (\<lambda>r. probe_status r = ''DENIED'') results))))"

definition summary :: "probe_result list \<Rightarrow> nat" where
  "summary results = (if list_ex (\<lambda>r. pr_err r \<noteq> None) results then 1 else 0)"

section \<open>The probes\<close>

text \<open>A call and the row that \<open>add\<close> makes of it.\<close>

definition probe_one :: "probe_env \<Rightarrow> string \<Rightarrow> string \<Rightarrow> params \<Rightarrow> probe_result probe" where
  "probe_one env method role params = do {
     r \<leftarrow> probe_call env method params;
     ret \<lparr>pr_method = method, pr_role = role, pr_err = (case r of Inl e \<Rightarrow> Some e | Inr d \<Rightarrow> None)\<rparr> }"

definition probe_reads :: "string \<Rightarrow> (string \<times> string \<times> params) list" where
  "probe_reads pool =
     [(''system.version'', ''READONLY_ADMIN'', NilParams),
      (''pool.query'', ''POOL_READ'', NilParams),
      (''pool.dataset.query'', ''DATASET_READ'', NilParams),
      (''disk.query'', ''DISK_READ'', NilParams),
      (''interface.query'', ''NETWORK_INTERFACE_READ'', NilParams),
      (''filesystem.stat'', ''FILESYSTEM_ATTRS_READ'', AnySlice [JStr (''/mnt/'' @ pool)]),
      (''filesystem.listdir'', ''FILESYSTEM_ATTRS_READ'', AnySlice [JStr (''/mnt/'' @ pool)]),
      (''vm.query'', ''VM_READ'', NilParams),
      (''vm.device.query'', ''VM_DEVICE_READ'', NilParams),
      (''vm.device.nic_attach_choices'', ''VM_DEVICE_READ'', NilParams)]"

fun probe_each :: "probe_env \<Rightarrow> (string \<times> string \<times> params) list \<Rightarrow> probe_result list probe" where
  "probe_each env [] = ret []"
| "probe_each env ((method, role, params) # rs) = do {
     r \<leftarrow> probe_one env method role params;
     rest \<leftarrow> probe_each env rs;
     ret (r # rest) }"

definition probeReadMethods :: "probe_env \<Rightarrow> string \<Rightarrow> probe_result list probe" where
  "probeReadMethods env pool = probe_each env (probe_reads pool)"

fun upload_error :: "probe_answer \<Rightarrow> string option" where
  "upload_error (HttpStatus code msg) =
     (if 400 \<le> code then Some (''upload HTTP '' @ format_int code @ '': '' @ trim_space msg) else None)"
| "upload_error (Errored e) = Some e"
| "upload_error _ = Some []"

definition upload_envelope :: "string \<Rightarrow> json" where
  "upload_envelope destPath =
     JObj [(''method'', JStr ''filesystem.put''), (''params'', JArr [JStr destPath, JObj [(''mode'', JInt 493)]])]"

definition uploadFile :: "probe_env \<Rightarrow> string \<Rightarrow> string \<Rightarrow> bool \<Rightarrow> string \<Rightarrow> string option probe" where
  "uploadFile env host bearer insecure destPath =
     (case ValidateHost host of
        Inl e \<Rightarrow> ret (Some ''refusing to send Bearer token to unvalidated TRUENAS_HOST'')
      | Inr u \<Rightarrow> do {
          a \<leftarrow> ask env (PostFile host bearer (upload_envelope destPath) insecure);
          ret (upload_error a) })"

text \<open>
  The dataset's part: the rows, and the dataset that the deferred deletion is for, if it was
  created. The machine's part likewise.
\<close>

definition probe_dataset_name :: "string \<Rightarrow> int \<Rightarrow> string" where
  "probe_dataset_name pool ts = pool @ ''/omni-role-probe-'' @ format_int ts"

definition probe_dataset :: "probe_env \<Rightarrow> string \<Rightarrow> string \<Rightarrow> bool \<Rightarrow> string \<Rightarrow> int \<Rightarrow> (probe_result list \<times> string option) probe" where
  "probe_dataset env host bearer insecure pool ts =
     (let ds = probe_dataset_name pool ts in do {
        c \<leftarrow> probe_one env ''pool.dataset.create'' ''DATASET_WRITE'' (OtherParams (JObj [(''name'', JStr ds)]));
        if pr_err c \<noteq> None then ret ([c], None)
        else do {
          u \<leftarrow> probe_one env ''pool.dataset.update'' ''DATASET_WRITE'' (AnySlice [JStr ds, JObj [(''comments'', JStr ''role probe'')]]);
          f \<leftarrow> uploadFile env host bearer insecure (''/mnt/'' @ ds @ ''/probe.txt'');
          d \<leftarrow> probe_one env ''pool.dataset.delete'' ''DATASET_DELETE'' (AnySlice [JStr ds, JObj [(''recursive'', JBool True)]]);
          ret ([c, u, \<lparr>pr_method = ''filesystem.put (via /_upload)'', pr_role = ''FILESYSTEM_DATA_WRITE'', pr_err = f\<rparr>, d], Some ds) } })"

text \<open>\<open>Unmarshal\<close> into a map of strings.\<close>

definition string_map :: "doc \<Rightarrow> string list option" where
  "string_map d =
     (case as_object d of
        None \<Rightarrow> None
      | Some kvs \<Rightarrow> if list_all (\<lambda>(k, v). as_string (Some v) \<noteq> None) kvs then Some (remdups (map fst kvs)) else None)"

fun picked :: "string list \<Rightarrow> probe_answer \<Rightarrow> string" where
  "picked names (Picked n) = names ! (n mod length names)"
| "picked names _ = hd names"

definition probe_nic :: "probe_env \<Rightarrow> string probe" where
  "probe_nic env = do {
     c \<leftarrow> probe_call env ''vm.device.nic_attach_choices'' NilParams;
     case c of
       Inl e \<Rightarrow> ret ''br0''
     | Inr d \<Rightarrow>
         (case string_map d of
            None \<Rightarrow> ret ''br0''
          | Some names \<Rightarrow> if names = [] then ret ''br0'' else do { a \<leftarrow> ask env (PickNIC names); ret (picked names a) }) }"

definition nic_attributes :: "string \<Rightarrow> json" where
  "nic_attributes nic = JObj [(''dtype'', JStr ''NIC''), (''type'', JStr ''VIRTIO''), (''nic_attach'', JStr nic)]"

definition probe_device :: "probe_env \<Rightarrow> int \<Rightarrow> probe_result list probe" where
  "probe_device env vmID = do {
     nic \<leftarrow> probe_nic env;
     c \<leftarrow> probe_call env ''vm.device.create''
        (OtherParams (JObj [(''vm'', JInt vmID), (''order'', JInt 3000), (''attributes'', nic_attributes nic)]));
     case c of
       Inl e \<Rightarrow> ret [\<lparr>pr_method = ''vm.device.create'', pr_role = ''VM_DEVICE_WRITE'', pr_err = Some e\<rparr>]
     | Inr d \<Rightarrow>
         let made = \<lparr>pr_method = ''vm.device.create'', pr_role = ''VM_DEVICE_WRITE'', pr_err = None\<rparr> in
         if 0 < id_of d then do {
           u \<leftarrow> probe_one env ''vm.device.update'' ''VM_DEVICE_WRITE'' (AnySlice [JInt (id_of d), JObj [(''attributes'', nic_attributes ''br0'')]]);
           x \<leftarrow> probe_one env ''vm.device.delete'' ''VM_DEVICE_WRITE'' (AnySlice [JInt (id_of d)]);
           ret [made, u, x] }
         else ret [made] }"

definition vm_params :: "int \<Rightarrow> json" where
  "vm_params ts = JObj
     [(''name'', JStr (''omniroleprobe'' @ format_int ts)),
      (''description'', JStr (''omni-infra-provider role probe '' @ map char_of [226, 128, 148 :: nat] @ '' safe to delete'')),
      (''vcpus'', JInt 1), (''cores'', JInt 1), (''threads'', JInt 1), (''memory'', JInt 256),
      (''bootloader'', JStr ''UEFI''), (''autostart'', JBool False), (''time'', JStr ''LOCAL'')]"

definition probe_vm :: "probe_env \<Rightarrow> int \<Rightarrow> (probe_result list \<times> int option) probe" where
  "probe_vm env ts = do {
     c \<leftarrow> probe_call env ''vm.create'' (OtherParams (vm_params ts));
     case c of
       Inl e \<Rightarrow> ret ([\<lparr>pr_method = ''vm.create'', pr_role = ''VM_WRITE'', pr_err = Some e\<rparr>], None)
     | Inr d \<Rightarrow>
         let made = \<lparr>pr_method = ''vm.create'', pr_role = ''VM_WRITE'', pr_err = None\<rparr> in
         if 0 < id_of d then do {
           u \<leftarrow> probe_one env ''vm.update'' ''VM_WRITE'' (AnySlice [JInt (id_of d), JObj [(''description'', JStr ''updated'')]]);
           g \<leftarrow> probe_one env ''vm.get_instance'' ''VM_READ'' (AnySlice [JInt (id_of d)]);
           s \<leftarrow> probe_one env ''vm.stop'' ''VM_WRITE'' (AnySlice [JInt (id_of d), JObj [(''force'', JBool True)]]);
           devs \<leftarrow> probe_device env (id_of d);
           ret ([made, u, g, s] @ devs, Some (id_of d)) }
         else ret ([made], None) }"

section \<open>The program\<close>

text \<open>The environment variable of the insecure mode is read as the provider reads it.\<close>

definition parseInsecureSkipVerify :: "variables \<Rightarrow> bool" where
  "parseInsecureSkipVerify v =
     (if v ''TRUENAS_INSECURE_SKIP_VERIFY'' = [] then False
      else case ParseBool (v ''TRUENAS_INSECURE_SKIP_VERIFY'') of None \<Rightarrow> False | Some b \<Rightarrow> b)"

definition dialProbeWebSocket :: "probe_env \<Rightarrow> string \<Rightarrow> bool \<Rightarrow> bool probe" where
  "dialProbeWebSocket env host insecure = do {
     a \<leftarrow> ask env (OpenSocket host ''/api/current'' insecure);
     if a = Opened then ret True
     else do { b \<leftarrow> ask env (OpenSocket host ''/websocket'' insecure); ret (b = Opened) } }"

text \<open>
  The end of \<open>main\<close>: \<open>os.Exit\<close> runs no deferred call, a return runs them in the reverse
  order.
\<close>

definition probe_finish :: "probe_env \<Rightarrow> probe_result list \<Rightarrow> string option \<Rightarrow> int option \<Rightarrow> nat probe" where
  "probe_finish env results ds vm = do {
     p \<leftarrow> printReport env results;
     if summary results \<noteq> 0 then ret 1
     else do {
       x \<leftarrow> (case vm of None \<Rightarrow> ret () | Some i \<Rightarrow> do { r \<leftarrow> probe_call env ''vm.delete'' (AnySlice [JInt i]); ret () });
       y \<leftarrow> (case ds of None \<Rightarrow> ret () | Some d \<Rightarrow> do { r \<leftarrow> probe_call env ''pool.dataset.delete'' (AnySlice [JStr d]); ret () });
       c \<leftarrow> ask env CloseSocket;
       ret 0 } }"

definition probe_all :: "probe_env \<Rightarrow> string \<Rightarrow> string \<Rightarrow> bool \<Rightarrow> string \<Rightarrow> nat probe" where
  "probe_all env host bearer insecure pool = do {
     reads \<leftarrow> probeReadMethods env pool;
     t \<leftarrow> ask env UnixNow;
     let ts = (case t of Stamp s \<Rightarrow> s | _ \<Rightarrow> 0);
     (dss, ds) \<leftarrow> probe_dataset env host bearer insecure pool ts;
     (vms, vm) \<leftarrow> probe_vm env ts;
     probe_finish env (reads @ dss @ vms) ds vm }"

definition main_probe :: "probe_env \<Rightarrow> variables \<Rightarrow> nat probe" where
  "main_probe env v =
     (let host = v ''TRUENAS_HOST''; apiKey = v ''TRUENAS_API_KEY''; pool = v ''TRUENAS_POOL'' in
      if host = [] \<or> apiKey = [] \<or> pool = [] then ret 2
      else case ValidateHost host of
        Inl e \<Rightarrow> ret 2
      | Inr u \<Rightarrow> do {
          conn \<leftarrow> dialProbeWebSocket env host (parseInsecureSkipVerify v);
          if \<not> conn then ret 1
          else do {
            a \<leftarrow> probe_call env ''auth.login_with_api_key'' (StringSlice [apiKey]);
            case a of
              Inl e \<Rightarrow> do { c \<leftarrow> ask env CloseSocket; ret 1 }
            | Inr d \<Rightarrow> probe_all env host (''Bearer '' @ apiKey) (parseInsecureSkipVerify v) pool } })"

section \<open>What is left behind\<close>

type_synonym probe_history = "(probe_op \<times> probe_answer) list"

text \<open>The machines that were created, the machines whose deletion was asked, and the reports.\<close>

fun vm_made :: "probe_op \<times> probe_answer \<Rightarrow> int list" where
  "vm_made (Rpc n method ps, Replied d) = (if method = ''vm.create'' \<and> 0 < id_of d then [id_of d] else [])"
| "vm_made _ = []"

fun vm_dropped :: "probe_op \<times> probe_answer \<Rightarrow> json list list" where
  "vm_dropped (Rpc n method ps, a) = (if method = ''vm.delete'' then [ps] else [])"
| "vm_dropped _ = []"

fun reported :: "probe_op \<times> probe_answer \<Rightarrow> printed_row list list" where
  "reported (PrintReport rows missing, a) = [rows]"
| "reported _ = []"

abbreviation gathered :: "(probe_op \<times> probe_answer \<Rightarrow> 'a list) \<Rightarrow> probe_history \<Rightarrow> 'a list" where
  "gathered f h \<equiv> concat (map f h)"

definition passed :: "printed_row list \<Rightarrow> bool" where
  "passed rows \<longleftrightarrow> list_all (\<lambda>(method, role, status, err). status = ''PASS'') rows"

text \<open>The requests that neither make nor delete a machine nor report.\<close>

definition plain :: "probe_op \<Rightarrow> bool" where
  "plain q \<longleftrightarrow> (case q of
     Rpc n method ps \<Rightarrow> method \<noteq> ''vm.create'' \<and> method \<noteq> ''vm.delete'' | PrintReport rows missing \<Rightarrow> False | _ \<Rightarrow> True)"

definition at_probe :: "int list \<Rightarrow> probe_history \<Rightarrow> bool" where
  "at_probe vms h \<longleftrightarrow> gathered vm_made h = vms \<and> gathered vm_dropped h = [] \<and> gathered reported h = []"

lemma plain_gathers:
  assumes "\<And>q a. (q, a) \<in> set es \<Longrightarrow> plain q"
  shows "gathered vm_made es = []" "gathered vm_dropped es = []" "gathered reported es = []"
proof -
  have one: "vm_made (q, a) = [] \<and> vm_dropped (q, a) = [] \<and> reported (q, a) = []" if "(q, a) \<in> set es" for q a
    using assms [OF that] by (cases q; cases a) (simp_all add: plain_def)
  then show "gathered vm_made es = []" "gathered vm_dropped es = []" "gathered reported es = []" by auto
qed

lemma safe_unrelated:
  assumes "emits (\<lambda>q r. plain q) m"
  shows "safe anything (at_probe vms) m (\<lambda>_. at_probe vms)"
proof (rule safeI)
  fix w a w'
  assume "at_probe vms (w_hist w)" and run: "run_state m w = (a, w')"
  moreover obtain es where "w_hist w' = w_hist w @ es" "\<And>q r. (q, r) \<in> set es \<Longrightarrow> plain q" using emitsD [OF assms run] by blast
  ultimately show "guarded anything (w_hist w') \<and> at_probe vms (w_hist w')"
    using plain_gathers [of es] by (simp add: at_probe_def guarded_def)
qed

lemma plain_simps [simp]:
  "plain (Rpc n method ps) \<longleftrightarrow> method \<noteq> ''vm.create'' \<and> method \<noteq> ''vm.delete''"
  "plain (OpenSocket host path b)" "plain CloseSocket" "plain (PostFile host bearer body b)" "plain UnixNow" "plain (PickNIC names)"
  by (simp_all add: plain_def)

lemma emits_probe_call: "(\<And>n r. P (Rpc n method (NormalizeParams params)) r) \<Longrightarrow> emits P (probe_call env method params)"
  unfolding probe_call_def by (intro emits_intros)

lemma emits_probe_one: "(\<And>n r. P (Rpc n method (NormalizeParams params)) r) \<Longrightarrow> emits P (probe_one env method role params)"
  unfolding probe_one_def by (intro emits_intros emits_probe_call)

lemma emits_probe_each:
  "(\<And>meth role params n r. (meth, role, params) \<in> set rs \<Longrightarrow> P (Rpc n meth (NormalizeParams params)) r) \<Longrightarrow> emits P (probe_each env rs)"
proof (induction rs rule: probe_each.induct)
  case (2 env meth role params rs)
  have "emits P (probe_each env rs)" by (rule "2.IH", erule "2.prems" [OF list.set_intros(2)])
  moreover have "P (Rpc n meth (NormalizeParams params)) r" for n r by (rule "2.prems" [of meth role params]) simp
  ultimately show ?case by (auto intro!: emits_intros emits_probe_one)
qed (simp add: emits_ret)

lemma plain_parts:
  "emits (\<lambda>q r. plain q) (probeReadMethods env pool)"
  "emits (\<lambda>q r. plain q) (probe_dataset env host bearer insecure pool ts)"
  "emits (\<lambda>q r. plain q) (probe_device env i)"
  "emits (\<lambda>q r. plain q) (dialProbeWebSocket env host insecure)"
  unfolding probeReadMethods_def probe_dataset_def probe_device_def probe_nic_def dialProbeWebSocket_def uploadFile_def
  by (auto simp: probe_reads_def split: sum.splits option.splits
      intro!: emits_intros emits_probe_each emits_probe_one emits_probe_call)

lemma safe_probe_call:
  assumes "\<And>h n. E h \<Longrightarrow> G h (Rpc n method (NormalizeParams params))"
    and "\<And>h n. E h \<Longrightarrow> Q (rpc_result (env h (Rpc n method (NormalizeParams params))))
      (h @ [(Rpc n method (NormalizeParams params), env h (Rpc n method (NormalizeParams params)))])"
  shows "safe G E (probe_call env method params) Q"
  by (rule safeI) (use assms in \<open>auto simp: probe_call_def\<close>)

lemma safe_probe_vm:
  "safe anything (at_probe []) (probe_vm env ts) (\<lambda>(rs, vm). at_probe (case vm of None \<Rightarrow> [] | Some i \<Rightarrow> [i]))"
proof -
  let ?R = "\<lambda>r. at_probe (case r of Inl e \<Rightarrow> [] | Inr d \<Rightarrow> if 0 < id_of d then [id_of d] else [])"
  have create: "safe anything (at_probe []) (probe_call env ''vm.create'' (OtherParams (vm_params ts))) ?R"
  proof (rule safe_probe_call)
    fix h n assume h: "at_probe [] h"
    let ?q = "Rpc n ''vm.create'' (NormalizeParams (OtherParams (vm_params ts)))"
    show "?R (rpc_result (env h ?q)) (h @ [(?q, env h ?q)])"
      using h by (cases "env h ?q") (simp_all add: at_probe_def)
  qed simp
  have kept: "safe anything (at_probe vms) (probe_one env meth role params) (\<lambda>_. at_probe vms)"
    if "meth \<notin> {''vm.create'', ''vm.delete''}" for vms meth role params
    by (rule safe_unrelated) (use that in \<open>auto intro: emits_probe_one\<close>)
  show ?thesis
    unfolding probe_vm_def
  proof (rule safe_bind [OF create])
    fix c :: "string + doc"
    show "safe anything (?R c) (case c of
        Inl e \<Rightarrow> ret ([\<lparr>pr_method = ''vm.create'', pr_role = ''VM_WRITE'', pr_err = Some e\<rparr>], None)
      | Inr d \<Rightarrow>
         let made = \<lparr>pr_method = ''vm.create'', pr_role = ''VM_WRITE'', pr_err = None\<rparr> in
         if 0 < id_of d then do {
           u \<leftarrow> probe_one env ''vm.update'' ''VM_WRITE'' (AnySlice [JInt (id_of d), JObj [(''description'', JStr ''updated'')]]);
           g \<leftarrow> probe_one env ''vm.get_instance'' ''VM_READ'' (AnySlice [JInt (id_of d)]);
           s \<leftarrow> probe_one env ''vm.stop'' ''VM_WRITE'' (AnySlice [JInt (id_of d), JObj [(''force'', JBool True)]]);
           devs \<leftarrow> probe_device env (id_of d);
           ret ([made, u, g, s] @ devs, Some (id_of d)) }
         else ret ([made], None)) (\<lambda>(rs, vm). at_probe (case vm of None \<Rightarrow> [] | Some i \<Rightarrow> [i]))"
    proof (cases c)
      case (Inr d)
      show ?thesis
        unfolding Inr Let_def sum.case
        by (rule safe_if; ((rule safe_bind [OF kept], simp) | rule safe_bind [OF safe_unrelated [OF plain_parts(3)]] safe_ret)+) auto
    qed (auto intro: safe_ret)
  qed
qed

lemma passed_report: "passed (map report_row results) \<longleftrightarrow> summary results = 0"
proof -
  have "probe_status r = ''PASS'' \<longleftrightarrow> pr_err r = None" for r by (simp add: probe_status_def split: option.splits)
  then show ?thesis by (auto simp: passed_def summary_def report_row_def list_all_iff list_ex_iff)
qed

lemma vm_made_other [simp]: "method \<noteq> ''vm.create'' \<Longrightarrow> vm_made (Rpc n method ps, a) = []"
  by (cases a) simp_all

lemma safe_finish:
  "safe anything (at_probe (case vm of None \<Rightarrow> [] | Some i \<Rightarrow> [i])) (probe_finish env results ds vm)
    (\<lambda>code h. code = summary results \<and> gathered reported h = [map report_row results] \<and>
      (if code = 0 then gathered vm_dropped h = map (\<lambda>i. [JInt i]) (gathered vm_made h) else gathered vm_dropped h = []))"
  by (rule safeI)
    (auto simp: probe_finish_def printReport_def probe_call_def at_probe_def guarded_def summary_def
      simp del: concat_eq_Nil_conv split: option.splits if_splits)

text \<open>
  C37: the exit code of the role check is 0 exactly when it printed a report in which every probe
  passed. Then every machine it made is told to be deleted. Otherwise none is: the exit on a failure
  skips the deferred calls, so a single denied probe leaves the machine behind.
\<close>

theorem probe_cleans_up_iff_passed:
  "case run_state (main_probe env v) \<lparr>w_hist = [], w_proc = 0\<rparr> of (code, w) \<Rightarrow>
     (code = 0 \<longleftrightarrow> (\<exists>rows \<in> set (gathered reported (w_hist w)). passed rows)) \<and>
     (if code = 0 then set (map (\<lambda>i. [JInt i]) (gathered vm_made (w_hist w))) \<subseteq> set (gathered vm_dropped (w_hist w))
      else gathered vm_dropped (w_hist w) = [])"
proof -
  let ?Q = "\<lambda>code h.
     (code = 0 \<longleftrightarrow> (\<exists>rows \<in> set (gathered reported h). passed rows)) \<and>
     (if code = 0 then set (map (\<lambda>i. [JInt i]) (gathered vm_made h)) \<subseteq> set (gathered vm_dropped h)
      else gathered vm_dropped h = [])"
  have early: "safe anything (at_probe []) (ret code) ?Q" if "0 < code" for code :: nat
    by (rule safe_ret) (use that in \<open>auto simp: at_probe_def\<close>)
  have finish: "safe anything (at_probe (case vm of None \<Rightarrow> [] | Some i \<Rightarrow> [i])) (probe_finish env results ds vm) ?Q" for vm results ds
    by (rule safe_conseq [OF safe_finish]) (auto simp: passed_report)
  have all: "safe anything (at_probe []) (probe_all env host bearer insecure pool) ?Q" for host bearer insecure pool
    unfolding probe_all_def Let_def
    by (rule safe_bind [OF safe_unrelated [OF plain_parts(1)]], rule safe_bind [OF safe_unrelated [OF emits_ask]], simp,
        rule safe_bind [OF safe_unrelated [OF plain_parts(2)]], rule safe_case_prod, rule safe_bind [OF safe_probe_vm],
        rule safe_case_prod, rule safe_conseq [OF finish], simp, assumption)
  have login: "safe anything (at_probe []) (probe_call env ''auth.login_with_api_key'' params) (\<lambda>_. at_probe [])" for params
    by (rule safe_unrelated) (auto intro: emits_probe_call)
  have "safe anything (at_probe []) (main_probe env v) ?Q"
    unfolding main_probe_def Let_def
    by (intro safe_if safe_case_sum early all safe_bind [OF safe_unrelated [OF plain_parts(4)]] safe_bind [OF login]
        safe_bind [OF safe_unrelated [OF emits_ask]]) simp_all
  note safe = this
  obtain code w where run: "run_state (main_probe env v) \<lparr>w_hist = [], w_proc = 0\<rparr> = (code, w)" by (metis prod.exhaust)
  have "?Q code (w_hist w)" by (rule safeD [OF safe _ _ run, THEN conjunct2]) (simp_all add: at_probe_def)
  then show ?thesis unfolding run prod.case .
qed

text \<open>A key without the role for disks: the machine with the id 7 stays.\<close>

definition one_role_short :: probe_env where
  "one_role_short h q =
     (case q of
        OpenSocket host path insecure \<Rightarrow> Opened
      | Rpc n method ps \<Rightarrow>
          if method = ''vm.create'' then Replied (DObj [(''id'', DNum ''7'')])
          else if method = ''disk.query'' then Errored ''Not authorized'' else Replied DNull
      | PostFile host bearer body insecure \<Rightarrow> HttpStatus 200 []
      | UnixNow \<Rightarrow> Stamp 1
      | _ \<Rightarrow> Printed)"

definition probe_settings :: variables where
  "probe_settings key = (if key = ''TRUENAS_INSECURE_SKIP_VERIFY'' then [] else ''nas'')"

lemma seven: "id_of (DObj [(''id'', DNum ''7'')]) = 7" "id_of DNull = 0"
proof -
  have "to_lower ''id'' = ''id''" by code_simp
  then show "id_of (DObj [(''id'', DNum ''7'')]) = 7" "id_of DNull = 0"
    by (simp_all add: id_of_def member_def parse_int64_def parse_uint64_def digit_val_def)
qed

lemma nas_valid: "ValidateHost ''nas'' = Inr ()"
  by code_simp

lemma machine_left_behind:
  "case run_state (main_probe one_role_short probe_settings) \<lparr>w_hist = [], w_proc = 0\<rparr> of (code, w) \<Rightarrow>
     code = 1 \<and> gathered vm_made (w_hist w) = [7] \<and> gathered vm_dropped (w_hist w) = []"
  by (simp add: main_probe_def probe_settings_def nas_valid parseInsecureSkipVerify_def dialProbeWebSocket_def one_role_short_def
      probe_call_def probe_all_def probeReadMethods_def probe_reads_def probe_one_def probe_dataset_def uploadFile_def
      probe_vm_def seven probe_device_def probe_nic_def string_map_def probe_finish_def printReport_def summary_def Let_def)

section \<open>What the role check touches\<close>

text \<open>
  The guard: the key leaves in the login of a connection to the validated host and in uploads to
  it, with verification unless it is switched off; everything but the login follows its success;
  and what is changed is the dataset and the machine of this run, and devices of that machine.
\<close>

definition replied :: "probe_history \<Rightarrow> string \<Rightarrow> (json list \<Rightarrow> bool) \<Rightarrow> (doc \<Rightarrow> bool) \<Rightarrow> bool" where
  "replied h method P D \<longleftrightarrow> (\<exists>n ps d. (Rpc n method ps, Replied d) \<in> set h \<and> P ps \<and> D d)"

definition probe_key :: "variables \<Rightarrow> json list" where
  "probe_key v = [JStr (v ''TRUENAS_API_KEY'')]"

definition read_request :: "string \<Rightarrow> string \<Rightarrow> json list \<Rightarrow> bool" where
  "read_request pool method ps \<longleftrightarrow> (\<exists>role params. (method, role, params) \<in> set (probe_reads pool) \<and> ps = NormalizeParams params)"

definition own_request :: "variables \<Rightarrow> probe_history \<Rightarrow> string \<Rightarrow> json list \<Rightarrow> bool" where
  "own_request v h method ps \<longleftrightarrow>
     (\<exists>ts. let ds = probe_dataset_name (v ''TRUENAS_POOL'') ts in
        method = ''pool.dataset.create'' \<and> ps = [JObj [(''name'', JStr ds)]] \<or>
        method \<in> {''pool.dataset.update'', ''pool.dataset.delete''} \<and> hd ps = JStr ds \<and>
          replied h ''pool.dataset.create'' (\<lambda>ps. ps = [JObj [(''name'', JStr ds)]]) (\<lambda>d. True) \<or>
        method = ''vm.create'' \<and> ps = [vm_params ts]) \<or>
     (\<exists>i. replied h ''vm.create'' (\<lambda>ps. True) (\<lambda>d. 0 < i \<and> id_of d = i) \<and>
        (method \<in> {''vm.update'', ''vm.get_instance'', ''vm.stop'', ''vm.delete''} \<and> hd ps = JInt i \<or>
         method = ''vm.device.create'' \<and> (\<exists>rest. ps = [JObj ((''vm'', JInt i) # rest)]))) \<or>
     (\<exists>i. replied h ''vm.device.create'' (\<lambda>ps. True) (\<lambda>d. id_of d = i) \<and>
        method \<in> {''vm.device.update'', ''vm.device.delete''} \<and> hd ps = JInt i)"

fun probe_guard :: "variables \<Rightarrow> probe_history \<Rightarrow> probe_op \<Rightarrow> bool" where
  "probe_guard v h (OpenSocket host path insecure) \<longleftrightarrow>
     host = v ''TRUENAS_HOST'' \<and> ValidateHost host = Inr () \<and> insecure = envBool v ''TRUENAS_INSECURE_SKIP_VERIFY'' False"
| "probe_guard v h (Rpc n method ps) \<longleftrightarrow>
     method = ''auth.login_with_api_key'' \<and> ps = probe_key v \<and>
       (\<exists>path insecure. (OpenSocket (v ''TRUENAS_HOST'') path insecure, Opened) \<in> set h) \<or>
     replied h ''auth.login_with_api_key'' (\<lambda>ps. ps = probe_key v) (\<lambda>d. True) \<and>
       (read_request (v ''TRUENAS_POOL'') method ps \<or> own_request v h method ps)"
| "probe_guard v h (PostFile host bearer body insecure) \<longleftrightarrow>
     host = v ''TRUENAS_HOST'' \<and> ValidateHost host = Inr () \<and> insecure = envBool v ''TRUENAS_INSECURE_SKIP_VERIFY'' False \<and>
     bearer = ''Bearer '' @ v ''TRUENAS_API_KEY'' \<and>
     replied h ''auth.login_with_api_key'' (\<lambda>ps. ps = probe_key v) (\<lambda>d. True) \<and>
     (\<exists>ts. let ds = probe_dataset_name (v ''TRUENAS_POOL'') ts in
        body = upload_envelope (''/mnt/'' @ ds @ ''/probe.txt'') \<and>
        replied h ''pool.dataset.create'' (\<lambda>ps. ps = [JObj [(''name'', JStr ds)]]) (\<lambda>d. True))"
| "probe_guard v h q \<longleftrightarrow> True"

lemma lasting_replied [simp, intro]: "lasting (\<lambda>h. replied h method P D)"
  by (auto simp: lasting_def replied_def)

lemma lasting_opened [simp, intro]: "lasting (\<lambda>h. \<exists>path insecure. (OpenSocket host path insecure, Opened) \<in> set h)"
  by (auto simp: lasting_def)

text \<open>A call, and a probe, followed by the rest: what a reply shows is known to the rest.\<close>

lemma safe_call_bind:
  assumes "lasting E" and "\<And>h n. E h \<Longrightarrow> G h (Rpc n method (NormalizeParams params))"
    and "\<And>e. safe G E (f (Inl e)) Q"
    and "\<And>d. safe G (\<lambda>h. E h \<and> replied h method (\<lambda>ps. ps = NormalizeParams params) (\<lambda>x. x = d)) (f (Inr d)) Q"
  shows "safe G E (probe_call env method params \<bind> f) Q"
proof (rule safe_bind)
  let ?R = "\<lambda>r h. E h \<and> (\<forall>d. r = Inr d \<longrightarrow> replied h method (\<lambda>ps. ps = NormalizeParams params) (\<lambda>x. x = d))"
  show "safe G E (probe_call env method params) ?R"
  proof (rule safe_probe_call)
    fix h n assume "E h"
    let ?q = "Rpc n method (NormalizeParams params)"
    have "E (h @ [(?q, env h ?q)])" by (rule lastingD [OF assms(1) \<open>E h\<close>])
    moreover have "env h ?q = Replied d" if "rpc_result (env h ?q) = Inr d" for d
      using that by (cases "env h ?q") auto
    ultimately show "?R (rpc_result (env h ?q)) (h @ [(?q, env h ?q)])" by (auto simp: replied_def)
  qed (rule assms(2))
  show "safe G (?R r) (f r) Q" for r
  proof (cases r)
    case (Inl e)
    show ?thesis unfolding Inl by (rule safe_conseq [OF assms(3)]) auto
  next
    case (Inr d)
    show ?thesis unfolding Inr by (rule safe_conseq [OF assms(4)]) auto
  qed
qed

lemma safe_one_bind:
  assumes "lasting E" and "\<And>h n. E h \<Longrightarrow> G h (Rpc n method (NormalizeParams params))"
    and "\<And>r. pr_err r \<noteq> None \<Longrightarrow> safe G E (f r) Q"
    and "\<And>r. pr_err r = None \<Longrightarrow> safe G (\<lambda>h. E h \<and> replied h method (\<lambda>ps. ps = NormalizeParams params) (\<lambda>x. True)) (f r) Q"
  shows "safe G E (probe_one env method role params \<bind> f) Q"
proof -
  let ?r = "\<lambda>c. \<lparr>pr_method = method, pr_role = role, pr_err = (case c of Inl e \<Rightarrow> Some e | Inr d \<Rightarrow> None)\<rparr>"
  have "probe_one env method role params \<bind> f = probe_call env method params \<bind> (\<lambda>c. f (?r c))"
    by (simp add: probe_one_def)
  moreover have "safe G E (probe_call env method params \<bind> (\<lambda>c. f (?r c))) Q"
  proof (rule safe_call_bind [where E = E], rule assms(1), erule assms(2))
    show "safe G (\<lambda>h. E h \<and> replied h method (\<lambda>ps. ps = NormalizeParams params) (\<lambda>x. x = d)) (f (?r (Inr d))) Q" for d
      by (rule safe_conseq [OF assms(4)]) (auto simp: replied_def)
  qed (auto intro: assms(3))
  ultimately show ?thesis by simp
qed

lemma safe_one_then:
  assumes "lasting E" and "\<And>h n. E h \<Longrightarrow> G h (Rpc n method (NormalizeParams params))" and "\<And>r. safe G E (f r) Q"
  shows "safe G E (probe_one env method role params \<bind> f) Q"
  by (rule safe_one_bind [where E = E], rule assms(1), erule assms(2)) (auto intro: assms(3) safe_conseq [OF assms(3)])

lemma safe_ask_then:
  assumes "lasting E" and "\<And>h. E h \<Longrightarrow> G h q" and "\<And>a. safe G E (f a) Q"
  shows "safe G E (ask env q \<bind> f) Q"
  by (rule safe_bind [where R = "\<lambda>_. E"], rule safe_ask) (auto intro: assms lastingD)

lemma safe_probe_each:
  assumes "lasting E"
    and "\<And>meth role params h n. (meth, role, params) \<in> set rs \<Longrightarrow> E h \<Longrightarrow> G h (Rpc n meth (NormalizeParams params))"
  shows "safe G E (probe_each env rs) (\<lambda>_. E)"
  using assms(2)
proof (induction rs)
  case (Cons r rs)
  obtain meth role params where r: "r = (meth, role, params)" by (metis prod_cases3)
  have "safe G E (probe_each env rs) (\<lambda>_. E)" by (rule Cons.IH, erule Cons.prems [OF list.set_intros(2)])
  moreover have "G h (Rpc n meth (NormalizeParams params))" if "E h" for h n
    by (rule Cons.prems [OF _ that, of meth role params]) (simp add: r)
  ultimately show ?case
    unfolding r probe_each.simps
    by (intro safe_one_then [OF assms(1)] safe_bind [where R = "\<lambda>_. E"] safe_ret)
qed (simp add: safe_ret)

abbreviation logged_in :: "variables \<Rightarrow> probe_history \<Rightarrow> bool" where
  "logged_in v h \<equiv> replied h ''auth.login_with_api_key'' (\<lambda>ps. ps = probe_key v) (\<lambda>d. True)"

lemma safe_reads: "safe (probe_guard v) (logged_in v) (probeReadMethods env (v ''TRUENAS_POOL'')) (\<lambda>_. logged_in v)"
  unfolding probeReadMethods_def by (rule safe_probe_each) (auto simp: read_request_def)

text \<open>Requests of one's own objects.\<close>

lemma own_dataset:
  "own_request v h ''pool.dataset.create'' [JObj [(''name'', JStr (probe_dataset_name (v ''TRUENAS_POOL'') ts))]]"
  "replied h ''pool.dataset.create'' (\<lambda>ps. ps = [JObj [(''name'', JStr (probe_dataset_name (v ''TRUENAS_POOL'') ts))]]) (\<lambda>d. True) \<Longrightarrow>
    method \<in> {''pool.dataset.update'', ''pool.dataset.delete''} \<Longrightarrow>
    own_request v h method (JStr (probe_dataset_name (v ''TRUENAS_POOL'') ts) # rest)"
  unfolding own_request_def Let_def by (rule disjI1, rule exI [of _ ts], simp)+

lemma own_vm:
  "own_request v h ''vm.create'' [vm_params ts]"
  "replied h ''vm.create'' (\<lambda>ps. True) (\<lambda>d. 0 < i \<and> id_of d = i) \<Longrightarrow>
    method \<in> {''vm.update'', ''vm.get_instance'', ''vm.stop'', ''vm.delete''} \<Longrightarrow> own_request v h method (JInt i # rest)"
  "replied h ''vm.create'' (\<lambda>ps. True) (\<lambda>d. 0 < i \<and> id_of d = i) \<Longrightarrow>
    own_request v h ''vm.device.create'' [JObj ((''vm'', JInt i) # attrs)]"
  "replied h ''vm.device.create'' (\<lambda>ps. True) (\<lambda>d. id_of d = i) \<Longrightarrow>
    method \<in> {''vm.device.update'', ''vm.device.delete''} \<Longrightarrow> own_request v h method (JInt i # rest)"
  unfolding own_request_def Let_def
  by (rule disjI1, rule exI [of _ ts], simp) (rule disjI2, rule disjI1, rule exI [of _ i], simp, rule disjI2, rule disjI1, rule exI [of _ i], simp,
    rule disjI2, rule disjI2, rule exI [of _ i], simp)

lemma replied_weaken: "replied h method P D \<Longrightarrow> (\<And>ps. P ps \<Longrightarrow> P' ps) \<Longrightarrow> (\<And>d. D d \<Longrightarrow> D' d) \<Longrightarrow> replied h method P' D'"
  unfolding replied_def by blast

abbreviation dataset_made :: "variables \<Rightarrow> int \<Rightarrow> probe_history \<Rightarrow> bool" where
  "dataset_made v ts h \<equiv> replied h ''pool.dataset.create''
     (\<lambda>ps. ps = [JObj [(''name'', JStr (probe_dataset_name (v ''TRUENAS_POOL'') ts))]]) (\<lambda>d. True)"

abbreviation vm_known :: "int \<Rightarrow> probe_history \<Rightarrow> bool" where
  "vm_known i h \<equiv> replied h ''vm.create'' (\<lambda>ps. True) (\<lambda>d. 0 < i \<and> id_of d = i)"

lemma safe_dataset:
  assumes "ValidateHost (v ''TRUENAS_HOST'') = Inr ()"
  shows "safe (probe_guard v) (logged_in v)
    (probe_dataset env (v ''TRUENAS_HOST'') (''Bearer '' @ v ''TRUENAS_API_KEY'') (envBool v ''TRUENAS_INSECURE_SKIP_VERIFY'' False) (v ''TRUENAS_POOL'') ts)
    (\<lambda>(rs, ds) h. logged_in v h \<and> (\<forall>d. ds = Some d \<longrightarrow> d = probe_dataset_name (v ''TRUENAS_POOL'') ts \<and> dataset_made v ts h))"
proof -
  let ?E = "\<lambda>h. logged_in v h \<and> dataset_made v ts h"
  have last: "lasting ?E" by (intro lasting_conj lasting_replied)
  have upload: "safe (probe_guard v) ?E (uploadFile env (v ''TRUENAS_HOST'') (''Bearer '' @ v ''TRUENAS_API_KEY'')
      (envBool v ''TRUENAS_INSECURE_SKIP_VERIFY'' False) (''/mnt/'' @ probe_dataset_name (v ''TRUENAS_POOL'') ts @ ''/probe.txt'')) (\<lambda>_. ?E)"
    unfolding uploadFile_def assms sum.case
    by (rule safe_ask_then [OF last]) (auto simp: assms Let_def intro: safe_ret)
  show ?thesis
    unfolding probe_dataset_def Let_def
  proof (rule safe_one_bind, rule lasting_replied)
    fix c :: probe_result assume "pr_err c = None"
    then show "safe (probe_guard v) (\<lambda>h. logged_in v h \<and> replied h ''pool.dataset.create''
          (\<lambda>ps. ps = NormalizeParams (OtherParams (JObj [(''name'', JStr (probe_dataset_name (v ''TRUENAS_POOL'') ts))]))) (\<lambda>x. True))
        (if pr_err c \<noteq> None then ret ([c], None)
         else do {
          u \<leftarrow> probe_one env ''pool.dataset.update'' ''DATASET_WRITE''
            (AnySlice [JStr (probe_dataset_name (v ''TRUENAS_POOL'') ts), JObj [(''comments'', JStr ''role probe'')]]);
          f \<leftarrow> uploadFile env (v ''TRUENAS_HOST'') (''Bearer '' @ v ''TRUENAS_API_KEY'') (envBool v ''TRUENAS_INSECURE_SKIP_VERIFY'' False)
            (''/mnt/'' @ probe_dataset_name (v ''TRUENAS_POOL'') ts @ ''/probe.txt'');
          d \<leftarrow> probe_one env ''pool.dataset.delete'' ''DATASET_DELETE''
            (AnySlice [JStr (probe_dataset_name (v ''TRUENAS_POOL'') ts), JObj [(''recursive'', JBool True)]]);
          ret ([c, u, \<lparr>pr_method = ''filesystem.put (via /_upload)'', pr_role = ''FILESYSTEM_DATA_WRITE'', pr_err = f\<rparr>, d],
               Some (probe_dataset_name (v ''TRUENAS_POOL'') ts)) })
        (\<lambda>(rs, ds) h. logged_in v h \<and> (\<forall>d. ds = Some d \<longrightarrow> d = probe_dataset_name (v ''TRUENAS_POOL'') ts \<and> dataset_made v ts h))"
      by (simp only: NormalizeParams.simps simp_thms if_False)
        (rule safe_one_then [OF last], simp add: own_dataset, rule safe_bind [OF upload],
         rule safe_one_then [OF last], simp add: own_dataset, rule safe_ret, simp)
  qed (auto intro!: safe_ret intro: own_dataset)
qed

lemma safe_nic:
  assumes "lasting E" and "\<And>h. E h \<Longrightarrow> logged_in v h"
  shows "safe (probe_guard v) E (probe_nic env) (\<lambda>_. E)"
proof -
  have "read_request (v ''TRUENAS_POOL'') ''vm.device.nic_attach_choices'' []"
    unfolding read_request_def by (intro exI [of _ "''VM_DEVICE_READ''"] exI [of _ NilParams]) (simp add: probe_reads_def)
  then have "safe (probe_guard v) E (probe_call env ''vm.device.nic_attach_choices'' NilParams) (\<lambda>_. E)"
    by (intro safe_probe_call) (use assms in \<open>auto simp: lasting_def\<close>)
  then show ?thesis
    unfolding probe_nic_def
    by (rule safe_bind, intro safe_case_sum safe_case_option safe_if safe_ask_then [OF assms(1)] safe_ret) simp_all
qed

lemma safe_device:
  "safe (probe_guard v) (\<lambda>h. logged_in v h \<and> vm_known i h) (probe_device env i) (\<lambda>_ h. logged_in v h \<and> vm_known i h)"
proof -
  let ?E = "\<lambda>h. logged_in v h \<and> vm_known i h"
  have last: "lasting ?E" by (intro lasting_conj lasting_replied)
  have device: "lasting (\<lambda>h. ?E h \<and> replied h ''vm.device.create'' P D)" for P D by (intro lasting_conj lasting_replied)
  have nic: "safe (probe_guard v) ?E (probe_nic env) (\<lambda>_. ?E)" by (rule safe_nic [OF last]) simp
  have made: "safe (probe_guard v) (\<lambda>h. ?E h \<and> replied h ''vm.device.create'' P (\<lambda>x. x = d))
      (do { u \<leftarrow> probe_one env ''vm.device.update'' ''VM_DEVICE_WRITE'' (AnySlice [JInt (id_of d), JObj [(''attributes'', nic_attributes ''br0'')]]);
            x \<leftarrow> probe_one env ''vm.device.delete'' ''VM_DEVICE_WRITE'' (AnySlice [JInt (id_of d)]);
            ret [\<lparr>pr_method = ''vm.device.create'', pr_role = ''VM_DEVICE_WRITE'', pr_err = None\<rparr>, u, x] }) (\<lambda>_. ?E)" for P d
  proof -
    have "own_request v h meth (JInt (id_of d) # rest)"
      if "replied h ''vm.device.create'' P (\<lambda>x. x = d)" "meth \<in> {''vm.device.update'', ''vm.device.delete''}" for h meth rest
      by (rule own_vm(4) [OF _ that(2)]) (use replied_weaken [OF that(1)] in simp)
    note own = this
    show ?thesis by (rule safe_one_then [OF device], simp add: own)+ (rule safe_ret, simp)
  qed
  show ?thesis
    unfolding probe_device_def Let_def
    by (rule safe_bind [OF nic], rule safe_call_bind [OF last], simp add: own_vm, simp add: safe_ret, simp only: sum.case, rule safe_if,
        rule made, rule safe_ret, simp)
qed

lemma safe_vm:
  "safe (probe_guard v) (logged_in v) (probe_vm env ts)
    (\<lambda>(rs, vm) h. logged_in v h \<and> (\<forall>i. vm = Some i \<longrightarrow> vm_known i h))"
proof -
  have last: "lasting (\<lambda>h. logged_in v h \<and> vm_known i h)" for i by (intro lasting_conj lasting_replied)
  show ?thesis
    unfolding probe_vm_def Let_def
  proof (rule safe_call_bind, rule lasting_replied)
    fix d
    let ?made = "\<lparr>pr_method = ''vm.create'', pr_role = ''VM_WRITE'', pr_err = None\<rparr>"
    have "safe (probe_guard v) (\<lambda>h. logged_in v h \<and> vm_known (id_of d) h)
       (do { u \<leftarrow> probe_one env ''vm.update'' ''VM_WRITE'' (AnySlice [JInt (id_of d), JObj [(''description'', JStr ''updated'')]]);
           g \<leftarrow> probe_one env ''vm.get_instance'' ''VM_READ'' (AnySlice [JInt (id_of d)]);
           s \<leftarrow> probe_one env ''vm.stop'' ''VM_WRITE'' (AnySlice [JInt (id_of d), JObj [(''force'', JBool True)]]);
           devs \<leftarrow> probe_device env (id_of d);
           ret ([?made, u, g, s] @ devs, Some (id_of d)) })
       (\<lambda>(rs, vm) h. logged_in v h \<and> (\<forall>i. vm = Some i \<longrightarrow> vm_known i h))"
      by (rule safe_one_then [OF last], simp add: own_vm)+ (rule safe_bind [OF safe_device], rule safe_ret, simp)
    moreover have "vm_known (id_of d) h" if "replied h ''vm.create'' P (\<lambda>x. x = d)" "0 < id_of d" for h P
      using replied_weaken [OF that(1)] that(2) by simp
    ultimately show "safe (probe_guard v)
        (\<lambda>h. logged_in v h \<and> replied h ''vm.create'' (\<lambda>ps. ps = NormalizeParams (OtherParams (vm_params ts))) (\<lambda>x. x = d))
        (case Inr d of Inl e \<Rightarrow> ret ([\<lparr>pr_method = ''vm.create'', pr_role = ''VM_WRITE'', pr_err = Some e\<rparr>], None)
         | Inr d \<Rightarrow> if 0 < id_of d then do {
           u \<leftarrow> probe_one env ''vm.update'' ''VM_WRITE'' (AnySlice [JInt (id_of d), JObj [(''description'', JStr ''updated'')]]);
           g \<leftarrow> probe_one env ''vm.get_instance'' ''VM_READ'' (AnySlice [JInt (id_of d)]);
           s \<leftarrow> probe_one env ''vm.stop'' ''VM_WRITE'' (AnySlice [JInt (id_of d), JObj [(''force'', JBool True)]]);
           devs \<leftarrow> probe_device env (id_of d);
           ret ([?made, u, g, s] @ devs, Some (id_of d)) }
         else ret ([?made], None))
        (\<lambda>(rs, vm) h. logged_in v h \<and> (\<forall>i. vm = Some i \<longrightarrow> vm_known i h))"
      by (simp only: sum.case, intro safe_if) (auto intro: safe_conseq safe_ret)
  qed (auto intro: safe_ret own_vm)
qed

lemma safe_probe_finish:
  "safe (probe_guard v) (\<lambda>h. logged_in v h \<and> (\<forall>i. vm = Some i \<longrightarrow> vm_known i h) \<and>
      (\<forall>d. ds = Some d \<longrightarrow> d = probe_dataset_name (v ''TRUENAS_POOL'') ts \<and> dataset_made v ts h))
    (probe_finish env results ds vm) (\<lambda>_ h. True)" (is "safe _ ?E _ _")
proof -
  define E where "E = ?E"
  have last: "lasting E" unfolding E_def by (cases vm; cases ds; simp)
  have own: "E h \<Longrightarrow> logged_in v h" "E h \<Longrightarrow> vm = Some i \<Longrightarrow> vm_known i h"
    "E h \<Longrightarrow> ds = Some d \<Longrightarrow> d = probe_dataset_name (v ''TRUENAS_POOL'') ts \<and> dataset_made v ts h" for h i d
    by (simp_all add: E_def)
  have "safe (probe_guard v) E (case vm of None \<Rightarrow> ret () | Some i \<Rightarrow> do { r \<leftarrow> probe_call env ''vm.delete'' (AnySlice [JInt i]); ret () }) (\<lambda>_. E)"
  proof (cases vm)
    case (Some i)
    show ?thesis
      unfolding Some option.case
      by (rule safe_call_bind [OF last]) (auto simp: own own(2) [OF _ Some] own_vm intro: safe_ret)
  qed (simp add: safe_ret)
  moreover have "safe (probe_guard v) E (case ds of None \<Rightarrow> ret () | Some d \<Rightarrow> do { r \<leftarrow> probe_call env ''pool.dataset.delete'' (AnySlice [JStr d]); ret () }) (\<lambda>_. E)"
  proof (cases ds)
    case (Some d)
    show ?thesis
      unfolding Some option.case
      by (rule safe_call_bind [OF last]) (auto simp: own own(3) [OF _ Some] own_dataset intro: safe_ret)
  qed (simp add: safe_ret)
  ultimately show ?thesis
    unfolding probe_finish_def printReport_def E_def [symmetric]
    by (intro safe_ask_then [OF last] safe_if safe_ret; (simp; fail)?)
      (rule safe_bind, assumption, rule safe_bind, assumption, rule safe_ask_then [OF last], simp, rule safe_ret, simp)
qed

lemma safe_probe_all:
  assumes "ValidateHost (v ''TRUENAS_HOST'') = Inr ()"
  shows "safe (probe_guard v) (logged_in v)
    (probe_all env (v ''TRUENAS_HOST'') (''Bearer '' @ v ''TRUENAS_API_KEY'') (envBool v ''TRUENAS_INSECURE_SKIP_VERIFY'' False) (v ''TRUENAS_POOL''))
    (\<lambda>_ _. True)"
proof -
  have vm: "safe (probe_guard v) (\<lambda>h. logged_in v h \<and> (\<forall>d. ds = Some d \<longrightarrow> d = probe_dataset_name (v ''TRUENAS_POOL'') ts \<and> dataset_made v ts h))
      (probe_vm env ts) (\<lambda>(rs, vm) h. logged_in v h \<and> (\<forall>i. vm = Some i \<longrightarrow> vm_known i h) \<and>
        (\<forall>d. ds = Some d \<longrightarrow> d = probe_dataset_name (v ''TRUENAS_POOL'') ts \<and> dataset_made v ts h))" for ds ts
  proof -
    let ?E = "\<lambda>h. logged_in v h \<and> (\<forall>d. ds = Some d \<longrightarrow> d = probe_dataset_name (v ''TRUENAS_POOL'') ts \<and> dataset_made v ts h)"
    have last: "lasting ?E" by (cases ds; simp)
    have some: "emits (\<lambda>q r. True) (probe_vm env ts)"
      unfolding probe_vm_def probe_device_def probe_nic_def probe_one_def probe_call_def Let_def by (intro emits_intros) simp_all
    have "safe (probe_guard v) ?E (probe_vm env ts) (\<lambda>(rs, vm) h. logged_in v h \<and> (\<forall>i. vm = Some i \<longrightarrow> vm_known i h))"
      by (rule safe_conseq [OF safe_vm]) auto
    from safe_keep [OF this last some] show ?thesis by (rule safe_conseq) auto
  qed
  have rest: "safe (probe_guard v) (\<lambda>h. logged_in v h \<and> (\<forall>d. ds = Some d \<longrightarrow> d = probe_dataset_name (v ''TRUENAS_POOL'') ts \<and> dataset_made v ts h))
      (probe_vm env ts \<bind> (\<lambda>(vms, vm). probe_finish env (reads @ dss @ vms) ds vm)) (\<lambda>_ _. True)" for reads dss ds ts
    by (rule safe_bind [OF vm [where ds = ds]], rule safe_case_prod, rule safe_conseq [OF safe_probe_finish [where ts = ts]]) auto
  show ?thesis
    unfolding probe_all_def Let_def
    by (rule safe_bind [OF safe_reads], rule safe_ask_then [OF lasting_replied], simp, rule safe_bind [OF safe_dataset [where v = v, OF assms]],
        rule safe_case_prod, rule safe_conseq [OF rest]) auto
qed

lemma parseInsecure_envBool: "parseInsecureSkipVerify v = envBool v ''TRUENAS_INSECURE_SKIP_VERIFY'' False"
  by (simp add: parseInsecureSkipVerify_def envBool_def)


text \<open>
  A probe that failed for another reason than a missing role is no missing role: when nothing is
  denied the report says that all required roles are present, whatever failed.
\<close>

lemma failures_report_all_roles:
  assumes "list_all (\<lambda>r. \<exists>e. pr_err r = Some e \<and> \<not> isAuthError e) results"
  shows "map fst (w_hist (snd (run_state (printReport env results) w))) = map fst (w_hist w) @ [PrintReport (map report_row results) []]"
proof -
  have "probe_status r \<noteq> ''DENIED''" if "r \<in> set results" for r
    using assms that by (auto simp: probe_status_def list_all_iff)
  then have "filter (\<lambda>r. probe_status r = ''DENIED'') results = []" by (simp add: filter_empty_conv)
  then show ?thesis by (simp add: printReport_def)
qed

end
