(* ===== verification/Wire.thy ===== *)
theory Wire
  imports Transport Teardown "HOL-Library.Char_ord" "HOL-Library.List_Lexorder" "HOL-Library.Sublist"
begin

text \<open>
  The provider's operations on top of the transport: the JSON-RPC method and parameters that the
  client sends for each of its requests (vm.go, device.go, storage.go, host.go in
  internal/client), and what leaves on the connection when an operation runs.
\<close>

section \<open>Requests as frames\<close>

definition equals :: "string \<Rightarrow> json \<Rightarrow> json" where
  "equals key v = JArr [JArr [JStr key, JStr ''='', v]]"

definition get_one :: json where
  "get_one = JObj [(''get'', JBool True)]"

text \<open>Fields with \<open>omitempty\<close>.\<close>

definition omit_str :: "string \<Rightarrow> string \<Rightarrow> (string \<times> json) list" where
  "omit_str key s = (if s = [] then [] else [(key, JStr s)])"

definition omit_int :: "string \<Rightarrow> int \<Rightarrow> (string \<times> json) list" where
  "omit_int key n = (if n = 0 then [] else [(key, JInt n)])"

definition vm_doc :: "create_vm_request \<Rightarrow> json" where
  "vm_doc r = JObj (
     [(''name'', JStr (cv_name r))] @ omit_str ''description'' (cv_description r) @ omit_str ''uuid'' (cv_uuid r) @
     [(''vcpus'', JInt (cv_vcpus r)), (''memory'', JInt (cv_memory r))] @ omit_int ''min_memory'' (cv_min_memory r) @
     [(''bootloader'', JStr (cv_bootloader r)), (''autostart'', JBool (cv_autostart r))] @ omit_str ''cpu_mode'' (cv_cpu_mode r))"

fun attr_doc :: "attr \<Rightarrow> json" where
  "attr_doc (AStr s) = JStr s"
| "attr_doc (ABool b) = JBool b"

text \<open>A map is printed in the order of its keys.\<close>

definition attrs_doc :: "attrs \<Rightarrow> json" where
  "attrs_doc as = JObj (map (\<lambda>(k, v). (k, attr_doc v)) (sort_key fst as))"

definition device_doc :: "add_device_request \<Rightarrow> json" where
  "device_doc r = JObj ([(''vm'', JInt (ad_vm r))] @ omit_int ''order'' (ad_order r) @ [(''attributes'', attrs_doc (ad_attrs r))])"

definition property_doc :: "user_property \<Rightarrow> json" where
  "property_doc p = JObj [(''key'', JStr (fst p)), (''value'', JStr (snd p))]"

definition dataset_doc :: "create_dataset_request \<Rightarrow> json" where
  "dataset_doc r = JObj (
     [(''name'', JStr (cd_name r)), (''type'', JStr (cd_type r))] @ omit_int ''volsize'' (cd_volsize r) @
     (if cd_encryption r then [(''encryption'', JBool True)] else []) @
     (case cd_inherit_encryption r of None \<Rightarrow> [] | Some b \<Rightarrow> [(''inherit_encryption'', JBool b)]) @
     (case cd_encryption_options r of
        None \<Rightarrow> []
      | Some (a, p) \<Rightarrow> [(''encryption_options'', JObj (omit_str ''algorithm'' a @ omit_str ''passphrase'' p))]) @
     (if cd_user_properties r = [] then [] else [(''user_properties'', JArr (map property_doc (cd_user_properties r)))]))"

text \<open>
  The calls of vm.go, device.go, storage.go and host.go. Requests that are no JSON-RPC calls have
  no frame.
\<close>

fun vm_frame :: "op \<Rightarrow> (string \<times> params) option" where
  "vm_frame (VmCreate r) = Some (''vm.create'', OtherParams (vm_doc r))"
| "vm_frame (VmGet i) = Some (''vm.query'', AnySlice [equals ''id'' (JInt i), get_one])"
| "vm_frame VmList = Some (''vm.query'', NilParams)"
| "vm_frame VmListRunning = Some (''vm.query'',
     AnySlice [equals ''status.state'' (JStr ''RUNNING''), JObj [(''select'', JArr [JStr ''memory'', JStr ''status''])]])"
| "vm_frame (VmFindByName n) = Some (''vm.query'', AnySlice [equals ''name'' (JStr n)])"
| "vm_frame (VmStart i) = Some (''vm.start'', AnySlice [JInt i])"
| "vm_frame (VmStop i f) = Some (''vm.stop'', AnySlice [JInt i, JObj [(''force'', JBool f)]])"
| "vm_frame (VmDelete i) = Some (''vm.delete'', AnySlice [JInt i, JObj [(''force'', JBool True)]])"
| "vm_frame _ = None"

fun device_frame :: "op \<Rightarrow> (string \<times> params) option" where
  "device_frame (VmResetNVRAM i) = Some (''vm.update'', AnySlice [JInt i, JObj [(''remove_nvram'', JBool True)]])"
| "device_frame (DeviceCreate r) = Some (''vm.device.create'', OtherParams (device_doc r))"
| "device_frame (DeviceDelete i) = Some (''vm.device.delete'', AnySlice [JInt i])"
| "device_frame (DeviceUpdate i as) = Some (''vm.device.update'', AnySlice [JInt i, JObj [(''attributes'', attrs_doc as)]])"
| "device_frame (DeviceList i) = Some (''vm.device.query'', AnySlice [equals ''vm'' (JInt i)])"
| "device_frame DeviceListAll = Some (''vm.device.query'', NilParams)"
| "device_frame _ = None"

fun storage_frame :: "op \<Rightarrow> (string \<times> params) option" where
  "storage_frame (DatasetCreate r) = Some (''pool.dataset.create'', OtherParams (dataset_doc r))"
| "storage_frame (DatasetUnlock p s) = Some (''pool.dataset.unlock'',
     AnySlice [JStr p, JObj [(''datasets'', JArr [JObj [(''name'', JStr p), (''passphrase'', JStr s)]])]])"
| "storage_frame (DatasetLock p) = Some (''pool.dataset.lock'', AnySlice [JStr p])"
| "storage_frame (DatasetGet p) = Some (''pool.dataset.query'', AnySlice [equals ''id'' (JStr p), get_one])"
| "storage_frame (DatasetFind p) = Some (''pool.dataset.query'', AnySlice [equals ''id'' (JStr p)])"
| "storage_frame DatasetListVolumes = Some (''pool.dataset.query'',
     AnySlice [equals ''type'' (JStr ''VOLUME''), JObj [(''extra'', JObj [(''retrieve_user_props'', JBool True)])]])"
| "storage_frame (DatasetListChildren p) = Some (''pool.dataset.query'', AnySlice [JArr [JArr [JStr ''id'', JStr ''^'', JStr p]]])"
| "storage_frame (DatasetSetProperty p k v) = Some (''pool.dataset.update'',
     AnySlice [JStr p, JObj [(''user_properties_update'', JArr [property_doc (k, v)])]])"
| "storage_frame (DatasetResize p n) = Some (''pool.dataset.update'', AnySlice [JStr p, JObj [(''volsize'', JInt n)]])"
| "storage_frame (DatasetDelete p) = Some (''pool.dataset.delete'', AnySlice [JStr p])"
| "storage_frame (FsStat p) = Some (''filesystem.stat'', AnySlice [JStr p])"
| "storage_frame (FsListdir p) = Some (''filesystem.listdir'', AnySlice [JStr p])"
| "storage_frame (PoolFind n) = Some (''pool.query'', AnySlice [equals ''name'' (JStr n)])"
| "storage_frame NicChoices = Some (''vm.device.nic_attach_choices'', NilParams)"
| "storage_frame (InterfaceGet n) = Some (''interface.query'', AnySlice [equals ''name'' (JStr n), get_one])"
| "storage_frame _ = None"

fun host_frame :: "op \<Rightarrow> (string \<times> params) option" where
  "host_frame (VmInstance i) = Some (''vm.get_instance'', AnySlice [JInt i])"
| "host_frame PoolList = Some (''pool.query'', NilParams)"
| "host_frame SystemInfo = Some (''system.info'', NilParams)"
| "host_frame SystemVersion = Some (''system.version'', NilParams)"
| "host_frame DiskList = Some (''disk.query'', NilParams)"
| "host_frame _ = None"

definition wire :: "op \<Rightarrow> (string \<times> params) option" where
  "wire q =
     (case vm_frame q of Some f \<Rightarrow> Some f
      | None \<Rightarrow> (case device_frame q of Some f \<Rightarrow> Some f
      | None \<Rightarrow> (case storage_frame q of Some f \<Rightarrow> Some f | None \<Rightarrow> host_frame q)))"

lemma wire_simps [simp]:
  "wire (VmCreate r) = vm_frame (VmCreate r)"
  "wire (VmGet i) = vm_frame (VmGet i)"
  "wire VmList = vm_frame VmList"
  "wire VmListRunning = vm_frame VmListRunning"
  "wire (VmFindByName p) = vm_frame (VmFindByName p)"
  "wire (VmStart i) = vm_frame (VmStart i)"
  "wire (VmStop i f) = vm_frame (VmStop i f)"
  "wire (VmDelete i) = vm_frame (VmDelete i)"
  "wire (VmResetNVRAM i) = device_frame (VmResetNVRAM i)"
  "wire (DeviceCreate d) = device_frame (DeviceCreate d)"
  "wire (DeviceDelete i) = device_frame (DeviceDelete i)"
  "wire (DeviceUpdate i as) = device_frame (DeviceUpdate i as)"
  "wire (DeviceList i) = device_frame (DeviceList i)"
  "wire DeviceListAll = device_frame DeviceListAll"
  "wire (DatasetCreate c) = storage_frame (DatasetCreate c)"
  "wire (DatasetUnlock p s) = storage_frame (DatasetUnlock p s)"
  "wire (DatasetLock p) = storage_frame (DatasetLock p)"
  "wire (DatasetGet p) = storage_frame (DatasetGet p)"
  "wire (DatasetFind p) = storage_frame (DatasetFind p)"
  "wire DatasetListVolumes = storage_frame DatasetListVolumes"
  "wire (DatasetListChildren p) = storage_frame (DatasetListChildren p)"
  "wire (DatasetSetProperty p k v) = storage_frame (DatasetSetProperty p k v)"
  "wire (DatasetResize p i) = storage_frame (DatasetResize p i)"
  "wire (DatasetDelete p) = storage_frame (DatasetDelete p)"
  "wire (FsStat p) = storage_frame (FsStat p)"
  "wire (FsListdir p) = storage_frame (FsListdir p)"
  "wire (PoolFind p) = storage_frame (PoolFind p)"
  "wire NicChoices = storage_frame NicChoices"
  "wire (InterfaceGet p) = storage_frame (InterfaceGet p)"
  "wire (VmInstance i) = host_frame (VmInstance i)"
  "wire PoolList = host_frame PoolList"
  "wire SystemInfo = host_frame SystemInfo"
  "wire SystemVersion = host_frame SystemVersion"
  "wire DiskList = host_frame DiskList"
  "wire (HttpGet p) = None"
  "wire (ConfigPatch p ds) = None"
  "wire (SchematicID ks es) = None"
  "wire (FsPut p t i) = None"
  "wire NewUUID = None"
  "wire (RandomHex j) = None"
  "wire CtxErr = None"
  "wire (Wait i) = None"
  "wire Now = None"
  "wire LiveRequestIDs = None"
  by (simp_all add: wire_def)

section \<open>Reading the frames\<close>

text \<open>
  What the frames say: a reader of methods and parameters, as a server may have it. Absent fields
  are the zero values.
\<close>

fun fields :: "json \<Rightarrow> (string \<times> json) list" where
  "fields (JObj kvs) = kvs"
| "fields _ = []"

fun elements :: "json option \<Rightarrow> json list" where
  "elements (Some (JArr xs)) = xs"
| "elements _ = []"

fun str_of :: "json option \<Rightarrow> string" where
  "str_of (Some (JStr s)) = s"
| "str_of _ = []"

fun int_of :: "json option \<Rightarrow> int" where
  "int_of (Some (JInt n)) = n"
| "int_of _ = 0"

fun bool_of :: "json option \<Rightarrow> bool option" where
  "bool_of (Some (JBool b)) = Some b"
| "bool_of _ = None"

definition vm_of :: "json \<Rightarrow> create_vm_request" where
  "vm_of d = (let f = map_of (fields d) in
     \<lparr>cv_name = str_of (f ''name''), cv_description = str_of (f ''description''), cv_uuid = str_of (f ''uuid''),
      cv_vcpus = int_of (f ''vcpus''), cv_memory = int_of (f ''memory''), cv_min_memory = int_of (f ''min_memory''),
      cv_bootloader = str_of (f ''bootloader''), cv_autostart = (bool_of (f ''autostart'') = Some True),
      cv_cpu_mode = str_of (f ''cpu_mode'')\<rparr>)"

fun attr_of :: "json \<Rightarrow> attr" where
  "attr_of (JStr s) = AStr s"
| "attr_of (JBool b) = ABool b"
| "attr_of _ = AStr []"

definition attrs_of :: "json option \<Rightarrow> attrs" where
  "attrs_of d = map (\<lambda>(k, v). (k, attr_of v)) (case d of Some x \<Rightarrow> fields x | None \<Rightarrow> [])"

definition device_of :: "json \<Rightarrow> add_device_request" where
  "device_of d = (let f = map_of (fields d) in
     \<lparr>ad_vm = int_of (f ''vm''), ad_order = int_of (f ''order''), ad_attrs = attrs_of (f ''attributes'')\<rparr>)"

definition property_of :: "json \<Rightarrow> user_property" where
  "property_of d = (let f = map_of (fields d) in (str_of (f ''key''), str_of (f ''value'')))"

definition dataset_of :: "json \<Rightarrow> create_dataset_request" where
  "dataset_of d = (let f = map_of (fields d) in
     \<lparr>cd_name = str_of (f ''name''), cd_type = str_of (f ''type''), cd_volsize = int_of (f ''volsize''),
      cd_encryption = (bool_of (f ''encryption'') = Some True), cd_inherit_encryption = bool_of (f ''inherit_encryption''),
      cd_encryption_options = map_option (\<lambda>x. (str_of (map_of (fields x) ''algorithm''), str_of (map_of (fields x) ''passphrase'')))
        (f ''encryption_options''),
      cd_user_properties = map property_of (elements (f ''user_properties''))\<rparr>)"

fun vm_query :: "json list \<Rightarrow> op option" where
  "vm_query [] = Some VmList"
| "vm_query [JArr [JArr [JStr key, e, JInt i]], opts] = Some (VmGet i)"
| "vm_query [JArr [JArr [JStr key, e, JStr v]], opts] = Some VmListRunning"
| "vm_query [JArr [JArr [JStr key, e, JStr v]]] = Some (VmFindByName v)"
| "vm_query _ = None"

fun dataset_query :: "json list \<Rightarrow> op option" where
  "dataset_query [JArr [JArr [JStr key, JStr rel, JStr v]], opts] = Some (if key = ''id'' then DatasetGet v else DatasetListVolumes)"
| "dataset_query [JArr [JArr [JStr key, JStr rel, JStr v]]] = Some (if rel = ''='' then DatasetFind v else DatasetListChildren v)"
| "dataset_query _ = None"

fun dataset_update :: "json list \<Rightarrow> op option" where
  "dataset_update [JStr p, JObj [(key, JInt n)]] = Some (DatasetResize p n)"
| "dataset_update [JStr p, JObj [(key, JArr [x])]] = Some (DatasetSetProperty p (fst (property_of x)) (snd (property_of x)))"
| "dataset_update _ = None"

fun device_query :: "json list \<Rightarrow> op option" where
  "device_query [] = Some DeviceListAll"
| "device_query [JArr [JArr [JStr key, e, JInt i]]] = Some (DeviceList i)"
| "device_query _ = None"

fun pool_query :: "json list \<Rightarrow> op option" where
  "pool_query [] = Some PoolList"
| "pool_query [JArr [JArr [JStr key, e, JStr n]]] = Some (PoolFind n)"
| "pool_query _ = None"

fun first_int :: "json list \<Rightarrow> int" where
  "first_int (JInt i # ps) = i"
| "first_int _ = 0"

fun first_str :: "json list \<Rightarrow> string" where
  "first_str (JStr s # ps) = s"
| "first_str _ = []"

fun queried_name :: "json list \<Rightarrow> string" where
  "queried_name (JArr [JArr [k, e, JStr n]] # ps) = n"
| "queried_name _ = []"

definition readers :: "(string \<times> (json list \<Rightarrow> op option)) list" where
  "readers =
     [(''vm.create'', \<lambda>ps. Some (VmCreate (vm_of (hd ps)))),
      (''vm.query'', vm_query),
      (''vm.start'', \<lambda>ps. Some (VmStart (first_int ps))),
      (''vm.stop'', \<lambda>ps. Some (VmStop (first_int ps) (bool_of (map_of (fields (ps ! 1)) ''force'') = Some True))),
      (''vm.delete'', \<lambda>ps. Some (VmDelete (first_int ps))),
      (''vm.update'', \<lambda>ps. Some (VmResetNVRAM (first_int ps))),
      (''vm.get_instance'', \<lambda>ps. Some (VmInstance (first_int ps))),
      (''vm.device.create'', \<lambda>ps. Some (DeviceCreate (device_of (hd ps)))),
      (''vm.device.delete'', \<lambda>ps. Some (DeviceDelete (first_int ps))),
      (''vm.device.update'', \<lambda>ps. Some (DeviceUpdate (first_int ps) (attrs_of (map_of (fields (ps ! 1)) ''attributes'')))),
      (''vm.device.query'', device_query),
      (''vm.device.nic_attach_choices'', \<lambda>ps. Some NicChoices),
      (''pool.dataset.create'', \<lambda>ps. Some (DatasetCreate (dataset_of (hd ps)))),
      (''pool.dataset.unlock'', \<lambda>ps. Some (DatasetUnlock (first_str ps)
         (str_of (map_of (fields (hd (elements (map_of (fields (ps ! 1)) ''datasets'')))) ''passphrase'')))),
      (''pool.dataset.lock'', \<lambda>ps. Some (DatasetLock (first_str ps))),
      (''pool.dataset.query'', dataset_query),
      (''pool.dataset.update'', dataset_update),
      (''pool.dataset.delete'', \<lambda>ps. Some (DatasetDelete (first_str ps))),
      (''filesystem.stat'', \<lambda>ps. Some (FsStat (first_str ps))),
      (''filesystem.listdir'', \<lambda>ps. Some (FsListdir (first_str ps))),
      (''pool.query'', pool_query),
      (''interface.query'', \<lambda>ps. Some (InterfaceGet (queried_name ps))),
      (''system.info'', \<lambda>ps. Some SystemInfo),
      (''system.version'', \<lambda>ps. Some SystemVersion),
      (''disk.query'', \<lambda>ps. Some DiskList)]"

definition read_frame :: "string \<Rightarrow> json list \<Rightarrow> op option" where
  "read_frame m ps = (case map_of readers m of None \<Rightarrow> None | Some f \<Rightarrow> f ps)"

lemma omitted [simp]:
  "str_of ((f ++ map_of (omit_str key s)) key) = (if s = [] then str_of (f key) else s)"
  "key \<noteq> key' \<Longrightarrow> (f ++ map_of (omit_str key s)) key' = f key'"
  "int_of ((f ++ map_of (omit_int key n)) key) = (if n = 0 then int_of (f key) else n)"
  "key \<noteq> key' \<Longrightarrow> (f ++ map_of (omit_int key n)) key' = f key'"
  by (simp_all add: omit_str_def omit_int_def map_add_def)

lemma omitted_last [simp]:
  "str_of (map_of (omit_str key s) key) = s" "key \<noteq> key' \<Longrightarrow> map_of (omit_str key s) key' = None"
  by (simp_all add: omit_str_def)

lemma vm_of_doc [simp]: "vm_of (vm_doc r) = r"
  by (simp add: vm_of_def vm_doc_def Let_def)

lemma attrs_of_doc [simp]: "attrs_of (Some (attrs_doc as)) = sort_key fst as"
proof -
  have "attr_of (attr_doc a) = a" for a by (cases a) simp_all
  then show ?thesis by (simp add: attrs_of_def attrs_doc_def comp_def case_prod_unfold)
qed

lemma device_of_doc [simp]: "device_of (device_doc r) = r\<lparr>ad_attrs := sort_key fst (ad_attrs r)\<rparr>"
  by (simp add: device_of_def device_doc_def Let_def)

lemma property_of_doc [simp]: "property_of (property_doc p) = p"
  by (simp add: property_of_def property_doc_def Let_def)

lemma dataset_of_doc [simp]: "dataset_of (dataset_doc r) = r"
proof -
  have "map property_of (map property_doc ps) = ps" for ps by (simp add: comp_def)
  then show ?thesis
    by (cases "cd_user_properties r = []") (auto simp: dataset_of_def dataset_doc_def Let_def split: option.splits)
qed

text \<open>Attributes are a map: their order is not part of a request.\<close>

fun in_key_order :: "op \<Rightarrow> op" where
  "in_key_order (DeviceCreate r) = DeviceCreate (r\<lparr>ad_attrs := sort_key fst (ad_attrs r)\<rparr>)"
| "in_key_order (DeviceUpdate i as) = DeviceUpdate i (sort_key fst as)"
| "in_key_order q = q"

lemma read_frame_simps:
  "read_frame ''vm.create'' ps = Some (VmCreate (vm_of (hd ps)))"
  "read_frame ''vm.query'' ps = vm_query ps"
  "read_frame ''vm.start'' ps = Some (VmStart (first_int ps))"
  "read_frame ''vm.stop'' ps = Some (VmStop (first_int ps) (bool_of (map_of (fields (ps ! 1)) ''force'') = Some True))"
  "read_frame ''vm.delete'' ps = Some (VmDelete (first_int ps))"
  "read_frame ''vm.update'' ps = Some (VmResetNVRAM (first_int ps))"
  "read_frame ''vm.get_instance'' ps = Some (VmInstance (first_int ps))"
  "read_frame ''vm.device.create'' ps = Some (DeviceCreate (device_of (hd ps)))"
  "read_frame ''vm.device.delete'' ps = Some (DeviceDelete (first_int ps))"
  "read_frame ''vm.device.update'' ps = Some (DeviceUpdate (first_int ps) (attrs_of (map_of (fields (ps ! 1)) ''attributes'')))"
  "read_frame ''vm.device.query'' ps = device_query ps"
  "read_frame ''vm.device.nic_attach_choices'' ps = Some NicChoices"
  "read_frame ''pool.dataset.create'' ps = Some (DatasetCreate (dataset_of (hd ps)))"
  "read_frame ''pool.dataset.unlock'' ps = Some (DatasetUnlock (first_str ps) (str_of (map_of (fields (hd (elements (map_of (fields (ps ! 1)) ''datasets'')))) ''passphrase'')))"
  "read_frame ''pool.dataset.lock'' ps = Some (DatasetLock (first_str ps))"
  "read_frame ''pool.dataset.query'' ps = dataset_query ps"
  "read_frame ''pool.dataset.update'' ps = dataset_update ps"
  "read_frame ''pool.dataset.delete'' ps = Some (DatasetDelete (first_str ps))"
  "read_frame ''filesystem.stat'' ps = Some (FsStat (first_str ps))"
  "read_frame ''filesystem.listdir'' ps = Some (FsListdir (first_str ps))"
  "read_frame ''pool.query'' ps = pool_query ps"
  "read_frame ''interface.query'' ps = Some (InterfaceGet (queried_name ps))"
  "read_frame ''system.info'' ps = Some SystemInfo"
  "read_frame ''system.version'' ps = Some SystemVersion"
  "read_frame ''disk.query'' ps = Some DiskList"
  by (simp_all add: read_frame_def readers_def)

lemma read_frame_wire: "wire q = Some (m, ps) \<Longrightarrow> read_frame m (NormalizeParams ps) = Some (in_key_order q)"
  by (cases q) (auto simp: read_frame_simps equals_def get_one_def)

section \<open>The stack\<close>

text \<open>
  What a request puts on the network, if anything: a frame with a method and its normalised
  parameters, or the envelope of an upload.
\<close>

datatype message = Sent string "json list" | Posted json

definition message_of :: "op \<Rightarrow> message option" where
  "message_of q =
     (case q of
        FsPut path content n \<Rightarrow> Some (Posted (writeUploadMultipart path))
      | _ \<Rightarrow> map_option (\<lambda>(method, params). Sent method (NormalizeParams params)) (wire q))"

text \<open>
  What a request puts on the connection says all of it: from the method and the parameters of
  a frame the request can be read back, with the fields that \<open>omitempty\<close> leaves out, and
  with the attributes of a device in the order of their keys. So no two requests look alike.
\<close>

theorem frames_read_back:
  assumes "message_of q = Some (Sent m ps)"
  shows "read_frame m ps = Some (in_key_order q)"
proof -
  obtain params where "wire q = Some (m, params)" "ps = NormalizeParams params"
    using assms by (cases q) (auto simp: message_of_def)
  then show ?thesis by (simp add: read_frame_wire)
qed

definition demo_zvol :: create_dataset_request where
  "demo_zvol = \<lparr>cd_name = ''tank/vm/a'', cd_type = ''VOLUME'', cd_volsize = 5, cd_encryption = True,
     cd_inherit_encryption = Some False, cd_encryption_options = Some (''AES-256-GCM'', ''p''), cd_user_properties = [(''k'', ''v'')]\<rparr>"

theorem frames_witness:
  "read_frame ''pool.dataset.create''
     [JObj [(''name'', JStr ''tank/vm/a''), (''type'', JStr ''VOLUME''), (''volsize'', JInt 5), (''encryption'', JBool True),
       (''inherit_encryption'', JBool False),
       (''encryption_options'', JObj [(''algorithm'', JStr ''AES-256-GCM''), (''passphrase'', JStr ''p'')]),
       (''user_properties'', JArr [JObj [(''key'', JStr ''k''), (''value'', JStr ''v'')]])]] =
   Some (DatasetCreate demo_zvol)"
proof -
  have "message_of (DatasetCreate demo_zvol) = Some (Sent ''pool.dataset.create''
     [JObj [(''name'', JStr ''tank/vm/a''), (''type'', JStr ''VOLUME''), (''volsize'', JInt 5), (''encryption'', JBool True),
       (''inherit_encryption'', JBool False),
       (''encryption_options'', JObj [(''algorithm'', JStr ''AES-256-GCM''), (''passphrase'', JStr ''p'')]),
       (''user_properties'', JArr [JObj [(''key'', JStr ''k''), (''value'', JStr ''v'')]])]])"
    by (simp add: message_of_def dataset_doc_def demo_zvol_def omit_int_def omit_str_def property_doc_def)
  from frames_read_back [OF this] show ?thesis by simp
qed

text \<open>
  The decoding of a result into the type that the method's caller passes is a parameter, with
  \<open>None\<close> for a result that does not fit. Calls that pass no result decode none.
\<close>

type_synonym decoder = "op \<Rightarrow> json \<Rightarrow> resp option"

definition wants :: "decoder \<Rightarrow> op \<Rightarrow> (json \<Rightarrow> bool) option" where
  "wants dec q =
     (case q of
        VmStart i \<Rightarrow> None | VmStop i f \<Rightarrow> None | VmDelete i \<Rightarrow> None | VmResetNVRAM i \<Rightarrow> None | DeviceDelete i \<Rightarrow> None
      | DatasetUnlock p s \<Rightarrow> None | DatasetLock p \<Rightarrow> None | DatasetSetProperty p k v \<Rightarrow> None
      | DatasetResize p n \<Rightarrow> None | DatasetDelete p \<Rightarrow> None | _ \<Rightarrow> Some (\<lambda>v. dec q v \<noteq> None))"

text \<open>A request, run on the transport.\<close>

definition transact :: "ws_env \<Rightarrow> ws_config \<Rightarrow> decoder \<Rightarrow> op \<Rightarrow> (ws_failure + json option) ws_prog" where
  "transact env cfg dec q =
     (case q of
        FsPut path content n \<Rightarrow> do { r \<leftarrow> UploadFile_ws env cfg path; ret (map_sum id (\<lambda>_. None) r) }
      | _ \<Rightarrow> (case wire q of None \<Rightarrow> ret (Inr None) | Some (method, params) \<Rightarrow> Call env cfg method params (wants dec q)))"

text \<open>The transport's errors, with the API errors that \<open>errors.As\<close> finds in them.\<close>

fun go_error_of :: "ws_failure \<Rightarrow> go_error" where
  "go_error_of (ApiFailure code msg) = APIError code msg"
| "go_error_of UnmarshalFailed = DecodeError"
| "go_error_of (AttemptsFailed (Some e)) = Wrapped ''reconnect failed'' (go_error_of e)"
| "go_error_of (CallAndReconnect e f) = Wrapped2 ''reconnect failed'' (go_error_of e) (go_error_of f)"
| "go_error_of f = TransportError []"

definition answer_of :: "decoder \<Rightarrow> op \<Rightarrow> ws_failure + json option \<Rightarrow> answer" where
  "answer_of dec q r =
     (case r of
        Inl f \<Rightarrow> Inl (go_error_of f)
      | Inr None \<Rightarrow> Inr RNull
      | Inr (Some v) \<Rightarrow> (case dec q v of None \<Rightarrow> Inl DecodeError | Some x \<Rightarrow> Inr x))"

text \<open>
  The transport after the requests of a history, from the world \<open>w\<close>; and the server that a
  client sees through it. The requests that are not TrueNAS' are answered by \<open>others\<close>.
\<close>

fun wire_world :: "ws_env \<Rightarrow> ws_config \<Rightarrow> decoder \<Rightarrow> (ws_op, ws_answer, unit) world \<Rightarrow> history \<Rightarrow> (ws_op, ws_answer, unit) world" where
  "wire_world env cfg dec w [] = w"
| "wire_world env cfg dec w ((q, a) # h) = wire_world env cfg dec (snd (run_state (transact env cfg dec q) w)) h"

definition stack :: "ws_env \<Rightarrow> ws_config \<Rightarrow> decoder \<Rightarrow> (ws_op, ws_answer, unit) world \<Rightarrow> server \<Rightarrow> server" where
  "stack env cfg dec w others h q =
     (if message_of q = None then others h q
      else answer_of dec q (fst (run_state (transact env cfg dec q) (wire_world env cfg dec w h))))"

section \<open>What a program transmits\<close>

fun messages :: "ws_op \<times> ws_answer \<Rightarrow> message list" where
  "messages (SendRequest i m ps d, a) = [Sent m ps]"
| "messages (PostUpload url key body, a) = [Posted body]"
| "messages _ = []"

abbreviation transmitted :: "ws_history \<Rightarrow> message list" where
  "transmitted h \<equiv> concat (map messages h)"

text \<open>
  \<open>transmits t R m\<close>: the program \<open>m\<close> transmits nothing but \<open>t\<close>, as many times as
  \<open>R\<close> allows with its result.
\<close>

definition transmits :: "message \<Rightarrow> ('a \<Rightarrow> nat \<Rightarrow> bool) \<Rightarrow> 'a ws_prog \<Rightarrow> bool" where
  "transmits t R m \<longleftrightarrow>
     (\<forall>w. \<exists>es k. w_hist (snd (run_state m w)) = w_hist w @ es \<and> transmitted es = replicate k t \<and> R (fst (run_state m w)) k)"

lemma transmitsI:
  "(\<And>w. \<exists>es k. w_hist (snd (run_state m w)) = w_hist w @ es \<and> transmitted es = replicate k t \<and> R (fst (run_state m w)) k) \<Longrightarrow>
   transmits t R m"
  by (simp add: transmits_def)

lemma transmits_ret: "R a 0 \<Longrightarrow> transmits t R (ret a)"
  by (rule transmitsI) auto

lemma transmits_conseq: "transmits t R m \<Longrightarrow> (\<And>a k. R a k \<Longrightarrow> S a k) \<Longrightarrow> transmits t S m"
  unfolding transmits_def by blast

lemma transmits_if: "(b \<Longrightarrow> transmits t R m) \<Longrightarrow> (\<not> b \<Longrightarrow> transmits t R n) \<Longrightarrow> transmits t R (if b then m else n)"
  by simp

lemma transmits_case_sum:
  "(\<And>e. transmits t R (f e)) \<Longrightarrow> (\<And>x. transmits t R (g x)) \<Longrightarrow> transmits t R (case r of Inl e \<Rightarrow> f e | Inr x \<Rightarrow> g x)"
  by (cases r) simp_all

lemma transmits_bind:
  assumes "transmits t R m" and "\<And>a k. R a k \<Longrightarrow> transmits t (\<lambda>b j. S b (k + j)) (f a)"
  shows "transmits t S (m \<bind> f)"
proof (rule transmitsI)
  fix w
  obtain a v where run: "run_state m w = (a, v)" by fastforce
  with assms(1) obtain es k where e: "w_hist v = w_hist w @ es" "transmitted es = replicate k t" "R a k"
    unfolding transmits_def by (metis fst_conv snd_conv)
  with assms(2) obtain fs j where "w_hist (snd (run_state (f a) v)) = w_hist v @ fs" "transmitted fs = replicate j t"
    "S (fst (run_state (f a) v)) (k + j)"
    unfolding transmits_def by blast
  with e run show "\<exists>es k. w_hist (snd (run_state (m \<bind> f) w)) = w_hist w @ es \<and> transmitted es = replicate k t \<and>
      S (fst (run_state (m \<bind> f) w)) k"
    by (intro exI [of _ "es @ fs"] exI [of _ "k + j"]) (simp add: run_state_bind replicate_add)
qed

text \<open>Programs that transmit nothing.\<close>

lemma transmits_quiet: "emits (\<lambda>q r. messages (q, r) = []) m \<Longrightarrow> transmits t (\<lambda>a k. k = 0) m"
proof (rule transmitsI)
  fix w assume quiet: "emits (\<lambda>q r. messages (q, r) = []) m"
  obtain a v where run: "run_state m w = (a, v)" by fastforce
  obtain es where "w_hist v = w_hist w @ es" "\<And>q r. (q, r) \<in> set es \<Longrightarrow> messages (q, r) = []"
    using emitsD [OF quiet run] by blast
  then show "\<exists>es k. w_hist (snd (run_state m w)) = w_hist w @ es \<and> transmitted es = replicate k t \<and> k = 0"
    using run by (intro exI [of _ es]) auto
qed

lemma transmits_quiet_bind:
  "emits (\<lambda>q r. messages (q, r) = []) m \<Longrightarrow> (\<And>a. transmits t R (f a)) \<Longrightarrow> transmits t R (m \<bind> f)"
  by (rule transmits_bind [OF transmits_quiet]) simp_all

lemma transmits_ask_then:
  "(\<And>r. messages (q, r) = []) \<Longrightarrow> (\<And>a. transmits t R (f a)) \<Longrightarrow> transmits t R (ask env q \<bind> f)"
  by (rule transmits_quiet_bind) (simp_all add: emits_ask)

lemma transmits_send: "transmits (Sent m ps) (\<lambda>a k. k = 1) (ask env (SendRequest i m ps d))"
  by (rule transmitsI) (auto intro!: exI [of _ "[(SendRequest i m ps d, a)]" for a])

lemma message_quiet: "\<not> noisy q \<Longrightarrow> messages (q, r) = []"
  by (cases q) simp_all

lemma silent_reconnect: "emits (\<lambda>q r. messages (q, r) = []) (reconnect env cfg g)"
  by (rule emits_mono [OF quiet_reconnect]) (rule message_quiet)

text \<open>A result, and an error that the server sent as the answer to the request.\<close>

fun from_server :: "ws_failure \<Rightarrow> bool" where
  "from_server (ApiFailure code msg) \<longleftrightarrow> True"
| "from_server e \<longleftrightarrow> False"

fun answered :: "ws_failure + 'a \<Rightarrow> bool" where
  "answered (Inr v) \<longleftrightarrow> True"
| "answered (Inl e) \<longleftrightarrow> from_server e"

lemma transmits_writeRequest:
  "transmits (Sent m ps) (\<lambda>r k. k \<le> 1 \<and> (r = Inr () \<longrightarrow> k = 1) \<and> (\<forall>e. r = Inl e \<longrightarrow> \<not> from_server e)) (writeRequest env i m ps)"
proof -
  have frame: "transmits (Sent m ps) (\<lambda>r k. k \<le> 1 \<and> (r = Inr () \<longrightarrow> k = 1) \<and> (\<forall>e. r = Inl e \<longrightarrow> \<not> from_server e))
      (do { w \<leftarrow> ask env (SendRequest i m ps d); ret (case write_error w of Some e \<Rightarrow> Inl (SendFailed e) | None \<Rightarrow> Inr ()) })" for d
    by (rule transmits_bind [OF transmits_send], rule transmits_ret) (simp split: option.splits)
  show ?thesis
    unfolding writeRequest_def
    apply (rule transmits_ask_then, simp)
    apply (rule transmits_if)
     apply (rule transmits_ret, simp)
    apply (rule transmits_ask_then, simp)
    apply (rule transmits_bind [where R = "\<lambda>r k. k \<le> 1 \<and> (r = Inr () \<longrightarrow> k = 1) \<and> (\<forall>e. r = Inl e \<longrightarrow> \<not> from_server e)"])
     apply (rule transmits_if)
      apply (rule transmits_ret, simp)
     apply (rule transmits_ask_then, simp, rule transmits_ask_then, simp, rule frame)
    apply (rule transmits_ask_then, simp)
    apply (rule transmits_ret, simp)
    done
qed

lemma transmits_doCall:
  "transmits (Sent m (NormalizeParams ps)) (\<lambda>r k. k \<le> 1 \<and> (answered r \<longrightarrow> k = 1)) (doCall env m ps want)"
proof -
  let ?t = "Sent m (NormalizeParams ps)" and ?R = "\<lambda>r k. k \<le> 1 \<and> (answered r \<longrightarrow> k = 1)"
  have wait: "transmits ?t (\<lambda>r k. k = 0)
      (do { d \<leftarrow> ask env CtxDeadline; s \<leftarrow> ask env LockShared; a \<leftarrow> ask env (Await i (deadline_of d \<noteq> None)); ret (await_result want a) })" for i
    by (rule transmits_quiet) (intro emits_intros; simp)
  have body: "transmits ?t ?R (bindE (writeRequest env i m (NormalizeParams ps)) (\<lambda>_. do {
            d \<leftarrow> ask env CtxDeadline; s \<leftarrow> ask env LockShared; a \<leftarrow> ask env (Await i (deadline_of d \<noteq> None)); ret (await_result want a) }))" for i
    unfolding bindE_def
  proof (rule transmits_bind [OF transmits_writeRequest])
    fix r :: "ws_failure + unit" and k :: nat
    assume r: "k \<le> 1 \<and> (r = Inr () \<longrightarrow> k = 1) \<and> (\<forall>e. r = Inl e \<longrightarrow> \<not> from_server e)"
    show "transmits ?t (\<lambda>b j. ?R b (k + j)) (case r of Inl e \<Rightarrow> ret (Inl e) | Inr a \<Rightarrow> do {
            d \<leftarrow> ask env CtxDeadline; s \<leftarrow> ask env LockShared; a \<leftarrow> ask env (Await i (deadline_of d \<noteq> None)); ret (await_result want a) })"
    proof (cases r)
      case (Inl e)
      with r show ?thesis by (simp add: transmits_ret)
    next
      case (Inr u)
      with r have "transmits ?t (\<lambda>b j. ?R b (k + j)) (do {
            d \<leftarrow> ask env CtxDeadline; s \<leftarrow> ask env LockShared; a \<leftarrow> ask env (Await i (deadline_of d \<noteq> None)); ret (await_result want a) })"
        by (intro transmits_conseq [OF wait]) auto
      with Inr show ?thesis by simp
    qed
  qed
  show ?thesis
    unfolding doCall_def Let_def
    apply (rule transmits_ask_then, simp)+
    apply (rule transmits_bind [OF body])
    apply (rule transmits_ask_then, simp)
    apply (rule transmits_ret, simp)
    done
qed

lemma transmits_Call:
  "transmits (Sent m (NormalizeParams ps)) (\<lambda>r k. k \<le> 2 \<and> (answered r \<longrightarrow> 1 \<le> k)) (Call env cfg m ps want)"
proof -
  let ?t = "Sent m (NormalizeParams ps)" and ?R = "\<lambda>r k. k \<le> 2 \<and> (answered r \<longrightarrow> 1 \<le> k)"
  have retry: "transmits ?t (\<lambda>b j. ?R b (k + j)) (case r of
         Inr v \<Rightarrow> ret (Inr v)
       | Inl e \<Rightarrow>
           if isAPIError e \<noteq> None then ret (Inl e)
           else do {
             c \<leftarrow> ask env ws_op.CtxErr;
             if c = Cancelled then ret (Inl e)
             else do {
               rr \<leftarrow> reconnect env cfg g;
               case rr of
                 Inl f \<Rightarrow> ret (Inl (CallAndReconnect e f))
               | Inr u \<Rightarrow> doCall env m ps want } })"
    if k: "k \<le> 1" "answered r \<longrightarrow> k = 1" for r :: "ws_failure + json option" and k :: nat and g
  proof (cases r)
    case (Inl e)
    have again: "transmits ?t (\<lambda>b j. ?R b (k + j)) (doCall env m ps want)"
      by (rule transmits_conseq [OF transmits_doCall]) (use k in auto)
    have fail: "transmits ?t (\<lambda>b j. ?R b (k + j)) (ret (Inl e))" by (rule transmits_ret) (use k Inl in auto)
    have lost: "transmits ?t (\<lambda>b j. ?R b (k + j)) (ret (Inl (CallAndReconnect e f)))" for f by (rule transmits_ret) (use k in simp)
    show ?thesis
      unfolding Inl sum.case
      apply (rule transmits_if, rule fail)
      apply (rule transmits_ask_then, simp)
      apply (rule transmits_if, rule fail)
      apply (rule transmits_quiet_bind [OF silent_reconnect])
      apply (rule transmits_case_sum, rule lost, rule again)
      done
  qed (use k in \<open>simp add: transmits_ret\<close>)
  show ?thesis
    unfolding Call_def
    apply (rule transmits_ask_then, simp)
    apply (rule transmits_if)
     apply (rule transmits_ret, simp)
    apply (rule transmits_bind [OF transmits_doCall])
    apply (rule retry, simp_all)
    done
qed

lemma transmits_Upload:
  "transmits (Posted (writeUploadMultipart path)) (\<lambda>r k. k \<le> 1 \<and> (answered r \<longrightarrow> k = 1)) (UploadFile_ws env cfg path)"
proof -
  have post: "transmits (Posted body) (\<lambda>a k. k = 1) (ask env (PostUpload url key body))" for url key body
    by (rule transmitsI) (auto intro!: exI [of _ "[(PostUpload url key body, a)]" for a])
  show ?thesis
    unfolding UploadFile_ws_def
    by (rule transmits_ask_then, simp, rule transmits_if, rule transmits_ret, simp, rule transmits_bind [OF post], rule transmits_ret, simp)
qed

text \<open>How often a request may be transmitted.\<close>

definition attempts :: "op \<Rightarrow> nat" where
  "attempts q = (case q of FsPut path content n \<Rightarrow> 1 | _ \<Rightarrow> 2)"

lemma message_None: "message_of q = None \<Longrightarrow> transact env cfg dec q = ret (Inr None)"
  by (cases q) (simp_all add: message_of_def transact_def)

lemma message_cases:
  assumes "message_of q = Some t"
  obtains (upload) path content n where "q = FsPut path content n" "t = Posted (writeUploadMultipart path)"
  | (call) m ps where "wire q = Some (m, ps)" "t = Sent m (NormalizeParams ps)"
      "\<And>env cfg dec. transact env cfg dec q = Call env cfg m ps (wants dec q)" "attempts q = 2"
  using assms by (cases q) (auto simp: message_of_def transact_def attempts_def)

lemma transmits_transact:
  assumes "message_of q = Some t"
  shows "transmits t (\<lambda>r k. k \<le> attempts q \<and> (answered r \<longrightarrow> 1 \<le> k)) (transact env cfg dec q)"
  using assms
proof (cases rule: message_cases)
  case (upload path content n)
  have "transmits t (\<lambda>r k. k \<le> 1 \<and> (answered r \<longrightarrow> 1 \<le> k)) (do { r \<leftarrow> UploadFile_ws env cfg path; ret (map_sum id (\<lambda>_. None) r) })"
    unfolding upload(2) by (rule transmits_bind [OF transmits_Upload], rule transmits_ret) (auto split: sum.splits simp: map_sum_def)
  with upload(1) show ?thesis by (simp add: transact_def attempts_def)
next
  case (call m ps)
  with transmits_Call show ?thesis by simp
qed

text \<open>
  C15: a request of the client leaves the process as the method and the parameters of its frame
  and as nothing else, at most twice (an upload at most once), and at least once when it has a
  result or an error of the server. A request that is none of TrueNAS' leaves nothing.
\<close>

theorem request_goes_out:
  "case run_state (transact env cfg dec q) w of (r, w') \<Rightarrow>
     \<exists>k \<in> (if answered r then {1..attempts q} else {0..attempts q}).
       transmitted (w_hist w') = transmitted (w_hist w) @ (case message_of q of None \<Rightarrow> [] | Some t \<Rightarrow> replicate k t)"
proof -
  obtain r w' where run: "run_state (transact env cfg dec q) w = (r, w')" by fastforce
  show ?thesis
  proof (cases "message_of q")
    case None
    have "attempts q \<in> {1..attempts q}" by (simp add: attempts_def split: op.splits)
    with None run show ?thesis by (auto simp: message_None)
  next
    case (Some t)
    from transmits_transact [OF Some, unfolded transmits_def] run obtain es k
      where "w_hist w' = w_hist w @ es" "transmitted es = replicate k t" "k \<le> attempts q" "answered r \<longrightarrow> 1 \<le> k"
      by (metis fst_conv snd_conv)
    with Some run show ?thesis by auto
  qed
qed

section \<open>Operations on the wire\<close>

text \<open>
  What may leave on the network, given what requests may be made: a message at a point of the
  connection's history \<open>pre\<close> comes from a request of the history \<open>h\<close>, that \<open>G\<close> allowed
  after its part \<open>h1\<close>, and all that happened on the network for \<open>h1\<close> is in \<open>pre\<close>.
\<close>

definition on_the_wire ::
  "(history \<Rightarrow> (ws_op, ws_answer, unit) world) \<Rightarrow> history \<Rightarrow> (history \<Rightarrow> message \<Rightarrow> bool) \<Rightarrow> ws_history \<Rightarrow> ws_op \<Rightarrow> bool" where
  "on_the_wire net h G pre x \<longleftrightarrow>
     (\<forall>t \<in> set (messages (x, Ack)). \<exists>h1. prefix h1 h \<and> prefix (w_hist (net h1)) pre \<and> G h1 t)"

lemma wire_world_append: "wire_world env cfg dec w (h @ h') = wire_world env cfg dec (wire_world env cfg dec w h) h'"
  by (induction h arbitrary: w) auto

lemma messages_any: "messages (x, a) = messages (x, Ack)"
  by (cases x) simp_all

lemma on_the_wire_silent:
  assumes "transmitted h' = []"
  shows "guarded (on_the_wire f h F) h'"
  unfolding guarded_def
proof (intro allI impI)
  fix pre x a post assume "h' = pre @ (x, a) # post"
  with assms have "messages (x, a) = []" by simp
  then show "on_the_wire f h F pre x" by (simp add: on_the_wire_def messages_any [of x a])
qed

lemma guarded_appendI:
  assumes "guarded G h" and "\<And>es1 q r es2. es = es1 @ (q, r) # es2 \<Longrightarrow> G (h @ es1) q"
  shows "guarded G (h @ es)"
  using assms(2)
proof (induction es rule: rev_induct)
  case (snoc e es)
  have "guarded G (h @ es)" by (rule snoc.IH) (use snoc.prems in \<open>metis append.assoc append_Cons\<close>)
  moreover have "G (h @ es) (fst e)" using snoc.prems [of es "fst e" "snd e" "[]"] by simp
  ultimately show ?case using guarded_snoc [of G "h @ es" "fst e" "snd e"] by simp
qed (simp add: assms(1))

lemma messages_transact:
  obtains es k where "w_hist (snd (run_state (transact env cfg dec q) w)) = w_hist w @ es"
    "transmitted es = (case message_of q of None \<Rightarrow> [] | Some t \<Rightarrow> replicate k t)"
proof (cases "message_of q")
  case None
  then show ?thesis using that [of "[]" 0] by (simp add: message_None)
next
  case (Some t)
  with transmits_transact [OF Some, unfolded transmits_def] that show ?thesis by fastforce
qed

lemma guarded_on_the_wire:
  assumes "guarded G h" and "\<And>h1 q t. G h1 q \<Longrightarrow> message_of q = Some t \<Longrightarrow> F h1 t"
    and "transmitted (w_hist w) = []"
  shows "guarded (on_the_wire (wire_world env cfg dec w) h F) (w_hist (wire_world env cfg dec w h))"
  using assms(1)
proof (induction h rule: rev_induct)
  case Nil
  from assms(3) show ?case by (simp add: on_the_wire_silent)
next
  case (snoc e h)
  obtain q a where e: "e = (q, a)" by fastforce
  with snoc.prems have G: "guarded G h" "G h q" by simp_all
  let ?v = "wire_world env cfg dec w h" and ?N = "wire_world env cfg dec w"
  obtain es k where es: "w_hist (snd (run_state (transact env cfg dec q) ?v)) = w_hist ?v @ es"
    "transmitted es = (case message_of q of None \<Rightarrow> [] | Some t \<Rightarrow> replicate k t)"
    by (rule messages_transact)
  have "guarded (on_the_wire ?N (h @ [e]) F) (w_hist ?v @ es)"
  proof (rule guarded_appendI)
    show "guarded (on_the_wire ?N (h @ [e]) F) (w_hist ?v)"
      by (rule guarded_mono [OF snoc.IH [OF G(1)]]) (fastforce simp: on_the_wire_def intro: prefix_prefix)
    fix es1 x r es2 assume at: "es = es1 @ (x, r) # es2"
    have "F h t" if "t \<in> set (messages (x, Ack))" for t
    proof -
      from that at have "t \<in> set (transmitted es)" using messages_any [of x r] by auto
      with es(2) have "message_of q = Some t" by (auto split: option.splits)
      with assms(2) G(2) show ?thesis by blast
    qed
    then show "on_the_wire ?N (h @ [e]) F (w_hist ?v @ es1) x" by (auto simp: on_the_wire_def intro: exI [of _ h])
  qed
  then show ?case by (simp add: wire_world_append e es(1))
qed

text \<open>
  The network of a process: a transport that has connected and then served the requests of a
  history, and the server as the client sees it. Without a connection no request is made.
\<close>

abbreviation idle :: "(ws_op, ws_answer, unit) world" where
  "idle \<equiv> \<lparr>w_hist = [], w_proc = ()\<rparr>"

definition net :: "ws_env \<Rightarrow> ws_config \<Rightarrow> decoder \<Rightarrow> history \<Rightarrow> (ws_op, ws_answer, unit) world" where
  "net env cfg dec h =
     (case run_state (newWSTransport env cfg) idle of
        (Inl e, w) \<Rightarrow> w
      | (Inr t, w) \<Rightarrow> wire_world env cfg dec w h)"

definition nas :: "ws_env \<Rightarrow> ws_config \<Rightarrow> decoder \<Rightarrow> server \<Rightarrow> server" where
  "nas env cfg dec others = stack env cfg dec (snd (run_state (newWSTransport env cfg) idle)) others"

lemma silent_new: "emits (\<lambda>q r. messages (q, r) = []) (newWSTransport env cfg)"
  unfolding newWSTransport_def dialWebSocket_def check_status_def handshakeAndAuth_def ws_connect_def authenticate_def Let_def
  by (intro emits_intros; simp)

lemma new_transmits_nothing: "run_state (newWSTransport env cfg) idle = (r, w) \<Longrightarrow> transmitted (w_hist w) = []"
  by (erule emitsD [OF silent_new]) auto

lemma guarded_net:
  assumes "guarded G h" and "\<And>h1 q t. G h1 q \<Longrightarrow> message_of q = Some t \<Longrightarrow> F h1 t"
  shows "guarded (on_the_wire (net env cfg dec) h F) (w_hist (net env cfg dec h))"
proof -
  obtain r w where run: "run_state (newWSTransport env cfg) idle = (r, w)" by fastforce
  note silent = new_transmits_nothing [OF run]
  show ?thesis
  proof (cases r)
    case (Inl e)
    with run silent show ?thesis by (simp add: net_def on_the_wire_silent)
  next
    case (Inr t)
    with run have "net env cfg dec = wire_world env cfg dec w" by (simp add: net_def fun_eq_iff)
    with guarded_on_the_wire [OF assms silent] show ?thesis by simp
  qed
qed

text \<open>The API key stays with the transport's own connections and uploads.\<close>

lemma safe_transact:
  assumes "valid_host (wc_host cfg)"
  shows "safe (transport_guard cfg) (\<lambda>_. True) (transact env cfg dec q) (\<lambda>_ _. True)"
proof (cases "message_of q")
  case (Some t)
  then show ?thesis
  proof (cases rule: message_cases)
    case (upload path content n)
    have "safe (transport_guard cfg) (\<lambda>_. True) (UploadFile_ws env cfg path) (\<lambda>_ _. True)"
      by (rule safe_conseq [OF safe_Upload]) (use assms in auto)
    with upload(1) show ?thesis by (auto simp: transact_def intro!: safe_bind safe_ret)
  next
    case (call m ps)
    with safe_Call show ?thesis by simp
  qed
qed (simp add: message_None safe_ret)

lemma guarded_wire_world:
  "valid_host (wc_host cfg) \<Longrightarrow> guarded (transport_guard cfg) (w_hist w) \<Longrightarrow>
   guarded (transport_guard cfg) (w_hist (wire_world env cfg dec w h))"
proof (induction h arbitrary: w)
  case (Cons e h)
  obtain q a where e: "e = (q, a)" by fastforce
  obtain r w' where run: "run_state (transact env cfg dec q) w = (r, w')" by fastforce
  have "guarded (transport_guard cfg) (w_hist w')"
    using safeD [OF safe_transact [OF Cons.prems(1)] Cons.prems(2) _ run] by simp
  with Cons.IH [OF Cons.prems(1)] e run show ?case by simp
qed simp

lemma transport_guarded_net: "guarded (transport_guard cfg) (w_hist (net env cfg dec h))"
proof -
  obtain r w where run: "run_state (newWSTransport env cfg) idle = (r, w)" by fastforce
  have "guarded (transport_guard cfg) (w_hist w)" "r = Inr t \<longrightarrow> valid_host (wc_host cfg)" for t
    using safeD [OF safe_new _ _ run] by (auto split: sum.splits)
  with run show ?thesis by (cases r) (auto simp: net_def guarded_wire_world)
qed

lemma guarded_both: "guarded G h \<Longrightarrow> guarded H h \<Longrightarrow> guarded (\<lambda>pre q. G pre q \<and> H pre q) h"
  unfolding guarded_def by blast

section \<open>Deprovisioning on the wire\<close>

definition reading_methods :: "string list" where
  "reading_methods =
     [''vm.query'', ''vm.get_instance'', ''vm.device.query'', ''vm.device.nic_attach_choices'', ''pool.dataset.query'',
      ''pool.query'', ''disk.query'', ''interface.query'', ''filesystem.stat'', ''filesystem.listdir'', ''system.info'',
      ''system.version'']"

definition deprovision_message :: "machine_spec \<Rightarrow> string \<Rightarrow> history \<Rightarrow> message \<Rightarrow> bool" where
  "deprovision_message s requestID h t =
     (case t of
        Posted body \<Rightarrow> False
      | Sent m ps \<Rightarrow>
          m \<in> set reading_methods \<or>
          m = ''vm.stop'' \<and> (\<exists>f. ps = [JInt (ms_vm_id s), JObj [(''force'', JBool f)]]) \<and> managed_read h (ms_vm_id s) \<or>
          m = ''vm.delete'' \<and> ps = [JInt (ms_vm_id s), JObj [(''force'', JBool True)]] \<and> managed_read h (ms_vm_id s) \<or>
          m = ''pool.dataset.delete'' \<and> (\<exists>z \<in> set (ms_zvol_path s # ms_additional_zvol_paths s).
            z \<noteq> [] \<and> ps = [JStr z] \<and> owned_read h z requestID \<and> vm_gone h (ms_vm_id s)))"

lemma reading_message:
  assumes "\<not> is_write q" and "message_of q = Some t"
  obtains m ps where "t = Sent m ps" "m \<in> set reading_methods"
proof -
  from assms(1) have "\<forall>m ps. wire q = Some (m, ps) \<longrightarrow> m \<in> set reading_methods"
    by (cases q) (simp_all add: is_write_def reading_methods_def)
  with assms that show thesis by (cases q) (auto simp: message_of_def is_write_def)
qed

lemma deprovision_messages:
  assumes "deprovision_guard s rid h q" and t: "message_of q = Some t"
  shows "deprovision_message s rid h t"
proof (cases "is_write q")
  case True
  with assms(1) consider f where "q = VmStop (ms_vm_id s) f" "managed_read h (ms_vm_id s)"
    | "q = VmDelete (ms_vm_id s)" "managed_read h (ms_vm_id s)"
    | z where "q = DatasetDelete z" "z \<in> set (ms_zvol_path s # ms_additional_zvol_paths s)" "z \<noteq> []"
        "owned_read h z rid" "vm_gone h (ms_vm_id s)"
    by (cases q) (simp_all add: deprovision_guard_def is_write_def)
  then show ?thesis
  proof cases
    case 1
    then show ?thesis using t by (auto simp: message_of_def deprovision_message_def)
  next
    case 2
    then show ?thesis using t by (auto simp: message_of_def deprovision_message_def)
  next
    case 3
    then show ?thesis using t unfolding deprovision_message_def by (auto simp: message_of_def)
  qed
next
  case False
  from reading_message [OF this t] obtain m ps where "t = Sent m ps" "m \<in> set reading_methods" .
  then show ?thesis by (simp only: deprovision_message_def message.case simp_thms)
qed

text \<open>
  C14: deprovisioning, run on the transport. Whatever the network and the server do, every frame
  on the connection reads, or stops or deletes the machine's own VM, or deletes one of its own
  zvols, with exactly these parameters; and by then a reply on the connection has shown the
  marker of the provider or of the request, and for a zvol that the VM is gone. Nothing is
  uploaded, and the API key leaves only as the transport may send it.
\<close>

theorem deprovision_on_the_wire:
  "let h = w_hist (snd (run_state (Deprovision (rt\<lparr>rt_srv := nas env cfg dec others\<rparr>) s req) \<lparr>w_hist = [], w_proc = p\<rparr>)) in
     guarded (\<lambda>pre x. transport_guard cfg pre x \<and>
         on_the_wire (net env cfg dec) h (deprovision_message s (case req of None \<Rightarrow> [] | Some i \<Rightarrow> i)) pre x)
       (w_hist (net env cfg dec h))"
proof -
  let ?rt = "rt\<lparr>rt_srv := nas env cfg dec others\<rparr>"
  have "guarded (deprovision_guard s (case req of None \<Rightarrow> [] | Some i \<Rightarrow> i))
      (w_hist (snd (run_state (Deprovision ?rt s req) \<lparr>w_hist = [], w_proc = p\<rparr>)))"
    by (rule safe_run [OF safe_conseq [OF safe_Deprovision]]) simp_all
  from guarded_net [OF this deprovision_messages] transport_guarded_net show ?thesis
    unfolding Let_def by (intro guarded_both)
qed

end
