(* ===== verification/Lint.thy ===== *)
theory Lint
  imports Paths
begin

text \<open>
  The analyzer of internal/hack/lintconcurrency (analyzer.go): a package that declares a struct
  with a wait group or an error group must ship a lifecycle test, and no function may be called
  \<open>safeGo\<close>.
\<close>

section \<open>Syntax trees\<close>

text \<open>
  Go's syntax trees, as far as the analyzer looks: identifiers, selectors \<open>X.Sel\<close>, pointer
  types, struct types and function declarations with the rest of their parts; every other node has
  its children in the order in which \<open>ast.Inspect\<close> visits them. Fields and the names of functions have a
  position. The fields of a struct, and the name of a declaration, may be nil.
\<close>

datatype node =
    Ident string
  | Selector node string
  | Star node
  | Struct "(nat \<times> string list \<times> node) list option"
  | FuncDecl "(nat \<times> string) option" "node list"
  | Node "node list"

record source_file =
  sf_name :: "string option"
  sf_decls :: "node list"

record pass =
  ps_files :: "source_file list"
  ps_other :: "string list"

datatype finding_kind = WaitGroup | ErrGroup | SafeGo

record finding =
  fn_pos :: nat
  fn_kind :: finding_kind
  fn_name :: string

section \<open>The analyzer\<close>

definition peel :: "node \<Rightarrow> node" where
  "peel e = (case e of Star x \<Rightarrow> x | _ \<Rightarrow> e)"

definition isGoroutineOwnerType :: "node \<Rightarrow> bool" where
  "isGoroutineOwnerType e =
     (case peel e of
        Selector (Ident pkg) sel \<Rightarrow>
          if pkg = ''sync'' then sel = ''WaitGroup'' else if pkg = ''errgroup'' then sel = ''Group'' else False
      | _ \<Rightarrow> False)"

definition owner_kind :: "node \<Rightarrow> finding_kind" where
  "owner_kind e = (case peel e of Selector (Ident pkg) sel \<Rightarrow> if pkg = ''errgroup'' then ErrGroup else WaitGroup | _ \<Rightarrow> WaitGroup)"

definition field_finding :: "nat \<times> string list \<times> node \<Rightarrow> finding list" where
  "field_finding f =
     (case f of (pos, names, t) \<Rightarrow>
        if \<not> isGoroutineOwnerType t then []
        else [\<lparr>fn_pos = pos, fn_kind = owner_kind t, fn_name = (case names of [] \<Rightarrow> ''<embedded>'' | n # ns \<Rightarrow> n)\<rparr>])"

text \<open>\<open>ast.Inspect\<close> visits a node before its children, in order.\<close>

fun inspect :: "node \<Rightarrow> finding list" where
  "inspect (Ident s) = []"
| "inspect (Selector x s) = inspect x"
| "inspect (Star x) = inspect x"
| "inspect (Struct None) = []"
| "inspect (Struct (Some fs)) = concat (map field_finding fs) @ concat (map (\<lambda>(pos, names, t). inspect t) fs)"
| "inspect (FuncDecl name node_parts) =
     (case name of
        Some (pos, n) \<Rightarrow> if n = ''safeGo'' then [\<lparr>fn_pos = pos, fn_kind = SafeGo, fn_name = ''safeGo''\<rparr>] else []
      | None \<Rightarrow> []) @ concat (map inspect node_parts)"
| "inspect (Node node_parts) = concat (map inspect node_parts)"

definition is_test_file :: "source_file \<Rightarrow> bool" where
  "is_test_file f = (case sf_name f of None \<Rightarrow> False | Some n \<Rightarrow> has_suffix n ''_test.go'')"

definition file_findings :: "source_file \<Rightarrow> finding list" where
  "file_findings f = (if is_test_file f then [] else concat (map inspect (sf_decls f)))"

definition lifecycle_name :: "string \<Rightarrow> bool" where
  "lifecycle_name n =
     (let base = path_base n in
        has_suffix base ''_lifecycle_test.go'' \<or> has_suffix base ''_stress_test.go'' \<or> has_suffix base ''_race_test.go'')"

definition packageHasLifecycleTest :: "pass \<Rightarrow> bool" where
  "packageHasLifecycleTest p = list_ex lifecycle_name (List.map_filter sf_name (ps_files p) @ ps_other p)"

text \<open>
  The files of a directory that end in \<open>.go\<close>, or \<open>None\<close> for an error, are the answers of
  the file system. The outer \<open>None\<close>: the first file has no position, a nil dereference.
\<close>

type_synonym file_system = "string \<Rightarrow> string list option"

definition findLifecycleTestOnDisk :: "file_system \<Rightarrow> pass \<Rightarrow> bool option" where
  "findLifecycleTestOnDisk fs p =
     (case ps_files p of
        [] \<Rightarrow> Some False
      | f # files \<Rightarrow>
          (case sf_name f of
             None \<Rightarrow> None
           | Some n \<Rightarrow> Some (case fs (path_dir n) of None \<Rightarrow> False | Some entries \<Rightarrow> list_ex lifecycle_name entries)))"

text \<open>The diagnostics, in order; \<open>None\<close> is the nil dereference.\<close>

definition run_lint :: "file_system \<Rightarrow> pass \<Rightarrow> finding list option" where
  "run_lint fs p =
     (let findings = concat (map file_findings (ps_files p));
          safe = filter (\<lambda>f. fn_kind f = SafeGo) findings;
          owners = filter (\<lambda>f. fn_kind f \<noteq> SafeGo) findings
      in if owners = [] then Some safe
         else if packageHasLifecycleTest p then Some safe
         else (case findLifecycleTestOnDisk fs p of
                 None \<Rightarrow> None
               | Some True \<Rightarrow> Some safe
               | Some False \<Rightarrow> Some (safe @ owners)))"

section \<open>What the analyzer enforces\<close>

fun node_parts :: "node \<Rightarrow> node list" where
  "node_parts (Selector x s) = [x]"
| "node_parts (Star x) = [x]"
| "node_parts (Struct (Some fs)) = map (\<lambda>(pos, names, t). t) fs"
| "node_parts (FuncDecl name ps) = ps"
| "node_parts (Node ps) = ps"
| "node_parts _ = []"

text \<open>\<open>within m n\<close>: the node \<open>m\<close> is somewhere in the tree \<open>n\<close>.\<close>

inductive within :: "node \<Rightarrow> node \<Rightarrow> bool" where
  here: "within n n"
| below: "x \<in> set (node_parts n) \<Longrightarrow> within m x \<Longrightarrow> within m n"

text \<open>A wait group or an error group, or a pointer to one.\<close>

definition owner_types :: "node set" where
  "owner_types =
     (let groups = {Selector (Ident ''sync'') ''WaitGroup'', Selector (Ident ''errgroup'') ''Group''}
      in groups \<union> Star ` groups)"

text \<open>The positions of the fields of such a type, and of the functions \<open>safeGo\<close>, in a file.\<close>

definition owner_fields :: "source_file \<Rightarrow> nat set" where
  "owner_fields f = {pos. \<exists>d \<in> set (sf_decls f). \<exists>fs names t. within (Struct (Some fs)) d \<and> (pos, names, t) \<in> set fs \<and> t \<in> owner_types}"

definition safe_gos :: "source_file \<Rightarrow> nat set" where
  "safe_gos f = {pos. \<exists>d \<in> set (sf_decls f). \<exists>ps. within (FuncDecl (Some (pos, ''safeGo'')) ps) d}"

lemma owner_iff: "isGoroutineOwnerType t \<longleftrightarrow> t \<in> owner_types"
proof -
  have group: "(case e of Selector (Ident pkg) sel \<Rightarrow>
      if pkg = ''sync'' then sel = ''WaitGroup'' else if pkg = ''errgroup'' then sel = ''Group'' else False | _ \<Rightarrow> False) \<longleftrightarrow>
    e \<in> {Selector (Ident ''sync'') ''WaitGroup'', Selector (Ident ''errgroup'') ''Group''}" for e
    by (auto split: node.splits)
  show ?thesis
    by (cases t) (simp_all add: isGoroutineOwnerType_def peel_def group owner_types_def Let_def image_iff)
qed

text \<open>What the walk finds at a node itself.\<close>

fun found_at :: "node \<Rightarrow> finding list" where
  "found_at (Struct (Some fs)) = concat (map field_finding fs)"
| "found_at (FuncDecl (Some (pos, n)) ps) = (if n = ''safeGo'' then [\<lparr>fn_pos = pos, fn_kind = SafeGo, fn_name = ''safeGo''\<rparr>] else [])"
| "found_at _ = []"

lemma inspect_parts: "inspect n = found_at n @ concat (map inspect (node_parts n))"
  by (induction n rule: inspect.induct) (auto intro!: arg_cong [where f = concat] split: option.splits)

lemma part_smaller: "x \<in> set (node_parts n) \<Longrightarrow> size x < size n"
proof (induction n rule: node_parts.induct)
  case (3 fs)
  then obtain pos names where "(pos, names, x) \<in> set fs" by auto
  from size_list_estimation' [OF this, of "size x" "size_prod (\<lambda>_. 0) (size_prod (\<lambda>_. 0) size)"] show ?case by simp
next
  case (4 name ps)
  then have "size x \<le> size_list size ps" by (intro size_list_estimation' [OF _ order_refl]) simp
  then show ?case by simp
next
  case (5 ps)
  then have "size x \<le> size_list size ps" by (intro size_list_estimation' [OF _ order_refl]) simp
  then show ?case by simp
qed auto

lemma set_inspect: "f \<in> set (inspect n) \<longleftrightarrow> (\<exists>m. within m n \<and> f \<in> set (found_at m))"
proof (induction n rule: measure_induct_rule [where f = size])
  case (less n)
  then have "(\<exists>x \<in> set (node_parts n). f \<in> set (inspect x)) \<longleftrightarrow> (\<exists>x \<in> set (node_parts n). \<exists>m. within m x \<and> f \<in> set (found_at m))"
    using part_smaller by blast
  then show ?case by (subst inspect_parts) (auto elim: within.cases intro: within.intros)
qed

lemma owner_kinds:
  assumes "f \<in> set (field_finding (pos, names, t))"
  shows "fn_pos f = pos \<and> fn_kind f \<noteq> SafeGo \<and> t \<in> owner_types"
  using assms
  by (auto simp: field_finding_def owner_iff owner_kind_def split: if_splits node.splits)

lemma field_found: "t \<in> owner_types \<Longrightarrow> \<exists>f \<in> set (field_finding (pos, names, t)). fn_pos f = pos \<and> fn_kind f \<noteq> SafeGo"
  by (auto simp: field_finding_def owner_iff owner_kind_def split: node.splits)

lemma file_positions:
  assumes "\<not> is_test_file s"
  shows "fn_pos ` {f \<in> set (file_findings s). fn_kind f = SafeGo} = safe_gos s"
    and "fn_pos ` {f \<in> set (file_findings s). fn_kind f \<noteq> SafeGo} = owner_fields s"
proof -
  have all: "f \<in> set (file_findings s) \<longleftrightarrow> (\<exists>d \<in> set (sf_decls s). \<exists>m. within m d \<and> f \<in> set (found_at m))" for f
    using assms by (simp add: file_findings_def set_inspect)
  have at: "f \<in> set (found_at m) \<longleftrightarrow>
      (\<exists>fs x. m = Struct (Some fs) \<and> x \<in> set fs \<and> f \<in> set (field_finding x)) \<or>
      (\<exists>pos ps. m = FuncDecl (Some (pos, ''safeGo'')) ps \<and> f = \<lparr>fn_pos = pos, fn_kind = SafeGo, fn_name = ''safeGo''\<rparr>)" for f m
    by (induction m rule: found_at.induct) auto
  show "fn_pos ` {f \<in> set (file_findings s). fn_kind f = SafeGo} = safe_gos s"
    unfolding all at safe_gos_def by (force dest: owner_kinds)
  show "fn_pos ` {f \<in> set (file_findings s). fn_kind f \<noteq> SafeGo} = owner_fields s"
  proof (intro equalityI subsetI)
    fix pos assume "pos \<in> owner_fields s"
    then obtain d fs names t where d: "d \<in> set (sf_decls s)" "within (Struct (Some fs)) d" "(pos, names, t) \<in> set fs" "t \<in> owner_types"
      by (auto simp: owner_fields_def)
    from field_found [OF d(4)] obtain f where "f \<in> set (field_finding (pos, names, t))" "fn_pos f = pos" "fn_kind f \<noteq> SafeGo" by blast
    with d have "f \<in> set (file_findings s)" unfolding all at by blast
    with \<open>fn_pos f = pos\<close> \<open>fn_kind f \<noteq> SafeGo\<close> show "pos \<in> fn_pos ` {f \<in> set (file_findings s). fn_kind f \<noteq> SafeGo}" by force
  qed (fastforce simp: all at owner_fields_def dest!: owner_kinds)
qed

definition has_companion :: "file_system \<Rightarrow> pass \<Rightarrow> bool" where
  "has_companion fs p \<longleftrightarrow>
     (\<exists>n. lifecycle_name n \<and>
       ((\<exists>f \<in> set (ps_files p). sf_name f = Some n) \<or> n \<in> set (ps_other p) \<or>
        (\<exists>f rest m entries. ps_files p = f # rest \<and> sf_name f = Some m \<and> fs (path_dir m) = Some entries \<and> n \<in> set entries)))"

text \<open>
  C38: the analyzer reports exactly the functions called \<open>safeGo\<close> (methods too) in the files
  that are no tests, wherever they are, and, if neither the package nor the directory of its first
  file has a lifecycle test, exactly the struct fields whose type is \<open>sync.WaitGroup\<close> or
  \<open>errgroup.Group\<close>, or a pointer to one.
\<close>

theorem lint_reports:
  assumes "run_lint fs p = Some ds"
  shows "fn_pos ` set ds =
    (\<Union>f \<in> {f \<in> set (ps_files p). \<not> is_test_file f}. safe_gos f \<union> (if has_companion fs p then {} else owner_fields f))"
proof -
  let ?fs = "{f \<in> set (ps_files p). \<not> is_test_file f}"
  let ?all = "concat (map file_findings (ps_files p))"
  have all: "set ?all = (\<Union>f \<in> ?fs. set (file_findings f))" by (auto simp: file_findings_def)
  have split: "fn_pos ` {x \<in> set ?all. P x} = (\<Union>f \<in> ?fs. fn_pos ` {x \<in> set (file_findings f). P x})" for P
    unfolding all by auto
  have safe: "fn_pos ` set (filter (\<lambda>f. fn_kind f = SafeGo) ?all) = (\<Union>f \<in> ?fs. safe_gos f)"
    unfolding set_filter split using file_positions(1) by auto
  have owners: "fn_pos ` set (filter (\<lambda>f. fn_kind f \<noteq> SafeGo) ?all) = (\<Union>f \<in> ?fs. owner_fields f)"
    unfolding set_filter split using file_positions(2) by auto
  have names: "set (List.map_filter g xs) = {n. \<exists>x \<in> set xs. g x = Some n}" for g :: "source_file \<Rightarrow> string option" and xs
    by (induction xs) (auto simp: List.map_filter_simps split: option.splits)
  have companion: "packageHasLifecycleTest p \<or> findLifecycleTestOnDisk fs p = Some True \<longleftrightarrow> has_companion fs p"
    by (auto simp: packageHasLifecycleTest_def findLifecycleTestOnDisk_def has_companion_def list_ex_iff names
        split: list.splits option.splits)
  show ?thesis
  proof (cases "filter (\<lambda>f. fn_kind f \<noteq> SafeGo) ?all = []")
    case True
    with owners have "(\<Union>f \<in> ?fs. owner_fields f) = {}" by simp
    then have "(\<Union>f \<in> ?fs. safe_gos f \<union> (if has_companion fs p then {} else owner_fields f)) = (\<Union>f \<in> ?fs. safe_gos f)" by (auto split: if_splits)
    with True assms safe show ?thesis by (simp add: run_lint_def Let_def)
  next
    case False
    with assms companion have "ds = filter (\<lambda>f. fn_kind f = SafeGo) ?all @
        (if has_companion fs p then [] else filter (\<lambda>f. fn_kind f \<noteq> SafeGo) ?all)"
      by (auto simp: run_lint_def Let_def split: if_splits option.splits bool.splits)
    then have "fn_pos ` set ds = (\<Union>f \<in> ?fs. safe_gos f) \<union> (if has_companion fs p then {} else (\<Union>f \<in> ?fs. owner_fields f))"
      using safe owners by (simp add: image_Un)
    then show ?thesis by auto
  qed
qed

text \<open>A method \<open>safeGo\<close>, and a wait group in a struct type inside of a function; the directory has no test.\<close>

definition demo_pass :: pass where
  "demo_pass = \<lparr>ps_files = [
     \<lparr>sf_name = Some ''/p/x/a.go'', sf_decls = [
        FuncDecl (Some (40, ''safeGo'')) [Node [Star (Ident ''T'')], Node [Struct (Some [(10, [''wg''], Star (Selector (Ident ''sync'') ''WaitGroup''))])]]]\<rparr>,
     \<lparr>sf_name = Some ''/p/x/a_test.go'', sf_decls = [Struct (Some [(5, [], Selector (Ident ''errgroup'') ''Group'')])]\<rparr>], ps_other = []\<rparr>"

definition demo_disk :: file_system where
  "demo_disk dir = (if dir = ''/p/x'' then Some [''/p/x/a.go'', ''/p/x/a_test.go''] else None)"

theorem lint_witness:
  "{40, 10} = (\<Union>f \<in> {f \<in> set (ps_files demo_pass). \<not> is_test_file f}. safe_gos f \<union> (if has_companion demo_disk demo_pass then {} else owner_fields f))"
proof -
  have "run_lint demo_disk demo_pass = Some [\<lparr>fn_pos = 40, fn_kind = SafeGo, fn_name = ''safeGo''\<rparr>, \<lparr>fn_pos = 10, fn_kind = WaitGroup, fn_name = ''wg''\<rparr>]"
    by code_simp
  from lint_reports [OF this] show ?thesis by simp
qed

end
