(* ===== verification/RotationMetrics.thy ===== *)
theory RotationMetrics
  imports Reconciler
begin

text \<open>
  What the node rotation tells its operators: the metrics that \<open>buildNodeRotationMetrics\<close>
  (cmd/omni-infra-provider-truenas/noderotation.go) records in the callbacks of a pass
  (noderotation/reconciler.go, \<open>tick\<close>), with their labels, and the level of the log. The values of
  the histograms are left out.
\<close>

section \<open>Instruments and labels\<close>

datatype rotation_metric =
    CandidatesMetric | DecisionsMetric | ProgressMetric | ErrorsMetric | RoleMismatchMetric | TickMetric | SurgeCycleMetric

type_synonym sample = "rotation_metric \<times> (string \<times> string) list"

text \<open>An instrument that could not be made is nil and records nothing.\<close>

definition add_sample :: "(rotation_metric \<Rightarrow> bool) \<Rightarrow> rotation_metric \<Rightarrow> (string \<times> string) list \<Rightarrow> sample list" where
  "add_sample on m labels = (if on m then [(m, labels)] else [])"

fun action_label :: "action \<Rightarrow> string" where
  "action_label ActionNone = []"
| "action_label ActionLockedByPriorStep = ''locked-by-prior-step''"
| "action_label ActionWaitingForReady = ''waiting-for-ready''"
| "action_label ActionWaitingForTeardown = ''waiting-for-teardown''"
| "action_label ActionMinHealthyFloor = ''min-healthy-floor''"
| "action_label ActionTeardownStale = ''teardown-stale''"
| "action_label ActionSurgeUp = ''surge-up''"
| "action_label ActionSurgeDown = ''surge-down''"
| "action_label ActionSurgeCycleComplete = ''surge-cycle-complete''"
| "action_label ActionSurgeAborted = ''surge-aborted''"
| "action_label ActionStampGeneration = ''stamp-generation''"
| "action_label ActionRefreshLock = ''refresh-lock''"

fun abort_label :: "abort_kind \<Rightarrow> string" where
  "abort_label AbortKindNone = []"
| "abort_label AbortKindCountDriftWaitUp = ''count-drift-waitup''"
| "abort_label AbortKindCountDriftWaitDown = ''count-drift-waitdown''"
| "abort_label AbortKindUnknownPhase = ''unknown-phase''"

fun role_label :: "role \<Rightarrow> string" where
  "role_label ControlPlane = ''controlplane''"
| "role_label Worker = ''worker''"

fun strategy_label :: "strategy \<Rightarrow> string" where
  "strategy_label Surge = ''surge''"
| "strategy_label InPlace = ''in-place''"

definition or_none :: "string \<Rightarrow> string" where
  "or_none s = (if s = [] then ''none'' else s)"

definition decision_labels :: "action \<Rightarrow> strategy \<Rightarrow> role \<Rightarrow> (string \<times> string) list" where
  "decision_labels a s r = [(''action'', or_none (action_label a)), (''strategy'', strategy_label s), (''role'', role_label r)]"

definition progress_labels :: "strategy \<Rightarrow> role \<Rightarrow> (string \<times> string) list" where
  "progress_labels s r = [(''strategy'', strategy_label s), (''role'', role_label r)]"

definition error_labels :: "action \<Rightarrow> abort_kind \<Rightarrow> strategy \<Rightarrow> role \<Rightarrow> (string \<times> string) list" where
  "error_labels a k s r =
     [(''action'', action_label a), (''role'', role_label r), (''strategy'', strategy_label s), (''abort_kind'', or_none (abort_label k))]"

abbreviation strategy_of :: "candidate \<Rightarrow> strategy" where "strategy_of c \<equiv> rc_strategy (cd_config c)"
abbreviation role_of :: "candidate \<Rightarrow> role" where "role_of c \<equiv> rc_role (cd_config c)"

definition OnDecision :: "(rotation_metric \<Rightarrow> bool) \<Rightarrow> candidate \<Rightarrow> decision \<Rightarrow> sample list" where
  "OnDecision on c d = add_sample on DecisionsMetric (decision_labels (de_action d) (strategy_of c) (role_of c))"

definition OnExecuteError :: "(rotation_metric \<Rightarrow> bool) \<Rightarrow> candidate \<Rightarrow> decision \<Rightarrow> sample list" where
  "OnExecuteError on c d = add_sample on ErrorsMetric (error_labels (de_action d) (de_abort d) (strategy_of c) (role_of c))"

definition OnRotationProgress :: "(rotation_metric \<Rightarrow> bool) \<Rightarrow> candidate \<Rightarrow> sample list" where
  "OnRotationProgress on c = add_sample on ProgressMetric (progress_labels (strategy_of c) (role_of c))"

definition OnSurgeCycleComplete :: "(rotation_metric \<Rightarrow> bool) \<Rightarrow> candidate \<Rightarrow> sample list" where
  "OnSurgeCycleComplete on c = add_sample on SurgeCycleMetric (progress_labels (strategy_of c) (role_of c))"

definition OnRefused :: "(rotation_metric \<Rightarrow> bool) \<Rightarrow> string \<Rightarrow> role \<Rightarrow> sample list" where
  "OnRefused on machineSetID declared = add_sample on RoleMismatchMetric [(''machineset'', machineSetID), (''role'', role_label declared)]"

section \<open>A pass and its metrics\<close>

text \<open>The calls after \<open>Execute\<close>, by its outcome.\<close>

definition outcome_samples :: "(rotation_metric \<Rightarrow> bool) \<Rightarrow> candidate \<Rightarrow> decision \<Rightarrow> execute_error + unit \<Rightarrow> sample list" where
  "outcome_samples on c d x =
     (case x of
        Inl e \<Rightarrow> if e = ErrCandidateNotActionable then [] else OnExecuteError on c d
      | Inr u \<Rightarrow>
          if de_action d \<in> {ActionTeardownStale, ActionSurgeDown} then OnRotationProgress on c
          else if de_action d = ActionSurgeCycleComplete then
            (case SurgePhase c of None \<Rightarrow> [] | Some phase \<Rightarrow> OnSurgeCycleComplete on c)
          else [])"

definition observed_candidate :: "rotation_env \<Rightarrow> reconciler \<Rightarrow> (rotation_metric \<Rightarrow> bool) \<Rightarrow> candidate \<Rightarrow> sample list rotating" where
  "observed_candidate env r on c = do {
     now \<leftarrow> now_read env;
     let d = Plan (en_lockTTL (rn_engine r)) now c;
     x \<leftarrow> Execute env (rn_engine r) d;
     ret (OnDecision on c d @ outcome_samples on c d x) }"

fun observe_all :: "('a \<Rightarrow> 'b list rotating) \<Rightarrow> 'a list \<Rightarrow> 'b list rotating" where
  "observe_all f [] = ret []"
| "observe_all f (x # xs) = do { s \<leftarrow> f x; ss \<leftarrow> observe_all f xs; ret (s @ ss) }"

text \<open>\<open>OnTick\<close> records the number of candidates, \<open>OnTickDuration\<close> the duration of every pass.\<close>

definition observed_tick :: "rotation_env \<Rightarrow> reconciler \<Rightarrow> (rotation_metric \<Rightarrow> bool) \<Rightarrow> sample list rotating" where
  "observed_tick env r on = do {
     x \<leftarrow> Discover env (rn_digest r) (rn_disc r);
     case x of
       Inl e \<Rightarrow> do { stamp_tick env; ret (add_sample on TickMetric []) }
     | Inr candidates \<Rightarrow> do {
         ss \<leftarrow> observe_all (observed_candidate env r on) candidates;
         stamp_tick env;
         ret (add_sample on CandidatesMetric [] @ ss @ add_sample on TickMetric []) } }"

text \<open>Observed or not, a pass does the same.\<close>

lemma observed_candidate_same: "do { s \<leftarrow> observed_candidate env r on c; ret () } = tick_candidate env r c"
  by (simp add: observed_candidate_def tick_candidate_def Let_def bind_assoc)

lemma observe_all_same:
  "run_state (observe_all (observed_candidate env r on) cs) w = (ss, w') \<Longrightarrow> run_state (for_all (tick_candidate env r) cs) w = ((), w')"
proof (induction cs arbitrary: w ss w')
  case (Cons c cs)
  obtain s w1 where "run_state (observed_candidate env r on c) w = (s, w1)" by (metis surj_pair)
  with Cons show ?case by (auto simp flip: observed_candidate_same [of env r on] split: prod.splits)
qed simp

lemma observed_tick_same: "snd (run_state (observed_tick env r on) w) = snd (run_state (tick env r) w)"
proof -
  obtain x w1 where d: "run_state (Discover env (rn_digest r) (rn_disc r)) w = (x, w1)" by (metis surj_pair)
  show ?thesis
  proof (cases x)
    case (Inr cs)
    obtain ss w2 where o: "run_state (observe_all (observed_candidate env r on) cs) w1 = (ss, w2)" by (metis surj_pair)
    with d Inr observe_all_same [OF o] show ?thesis by (simp add: observed_tick_def tick_def split: prod.splits)
  qed (use d in \<open>simp add: observed_tick_def tick_def split: prod.splits\<close>)
qed

section \<open>The number of labels\<close>

text \<open>What can be planned for a set, by its strategy and role, and what of it can fail.\<close>

definition planned :: "(action \<times> strategy \<times> role) list" where
  "planned =
     map (\<lambda>a. (a, InPlace, Worker))
       [ActionNone, ActionLockedByPriorStep, ActionWaitingForReady, ActionMinHealthyFloor, ActionTeardownStale, ActionStampGeneration] @
     concat (map (\<lambda>r. map (\<lambda>a. (a, Surge, r))
       [ActionNone, ActionLockedByPriorStep, ActionWaitingForReady, ActionWaitingForTeardown, ActionMinHealthyFloor, ActionSurgeUp,
        ActionSurgeDown, ActionSurgeCycleComplete, ActionSurgeAborted, ActionStampGeneration]) [ControlPlane, Worker])"

definition failing :: "(action \<times> abort_kind \<times> strategy \<times> role) list" where
  "failing =
     map (\<lambda>a. (a, AbortKindNone, InPlace, Worker))
       [ActionNone, ActionWaitingForReady, ActionMinHealthyFloor, ActionTeardownStale, ActionStampGeneration] @
     concat (map (\<lambda>r. map (\<lambda>(a, k). (a, k, Surge, r))
       ([(ActionSurgeAborted, AbortKindCountDriftWaitUp), (ActionSurgeAborted, AbortKindCountDriftWaitDown)] @
        map (\<lambda>a. (a, AbortKindNone)) [ActionWaitingForReady, ActionWaitingForTeardown, ActionSurgeUp,
          ActionSurgeDown, ActionSurgeCycleComplete, ActionStampGeneration])) [ControlPlane, Worker])"

definition advancing :: "(strategy \<times> role) list" where
  "advancing = [(InPlace, Worker), (Surge, ControlPlane), (Surge, Worker)]"

fun recorded_labels :: "rotation_metric \<Rightarrow> (string \<times> string) list list" where
  "recorded_labels DecisionsMetric = map (\<lambda>(a, s, r). decision_labels a s r) planned"
| "recorded_labels ErrorsMetric = map (\<lambda>(a, k, s, r). error_labels a k s r) failing"
| "recorded_labels ProgressMetric = map (\<lambda>(s, r). progress_labels s r) advancing"
| "recorded_labels SurgeCycleMetric = map (progress_labels Surge) [ControlPlane, Worker]"
| "recorded_labels CandidatesMetric = [[]]"
| "recorded_labels TickMetric = [[]]"
| "recorded_labels RoleMismatchMetric = []"

definition configured :: "candidate \<Rightarrow> bool" where
  "configured c \<longleftrightarrow> \<not> (role_of c = ControlPlane \<and> strategy_of c = InPlace)"

lemma surge_phase_known: "SurgePhase c = Some p \<Longrightarrow> sp_phase p \<in> {SurgePhaseWaitUp, SurgePhaseWaitDown}"
  by (auto simp: SurgePhase_def parseSurgePhaseAnnotation_def Let_def split: option.splits list.splits if_splits)

lemma plan_planned:
  assumes "configured c"
  shows "(de_action (Plan ttl now c), strategy_of c, role_of c) \<in> set planned"
  using assms
  by (cases "role_of c"; cases "strategy_of c")
    (auto simp: planned_def configured_def plan_defs split: option.splits list.splits)

lemma plan_candidate: "de_candidate (Plan ttl now c) = Some c"
  by (auto simp: plan_defs split: option.splits list.splits strategy.splits)

text \<open>A step that waits fails only when it refreshes the lock of a surge cycle.\<close>

lemma waiting_fails:
  assumes "run_state (Execute env e d) w = (Inl x, w')" and "x \<noteq> ErrCandidateNotActionable" and "de_candidate d = Some c"
    and "de_action d \<in> {ActionNone, ActionLockedByPriorStep, ActionWaitingForReady, ActionWaitingForTeardown, ActionMinHealthyFloor}"
  shows "SurgePhase c \<noteq> None"
  using assms by (cases "SurgePhase c") (auto simp: Execute_def not_actionable_def)

lemma plan_abort:
  "if de_action (Plan ttl now c) = ActionSurgeAborted
   then de_abort (Plan ttl now c) \<in> {AbortKindCountDriftWaitUp, AbortKindCountDriftWaitDown}
   else de_abort (Plan ttl now c) = AbortKindNone"
  using surge_phase_known [of c]
  by (auto simp: plan_defs split: option.splits list.splits strategy.splits)

lemma plan_locked: "de_action (Plan ttl now c) = ActionLockedByPriorStep \<Longrightarrow> SurgePhase c = None"
  by (auto simp: plan_defs split: option.splits list.splits strategy.splits if_splits)

lemma plan_surge_idle:
  "strategy_of c = Surge \<Longrightarrow> de_action (Plan ttl now c) \<in> {ActionNone, ActionMinHealthyFloor} \<Longrightarrow> SurgePhase c = None"
  by (auto simp: plan_defs split: option.splits if_splits)

lemma planned_failing:
  "list_all (\<lambda>(a, s, r). list_all (\<lambda>k. (a, k, s, r) \<in> set failing \<or> a = ActionLockedByPriorStep \<or>
       s = Surge \<and> a \<in> {ActionNone, ActionMinHealthyFloor})
     (if a = ActionSurgeAborted then [AbortKindCountDriftWaitUp, AbortKindCountDriftWaitDown] else [AbortKindNone])) planned"
  by code_simp

lemma plan_failing:
  assumes "configured c" and "de_action (Plan ttl now c) \<in> {ActionNone, ActionLockedByPriorStep, ActionWaitingForReady, ActionWaitingForTeardown, ActionMinHealthyFloor} \<Longrightarrow> SurgePhase c \<noteq> None"
  shows "(de_action (Plan ttl now c), de_abort (Plan ttl now c), strategy_of c, role_of c) \<in> set failing"
proof -
  have "(de_action (Plan ttl now c), de_abort (Plan ttl now c), strategy_of c, role_of c) \<in> set failing \<or>
      de_action (Plan ttl now c) = ActionLockedByPriorStep \<or>
      strategy_of c = Surge \<and> de_action (Plan ttl now c) \<in> {ActionNone, ActionMinHealthyFloor}"
    using bspec [OF planned_failing [unfolded list_all_iff] plan_planned [OF assms(1), of ttl now]] plan_abort [of ttl now c]
    by (auto split: if_splits)
  then show ?thesis using plan_locked [of ttl now c] plan_surge_idle [of c ttl now] assms(2) by auto
qed

definition bounded :: "sample list \<Rightarrow> bool" where
  "bounded ss \<longleftrightarrow> (\<forall>(m, l) \<in> set ss. l \<in> set (recorded_labels m))"

lemma bounded_simps [simp]:
  "bounded []" "bounded (ss @ ts) \<longleftrightarrow> bounded ss \<and> bounded ts"
  by (auto simp: bounded_def)

lemma bounded_add: "l \<in> set (recorded_labels m) \<Longrightarrow> bounded (add_sample on m l)"
  by (simp add: bounded_def add_sample_def)

lemma observed_bounded:
  assumes "configured c" and "run_state (observed_candidate env r on c) w = (ss, w')"
  shows "bounded ss"
proof -
  obtain now x w1 where x: "run_state (Execute env (rn_engine r) (Plan (en_lockTTL (rn_engine r)) now c)) w1 = (x, w')"
      and ss: "ss = OnDecision on c (Plan (en_lockTTL (rn_engine r)) now c) @ outcome_samples on c (Plan (en_lockTTL (rn_engine r)) now c) x"
    using assms(2) by (auto simp: observed_candidate_def Let_def split: prod.splits)
  let ?d = "Plan (en_lockTTL (rn_engine r)) now c"
  have plan: "(de_action ?d, strategy_of c, role_of c) \<in> set planned" by (rule plan_planned [OF assms(1)])
  then have "bounded (OnDecision on c ?d)" unfolding OnDecision_def by (intro bounded_add) force
  moreover have "bounded (outcome_samples on c ?d x)"
  proof (cases x)
    case (Inl e)
    have "bounded (OnExecuteError on c ?d)" if "e \<noteq> ErrCandidateNotActionable"
    proof -
      have "(de_action ?d, de_abort ?d, strategy_of c, role_of c) \<in> set failing"
        using plan_failing [OF assms(1)] waiting_fails [OF x [unfolded Inl] that plan_candidate] by blast
      then show ?thesis unfolding OnExecuteError_def by (intro bounded_add) force
    qed
    with Inl show ?thesis by (simp add: outcome_samples_def)
  next
    case (Inr u)
    have "(strategy_of c, role_of c) \<in> set advancing"
      using assms(1) by (cases "strategy_of c"; cases "role_of c") (simp_all add: advancing_def configured_def)
    then have "bounded (OnRotationProgress on c)" unfolding OnRotationProgress_def by (intro bounded_add) force
    moreover have "bounded (OnSurgeCycleComplete on c)" if "de_action ?d = ActionSurgeCycleComplete"
    proof -
      have "strategy_of c = Surge" using plan that by (auto simp: planned_def)
      then show ?thesis unfolding OnSurgeCycleComplete_def by (intro bounded_add) (cases "role_of c"; simp)
    qed
    ultimately show ?thesis using Inr by (auto simp: outcome_samples_def split: option.splits)
  qed
  ultimately show ?thesis by (simp add: ss)
qed

lemma observe_all_bounded:
  "(\<And>c. c \<in> set cs \<Longrightarrow> configured c) \<Longrightarrow> run_state (observe_all (observed_candidate env r on) cs) w = (ss, w') \<Longrightarrow> bounded ss"
proof (induction cs arbitrary: w ss)
  case (Cons c cs)
  then show ?case by (auto split: prod.splits dest: observed_bounded [rotated])
qed simp


section \<open>The level of the log\<close>

datatype log_level = DebugLevel | InfoLevel | WarnLevel

definition decisionLevel :: "action \<Rightarrow> log_level" where
  "decisionLevel a =
     (if a \<in> {ActionNone, ActionLockedByPriorStep, ActionWaitingForReady, ActionWaitingForTeardown} then DebugLevel
      else if a \<in> {ActionMinHealthyFloor, ActionSurgeAborted} then WarnLevel
      else InfoLevel)"

text \<open>A decision that is only logged for debugging writes nothing but a refreshed lock.\<close>

lemma debug_decisions_only_refresh:
  assumes "decisionLevel (de_action d) = DebugLevel"
  shows "emits (\<lambda>q a. q = ReadClock \<or> (\<exists>i gen now. q = UpdateSet i (SetLock gen now))) (Execute env e d)"
proof -
  have "emits (\<lambda>q a. q = ReadClock \<or> (\<exists>i gen now. q = UpdateSet i (SetLock gen now))) (not_actionable env c)" for c
    unfolding not_actionable_def setLock_def now_read_def update_set_def by (intro emits_intros) auto
  with assms show ?thesis
    by (cases "de_action d") (auto simp: decisionLevel_def Execute_def intro!: emits_intros)
qed

end
