(* ===== verification/ErrorTexts.thy ===== *)
theory ErrorTexts
  imports TrueNAS
begin

text \<open>
  The texts for users of internal/client/truenas.go: \<open>APIError.Error\<close> and
  \<open>UserFriendlyError\<close>.
\<close>

text \<open>The dash of the messages, as its three bytes.\<close>

definition dash :: string where
  "dash = '' '' @ [CHR 0xE2, CHR 0x80, CHR 0x94] @ '' ''"

definition APIError_Error :: "int \<Rightarrow> string \<Rightarrow> string" where
  "APIError_Error code msg = ''truenas api error (code '' @ format_int code @ ''): '' @ msg"

text \<open>The text of an error that is no API error, \<open>err.Error()\<close>, is an argument.\<close>

definition UserFriendlyError :: "(go_error \<Rightarrow> string) \<Rightarrow> go_error option \<Rightarrow> string" where
  "UserFriendlyError show err =
     (case err of
        None \<Rightarrow> []
      | Some e \<Rightarrow>
          (case as_api e of
             None \<Rightarrow>
               let msg = show e in
               if contains msg ''reconnect failed'' \<or> contains msg ''failed to connect'' then
                 ''TrueNAS is unreachable'' @ dash @ ''check network connectivity and that TrueNAS is running''
               else if contains msg ''authentication'' \<or> contains msg ''auth'' then
                 ''TrueNAS authentication failed'' @ dash @ ''check TRUENAS_API_KEY''
               else msg
           | Some (code, msg) \<Rightarrow>
               if code = ErrCodeNoSpace then ''TrueNAS pool is full'' @ dash @ ''free up space or use a different pool''
               else if code = ErrCodeNoMemory then
                 ''TrueNAS host is out of free RAM'' @ dash @ ''cannot guarantee memory for this VM. '' @
                 ''Stop another guest, reduce this MachineClass memory, or add host RAM''
               else if code = ErrCodeDenied then ''TrueNAS permission denied'' @ dash @ ''check API key permissions''
               else if code = ErrCodeInvalid then
                 (if contains msg ''nic_attach'' \<or> contains msg ''NIC'' then ''network interface not found on TrueNAS: '' @ msg
                  else if contains msg ''name'' then ''Invalid VM name: '' @ msg
                  else ''Invalid configuration: '' @ msg)
               else APIError_Error code msg))"

text \<open>An API error is explained alike through every wrapper, and one with a text keeps it at its end.\<close>

lemma friendly_wrapped: "as_api e \<noteq> None \<Longrightarrow> UserFriendlyError show (Some (Wrapped t e)) = UserFriendlyError show (Some e)"
  by (auto simp: UserFriendlyError_def)

lemma friendly_keeps_message:
  assumes "as_api e = Some (code, msg)" and "code \<notin> {ErrCodeNoSpace, ErrCodeNoMemory, ErrCodeDenied}"
  shows "has_suffix (UserFriendlyError show (Some e)) msg"
  using assms
  by (auto simp: UserFriendlyError_def APIError_Error_def simp flip: append_assoc append_Cons)

end
