(* ===== verification/CassetteAge.thy ===== *)
theory CassetteAge
  imports Paths
begin

text \<open>
  The gate of internal/testutil/cassette_age.go: recorded cassettes must not be older than a number
  of days. The environment variable, the directory, git and the clock are arguments.
\<close>

section \<open>Time and file names\<close>

text \<open>\<open>Time.Add\<close> saturates, and \<open>filepath.Ext\<close> is what follows the last dot of the last element.\<close>

definition time_add :: "go_time \<Rightarrow> int \<Rightarrow> go_time" where
  "time_add t d =
     (let ns = t_ns t + (d - go_div d second * second);
          dsec = go_div d second + (if second \<le> ns then 1 else if ns < 0 then -1 else 0);
          ns' = (if second \<le> ns then ns - second else if ns < 0 then ns + second else ns);
          sum = t_sec t + dsec
      in \<lparr>t_sec = (if 2 ^ 63 - 1 < sum then 2 ^ 63 - 1 else if sum < - (2 ^ 63) then - (2 ^ 63 - 1) else sum), t_ns = ns'\<rparr>)"

definition path_ext :: "string \<Rightarrow> string" where
  "path_ext p =
     (let base = takeWhile (\<lambda>c. c \<noteq> slash) (rev p)
      in if CHR ''.'' \<in> set base then CHR ''.'' # rev (takeWhile (\<lambda>c. c \<noteq> CHR ''.'') base) else [])"

section \<open>The gate\<close>

record age_world =
  aw_variable :: string
  aw_missing :: bool
  aw_entries :: "(string \<times> bool) list option"
  aw_git :: bool
  aw_now :: go_time
  aw_log :: "string \<Rightarrow> string option"

datatype age_verdict = AgeSkip | AgeFatal string | AgeStale "string list" | AgePassed

definition DefaultCassetteMaxAgeDays :: int where "DefaultCassetteMaxAgeDays = 180"

text \<open>\<open>None\<close>: git failed or printed no number. The zero time: git knows no commit of the file.\<close>

definition gitCommitTime :: "age_world \<Rightarrow> string \<Rightarrow> go_time option" where
  "gitCommitTime w path =
     (case aw_log w path of
        None \<Rightarrow> None
      | Some out \<Rightarrow>
          (let s = trim_space out
           in if s = [] then Some time_zero else map_option time_unix (parse_int64 s)))"

definition cassette_files :: "string \<Rightarrow> (string \<times> bool) list \<Rightarrow> string list" where
  "cassette_files dir entries = map (\<lambda>(name, d). path_join dir name) (filter (\<lambda>(name, d). \<not> d \<and> path_ext name = ''.json'') entries)"

definition cutoff :: "go_time \<Rightarrow> int \<Rightarrow> go_time" where
  "cutoff now days = time_add now (i64 (i64 (i64 (- days) * 24) * (3600 * second)))"

text \<open>\<open>Inl\<close>: the file for which git failed.\<close>

fun stale_files :: "age_world \<Rightarrow> go_time \<Rightarrow> string list \<Rightarrow> string + string list" where
  "stale_files w limit [] = Inr []"
| "stale_files w limit (p # ps) =
     (case gitCommitTime w p of
        None \<Rightarrow> Inl p
      | Some t \<Rightarrow>
          if time_equal t time_zero then stale_files w limit ps
          else if time_before t limit then map_sum id (\<lambda>xs. p # xs) (stale_files w limit ps)
          else stale_files w limit ps)"

definition max_age :: "age_world \<Rightarrow> int \<Rightarrow> int option" where
  "max_age w days =
     (if aw_variable w = [] then Some (if days \<le> 0 then DefaultCassetteMaxAgeDays else days) else parse_int64 (aw_variable w))"

definition CassettesNotStale :: "age_world \<Rightarrow> string \<Rightarrow> int \<Rightarrow> age_verdict" where
  "CassettesNotStale w dir days0 =
     (case max_age w days0 of
        None \<Rightarrow> AgeFatal ''not an integer''
      | Some days \<Rightarrow>
          if days = 0 then AgeSkip
          else if aw_missing w then AgeSkip
          else (case aw_entries w of
            None \<Rightarrow> AgeFatal ''read cassette dir''
          | Some entries \<Rightarrow>
              let cassettes = cassette_files dir entries in
              if cassettes = [] then AgeSkip
              else if \<not> aw_git w then AgeSkip
              else (case stale_files w (cutoff (aw_now w) days) cassettes of
                Inl p \<Rightarrow> AgeFatal (''git log for '' @ p)
              | Inr stale \<Rightarrow> if stale = [] then AgePassed else AgeStale stale)))"

section \<open>What it decides\<close>

lemma stale_exactly:
  "stale_files w limit ps = Inr xs \<Longrightarrow>
   xs = filter (\<lambda>p. case gitCommitTime w p of None \<Rightarrow> False | Some t \<Rightarrow> \<not> time_equal t time_zero \<and> time_before t limit) ps \<and>
   (\<forall>p \<in> set ps. gitCommitTime w p \<noteq> None)"
  by (induction ps arbitrary: xs) (auto split: option.splits if_splits sum.splits simp: map_sum_def)

text \<open>Up to 106751 days the limit is that many days ago. One day more is too much for a duration: it lies ahead.\<close>

lemma cutoff_exact:
  assumes "0 < days" and "days \<le> 106751" and "clock_time now" and "0 \<le> t_sec now"
  shows "cutoff now days = now\<lparr>t_sec := t_sec now - days * 86400\<rparr>"
proof -
  have d: "i64 (i64 (i64 (- days) * 24) * (3600 * second)) = - (days * 86400) * second"
    using assms by (simp add: i64_id second_def)
  have q: "go_div (- (days * 86400) * second) second = - (days * 86400)"
    using assms(1) by (simp add: go_div_def second_def abs_mult sgn_mult)
  show ?thesis
    unfolding cutoff_def d time_add_def q Let_def
    using assms by (cases now) (simp add: clock_time_def second_def)
qed

lemma cutoff_ahead:
  assumes "clock_time now" and "0 \<le> t_sec now" and "t_sec now < 2 ^ 62"
  shows "t_sec now < t_sec (cutoff now 106752)"
proof -
  have d: "i64 (i64 (i64 (- 106752) * 24) * (3600 * second)) = 9223371273709551616"
    by (simp add: i64_def second_def)
  show ?thesis
    unfolding cutoff_def d time_add_def Let_def
    using assms by (simp add: clock_time_def second_def go_div_def)
qed

text \<open>
  With a limit of 1 to 106751 days the gate passes exactly if there are cassettes to look at, git
  answers for each, and none with a commit has its last one more than that many days ago.
\<close>

lemma gate_passes_iff:
  assumes "max_age w d = Some days" and "0 < days" and "days \<le> 106751" and "clock_time (aw_now w)" and "0 \<le> t_sec (aw_now w)"
    and "\<not> aw_missing w" and "aw_entries w = Some entries" and "cassette_files dir entries \<noteq> []" and "aw_git w"
  shows "CassettesNotStale w dir d = AgePassed \<longleftrightarrow>
    (\<forall>p \<in> set (cassette_files dir entries). \<exists>t. gitCommitTime w p = Some t \<and>
       (time_equal t time_zero \<or> \<not> time_before t (aw_now w\<lparr>t_sec := t_sec (aw_now w) - days * 86400\<rparr>)))"
proof -
  let ?limit = "aw_now w\<lparr>t_sec := t_sec (aw_now w) - days * 86400\<rparr>"
  have passes: "stale_files w ?limit ps = Inr [] \<longleftrightarrow> (\<forall>p \<in> set ps. \<exists>t. gitCommitTime w p = Some t \<and> (time_equal t time_zero \<or> \<not> time_before t ?limit))" for ps
    by (induction ps) (auto split: option.splits sum.splits simp: map_sum_def)
  show ?thesis
    unfolding passes [symmetric] using assms cutoff_exact [OF assms(2-5)]
    by (auto simp: CassettesNotStale_def Let_def split: sum.splits)
qed

end
