(* ===== verification/Spec2Isabelle.thy ===== *)
theory Spec2Isabelle
  imports Steps Cleanup Lease Reconciler Autoscaler Limiter Monitor Health Boot Probe Wire Lint RotationMetrics ErrorTexts CassetteAge
begin

text \<open>
  A model of omni-infra-provider-truenas: a service that creates the virtual machines of Talos
  clusters on a TrueNAS host for the Omni control plane, with its background loops, its
  node-rotation reconciler, its experimental autoscaler, and the tools around them.

  \<^bold>\<open>The program and its parts.\<close> Omni keeps a \<open>MachineRequest\<close> per wanted machine. For
  each the provisioner (internal/provisioner) runs four steps, each repeated until it succeeds:
  choose a schematic, put its ISO image on the TrueNAS host, create the VM with its zvols and
  devices and start it, and wait until it is healthy; and it takes the machine down again when
  the request goes away. It talks to TrueNAS by JSON-RPC through internal/client, over one
  WebSocket connection that all its goroutines share. A cleanup loop (internal/cleanup) deletes
  images, VMs and zvols that nothing needs; a lease (internal/singleton) makes sure that one
  instance of the provider runs at a time; a host monitor and a health endpoint report. The
  node-rotation reconciler (internal/noderotation) replaces machines whose class was edited, and
  the autoscaler (internal/autoscaler) grows machine sets on request of the cluster autoscaler; the
  two share the machine count of a set and coordinate by a lock annotation on it. The three are
  programs of their own (cmd/omni-infra-provider-truenas), which read their settings from
  environment variables and start telemetry. Beside them are a script that checks the roles of an
  API key (scripts/verify-api-key-roles), cassettes that stand in for TrueNAS in tests, and a
  linter of the repository's concurrency rules (internal/hack/lintconcurrency).

  \<^bold>\<open>How programs are modelled.\<close> What is outside of the repository (the TrueNAS server, the
  network, the Omni state service, Talos' image factory, clocks, timers and random sources) is an
  \<^emph>\<open>environment\<close>, an argument of every definition that uses it: a function from the
  history of all requests and answers and the next request to the next answer (theory
  \<open>Prelude\<close>). Nothing is assumed of it unless a theorem names the assumption, so a theorem
  holds for every failure, delay and interference by others. An operation is a state monad over
  a \<open>world\<close>: the history and the state of the process. Go errors are values of a sum, with the
  error on the left; \<open>int64\<close> arithmetic that can overflow wraps by \<open>i64\<close>; strings are lists of
  bytes. Third-party functions that compute (hashes, URL and float parsers where their result only
  passes through) are arguments. Logging, tracing, the values of metrics and the wording of errors
  that no code looks at are left out.

  \<^bold>\<open>Theories and source files.\<close>
  \<^item> \<open>Prelude\<close>: worlds, programs, the locales of guarded programs and of invariants, reachability.
  \<^item> \<open>GoLib\<close>, \<open>Paths\<close>: the parts of Go's library the code rests on (conversions,
    \<open>strings\<close>, \<open>strconv\<close>, \<open>time\<close>, \<open>net\<close>, \<open>path\<close>), and the locale \<open>codec\<close> of
    round trips.
  \<^item> \<open>TrueNAS\<close>, \<open>Client\<close>, \<open>ErrorTexts\<close>: the requests of the JSON-RPC API, one
    definition per method of internal/client/vm.go, device.go, storage.go, host.go, and the error
    codes and texts of truenas.go.
  \<^item> \<open>Hosts\<close>: truenasrpc/host.go and client/secret.go. \<open>Transport\<close>: client/ws.go as one
    goroutine runs it. \<open>Multiplex\<close>: ws.go with all goroutines. \<open>Limiter\<close>: the slots of
    truenas.go's client on top of it. \<open>Wire\<close>: the methods and parameters of every request, and
    operations of the provider on top of the transport.
  \<^item> \<open>MachineData\<close>: provisioner/data.go, extensions.go. \<open>Naming\<close>: resources/meta/meta.go,
    provisioner/mac.go, ownership.go. \<open>Patches\<close>: provisioner/config_patch.go, user_volume.go.
  \<^item> \<open>Provisioner\<close>: provisioner/provisioner.go (the counters and tracked sets) and the
    classification of errors. \<open>IsoCache\<close>: iso_tofu.go and the upload step of steps.go.
    \<open>Preflight\<close>: zvols and admission checks of steps.go. \<open>Teardown\<close>: deprovision.go.
    \<open>Steps\<close>: the other steps of steps.go, over all of these.
  \<^item> \<open>Cleanup\<close>: internal/cleanup/cleanup.go. \<open>Lease\<close>: internal/singleton/singleton.go.
    \<open>Monitor\<close>: internal/monitor/monitor.go. \<open>Health\<close>: internal/health/health.go and the
    checks of main.go.
  \<^item> \<open>RotationConfig\<close>: noderotation/annotations.go, generation.go. \<open>RotationState\<close>: the
    types, annotations and the order of requests of discovery.go. \<open>RotationPlan\<close>: actions.go,
    plan.go. \<open>RotationEngine\<close>: discovery, and engine.go. \<open>Reconciler\<close>: reconciler.go.
    \<open>RotationMetrics\<close>: the labels of its metrics, from reconciler.go and cmd's noderotation.go.
  \<^item> \<open>CapacityGate\<close>: autoscaler/annotations.go, capacity.go, adapter.go, rotation_lock.go,
    metrics.go (labels). \<open>Autoscaler\<close>: autoscaler/discovery.go, writer.go, server.go.
  \<^item> \<open>Settings\<close>, \<open>Endpoint\<close>: what main.go and autoscaler/config.go read from environment
    variables, and which endpoints are local. \<open>Telemetry\<close>: internal/telemetry/telemetry.go.
    \<open>Boot\<close>: the three programs main.go, autoscaler.go and noderotation.go.
  \<^item> \<open>Cassette\<close>: recording_transport.go, replay_transport.go, cassette.go. \<open>CassetteAge\<close>:
    internal/testutil/cassette_age.go. \<open>Probe\<close>: scripts/verify-api-key-roles/main.go.
    \<open>Lint\<close>: internal/hack/lintconcurrency/analyzer.go.

  \<^bold>\<open>What is shown.\<close>
  \<^item> What a program may ask. For each program with destructive requests a \<^emph>\<open>guard\<close> says
    which facts the history must already show when a request is made, and the program is proved
    guarded in every environment: deprovisioning touches only the machine's own VM and zvols,
    the create step only the VM it created or read as managed, the cleanup only what a listing
    showed as an orphan, the reconciler only stale requests of its own sets above the floor, the
    autoscaler only counts of sets it discovered and found room for, the role check only what it
    made itself. The programs start their parts only after their settings, checks and leases.
  \<^item> What leaves the process. The transport connects and sends the API key only to the configured
    host, a request goes out at most twice and as its own method and parameters, a response goes
    to the call it belongs to in every interleaving of the goroutines, no more calls than configured
    are on the connection, and a closed transport drains. On top of it, deprovisioning puts no frame on the connection but reads and the stops
    and deletions of its guard. Redacted texts and recorded cassettes hold no secrets.
  \<^item> What a program establishes: trust in a cached image, admission of storage and memory, the
    validity of a configuration and of a host (proved equivalent to declarative specifications),
    the absence of a machine's parts after deprovisioning, the exact set of zvols a cleanup deletes,
    the exact reports of the linter, the replay of a recorded session, the end of what telemetry
    started, the number of labels its metrics can have.
  \<^item> What instances do together: mutual exclusion and fencing of the lease over a step relation
    of any number of instances; the surge cycle of a rotation as a refinement of an abstract
    cycle and the invariant of the machine count; the coordination of rotation and autoscaler by
    the lock; the end of an in-place rotation.
  \<^item> Where the code falls short of its comments the theorem states what it does: an upgrade swaps
    the CD-ROM to the old image, an oversized image is accepted on the retry, a poisoned image
    blocks every retry, a new machine's zvol is deleted as an orphan, another provider's VM is
    deleted, a released lease reuses its epochs, a rotation of a set that is stale altogether
    never starts, the capacity gate fails open when the root dataset cannot be read, a call can
    run twice on a healthy connection, the role check leaves its machine behind after a failure,
    and providers of a failed start of telemetry are never closed.

  \<^bold>\<open>Bounds and fuel.\<close> Loops over lists are structural. The graceful shutdown loop has fuel:
  the timeout over the poll interval is enough when the clock moves with its timers, as its
  theorem shows. The three attempts of a reconnect are structural. The heartbeat loop of the lease,
  the cleanup loop, the reconciler, the monitor and the health refresh run for ever in the code;
  their models take the number of ticks, and the theorems hold for every number. The three attempts
  of \<open>Acquire\<close> and its conflict retries are the answers of the environment.

  \<^bold>\<open>Not modelled, and why.\<close> The instruments of telemetry/metrics.go and of the autoscaler are
  declarations for the metrics library; loggers, their levels and entries (but the level of a
  rotation decision) only inform. Sockets, TLS, HTTP and gRPC servers are the libraries', as are
  generated protobuf code and the COSI registration in internal/resources. The mock transports of
  client/testing.go hand calls to the tests. The single-flight group of downloads, which only joins
  equal ones, is left out.
  \<open>Wire\<close> takes the decoding of results as an argument. Concurrency inside of a process, but for
  the transport's, is modelled as atomic operations under their mutexes.
\<close>

end
